(* ===== verification/Tin_Prelude.thy ===== *)
theory Tin_Prelude
  imports Main "HOL-Library.Sublist" "HOL-Library.Monad_Syntax" "HOL-Library.State_Monad"
begin

text \<open>
  The prelude of the development: Go error values, the parts of the Go packages
  strings and strconv the program uses (on byte strings; case folding and trimming
  follow the ASCII fragment of those functions), and the world every component runs
  in: an abstract external state that only the calls to outside services read and
  change, and the log of those calls with their responses.
\<close>

named_theorems effect_intros \<open>symbolic execution of a procedure over its log\<close>

section \<open>Errors as values\<close>

datatype error =
    External string
  | Msg string
  | Status_Error string int
  | Http_Status_Error int string
  | Uuid_Error
  | Read_Error
  | Decode_Error
  | Wrapped string error
  | Joined error error

text \<open>
  \<open>External\<close> carries the text of an error made outside the program, \<open>Msg\<close> the constant
  text of an \<open>fmt.Errorf\<close>, \<open>Status_Error\<close> an unexpected HTTP status with what was attempted,
  \<open>Http_Status_Error\<close> is \<open>ktmb.HttpStatusError\<close> with its body, \<open>Wrapped\<close> a \<open>%w\<close>,
  \<open>Joined\<close> an \<open>errors.Join\<close> of two.
\<close>

text \<open>\<open>errors.As\<close> for a \<open>*ktmb.HttpStatusError\<close>.\<close>

fun as_http_status :: "error \<Rightarrow> (int \<times> string) option" where
  "as_http_status (Http_Status_Error code body) = Some (code, body)"
| "as_http_status (Wrapped m e) = as_http_status e"
| "as_http_status (Joined e f) = (case as_http_status e of Some s \<Rightarrow> Some s | None \<Rightarrow> as_http_status f)"
| "as_http_status e = None"

text \<open>\<open>errors.Is\<close>; the sentinels are told apart by their texts.\<close>

fun errors_is :: "error \<Rightarrow> error \<Rightarrow> bool" where
  "errors_is (Wrapped m e) target \<longleftrightarrow> Wrapped m e = target \<or> errors_is e target"
| "errors_is (Joined e f) target \<longleftrightarrow> Joined e f = target \<or> errors_is e target \<or> errors_is f target"
| "errors_is e target \<longleftrightarrow> e = target"

lemma errors_is_refl [simp]: "errors_is e e"
  by (cases e) auto

type_synonym 'a result = "error + 'a"

text \<open>The part of an HTTP response the program reads: the status and the body, which
  can fail to be read or fail to decode into the Go type it is unmarshalled into.\<close>

datatype 'b body = Unreadable | Garbled | Decoded 'b

record 'b response =
  StatusCode :: int
  Body :: "'b body"

text \<open>The three answers of a redis \<open>GET\<close> that the program tells apart.\<close>

datatype redis_read = Value string | Nil_Reply | Read_Failed error

section \<open>Byte strings\<close>

definition lower_char :: "char \<Rightarrow> char" where
  "lower_char c = (let n = of_char c :: nat in if 65 \<le> n \<and> n \<le> 90 then char_of (n + 32) else c)"

definition upper_char :: "char \<Rightarrow> char" where
  "upper_char c = (let n = of_char c :: nat in if 97 \<le> n \<and> n \<le> 122 then char_of (n - 32) else c)"

definition to_lower :: "string \<Rightarrow> string" where
  "to_lower s = map lower_char s"

definition to_upper :: "string \<Rightarrow> string" where
  "to_upper s = map upper_char s"

definition is_space :: "char \<Rightarrow> bool" where
  "is_space c \<longleftrightarrow> (let n = of_char c :: nat in n = 32 \<or> (9 \<le> n \<and> n \<le> 13))"

definition trim_space :: "string \<Rightarrow> string" where
  "trim_space s = rev (dropWhile is_space (rev (dropWhile is_space s)))"

definition equal_fold :: "string \<Rightarrow> string \<Rightarrow> bool" where
  "equal_fold s t \<longleftrightarrow> to_lower s = to_lower t"

fun contains :: "string \<Rightarrow> string \<Rightarrow> bool" where
  "contains [] sub = (sub = [])"
| "contains (c # s) sub = (prefix sub (c # s) \<or> contains s sub)"

definition has_suffix :: "string \<Rightarrow> string \<Rightarrow> bool" where
  "has_suffix s t \<longleftrightarrow> suffix t s"

fun split_on :: "char \<Rightarrow> string \<Rightarrow> string list" where
  "split_on d [] = [[]]"
| "split_on d (c # s) =
     (if c = d then [] # split_on d s
      else case split_on d s of [] \<Rightarrow> [[c]] | f # fs \<Rightarrow> (c # f) # fs)"

fun join_with :: "string \<Rightarrow> string list \<Rightarrow> string" where
  "join_with d [] = []"
| "join_with d [s] = s"
| "join_with d (s # t # ss) = s @ d @ join_with d (t # ss)"

lemma contains_sublist: "contains s sub \<longleftrightarrow> sublist sub s"
  by (induction s) (auto simp: sublist_Cons_right)

lemma split_on_neq_Nil [simp]: "split_on d s \<noteq> []"
  by (induction s) (auto split: list.splits)

lemma split_on_no_sep: "d \<notin> set s \<Longrightarrow> split_on d s = [s]"
  by (induction s) auto

lemma split_on_append:
  "d \<notin> set a \<Longrightarrow> split_on d (a @ d # b) = a # split_on d b"
  by (induction a) auto

lemma join_split: "join_with [d] (split_on d s) = s"
proof (induction s)
  case (Cons c s)
  then show ?case
    by (cases "split_on d s"; cases "tl (split_on d s)") auto
qed simp

lemma split_on_no_sep_elems: "f \<in> set (split_on d s) \<Longrightarrow> d \<notin> set f"
proof (induction s arbitrary: f)
  case (Cons c s)
  then show ?case by (auto split: if_splits list.splits)
qed simp

lemma split_join:
  assumes "fs \<noteq> []" "\<And>f. f \<in> set fs \<Longrightarrow> d \<notin> set f"
  shows "split_on d (join_with [d] fs) = fs"
  using assms by (induction "[d]" fs rule: join_with.induct)
    (auto simp: split_on_no_sep split_on_append)

section \<open>Decimal numerals\<close>

definition digit_char :: "nat \<Rightarrow> char" where
  "digit_char n = char_of (48 + n)"

definition is_digit :: "char \<Rightarrow> bool" where
  "is_digit c \<longleftrightarrow> (let n = of_char c :: nat in 48 \<le> n \<and> n \<le> 57)"

definition digit_value :: "char \<Rightarrow> nat" where
  "digit_value c = of_char c - 48"

fun itoa :: "nat \<Rightarrow> string" where
  "itoa n = (if n < 10 then [digit_char n] else itoa (n div 10) @ [digit_char (n mod 10)])"

declare itoa.simps [simp del]

definition digits_value :: "string \<Rightarrow> nat" where
  "digits_value s = foldl (\<lambda>v c. 10 * v + digit_value c) 0 s"

definition format_int :: "int \<Rightarrow> string" where
  "format_int n = (if n < 0 then CHR ''-'' # itoa (nat (- n)) else itoa (nat n))"

lemma digit_value_digit_char [simp]: "n < 10 \<Longrightarrow> digit_value (digit_char n) = n"
  by (simp add: digit_value_def digit_char_def)

lemma is_digit_digit_char [simp]: "n < 10 \<Longrightarrow> is_digit (digit_char n)"
  by (simp add: is_digit_def digit_char_def)

lemma is_digit_minus [simp]: "\<not> is_digit (CHR ''-'')"
  by (simp add: is_digit_def)

lemma digits_value_snoc [simp]: "digits_value (s @ [c]) = 10 * digits_value s + digit_value c"
  by (simp add: digits_value_def)

lemma digits_value_itoa [simp]: "digits_value (itoa n) = n"
proof (induction n rule: itoa.induct)
  case (1 n)
  then show ?case
    by (cases "n < 10") (simp_all add: itoa.simps[of n] digits_value_def[of "[_]"])
qed

lemma itoa_inject [simp]: "itoa m = itoa n \<longleftrightarrow> m = n"
  by (metis digits_value_itoa)

lemma itoa_digits: "c \<in> set (itoa n) \<Longrightarrow> is_digit c"
proof (induction n rule: itoa.induct)
  case (1 n)
  then show ?case
    by (cases "n < 10") (auto simp: itoa.simps[of n])
qed

lemma format_int_inject [simp]: "format_int m = format_int n \<longleftrightarrow> m = n"
proof -
  have "itoa k \<noteq> CHR ''-'' # s" for k s
    using itoa_digits[of "CHR ''-''" k] by auto
  from this this[symmetric] show ?thesis
    by (auto simp: format_int_def)
qed

section \<open>Lists\<close>

lemma map_filter_simps' [simp]:
  "List.map_filter f [] = []" "List.map_filter f (x # xs) = (case f x of None \<Rightarrow> List.map_filter f xs | Some y \<Rightarrow> y # List.map_filter f xs)"
  "List.map_filter f (xs @ ys) = List.map_filter f xs @ List.map_filter f ys"
  by (simp_all add: List.map_filter_def split: option.split)

section \<open>The world and its log\<close>

record ('x, 'e) world =
  ext :: 'x
  log :: "'e list"

type_synonym ('x, 'e, 'a) proc = "(('x, 'e) world, 'a) state"

abbreviation return :: "'a \<Rightarrow> ('s, 'a) state" where
  "return \<equiv> State_Monad.return"

definition invoke :: "('x \<Rightarrow> 'r \<times> 'x) \<Rightarrow> ('r \<Rightarrow> 'e) \<Rightarrow> ('x, 'e, 'r) proc" where
  "invoke f ev = State (\<lambda>w. case f (ext w) of
     (r, x) \<Rightarrow> (r, w\<lparr>ext := x, log := log w @ [ev r]\<rparr>))"

definition on_ok :: "('s, 'a result) state \<Rightarrow> ('a \<Rightarrow> ('s, 'b result) state) \<Rightarrow> ('s, 'b result) state" where
  "on_ok p k = do {
     r \<leftarrow> p;
     case r of Inl e \<Rightarrow> return (Inl e) | Inr a \<Rightarrow> k a
   }"

text \<open>\<open>errors.Join\<close> of the non-nil errors of a list; nil when there is none.\<close>

fun join_errors :: "error list \<Rightarrow> unit result" where
  "join_errors [] = Inr ()"
| "join_errors [e] = Inl e"
| "join_errors (e # es) = (case join_errors es of Inl r \<Rightarrow> Inl (Joined e r) | Inr _ \<Rightarrow> Inl e)"

lemma join_errors_iff [simp]: "join_errors es = Inr () \<longleftrightarrow> es = []"
  by (induction es rule: join_errors.induct) (auto split: sum.splits)

text \<open>\<open>%q\<close> on printable ASCII.\<close>

definition go_quote :: "string \<Rightarrow> string" where
  "go_quote s = CHR 0x22 # concat (map (\<lambda>c. if c = CHR 0x22 \<or> c = CHR 0x5C then [CHR 0x5C, c] else [c]) s) @ [CHR 0x22]"

fun deref :: "string option \<Rightarrow> string" where
  "deref None = []"
| "deref (Some s) = s"

text \<open>\<open>lib.ZincToHeliumDate\<close>; \<open>None\<close> is the index panic on fewer than three fragments.\<close>

definition ZincToHeliumDate :: "string \<Rightarrow> string option" where
  "ZincToHeliumDate date =
     (let frag = split_on (CHR ''-'') date
      in if length frag < 3 then None
         else Some (join_with ''-'' [frag ! 2, frag ! 1, frag ! 0]))"

fun for_each :: "('a \<Rightarrow> ('s, unit) state) \<Rightarrow> 'a list \<Rightarrow> ('s, unit) state" where
  "for_each f [] = return ()"
| "for_each f (x # xs) = do { f x; for_each f xs }"

lemma run_state_invoke [simp]:
  "run_state (invoke f ev) w =
     (fst (f (ext w)), w\<lparr>ext := snd (f (ext w)), log := log w @ [ev (fst (f (ext w)))]\<rparr>)"
  by (simp add: invoke_def split: prod.splits)

lemma run_state_on_ok [simp]:
  "run_state (on_ok p k) w =
     (case run_state p w of (Inl e, w') \<Rightarrow> (Inl e, w') | (Inr a, w') \<Rightarrow> run_state (k a) w')"
  by (auto simp: on_ok_def split: prod.splits sum.splits)

text \<open>
  \<open>effect p P\<close>: whatever the services answer, the run of \<open>p\<close> extends the log by some
  calls \<open>tr\<close> and returns some \<open>a\<close> with \<open>P a tr\<close>.
\<close>

definition effect :: "('x, 'e, 'a) proc \<Rightarrow> ('a \<Rightarrow> 'e list \<Rightarrow> bool) \<Rightarrow> bool" where
  "effect p P \<longleftrightarrow> (\<forall>w. \<exists>tr. log (snd (run_state p w)) = log w @ tr \<and> P (fst (run_state p w)) tr)"

lemma effectI:
  assumes "\<And>w. \<exists>tr. log (snd (run_state p w)) = log w @ tr \<and> P (fst (run_state p w)) tr"
  shows "effect p P"
  using assms by (simp add: effect_def)

lemma effectE:
  assumes "effect p P"
  obtains tr where "log (snd (run_state p w)) = log w @ tr" "P (fst (run_state p w)) tr"
  using assms by (auto simp: effect_def)

lemma effect_return_iff [simp]: "effect (return a) P \<longleftrightarrow> P a []"
  by (simp add: effect_def)

lemma effect_return [effect_intros]: "P a [] \<Longrightarrow> effect (return a) P"
  by simp

lemma effect_invoke [effect_intros]: "(\<And>r. P r [ev r]) \<Longrightarrow> effect (invoke f ev) P"
  by (simp add: effect_def)

lemma effect_conseq:
  assumes "effect p Q" "\<And>a tr. Q a tr \<Longrightarrow> P a tr"
  shows "effect p P"
  using assms by (meson effect_def)

lemma effect_bind [effect_intros]:
  assumes "effect p (\<lambda>a tr. effect (f a) (\<lambda>b tr'. P b (tr @ tr')))"
  shows "effect (p \<bind> f) P"
proof (rule effectI)
  fix w
  obtain a w1 where p: "run_state p w = (a, w1)" by fastforce
  from assms obtain tr where 1: "log w1 = log w @ tr"
    and 2: "effect (f a) (\<lambda>b tr'. P b (tr @ tr'))"
    by (rule effectE[where w = w]) (auto simp: p)
  from 2 obtain tr' where "log (snd (run_state (f a) w1)) = log w1 @ tr'"
    and "P (fst (run_state (f a) w1)) (tr @ tr')"
    by (rule effectE)
  then show "\<exists>tr. log (snd (run_state (p \<bind> f) w)) = log w @ tr
      \<and> P (fst (run_state (p \<bind> f) w)) tr"
    using 1 by (auto simp: p)
qed

lemma effect_if [effect_intros]:
  "(c \<Longrightarrow> effect p P) \<Longrightarrow> (\<not> c \<Longrightarrow> effect q P) \<Longrightarrow> effect (if c then p else q) P"
  by simp

lemma effect_case_sum [effect_intros]:
  "(\<And>e. r = Inl e \<Longrightarrow> effect (f e) P) \<Longrightarrow> (\<And>a. r = Inr a \<Longrightarrow> effect (g a) P)
    \<Longrightarrow> effect (case r of Inl e \<Rightarrow> f e | Inr a \<Rightarrow> g a) P"
  by (cases r) auto

lemma effect_case_option [effect_intros]:
  "(r = None \<Longrightarrow> effect p P) \<Longrightarrow> (\<And>a. r = Some a \<Longrightarrow> effect (g a) P)
    \<Longrightarrow> effect (case r of None \<Rightarrow> p | Some a \<Rightarrow> g a) P"
  by (cases r) auto

lemma effect_case_prod [effect_intros]:
  "(\<And>a b. r = (a, b) \<Longrightarrow> effect (f a b) P) \<Longrightarrow> effect (case r of (a, b) \<Rightarrow> f a b) P"
  by (cases r) auto

lemma effect_case_list [effect_intros]:
  "(xs = [] \<Longrightarrow> effect p P) \<Longrightarrow> (\<And>y ys. xs = y # ys \<Longrightarrow> effect (g y ys) P)
    \<Longrightarrow> effect (case xs of [] \<Rightarrow> p | y # ys \<Rightarrow> g y ys) P"
  by (cases xs) auto

lemma effect_case_body [effect_intros]:
  "(b = Unreadable \<Longrightarrow> effect p P) \<Longrightarrow> (b = Garbled \<Longrightarrow> effect q P)
    \<Longrightarrow> (\<And>a. b = Decoded a \<Longrightarrow> effect (g a) P)
    \<Longrightarrow> effect (case b of Unreadable \<Rightarrow> p | Garbled \<Rightarrow> q | Decoded a \<Rightarrow> g a) P"
  by (cases b) auto

lemma effect_case_redis_read [effect_intros]:
  "(\<And>v. r = Value v \<Longrightarrow> effect (f v) P) \<Longrightarrow> (r = Nil_Reply \<Longrightarrow> effect p P)
    \<Longrightarrow> (\<And>e. r = Read_Failed e \<Longrightarrow> effect (g e) P)
    \<Longrightarrow> effect (case r of Value v \<Rightarrow> f v | Nil_Reply \<Rightarrow> p | Read_Failed e \<Rightarrow> g e) P"
  by (cases r) auto

lemma effect_Let [effect_intros]: "(\<And>x. x = a \<Longrightarrow> effect (f x) P) \<Longrightarrow> effect (Let a f) P"
  by simp

lemma effect_on_ok [effect_intros]:
  assumes "effect p (\<lambda>r tr. case r of
      Inl e \<Rightarrow> P (Inl e) tr | Inr a \<Rightarrow> effect (k a) (\<lambda>b tr'. P b (tr @ tr')))"
  shows "effect (on_ok p k) P"
  unfolding on_ok_def
  by (intro effect_bind effect_conseq[OF assms]) (auto split: sum.splits)

text \<open>The same with the contract of the first procedure as a rule.\<close>

lemma effect_on_ok_cases:
  assumes "effect p Q" "\<And>e tr. Q (Inl e) tr \<Longrightarrow> P (Inl e) tr"
    and "\<And>a tr. Q (Inr a) tr \<Longrightarrow> effect (k a) (\<lambda>b tr'. P b (tr @ tr'))"
  shows "effect (on_ok p k) P"
  by (rule effect_on_ok, rule effect_conseq[OF assms(1)]) (auto split: sum.split intro: assms(2,3))

lemma effect_on_ok_invoke:
  assumes "\<And>e. P (Inl e) [ev (Inl e)]" "\<And>a. effect (k a) (\<lambda>b tr'. P b (ev (Inr a) # tr'))"
  shows "effect (on_ok (invoke f ev) k) P"
  by (rule effect_on_ok_cases[OF effect_invoke[of "\<lambda>r tr. tr = [ev r]"]]) (auto intro: assms)

definition fresh_world :: "'x \<Rightarrow> ('x, 'e) world" where
  "fresh_world x = \<lparr>ext = x, log = []\<rparr>"

definition trace :: "('x, 'e, 'a) proc \<Rightarrow> 'x \<Rightarrow> 'e list" where
  "trace p x = log (snd (run_state p (fresh_world x)))"

definition outcome :: "('x, 'e, 'a) proc \<Rightarrow> 'x \<Rightarrow> 'a" where
  "outcome p x = fst (run_state p (fresh_world x))"

lemma effect_trace: "effect p P \<Longrightarrow> P (outcome p x) (trace p x)"
  by (auto simp: trace_def outcome_def fresh_world_def elim!: effectE[where w = "\<lparr>ext = x, log = []\<rparr>"])

text \<open>A procedure of a part of the program, its calls logged as calls of the whole.\<close>

definition lifted :: "('e \<Rightarrow> 'f) \<Rightarrow> ('x, 'e, 'a) proc \<Rightarrow> ('x, 'f, 'a) proc" where
  "lifted c p = State (\<lambda>w. let r = run_state p (fresh_world (ext w))
     in (fst r, w\<lparr>ext := ext (snd r), log := log w @ map c (log (snd r))\<rparr>))"

lemma effect_lifted:
  fixes p :: "('x, 'e, 'a) proc" and c :: "'e \<Rightarrow> 'f"
  assumes "effect p P"
  shows "effect (lifted c p) (\<lambda>a tr. \<exists>tr'. tr = map c tr' \<and> P a tr')"
proof (rule effectI)
  fix w :: "('x, 'f) world"
  obtain tr where "log (snd (run_state p (fresh_world (ext w)))) = tr" "P (fst (run_state p (fresh_world (ext w)))) tr"
    using effectE[OF assms, of "fresh_world (ext w)"] by (metis append_Nil fresh_world_def world.select_convs(2))
  then show "\<exists>tr. log (snd (run_state (lifted c p) w)) = log w @ tr \<and>
      (\<exists>tr'. tr = map c tr' \<and> P (fst (run_state (lifted c p) w)) tr')"
    by (auto simp: lifted_def Let_def)
qed

lemma effect_for_each:
  assumes "\<And>x. x \<in> set xs \<Longrightarrow> effect (f x) (\<lambda>_ tr. list_all Q tr)"
  shows "effect (for_each f xs) (\<lambda>_ tr. list_all Q tr)"
  using assms
proof (induction xs)
  case (Cons x xs)
  have "effect (f x) (\<lambda>_ tr. list_all Q tr)" using Cons.prems by simp
  moreover have "effect (for_each f xs) (\<lambda>_ tr. list_all Q tr)" using Cons by simp
  ultimately show ?case
    by (auto intro!: effect_bind elim!: effect_conseq)
qed simp

text \<open>\<open>pred_state\<close> bounds the results of a procedure over every start state.\<close>

named_theorems pred_intros \<open>symbolic execution of a procedure over its results\<close>

lemma pred_return_iff [simp]: "pred_state P (return a) \<longleftrightarrow> P a"
  by (auto simp: state.pred_set set_state_iff)

lemma pred_return [pred_intros]: "P a \<Longrightarrow> pred_state P (return a)"
  by simp

lemma pred_conseq: "pred_state Q p \<Longrightarrow> (\<And>a. Q a \<Longrightarrow> P a) \<Longrightarrow> pred_state P p"
  by (rule state.pred_mono_strong)

lemma pred_on_ok [pred_intros]:
  assumes "pred_state (\<lambda>r. case r of Inl e \<Rightarrow> P (Inl e) | Inr a \<Rightarrow> pred_state P (k a)) p"
  shows "pred_state P (on_ok p k)"
  unfolding on_ok_def
proof (rule bind_predI)
  show "pred_state (\<lambda>x. pred_state P (case x of Inl e \<Rightarrow> return (Inl e) | Inr a \<Rightarrow> k a)) p"
    using assms by (rule pred_conseq) (auto split: sum.splits)
qed

lemma pred_if [pred_intros]:
  "(c \<Longrightarrow> pred_state P p) \<Longrightarrow> (\<not> c \<Longrightarrow> pred_state P q) \<Longrightarrow> pred_state P (if c then p else q)"
  by simp

lemma pred_case_sum [pred_intros]:
  "(\<And>e. r = Inl e \<Longrightarrow> pred_state P (f e)) \<Longrightarrow> (\<And>a. r = Inr a \<Longrightarrow> pred_state P (g a))
    \<Longrightarrow> pred_state P (case r of Inl e \<Rightarrow> f e | Inr a \<Rightarrow> g a)"
  by (cases r) auto

lemma pred_case_option [pred_intros]:
  "(r = None \<Longrightarrow> pred_state P p) \<Longrightarrow> (\<And>a. r = Some a \<Longrightarrow> pred_state P (g a))
    \<Longrightarrow> pred_state P (case r of None \<Rightarrow> p | Some a \<Rightarrow> g a)"
  by (cases r) auto

lemma effect_pred: "effect p P \<Longrightarrow> pred_state Q p \<Longrightarrow> effect p (\<lambda>a tr. P a tr \<and> Q a)"
  unfolding effect_def by (metis pred_state_run_state)

lemma effect_conj: "effect p P \<Longrightarrow> effect p Q \<Longrightarrow> effect p (\<lambda>a tr. P a tr \<and> Q a tr)"
  unfolding effect_def by (metis same_append_eq)

end
