(* ===== verification/Go_Time.thy ===== *)
theory Go_Time
  imports Tin_Prelude
begin

text \<open>
  The fragment of Go's package time the program uses. An instant is its number of
  nanoseconds since the Unix epoch. A \<open>*time.Location\<close> is its offset from UTC in seconds:
  the program only ever loads Asia/Singapore, eight hours ahead without daylight saving.
  Layouts are lists of the chunks of Go's reference time, parsed as \<open>time.Parse\<close> does:
  two-digit months, days, minutes and seconds, hours of one or two digits, an optional
  fraction after the seconds, range checks, and no trailing text.
\<close>

type_synonym instant = int
type_synonym location = int
type_synonym duration = int

abbreviation nanos_per_second :: int where "nanos_per_second \<equiv> 1000000000"

definition millisecond :: duration where "millisecond = 1000000"

definition second :: duration where "second = nanos_per_second"
definition minute :: duration where "minute = 60 * second"
definition hour :: duration where "hour = 60 * minute"

section \<open>The civil calendar\<close>

definition is_leap :: "int \<Rightarrow> bool" where
  "is_leap y \<longleftrightarrow> y mod 4 = 0 \<and> (y mod 100 \<noteq> 0 \<or> y mod 400 = 0)"

definition days_in :: "int \<Rightarrow> int \<Rightarrow> int" where
  "days_in m y = (if m = 2 then (if is_leap y then 29 else 28)
     else if m = 4 \<or> m = 6 \<or> m = 9 \<or> m = 11 then 30 else 31)"

definition days_from_civil :: "int \<Rightarrow> int \<Rightarrow> int \<Rightarrow> int" where
  "days_from_civil y m d =
     (let y' = (if m \<le> 2 then y - 1 else y);
          era = y' div 400;
          yoe = y' - era * 400;
          mp = (if m > 2 then m - 3 else m + 9);
          doy = (153 * mp + 2) div 5 + d - 1;
          doe = yoe * 365 + yoe div 4 - yoe div 100 + doy
      in era * 146097 + doe - 719468)"

definition civil_from_days :: "int \<Rightarrow> int \<times> int \<times> int" where
  "civil_from_days z0 =
     (let z = z0 + 719468;
          era = z div 146097;
          doe = z - era * 146097;
          yoe = (doe - doe div 1460 + doe div 36524 - doe div 146096) div 365;
          doy = doe - (365 * yoe + yoe div 4 - yoe div 100);
          mp = (5 * doy + 2) div 153;
          d = doy - (153 * mp + 2) div 5 + 1;
          m = (if mp < 10 then mp + 3 else mp - 9);
          y = yoe + era * 400 + (if m \<le> 2 then 1 else 0)
      in (y, m, d))"

text \<open>\<open>time.Date\<close>: month and day overflow normalise into the following units.\<close>

definition date :: "int \<Rightarrow> int \<Rightarrow> int \<Rightarrow> int \<Rightarrow> int \<Rightarrow> int \<Rightarrow> int \<Rightarrow> location \<Rightarrow> instant" where
  "date y m d hh mm ss ns loc =
     (let y' = y + (m - 1) div 12; m' = (m - 1) mod 12 + 1
      in (((days_from_civil y' m' 1 + (d - 1)) * 86400 + hh * 3600 + mm * 60 + ss - loc)
            * nanos_per_second + ns))"

definition local_seconds :: "location \<Rightarrow> instant \<Rightarrow> int" where
  "local_seconds loc t = t div nanos_per_second + loc"

text \<open>\<open>Hour\<close>, \<open>Minute\<close> and \<open>Second\<close> of a time in a location.\<close>

definition hour_of :: "location \<Rightarrow> instant \<Rightarrow> int" where
  "hour_of loc t = local_seconds loc t mod 86400 div 3600"

definition minute_of :: "location \<Rightarrow> instant \<Rightarrow> int" where
  "minute_of loc t = local_seconds loc t mod 3600 div 60"

definition second_of :: "location \<Rightarrow> instant \<Rightarrow> int" where
  "second_of loc t = local_seconds loc t mod 60"

definition civil :: "location \<Rightarrow> instant \<Rightarrow> int \<times> int \<times> int" where
  "civil loc t = civil_from_days (local_seconds loc t div 86400)"

text \<open>\<open>Time.AddDate\<close> keeps the clock and normalises the date.\<close>

definition add_date :: "location \<Rightarrow> instant \<Rightarrow> int \<Rightarrow> int \<Rightarrow> int \<Rightarrow> instant" where
  "add_date loc t dy dm dd =
     (let d = civil loc t in
      date (fst d + dy) (fst (snd d) + dm) (snd (snd d) + dd) 0 0 (local_seconds loc t mod 86400)
        (t mod nanos_per_second) loc)"

text \<open>The equations the evaluator uses: without the lets it never works under a binder.\<close>

lemmas days_from_civil_eq = days_from_civil_def [unfolded Let_def]
lemmas civil_from_days_eq = civil_from_days_def [unfolded Let_def]
lemmas date_eq = date_def [unfolded Let_def]
lemmas add_date_eq = add_date_def [unfolded Let_def]

declare days_from_civil_eq [code] civil_from_days_eq [code] date_eq [code] add_date_eq [code]

section \<open>Parsing\<close>

datatype chunk = Lit char | Year | Month | Day | Hour | Minute | Second

record fields =
  f_year :: int
  f_month :: int
  f_day :: int
  f_hour :: int
  f_min :: int
  f_sec :: int
  f_nsec :: int

definition no_fields :: fields where
  "no_fields = \<lparr>f_year = 0, f_month = 1, f_day = 1, f_hour = 0, f_min = 0, f_sec = 0, f_nsec = 0\<rparr>"

fun starts_digit :: "string \<Rightarrow> bool" where
  "starts_digit [] = False"
| "starts_digit (c # s) = is_digit c"

fun getnum :: "string \<Rightarrow> bool \<Rightarrow> (int \<times> string) option" where
  "getnum [] fx = None"
| "getnum (a # s) fx =
     (if \<not> is_digit a then None
      else if \<not> starts_digit s then (if fx then None else Some (int (digit_value a), s))
      else Some (int (10 * digit_value a + digit_value (hd s)), tl s))"

definition get_year :: "string \<Rightarrow> (int \<times> string) option" where
  "get_year s = (if length s \<ge> 4 \<and> list_all is_digit (take 4 s)
     then Some (int (digits_value (take 4 s)), drop 4 s) else None)"

text \<open>A fraction after the seconds is accepted although no layout asks for it; digits
  past the ninth are dropped.\<close>

definition fraction :: "string \<Rightarrow> int \<times> string" where
  "fraction s = (case s of
       [] \<Rightarrow> (0, [])
     | c # r \<Rightarrow>
       if (c = CHR ''.'' \<or> c = CHR '','') \<and> starts_digit r then
         (let ds = take 9 (takeWhile is_digit r)
          in (int (digits_value ds) * 10 ^ (9 - length ds), dropWhile is_digit r))
       else (0, s))"

definition skip_space :: "string \<Rightarrow> string option" where
  "skip_space s = (case s of [] \<Rightarrow> Some []
     | c # r \<Rightarrow> if c \<noteq> CHR '' '' then None else Some (dropWhile (\<lambda>c. c = CHR '' '') s))"

definition ranged :: "(int \<times> string) option \<Rightarrow> int \<Rightarrow> int \<Rightarrow> (int \<times> string) option" where
  "ranged r lo hi = (case r of None \<Rightarrow> None
     | Some (n, s) \<Rightarrow> if lo \<le> n \<and> n \<le> hi then Some (n, s) else None)"

fun parse_chunks :: "chunk list \<Rightarrow> string \<Rightarrow> fields \<Rightarrow> fields option" where
  "parse_chunks [] s f = (if s = [] then Some f else None)"
| "parse_chunks (Lit c # cs) s f =
     (if c = CHR '' '' then case skip_space s of None \<Rightarrow> None | Some r \<Rightarrow> parse_chunks cs r f
      else case s of [] \<Rightarrow> None | d # r \<Rightarrow> if d = c then parse_chunks cs r f else None)"
| "parse_chunks (Year # cs) s f =
     (case get_year s of None \<Rightarrow> None | Some (n, r) \<Rightarrow> parse_chunks cs r (f\<lparr>f_year := n\<rparr>))"
| "parse_chunks (Month # cs) s f =
     (case ranged (getnum s True) 1 12 of None \<Rightarrow> None
      | Some (n, r) \<Rightarrow> parse_chunks cs r (f\<lparr>f_month := n\<rparr>))"
| "parse_chunks (Day # cs) s f =
     (case getnum s True of None \<Rightarrow> None | Some (n, r) \<Rightarrow> parse_chunks cs r (f\<lparr>f_day := n\<rparr>))"
| "parse_chunks (Hour # cs) s f =
     (case ranged (getnum s False) 0 23 of None \<Rightarrow> None
      | Some (n, r) \<Rightarrow> parse_chunks cs r (f\<lparr>f_hour := n\<rparr>))"
| "parse_chunks (Minute # cs) s f =
     (case ranged (getnum s True) 0 59 of None \<Rightarrow> None
      | Some (n, r) \<Rightarrow> parse_chunks cs r (f\<lparr>f_min := n\<rparr>))"
| "parse_chunks (Second # cs) s f =
     (case ranged (getnum s True) 0 59 of None \<Rightarrow> None
      | Some (n, r) \<Rightarrow> (case fraction r of (ns, r') \<Rightarrow>
          parse_chunks cs r' (f\<lparr>f_sec := n, f_nsec := ns\<rparr>)))"

text \<open>\<open>time.ParseInLocation\<close>\<close>

definition parse_in_location :: "chunk list \<Rightarrow> string \<Rightarrow> location \<Rightarrow> instant result" where
  "parse_in_location layout s loc =
     (case parse_chunks layout s no_fields of
        None \<Rightarrow> Inl (External ''parsing time'')
      | Some f \<Rightarrow>
          if f_day f < 1 \<or> f_day f > days_in (f_month f) (f_year f) then Inl (External ''day out of range'')
          else Inr (date (f_year f) (f_month f) (f_day f) (f_hour f) (f_min f) (f_sec f) (f_nsec f) loc))"

section \<open>Printing\<close>

definition pad2 :: "int \<Rightarrow> string" where
  "pad2 n = [digit_char (nat n div 10 mod 10), digit_char (nat n mod 10)]"

definition pad4 :: "int \<Rightarrow> string" where
  "pad4 n = [digit_char (nat n div 1000 mod 10), digit_char (nat n div 100 mod 10),
             digit_char (nat n div 10 mod 10), digit_char (nat n mod 10)]"

fun format_chunk :: "location \<Rightarrow> instant \<Rightarrow> chunk \<Rightarrow> string" where
  "format_chunk loc t (Lit c) = [c]"
| "format_chunk loc t Year = pad4 (fst (civil loc t))"
| "format_chunk loc t Month = pad2 (fst (snd (civil loc t)))"
| "format_chunk loc t Day = pad2 (snd (snd (civil loc t)))"
| "format_chunk loc t Hour = pad2 (local_seconds loc t mod 86400 div 3600)"
| "format_chunk loc t Minute = pad2 (local_seconds loc t mod 3600 div 60)"
| "format_chunk loc t Second = pad2 (local_seconds loc t mod 60)"

definition format_time :: "chunk list \<Rightarrow> location \<Rightarrow> instant \<Rightarrow> string" where
  "format_time layout loc t = concat (map (format_chunk loc t) layout)"

lemma parse_in_location_shift:
  "parse_in_location layout s loc = Inr t \<Longrightarrow>
   parse_in_location layout s loc' = Inr (t + (loc - loc') * nanos_per_second)"
  by (auto simp: parse_in_location_def date_def Let_def algebra_simps split: option.splits if_splits)

lemma year_of_era_bounds:
  fixes doe :: int
  assumes "0 \<le> doe" "doe < 146097"
  defines "yoe \<equiv> (doe - doe div 1460 + doe div 36524 - doe div 146096) div 365"
  shows "0 \<le> yoe" "yoe < 400" "365 * yoe + yoe div 4 - yoe div 100 \<le> doe" "doe \<le> 365 * yoe + yoe div 4 - yoe div 100 + 366"
proof -
  let ?a = "doe div 1460" and ?b = "doe div 36524" and ?c = "doe div 146096"
  have r365: "x div 365 * 365 \<le> x \<and> x < x div 365 * 365 + 365" for x :: int by presburger
  have y: "yoe * 365 \<le> doe - ?a + ?b - ?c" "doe - ?a + ?b - ?c < yoe * 365 + 365"
    using r365[of "doe - ?a + ?b - ?c"] unfolding yoe_def by simp_all
  have a: "1460 * ?a \<le> doe" "doe < 1460 * ?a + 1460" by presburger+
  have b: "36524 * ?b \<le> doe" "doe < 36524 * ?b + 36524" by presburger+
  have c: "146096 * ?c \<le> doe" "doe < 146096 * ?c + 146096" by presburger+
  show "0 \<le> yoe" using y(2) a(1) b c(1) assms(1,2) by linarith
  have q: "4 * (yoe div 4) \<le> yoe" "yoe < 4 * (yoe div 4) + 4" "100 * (yoe div 100) \<le> yoe" "yoe < 100 * (yoe div 100) + 100" by presburger+
  have b4: "0 \<le> ?b" "?b \<le> 4" "0 \<le> ?c" "?c \<le> 1" "?c = 1 \<longrightarrow> ?b = 4" using b c assms(1,2) by linarith+
  have ab: "25 * ?b \<le> ?a"
  proof -
    have "?b = 0 \<or> ?b = 1 \<or> ?b = 2 \<or> ?b = 3 \<or> ?b = 4" using b4(1,2) by linarith
    then show ?thesis using a(2) b(1) by (elim disjE) linarith+
  qed
  have c1: "?c = 0 \<and> ?b \<le> 3 \<and> doe \<le> 146095 \<or> ?c = 1 \<and> ?b = 4 \<and> doe = 146096 \<and> ?a = 100"
    using a b c b4 assms(1,2) by linarith
  show y4: "yoe < 400" using c1 y(1) a(2) by (elim disjE conjE) linarith+
  have q4: "yoe div 4 \<le> ?a" using y(1) a(2) q(1) ab b4 by linarith
  have q4': "?a \<le> yoe div 4 + 1" using y(2) a(1) q(2) y4 b4(1,3,4) c1 by linarith
  have q100': "yoe div 100 \<le> ?b - ?c + 1" using y(1) ab b(2) q(3) b4 c1 by linarith
  have d: "?a = 25 * ?b \<or> 25 * ?b + 1 \<le> ?a" using ab by linarith
  have q100: "?b - ?c \<le> yoe div 100"
    using c1
  proof
    assume c0: "?c = 0 \<and> ?b \<le> 3 \<and> doe \<le> 146095"
    have "100 * ?b \<le> yoe"
      using d
    proof
      assume "?a = 25 * ?b" then show ?thesis using y(2) b(1) c0 by linarith
    next
      assume "25 * ?b + 1 \<le> ?a" then show ?thesis using y(2) a(1) c0 by linarith
    qed
    then show ?thesis using q(4) c0 by linarith
  next
    assume "?c = 1 \<and> ?b = 4 \<and> doe = 146096 \<and> ?a = 100"
    then show ?thesis using y(2) q(4) by linarith
  qed
  show "365 * yoe + yoe div 4 - yoe div 100 \<le> doe" using q4 q100 y by linarith
  show "doe \<le> 365 * yoe + yoe div 4 - yoe div 100 + 366" using q4' q100' y by linarith
qed

lemma days_from_civil_from_days:
  assumes "civil_from_days z = (y, m, d)"
  shows "days_from_civil y m d = z \<and> 1 \<le> m \<and> m \<le> 12"
proof -
  define era where "era = (z + 719468) div 146097"
  define doe where "doe = z + 719468 - era * 146097"
  define yoe where "yoe = (doe - doe div 1460 + doe div 36524 - doe div 146096) div 365"
  define doy where "doy = doe - (365 * yoe + yoe div 4 - yoe div 100)"
  define mp where "mp = (5 * doy + 2) div 153"
  have doe: "0 \<le> doe" "doe < 146097" unfolding doe_def era_def by (simp_all add: minus_div_mult_eq_mod)
  note b = year_of_era_bounds[OF doe, folded yoe_def]
  have doy: "0 \<le> doy" "doy \<le> 366" using b(3,4) by (simp_all add: doy_def)
  have "153 * mp \<le> 5 * doy + 2" "5 * doy + 2 < 153 * mp + 153" unfolding mp_def by presburger+
  then have mp: "0 \<le> mp" "mp \<le> 11" using doy by linarith+
  have c: "civil_from_days z = (yoe + era * 400 + (if (if mp < 10 then mp + 3 else mp - 9) \<le> 2 then 1 else 0),
      (if mp < 10 then mp + 3 else mp - 9), doy - (153 * mp + 2) div 5 + 1)"
    by (simp only: civil_from_days_def Let_def era_def doe_def yoe_def doy_def mp_def)
  have m: "m = (if mp < 10 then mp + 3 else mp - 9)" and d: "d = doy - (153 * mp + 2) div 5 + 1"
    and y: "y = yoe + era * 400 + (if m \<le> 2 then 1 else 0)"
    using c assms by simp_all
  have "(if m \<le> 2 then y - 1 else y) = yoe + era * 400" using y by (simp split: if_split)
  moreover have "(yoe + era * 400) div 400 = era"
    using b(1,2) by (simp add: div_pos_pos_trivial)
  moreover have "(if m > 2 then m - 3 else m + 9) = mp" using m mp by auto
  ultimately have "days_from_civil y m d = era * 146097 + (yoe * 365 + yoe div 4 - yoe div 100 + ((153 * mp + 2) div 5 + d - 1)) - 719468"
    by (simp add: days_from_civil_eq)
  also have "\<dots> = z" by (simp add: d doy_def doe_def)
  finally show ?thesis using m mp by auto
qed

text \<open>Midnight and the clock of an instant's own local day.\<close>

lemma date_of_day:
  "date (fst (civil loc t)) (fst (snd (civil loc t))) (snd (snd (civil loc t))) hh mm ss 0 loc
     = ((local_seconds loc t div 86400) * 86400 + hh * 3600 + mm * 60 + ss - loc) * nanos_per_second"
proof -
  obtain y m d where c: "civil loc t = (y, m, d)" by (cases "civil loc t") auto
  have r: "days_from_civil y m d = local_seconds loc t div 86400" "1 \<le> m" "m \<le> 12"
    using days_from_civil_from_days c[unfolded civil_def] by blast+
  have "(m - 1) div 12 = 0" "(m - 1) mod 12 + 1 = m" using r(2,3) by auto
  moreover have "days_from_civil y m 1 + (d - 1) = days_from_civil y m d"
    by (simp add: days_from_civil_eq)
  ultimately show ?thesis using r(1) by (simp add: c date_eq)
qed

end
