(* ===== verification/Ktmb_Scan.thy ===== *)
theory Ktmb_Scan
  imports Go_Time
begin

text \<open>
  lib/recoverer/scan.go: the search of KTMB's upcoming-ticket list for a passenger's
  ticket. The list is paged and ascending by departure; the search bisects for a page
  spanning the target departure and then scans the contiguous pages around it. What the
  recoverer does with an absent ticket costs money, so the theory shows that an absent
  verdict is right whenever the account's list is ascending, that a found ticket is a
  positively confirmed row of the list, and that every doubtful list ends in an error.
\<close>

section \<open>Data\<close>

text \<open>The fields of the KTMB ticket list the scan reads.\<close>

record ticket =
  PassengerPassportNo :: string
  TicketNo :: string

record trip =
  Tickets :: "ticket list"

record ktmb_booking =
  BookingNo :: string
  DepartFromLocalDateTime :: string
  FromStationName :: string
  Trips :: "trip list"

record ticket_list =
  Bookings :: "ktmb_booking list"
  TotalPage :: int

record foundTicket =
  found_BookingNo :: string
  found_TicketNo :: string

definition ktmbDateTimeLayout :: "chunk list" where
  "ktmbDateTimeLayout =
     [Year, Lit (CHR ''-''), Month, Lit (CHR ''-''), Day, Lit (CHR ''T''),
      Hour, Lit (CHR '':''), Minute, Lit (CHR '':''), Second]"

section \<open>One row, one page\<close>

definition departOf :: "ktmb_booking \<Rightarrow> location \<Rightarrow> instant result" where
  "departOf booking loc = parse_in_location ktmbDateTimeLayout (DepartFromLocalDateTime booking) loc"

definition classifyDirection :: "string \<Rightarrow> string \<times> bool" where
  "classifyDirection fromStationName =
     (let upper = to_upper fromStationName
      in if contains upper ''WOODLANDS'' then (''WToJ'', True)
         else if contains upper ''SENTRAL'' \<or> contains upper ''JOHOR'' then (''JToW'', True)
         else ('''', False))"

fun passport_in_tickets :: "ticket list \<Rightarrow> string \<Rightarrow> string option" where
  "passport_in_tickets [] passport = None"
| "passport_in_tickets (t # ts) passport =
     (if equal_fold (trim_space (PassengerPassportNo t)) (trim_space passport) then Some (TicketNo t)
      else passport_in_tickets ts passport)"

fun passport_in_trips :: "trip list \<Rightarrow> string \<Rightarrow> string \<times> bool" where
  "passport_in_trips [] passport = ('''', False)"
| "passport_in_trips (t # ts) passport =
     (case passport_in_tickets (Tickets t) passport of
        Some no \<Rightarrow> (no, True)
      | None \<Rightarrow> passport_in_trips ts passport)"

definition ticketForPassport :: "ktmb_booking \<Rightarrow> string \<Rightarrow> string \<times> bool" where
  "ticketForPassport booking passport = passport_in_trips (Trips booking) passport"

text \<open>The loop of \<open>pageContainsDatetime\<close>, with the last parse error in an accumulator.\<close>

fun contains_datetime :: "ktmb_booking list \<Rightarrow> instant \<Rightarrow> location \<Rightarrow> error option \<Rightarrow> bool result" where
  "contains_datetime [] target loc parseErr =
     (case parseErr of None \<Rightarrow> Inr False | Some e \<Rightarrow> Inl e)"
| "contains_datetime (b # bs) target loc parseErr =
     (case departOf b loc of
        Inl e \<Rightarrow> contains_datetime bs target loc (Some (Wrapped ''unparseable departure'' e))
      | Inr dt \<Rightarrow> if dt = target then Inr True else contains_datetime bs target loc parseErr)"

definition pageContainsDatetime :: "ticket_list \<Rightarrow> instant \<Rightarrow> location \<Rightarrow> bool result" where
  "pageContainsDatetime page target loc = contains_datetime (Bookings page) target loc None"

text \<open>The loop of \<open>matchPage\<close>: a definitive match wins, otherwise the last doubt is the error.\<close>

fun match_rows :: "ktmb_booking list \<Rightarrow> instant \<Rightarrow> string \<Rightarrow> string \<Rightarrow> location \<Rightarrow> error option
    \<Rightarrow> foundTicket option \<times> error option" where
  "match_rows [] target direction passport loc inconclusive = (None, inconclusive)"
| "match_rows (b # bs) target direction passport loc inconclusive =
     (case departOf b loc of
        Inl e \<Rightarrow> match_rows bs target direction passport loc (Some (Wrapped ''unparseable departure'' e))
      | Inr dt \<Rightarrow>
          if dt \<noteq> target then match_rows bs target direction passport loc inconclusive
          else (case ticketForPassport b passport of (ticketNo, hasPassport) \<Rightarrow>
            if \<not> hasPassport then match_rows bs target direction passport loc inconclusive
            else (case classifyDirection (FromStationName b) of (dir, confirmed) \<Rightarrow>
              if \<not> confirmed \<or> dir \<noteq> direction
              then match_rows bs target direction passport loc (Some (Msg ''direction not confirmed''))
              else (Some \<lparr>found_BookingNo = BookingNo b, found_TicketNo = ticketNo\<rparr>, None))))"

definition matchPage :: "ticket_list \<Rightarrow> instant \<Rightarrow> string \<Rightarrow> string \<Rightarrow> location
    \<Rightarrow> foundTicket option \<times> error option" where
  "matchPage page target direction passport loc =
     match_rows (Bookings page) target direction passport loc None"

section \<open>The search\<close>

text \<open>\<open>lo + hi\<close> stays within an int64 for any page count a list can have.\<close>

function bisect :: "(int \<Rightarrow> ('s, ticket_list result) state) \<Rightarrow> instant \<Rightarrow> location \<Rightarrow> int \<Rightarrow> int
    \<Rightarrow> ('s, int result) state" where
  "bisect getPage target loc lo hi =
     (if lo > hi then return (Inr 0)
      else let mid = (lo + hi) div 2 in
        on_ok (getPage mid) (\<lambda>page.
          if Bookings page = [] then return (Inl (Msg ''empty page within range during scan''))
          else case departOf (hd (Bookings page)) loc of
            Inl e \<Rightarrow> return (Inl e)
          | Inr firstDt \<Rightarrow>
              (case departOf (last (Bookings page)) loc of
                 Inl e \<Rightarrow> return (Inl e)
               | Inr lastDt \<Rightarrow>
                   if target < firstDt then bisect getPage target loc lo (mid - 1)
                   else if lastDt < target then bisect getPage target loc (mid + 1) hi
                   else return (Inr mid))))"
  by pat_completeness auto
termination by (relation "measure (\<lambda>(_, _, _, lo, hi). nat (hi - lo + 1))") auto

text \<open>The body the two contiguous scans share: an empty page is inconclusive, a definitive
  match ends the search, a page without the target departure ends this direction.\<close>

datatype verdict = Found foundTicket | Leave | Go_On

definition scan_page :: "string \<Rightarrow> instant \<Rightarrow> string \<Rightarrow> string \<Rightarrow> location \<Rightarrow> ticket_list \<Rightarrow> verdict result" where
  "scan_page emptyMsg target direction passport loc res =
     (if Bookings res = [] then Inl (Msg emptyMsg)
      else case matchPage res target direction passport loc of
        (Some f, _) \<Rightarrow> Inr (Found f)
      | (None, Some matchErr) \<Rightarrow> Inl matchErr
      | (None, None) \<Rightarrow>
          (case pageContainsDatetime res target loc of
             Inl e \<Rightarrow> Inl e
           | Inr present \<Rightarrow> Inr (if present then Go_On else Leave)))"

function scan_left :: "(int \<Rightarrow> ('s, ticket_list result) state) \<Rightarrow> (ticket_list \<Rightarrow> verdict result) \<Rightarrow> int
    \<Rightarrow> ('s, foundTicket option result) state" where
  "scan_left getPage judge page =
     (if page < 1 then return (Inr None)
      else on_ok (getPage page) (\<lambda>res.
        case judge res of
          Inl e \<Rightarrow> return (Inl e)
        | Inr (Found f) \<Rightarrow> return (Inr (Some f))
        | Inr Leave \<Rightarrow> return (Inr None)
        | Inr Go_On \<Rightarrow> scan_left getPage judge (page - 1)))"
  by pat_completeness auto
termination by (relation "measure (\<lambda>(_, _, page). nat page)") auto

function scan_right :: "(int \<Rightarrow> ('s, ticket_list result) state) \<Rightarrow> (ticket_list \<Rightarrow> verdict result) \<Rightarrow> int \<Rightarrow> int
    \<Rightarrow> ('s, foundTicket option result) state" where
  "scan_right getPage judge npages page =
     (if page > npages then return (Inr None)
      else on_ok (getPage page) (\<lambda>res.
        case judge res of
          Inl e \<Rightarrow> return (Inl e)
        | Inr (Found f) \<Rightarrow> return (Inr (Some f))
        | Inr Leave \<Rightarrow> return (Inr None)
        | Inr Go_On \<Rightarrow> scan_right getPage judge npages (page + 1)))"
  by pat_completeness auto
termination by (relation "measure (\<lambda>(_, _, npages, page). nat (npages - page + 1))") auto

declare bisect.simps [simp del] scan_left.simps [simp del] scan_right.simps [simp del]

definition findTicketIn :: "(int \<Rightarrow> ('s, ticket_list result) state) \<Rightarrow> instant \<Rightarrow> string \<Rightarrow> string \<Rightarrow> location
    \<Rightarrow> ('s, foundTicket option result) state" where
  "findTicketIn fetch target direction passport loc =
     on_ok (fetch 1) (\<lambda>first.
       if TotalPage first \<le> 0 \<or> Bookings first = []
       then return (Inl (Msg ''empty ticket list (inconclusive, must retry)''))
       else
         (let npages = TotalPage first;
              getPage = (\<lambda>page. if page = 1 then return (Inr first) else fetch page)
          in on_ok (bisect getPage target loc 1 npages) (\<lambda>hit.
            if hit = 0 then return (Inr None)
            else on_ok (scan_left getPage
                (scan_page ''empty page during left contiguous scan'' target direction passport loc) hit)
              (\<lambda>f. case f of
                 Some t \<Rightarrow> return (Inr (Some t))
               | None \<Rightarrow> scan_right getPage
                   (scan_page ''empty page during right contiguous scan'' target direction passport loc)
                   npages (hit + 1)))))"

section \<open>Lemmas\<close>

text \<open>During one scan the account does not change: a page that can be fetched is the page.\<close>

definition serves :: "(int \<Rightarrow> ('s, ticket_list result) state) \<Rightarrow> (int \<Rightarrow> ticket_list) \<Rightarrow> bool" where
  "serves fetch pages \<longleftrightarrow> (\<forall>p. pred_state (\<lambda>r. \<forall>pg. r = Inr pg \<longrightarrow> pg = pages p) (fetch p))"

definition rows :: "(int \<Rightarrow> ticket_list) \<Rightarrow> int \<Rightarrow> ktmb_booking list" where
  "rows pages npages = concat (map (\<lambda>p. Bookings (pages p)) [1..npages])"

text \<open>The list ascends by departure; a row whose departure does not parse still departs
  at some instant, which \<open>dep\<close> names.\<close>

definition ascending :: "(int \<Rightarrow> ticket_list) \<Rightarrow> int \<Rightarrow> location \<Rightarrow> (ktmb_booking \<Rightarrow> instant) \<Rightarrow> bool" where
  "ascending pages npages loc dep \<longleftrightarrow>
     sorted (map dep (rows pages npages)) \<and>
     (\<forall>b \<in> set (rows pages npages). \<forall>t. departOf b loc = Inr t \<longrightarrow> dep b = t)"

lemma serves_get_page:
  assumes "serves fetch pages"
  shows "serves (\<lambda>page. if page = 1 then return (Inr (pages 1)) else fetch page) pages"
  using assms by (auto simp: serves_def)

lemma set_rows: "set (rows pages npages) = (\<Union>p \<in> {1..npages}. set (Bookings (pages p)))"
  by (simp add: rows_def)

lemma rows_split:
  assumes "1 \<le> p" "p \<le> npages"
  shows "rows pages npages = rows pages (p - 1) @ Bookings (pages p)
           @ concat (map (\<lambda>p. Bookings (pages p)) [p + 1..npages])"
proof -
  have "[1..npages] = [1..p - 1] @ p # [p + 1..npages]"
    using assms upto_split2[of 1 p npages] upto_rec1[of p npages] by (simp add: upto_split1)
  then show ?thesis by (simp add: rows_def)
qed

lemma ascending_pages:
  assumes "ascending pages npages loc dep" "1 \<le> p" "p < q" "q \<le> npages"
    "b \<in> set (Bookings (pages p))" "c \<in> set (Bookings (pages q))"
  shows "dep b \<le> dep c"
proof -
  have "c \<in> set (concat (map (\<lambda>p. Bookings (pages p)) [p + 1..npages]))"
    using assms by auto
  then show ?thesis
    using assms rows_split[of p npages pages] by (auto simp: ascending_def sorted_append)
qed

lemma ascending_page:
  assumes "ascending pages npages loc dep" "1 \<le> p" "p \<le> npages" "b \<in> set (Bookings (pages p))"
  shows "dep (hd (Bookings (pages p))) \<le> dep b" "dep b \<le> dep (last (Bookings (pages p)))"
proof -
  have s: "sorted (map dep (Bookings (pages p)))"
    using assms rows_split[of p npages pages] by (auto simp: ascending_def sorted_append)
  then show "dep (hd (Bookings (pages p))) \<le> dep b"
    using assms(4) by (cases "Bookings (pages p)") auto
  show "dep b \<le> dep (last (Bookings (pages p)))"
    using s assms(4) by (cases "Bookings (pages p)" rule: rev_cases) (auto simp: sorted_append)
qed

lemma ascending_dep:
  assumes "ascending pages npages loc dep" "1 \<le> p" "p \<le> npages" "b \<in> set (Bookings (pages p))"
    "departOf b loc = Inr t"
  shows "dep b = t"
  using assms unfolding ascending_def set_rows by auto

subsection \<open>One page\<close>

lemma contains_datetime_False:
  "contains_datetime bs target loc e = Inr False \<Longrightarrow>
     e = None \<and> (\<forall>b \<in> set bs. \<exists>t. departOf b loc = Inr t \<and> t \<noteq> target)"
  by (induction bs target loc e rule: contains_datetime.induct)
     (auto split: option.splits sum.splits if_splits)

lemma contains_datetime_True:
  "contains_datetime bs target loc e = Inr True \<Longrightarrow> \<exists>b \<in> set bs. departOf b loc = Inr target"
  by (induction bs target loc e rule: contains_datetime.induct)
     (auto split: option.splits sum.splits if_splits)

lemma match_rows_none:
  "match_rows bs target direction passport loc e = (None, None) \<Longrightarrow>
     e = None \<and> (\<forall>b \<in> set bs. \<exists>t. departOf b loc = Inr t \<and>
        (t = target \<longrightarrow> \<not> snd (ticketForPassport b passport)))"
  by (induction bs target direction passport loc e rule: match_rows.induct)
     (auto split: sum.splits if_splits prod.splits)

definition is_match :: "ktmb_booking \<Rightarrow> instant \<Rightarrow> string \<Rightarrow> string \<Rightarrow> location \<Rightarrow> foundTicket \<Rightarrow> bool" where
  "is_match b target direction passport loc f \<longleftrightarrow>
     departOf b loc = Inr target \<and>
     ticketForPassport b passport = (found_TicketNo f, True) \<and>
     classifyDirection (FromStationName b) = (direction, True) \<and>
     BookingNo b = found_BookingNo f"

lemma match_rows_some:
  "match_rows bs target direction passport loc e = (Some f, e') \<Longrightarrow>
     \<exists>b \<in> set bs. is_match b target direction passport loc f"
  by (induction bs target direction passport loc e rule: match_rows.induct)
     (auto simp: is_match_def split: sum.splits if_splits prod.splits)

lemma scan_page_Found:
  "scan_page m target direction passport loc pg = Inr (Found f) \<Longrightarrow>
     \<exists>b \<in> set (Bookings pg). is_match b target direction passport loc f"
  by (auto simp: scan_page_def matchPage_def split: if_splits prod.splits option.splits sum.splits
      dest: match_rows_some)

lemma scan_page_absent:
  assumes "scan_page m target direction passport loc pg = Inr v" "v = Leave \<or> v = Go_On"
    "b \<in> set (Bookings pg)"
  shows "\<exists>t. departOf b loc = Inr t \<and> (t = target \<longrightarrow> \<not> snd (ticketForPassport b passport))"
  using assms
  by (auto simp: scan_page_def matchPage_def split: if_splits prod.splits option.splits sum.splits
      dest: match_rows_none)

lemma scan_page_Leave:
  assumes "scan_page m target direction passport loc pg = Inr Leave" "b \<in> set (Bookings pg)"
  shows "departOf b loc \<noteq> Inr target" "Bookings pg \<noteq> []"
  using assms
  by (auto simp: scan_page_def pageContainsDatetime_def
      split: if_splits prod.splits option.splits sum.splits dest!: contains_datetime_False)

subsection \<open>The bisection\<close>

definition target_free :: "(int \<Rightarrow> ticket_list) \<Rightarrow> (ktmb_booking \<Rightarrow> instant) \<Rightarrow> instant \<Rightarrow> int \<Rightarrow> int \<Rightarrow> bool" where
  "target_free pages dep target lo hi \<longleftrightarrow>
     (\<forall>p \<in> {lo..hi}. \<forall>b \<in> set (Bookings (pages p)). dep b \<noteq> target)"

definition spans :: "(int \<Rightarrow> ticket_list) \<Rightarrow> (ktmb_booking \<Rightarrow> instant) \<Rightarrow> instant \<Rightarrow> int \<Rightarrow> bool" where
  "spans pages dep target h \<longleftrightarrow> Bookings (pages h) \<noteq> [] \<and>
     dep (hd (Bookings (pages h))) \<le> target \<and> target \<le> dep (last (Bookings (pages h)))"

lemma target_free_split:
  assumes "target_free pages dep target lo mid" "target_free pages dep target (mid + 1) hi"
  shows "target_free pages dep target lo hi"
  using assms by (force simp: target_free_def)

lemma target_free_empty [simp]: "hi < lo \<Longrightarrow> target_free pages dep target lo hi"
  by (simp add: target_free_def)

lemma target_free_below:
  assumes "ascending pages npages loc dep" "1 \<le> lo" "mid \<le> npages"
    "Bookings (pages mid) \<noteq> []" "dep (last (Bookings (pages mid))) < target"
  shows "target_free pages dep target lo mid"
  unfolding target_free_def
proof (intro ballI)
  fix p b assume "p \<in> {lo..mid}" "b \<in> set (Bookings (pages p))"
  then show "dep b \<noteq> target"
    using assms ascending_pages[OF assms(1), of p mid b "last (Bookings (pages mid))"]
      ascending_page(2)[OF assms(1), of p b] by (cases "p = mid") auto
qed

lemma target_free_above:
  assumes "ascending pages npages loc dep" "1 \<le> mid" "hi \<le> npages"
    "Bookings (pages mid) \<noteq> []" "target < dep (hd (Bookings (pages mid)))"
  shows "target_free pages dep target mid hi"
  unfolding target_free_def
proof (intro ballI)
  fix p b assume "p \<in> {mid..hi}" "b \<in> set (Bookings (pages p))"
  then show "dep b \<noteq> target"
    using assms ascending_pages[OF assms(1), of mid p "hd (Bookings (pages mid))" b]
      ascending_page(1)[OF assms(1), of p b] by (cases "p = mid") auto
qed

lemma bisect_correct:
  assumes "serves getPage pages" "ascending pages npages loc dep" "1 \<le> lo" "hi \<le> npages"
  shows "pred_state (\<lambda>r. \<forall>h. r = Inr h \<longrightarrow>
      (h = 0 \<and> target_free pages dep target lo hi) \<or> (lo \<le> h \<and> h \<le> hi \<and> spans pages dep target h))
    (bisect getPage target loc lo hi)"
  using assms
proof (induction getPage target loc lo hi rule: bisect.induct)
  case (1 getPage target loc lo hi)
  show ?case
  proof (cases "lo > hi")
    case True
    then show ?thesis by (simp add: bisect.simps)
  next
    case False
    define mid where "mid = (lo + hi) div 2"
    have mid: "lo \<le> mid" "mid \<le> hi" "1 \<le> mid" "mid \<le> npages"
      using False 1(5,6) by (auto simp: mid_def)
    let ?P = "pages mid"
    have page: "pred_state (\<lambda>r. \<forall>pg. r = Inr pg \<longrightarrow> pg = ?P) (getPage mid)"
      using 1(3) by (simp add: serves_def)
    have dep: "dep b = t" if "departOf b loc = Inr t" "b \<in> set (Bookings ?P)" for b t
      using ascending_dep[OF 1(4)] mid that by auto
    note asc = 1(4) and lo = 1(5) and hi = 1(6)
    note IH1 = 1(1)[OF False mid_def] and IH2 = 1(2)[OF False mid_def] and serves = 1(3)
    show ?thesis
    proof (subst bisect.simps, simp only: False Let_def if_False flip: mid_def,
        rule pred_on_ok, rule pred_conseq[OF page], goal_cases)
      case (1 r)
      show ?case
      proof (cases r)
        case (Inr pg)
        then have [simp]: "pg = ?P" using 1 by simp
        consider "Bookings ?P = []"
          | e where "Bookings ?P \<noteq> []" "departOf (hd (Bookings ?P)) loc = Inl e"
          | t e where "Bookings ?P \<noteq> []" "departOf (hd (Bookings ?P)) loc = Inr t"
              "departOf (last (Bookings ?P)) loc = Inl e"
          | t u where "Bookings ?P \<noteq> []" "departOf (hd (Bookings ?P)) loc = Inr t"
              "departOf (last (Bookings ?P)) loc = Inr u"
          by (metis old.sum.exhaust)
        then show ?thesis
        proof cases
          case (4 t u)
          then have [simp]: "dep (hd (Bookings ?P)) = t" "dep (last (Bookings ?P)) = u"
            by (simp_all add: dep)
          consider "target < t" | "t \<le> target" "u < target" | "t \<le> target" "target \<le> u"
            by linarith
          then show ?thesis
          proof cases
            case A: 1
            have "target_free pages dep target mid hi"
              using target_free_above[OF asc] mid 4 A hi by simp
            moreover have "pred_state (\<lambda>r. \<forall>h. r = Inr h \<longrightarrow>
                (h = 0 \<and> target_free pages dep target lo (mid - 1)) \<or> (lo \<le> h \<and> h \<le> mid - 1 \<and> spans pages dep target h))
                (bisect getPage target loc lo (mid - 1))"
              by (rule IH1) (use 4 A serves asc lo mid in auto)
            ultimately show ?thesis
              using 4 A Inr mid target_free_split[of pages dep target lo "mid - 1" hi]
              by (auto elim!: pred_conseq)
          next
            case B: 2
            have "target_free pages dep target lo mid"
              using target_free_below[OF asc] mid 4 B lo by simp
            moreover have "pred_state (\<lambda>r. \<forall>h. r = Inr h \<longrightarrow>
                (h = 0 \<and> target_free pages dep target (mid + 1) hi) \<or> (mid + 1 \<le> h \<and> h \<le> hi \<and> spans pages dep target h))
                (bisect getPage target loc (mid + 1) hi)"
              by (rule IH2) (use 4 B serves asc hi mid in auto)
            ultimately show ?thesis
              using 4 B Inr mid target_free_split[of pages dep target lo mid hi]
              by (auto elim!: pred_conseq)
          qed (use 4 Inr mid in \<open>auto simp: spans_def\<close>)
        qed (use Inr in auto)
      qed simp
    qed
  qed
qed

subsection \<open>The contiguous scans\<close>

definition absent_in :: "(int \<Rightarrow> ticket_list) \<Rightarrow> (ktmb_booking \<Rightarrow> instant) \<Rightarrow> instant \<Rightarrow> string \<Rightarrow> int \<Rightarrow> int \<Rightarrow> bool" where
  "absent_in pages dep target passport lo hi \<longleftrightarrow>
     (\<forall>p \<in> {lo..hi}. \<forall>b \<in> set (Bookings (pages p)).
        dep b = target \<longrightarrow> \<not> snd (ticketForPassport b passport))"

definition match_in :: "(int \<Rightarrow> ticket_list) \<Rightarrow> instant \<Rightarrow> string \<Rightarrow> string \<Rightarrow> location \<Rightarrow> int \<Rightarrow> int \<Rightarrow> foundTicket \<Rightarrow> bool" where
  "match_in pages target direction passport loc lo hi f \<longleftrightarrow>
     (\<exists>p \<in> {lo..hi}. \<exists>b \<in> set (Bookings (pages p)). is_match b target direction passport loc f)"

lemma target_free_absent: "target_free pages dep target lo hi \<Longrightarrow> absent_in pages dep target passport lo hi"
  by (auto simp: target_free_def absent_in_def)

lemma absent_in_join:
  assumes "absent_in pages dep target passport lo mid" "absent_in pages dep target passport (mid + 1) hi"
  shows "absent_in pages dep target passport lo hi"
  using assms by (force simp: absent_in_def)

lemma scan_page_absent_page:
  assumes "scan_page m target direction passport loc (pages p) = Inr v" "v = Leave \<or> v = Go_On"
    "ascending pages npages loc dep" "1 \<le> p" "p \<le> npages"
  shows "absent_in pages dep target passport p p"
  unfolding absent_in_def
  using scan_page_absent[OF assms(1,2)] ascending_dep[OF assms(3-5)] by fastforce

lemma scan_page_Leave_page:
  assumes "scan_page m target direction passport loc (pages p) = Inr Leave"
    "ascending pages npages loc dep" "1 \<le> p" "p \<le> npages" "b \<in> set (Bookings (pages p))"
  shows "dep b \<noteq> target"
  using scan_page_absent[OF assms(1) _ assms(5)] scan_page_Leave(1)[OF assms(1,5)]
    ascending_dep[OF assms(2-5)] by fastforce

lemma scan_page_nonempty:
  "scan_page m target direction passport loc pg = Inr v \<Longrightarrow> Bookings pg \<noteq> []"
  by (auto simp: scan_page_def)

lemma match_in_mono:
  "match_in pages target direction passport loc lo hi f \<Longrightarrow> lo' \<le> lo \<Longrightarrow> hi \<le> hi' \<Longrightarrow>
    match_in pages target direction passport loc lo' hi' f"
  by (fastforce simp: match_in_def)

lemma target_free_before:
  assumes "ascending pages npages loc dep" "page \<le> npages"
    "Bookings (pages page) \<noteq> []" "dep (hd (Bookings (pages page))) < target"
  shows "target_free pages dep target 1 (page - 1)"
  unfolding target_free_def
  using assms ascending_pages[OF assms(1), of _ page _ "hd (Bookings (pages page))"] by fastforce

lemma target_free_after:
  assumes "ascending pages npages loc dep" "1 \<le> page"
    "Bookings (pages page) \<noteq> []" "target < dep (last (Bookings (pages page)))"
  shows "target_free pages dep target (page + 1) npages"
  unfolding target_free_def
proof (intro ballI)
  fix p b assume "p \<in> {page + 1..npages}" "b \<in> set (Bookings (pages p))"
  then show "dep b \<noteq> target"
    using assms ascending_pages[OF assms(1), of page p "last (Bookings (pages page))" b] by auto
qed

lemma scan_left_correct:
  assumes "serves getPage pages" "ascending pages npages loc dep" "page \<le> npages"
    "1 \<le> page \<Longrightarrow> Bookings (pages page) \<noteq> [] \<Longrightarrow> dep (hd (Bookings (pages page))) \<le> target"
  shows "pred_state (\<lambda>r. (r = Inr None \<longrightarrow> absent_in pages dep target passport 1 page) \<and>
      (\<forall>f. r = Inr (Some f) \<longrightarrow> match_in pages target direction passport loc 1 page f))
    (scan_left getPage (scan_page m target direction passport loc) page)"
  using assms(3,4)
proof (induction "nat page" arbitrary: page rule: less_induct)
  case less
  let ?B = "\<lambda>p. Bookings (pages p)"
  have got: "pred_state (\<lambda>r. \<forall>pg. r = Inr pg \<longrightarrow> pg = pages page) (getPage page)"
    using assms(1) by (simp add: serves_def)
  show ?case
  proof (cases "page < 1")
    case True
    then show ?thesis by (simp add: scan_left.simps absent_in_def)
  next
    case False
    let ?j = "scan_page m target direction passport loc (pages page)"
    have here: "absent_in pages dep target passport page page" if "?j = Inr Leave \<or> ?j = Inr Go_On"
      using that False less.prems(1) by (auto intro: scan_page_absent_page[OF _ _ assms(2)])
    consider e where "?j = Inl e" | f where "?j = Inr (Found f)" | "?j = Inr Leave" | "?j = Inr Go_On"
      by (metis old.sum.exhaust verdict.exhaust)
    then have "pred_state (\<lambda>r. (r = Inr None \<longrightarrow> absent_in pages dep target passport 1 page) \<and>
      (\<forall>f. r = Inr (Some f) \<longrightarrow> match_in pages target direction passport loc 1 page f))
      (case ?j of Inl e \<Rightarrow> return (Inl e) | Inr (Found f) \<Rightarrow> return (Inr (Some f))
        | Inr Leave \<Rightarrow> return (Inr None)
        | Inr Go_On \<Rightarrow> scan_left getPage (scan_page m target direction passport loc) (page - 1))"
    proof cases
      case (2 f)
      then show ?thesis
        using scan_page_Found[OF 2] False less.prems(1) by (fastforce simp: match_in_def)
    next
      case 3
      have "dep (hd (?B page)) < target"
        using scan_page_Leave_page[OF 3 assms(2)] scan_page_nonempty[OF 3] less.prems False
        by (simp add: order.strict_iff_order)
      then have "target_free pages dep target 1 (page - 1)"
        using target_free_before[OF assms(2) less.prems(1)] scan_page_nonempty[OF 3] by simp
      then show ?thesis
        using 3 here absent_in_join[of pages dep target passport 1 "page - 1" page]
        by (auto dest: target_free_absent)
    next
      case 4
      have "dep (hd (?B (page - 1))) \<le> target" if "1 \<le> page - 1" "?B (page - 1) \<noteq> []"
        using ascending_pages[OF assms(2), of "page - 1" page "hd (?B (page - 1))" "hd (?B page)"]
          that less.prems scan_page_nonempty[OF 4] by force
      then have "pred_state (\<lambda>r. (r = Inr None \<longrightarrow> absent_in pages dep target passport 1 (page - 1)) \<and>
          (\<forall>f. r = Inr (Some f) \<longrightarrow> match_in pages target direction passport loc 1 (page - 1) f))
        (scan_left getPage (scan_page m target direction passport loc) (page - 1))"
        using less.hyps[of "page - 1"] False less.prems(1) by simp
      then show ?thesis
        using 4 here absent_in_join[of pages dep target passport 1 "page - 1" page]
        by (auto elim!: pred_conseq intro: match_in_mono)
    qed simp
    then show ?thesis
      using False by (subst scan_left.simps) (auto intro!: pred_on_ok pred_conseq[OF got] split: sum.split)
  qed
qed

lemma scan_right_correct:
  assumes "serves getPage pages" "ascending pages npages loc dep" "1 \<le> page"
    "page \<le> npages \<Longrightarrow> Bookings (pages page) \<noteq> [] \<Longrightarrow> target \<le> dep (last (Bookings (pages page)))"
  shows "pred_state (\<lambda>r. (r = Inr None \<longrightarrow> absent_in pages dep target passport page npages) \<and>
      (\<forall>f. r = Inr (Some f) \<longrightarrow> match_in pages target direction passport loc page npages f))
    (scan_right getPage (scan_page m target direction passport loc) npages page)"
  using assms(3,4)
proof (induction "nat (npages - page + 1)" arbitrary: page rule: less_induct)
  case less
  let ?B = "\<lambda>p. Bookings (pages p)"
  have got: "pred_state (\<lambda>r. \<forall>pg. r = Inr pg \<longrightarrow> pg = pages page) (getPage page)"
    using assms(1) by (simp add: serves_def)
  show ?case
  proof (cases "page > npages")
    case True
    then show ?thesis by (simp add: scan_right.simps absent_in_def)
  next
    case False
    let ?j = "scan_page m target direction passport loc (pages page)"
    have here: "absent_in pages dep target passport page page" if "?j = Inr Leave \<or> ?j = Inr Go_On"
      using that False less.prems(1) by (auto intro: scan_page_absent_page[OF _ _ assms(2)])
    consider e where "?j = Inl e" | f where "?j = Inr (Found f)" | "?j = Inr Leave" | "?j = Inr Go_On"
      by (metis old.sum.exhaust verdict.exhaust)
    then have "pred_state (\<lambda>r. (r = Inr None \<longrightarrow> absent_in pages dep target passport page npages) \<and>
      (\<forall>f. r = Inr (Some f) \<longrightarrow> match_in pages target direction passport loc page npages f))
      (case ?j of Inl e \<Rightarrow> return (Inl e) | Inr (Found f) \<Rightarrow> return (Inr (Some f))
        | Inr Leave \<Rightarrow> return (Inr None)
        | Inr Go_On \<Rightarrow> scan_right getPage (scan_page m target direction passport loc) npages (page + 1))"
    proof cases
      case (2 f)
      then show ?thesis
        using scan_page_Found[OF 2] False less.prems(1) by (fastforce simp: match_in_def)
    next
      case 3
      have "target < dep (last (?B page))"
        using scan_page_Leave_page[OF 3 assms(2), of "last (?B page)"] scan_page_nonempty[OF 3] less.prems False
        by (simp add: order.strict_iff_order)
      then have "target_free pages dep target (page + 1) npages"
        using target_free_after[OF assms(2) less.prems(1)] scan_page_nonempty[OF 3] by simp
      then show ?thesis
        using 3 here absent_in_join[of pages dep target passport page page npages]
        by (auto dest: target_free_absent)
    next
      case 4
      have "target \<le> dep (last (?B (page + 1)))" if "page + 1 \<le> npages" "?B (page + 1) \<noteq> []"
        using ascending_pages[OF assms(2), of page "page + 1" "last (?B page)" "last (?B (page + 1))"]
          that less.prems scan_page_nonempty[OF 4] by force
      then have "pred_state (\<lambda>r. (r = Inr None \<longrightarrow> absent_in pages dep target passport (page + 1) npages) \<and>
          (\<forall>f. r = Inr (Some f) \<longrightarrow> match_in pages target direction passport loc (page + 1) npages f))
        (scan_right getPage (scan_page m target direction passport loc) npages (page + 1))"
        using less.hyps[of "page + 1"] False less.prems(1) by simp
      then show ?thesis
        using 4 here absent_in_join[of pages dep target passport page page npages]
        by (auto elim!: pred_conseq intro: match_in_mono)
    qed simp
    then show ?thesis
      using False by (subst scan_right.simps) (auto intro!: pred_on_ok pred_conseq[OF got] split: sum.split)
  qed
qed

lemma pred_findTicketIn:
  fixes pages :: "int \<Rightarrow> ticket_list"
  defines "n \<equiv> TotalPage (pages 1)"
    and "get \<equiv> \<lambda>fetch page. if page = 1 then return (Inr (pages 1)) else fetch page"
  assumes "serves fetch pages" "\<And>e. P (Inl e)"
    and "pred_state P
      (on_ok (bisect (get fetch) target loc 1 n) (\<lambda>hit.
            if hit = 0 then return (Inr None)
            else on_ok (scan_left (get fetch)
                (scan_page ''empty page during left contiguous scan'' target direction passport loc) hit)
              (\<lambda>f. case f of
                 Some t \<Rightarrow> return (Inr (Some t))
               | None \<Rightarrow> scan_right (get fetch)
                   (scan_page ''empty page during right contiguous scan'' target direction passport loc)
                   n (hit + 1))))"
  shows "pred_state P (findTicketIn fetch target direction passport loc)"
proof -
  have got: "pred_state (\<lambda>r. \<forall>pg. r = Inr pg \<longrightarrow> pg = pages 1) (fetch 1)"
    using assms(3) by (simp add: serves_def)
  show ?thesis
    unfolding findTicketIn_def
  proof (rule pred_on_ok, rule pred_conseq[OF got], goal_cases)
    case (1 r)
    then show ?case
      using assms(4) assms(5)[unfolded n_def get_def] by (cases r) (auto simp: Let_def)
  qed
qed

lemma findTicketIn_correct:
  assumes "serves fetch pages" "ascending pages (TotalPage (pages 1)) loc dep"
  shows "pred_state (\<lambda>r.
      (r = Inr None \<longrightarrow> absent_in pages dep target passport 1 (TotalPage (pages 1))) \<and>
      (\<forall>f. r = Inr (Some f) \<longrightarrow> match_in pages target direction passport loc 1 (TotalPage (pages 1)) f))
    (findTicketIn fetch target direction passport loc)"
proof -
  let ?n = "TotalPage (pages 1)"
  let ?get = "\<lambda>page. if page = 1 then return (Inr (pages 1)) else fetch page"
  let ?post = "\<lambda>r. (r = Inr None \<longrightarrow> absent_in pages dep target passport 1 ?n) \<and>
      (\<forall>f. r = Inr (Some f) \<longrightarrow> match_in pages target direction passport loc 1 ?n f)"
  let ?rest = "\<lambda>hit. if hit = 0 then return (Inr None)
            else on_ok (scan_left ?get
                (scan_page ''empty page during left contiguous scan'' target direction passport loc) hit)
              (\<lambda>f. case f of
                 Some t \<Rightarrow> return (Inr (Some t))
               | None \<Rightarrow> scan_right ?get
                   (scan_page ''empty page during right contiguous scan'' target direction passport loc)
                   ?n (hit + 1))"
  have get: "serves ?get pages" using assms(1) by (rule serves_get_page)
  have rest: "pred_state ?post (?rest hit)"
    if "(hit = 0 \<and> target_free pages dep target 1 ?n) \<or> (1 \<le> hit \<and> hit \<le> ?n \<and> spans pages dep target hit)" for hit
  proof (cases "hit = 0")
    case True
    then show ?thesis using that by (simp add: target_free_absent)
  next
    case False
    then have hit: "1 \<le> hit" "hit \<le> ?n" "spans pages dep target hit" using that by auto
    have left: "dep (hd (Bookings (pages hit))) \<le> target" using hit by (simp add: spans_def)
    have right: "target \<le> dep (last (Bookings (pages (hit + 1))))"
      if "hit + 1 \<le> ?n" "Bookings (pages (hit + 1)) \<noteq> []"
      using ascending_pages[OF assms(2), of hit "hit + 1" "last (Bookings (pages hit))"
          "last (Bookings (pages (hit + 1)))"] hit that by (fastforce simp: spans_def)
    have scanned: "pred_state (\<lambda>r. (r = Inr None \<longrightarrow> absent_in pages dep target passport (hit + 1) ?n) \<and>
      (\<forall>f. r = Inr (Some f) \<longrightarrow> match_in pages target direction passport loc (hit + 1) ?n f))
      (scan_right ?get (scan_page ''empty page during right contiguous scan'' target direction passport loc)
        ?n (hit + 1))"
      by (rule scan_right_correct[OF get assms(2)]) (use hit right in auto)
    show ?thesis
      unfolding if_not_P[OF False]
      apply (rule pred_on_ok, rule pred_conseq[OF scan_left_correct[OF get assms(2) hit(2) left]])
      using hit(1) hit(2)
        match_in_mono[of pages target direction passport loc 1 hit _ 1 ?n]
        match_in_mono[of pages target direction passport loc "hit + 1" ?n _ 1 ?n]
        absent_in_join[of pages dep target passport 1 hit ?n]
      by (auto split: sum.split option.split intro!: pred_conseq[OF scanned])
  qed
  show ?thesis
  proof (rule pred_findTicketIn[OF assms(1)], simp, rule pred_on_ok,
      rule pred_conseq[OF bisect_correct[OF get assms(2), of 1 ?n]], goal_cases)
    case (3 r)
    then show ?case using rest by (cases r) (auto simp only: sum.case simp_thms sum.inject sum.distinct)
  qed auto
qed

subsection \<open>Found tickets, whatever the order of the list\<close>

lemma bisect_range:
  "1 \<le> lo \<Longrightarrow> pred_state (\<lambda>r. \<forall>h. r = Inr h \<longrightarrow> h = 0 \<or> lo \<le> h \<and> h \<le> hi) (bisect getPage target loc lo hi)"
proof (induction getPage target loc lo hi rule: bisect.induct)
  case (1 getPage target loc lo hi)
  show ?case
  proof (cases "lo > hi")
    case False
    define mid where "mid = (lo + hi) div 2"
    have mid: "lo \<le> mid" "mid \<le> hi" using False by (auto simp: mid_def)
    note IH1 = 1(1)[OF False mid_def] and IH2 = 1(2)[OF False mid_def]
    show ?thesis
    proof (subst bisect.simps, simp only: False Let_def if_False flip: mid_def, rule pred_on_ok,
        rule pred_conseq[where Q = "\<lambda>_. True"], goal_cases)
      case (2 r)
      show ?case
        using mid \<open>1 \<le> lo\<close>
        by (cases r) (auto intro!: pred_intros pred_conseq[OF IH1] pred_conseq[OF IH2])
    qed (simp add: pred_stateI)
  qed (simp add: bisect.simps)
qed

lemma scan_left_found:
  assumes "serves getPage pages" "page \<le> npages"
  shows "pred_state (\<lambda>r. \<forall>f. r = Inr (Some f) \<longrightarrow> match_in pages target direction passport loc 1 npages f)
    (scan_left getPage (scan_page m target direction passport loc) page)"
  using assms(2)
proof (induction "nat page" arbitrary: page rule: less_induct)
  case less
  have got: "pred_state (\<lambda>r. \<forall>pg. r = Inr pg \<longrightarrow> pg = pages page) (getPage page)"
    using assms(1) by (simp add: serves_def)
  have found: "match_in pages target direction passport loc 1 npages f"
    if "scan_page m target direction passport loc (pages page) = Inr (Found f)" "1 \<le> page" for f
    using scan_page_Found[OF that(1)] that(2) less.prems by (fastforce simp: match_in_def)
  show ?case
    using less.hyps[of "page - 1"] less.prems found
    by (subst scan_left.simps)
      (auto intro!: pred_on_ok pred_conseq[OF got] split: sum.split verdict.split)
qed

lemma scan_right_found:
  assumes "serves getPage pages" "1 \<le> page"
  shows "pred_state (\<lambda>r. \<forall>f. r = Inr (Some f) \<longrightarrow> match_in pages target direction passport loc 1 npages f)
    (scan_right getPage (scan_page m target direction passport loc) npages page)"
  using assms(2)
proof (induction "nat (npages - page + 1)" arbitrary: page rule: less_induct)
  case less
  have got: "pred_state (\<lambda>r. \<forall>pg. r = Inr pg \<longrightarrow> pg = pages page) (getPage page)"
    using assms(1) by (simp add: serves_def)
  have found: "match_in pages target direction passport loc 1 npages f"
    if "scan_page m target direction passport loc (pages page) = Inr (Found f)" "page \<le> npages" for f
    using scan_page_Found[OF that(1)] that(2) less.prems by (fastforce simp: match_in_def)
  show ?case
    using less.hyps[of "page + 1"] less.prems found
    by (subst scan_right.simps)
      (auto intro!: pred_on_ok pred_conseq[OF got] split: sum.split verdict.split)
qed

lemma findTicketIn_found:
  assumes "serves fetch pages"
  shows "pred_state (\<lambda>r. \<forall>f. r = Inr (Some f) \<longrightarrow>
      match_in pages target direction passport loc 1 (TotalPage (pages 1)) f)
    (findTicketIn fetch target direction passport loc)"
proof -
  note get = serves_get_page[OF assms]
  show ?thesis
    by (rule pred_findTicketIn[OF assms(1)])
      (auto split: sum.split option.split intro!: pred_on_ok pred_conseq[OF bisect_range[of 1]]
        pred_conseq[OF scan_left_found[OF get]] pred_conseq[OF scan_right_found[OF get]])
qed

subsection \<open>A clean list is conclusive\<close>

text \<open>Every page can be fetched and has rows; every row's departure parses; the passenger's
  rows at the target name their station clearly.\<close>

definition clean :: "(int \<Rightarrow> ('s, ticket_list result) state) \<Rightarrow> (int \<Rightarrow> ticket_list) \<Rightarrow> instant \<Rightarrow> string \<Rightarrow> string
    \<Rightarrow> location \<Rightarrow> bool" where
  "clean fetch pages target direction passport loc \<longleftrightarrow>
     1 \<le> TotalPage (pages 1) \<and>
     (\<forall>p \<in> {1..TotalPage (pages 1)}.
        pred_state (\<lambda>r. r = Inr (pages p)) (fetch p) \<and> Bookings (pages p) \<noteq> [] \<and>
        (\<forall>b \<in> set (Bookings (pages p)). \<exists>t. departOf b loc = Inr t \<and>
           (t = target \<longrightarrow> snd (ticketForPassport b passport) \<longrightarrow>
              classifyDirection (FromStationName b) = (direction, True))))"

lemma contains_datetime_clean:
  "\<forall>b \<in> set bs. \<exists>t. departOf b loc = Inr t \<Longrightarrow> \<exists>c. contains_datetime bs target loc None = Inr c"
  by (induction bs) auto

lemma match_rows_clean:
  "\<forall>b \<in> set bs. \<exists>t. departOf b loc = Inr t \<and>
     (t = target \<longrightarrow> snd (ticketForPassport b passport) \<longrightarrow>
        classifyDirection (FromStationName b) = (direction, True)) \<Longrightarrow>
   snd (match_rows bs target direction passport loc None) = None"
  by (induction bs) (auto split: prod.splits)

lemma scan_page_clean:
  assumes "Bookings pg \<noteq> []" "\<forall>b \<in> set (Bookings pg). \<exists>t. departOf b loc = Inr t \<and>
     (t = target \<longrightarrow> snd (ticketForPassport b passport) \<longrightarrow>
        classifyDirection (FromStationName b) = (direction, True))"
  shows "\<exists>v. scan_page m target direction passport loc pg = Inr v"
proof -
  from assms(2) have "\<forall>b \<in> set (Bookings pg). \<exists>t. departOf b loc = Inr t" by blast
  then obtain c where "contains_datetime (Bookings pg) target loc None = Inr c"
    using contains_datetime_clean by blast
  then show ?thesis
    using assms(1) match_rows_clean[OF assms(2)]
    by (auto simp: scan_page_def matchPage_def pageContainsDatetime_def split: prod.split option.split)
qed

lemma bisect_clean:
  assumes "\<And>p. 1 \<le> p \<Longrightarrow> p \<le> npages \<Longrightarrow> pred_state (\<lambda>r. r = Inr (pages p)) (getPage p)"
    "\<And>p. 1 \<le> p \<Longrightarrow> p \<le> npages \<Longrightarrow> Bookings (pages p) \<noteq> [] \<and>
        (\<forall>b \<in> set (Bookings (pages p)). \<exists>t. departOf b loc = Inr t)"
  shows "1 \<le> lo \<Longrightarrow> hi \<le> npages \<Longrightarrow> pred_state (\<lambda>r. \<exists>h. r = Inr h) (bisect getPage target loc lo hi)"
  using assms
proof (induction getPage target loc lo hi rule: bisect.induct)
  case (1 getPage target loc lo hi)
  show ?case
  proof (cases "lo > hi")
    case False
    define mid where "mid = (lo + hi) div 2"
    have mid: "lo \<le> mid" "mid \<le> hi" "1 \<le> mid" "mid \<le> npages"
      using False 1(3,4) by (auto simp: mid_def)
    note IH1 = 1(1)[OF False mid_def] and IH2 = 1(2)[OF False mid_def] and prems = 1(3-6)
    have pg: "Bookings (pages mid) \<noteq> []"
      "\<exists>t. departOf (hd (Bookings (pages mid))) loc = Inr t"
      "\<exists>t. departOf (last (Bookings (pages mid))) loc = Inr t"
      using prems(4)[OF mid(3,4)] by auto
    then obtain t u where tu: "departOf (hd (Bookings (pages mid))) loc = Inr t"
      "departOf (last (Bookings (pages mid))) loc = Inr u" by auto
    have "pred_state (\<lambda>r. \<exists>h. r = Inr h) (bisect getPage target loc lo (mid - 1))" if "target < t"
      by (rule IH1) (use pg tu that prems mid in auto)
    moreover have "pred_state (\<lambda>r. \<exists>h. r = Inr h) (bisect getPage target loc (mid + 1) hi)"
      if "\<not> target < t" "u < target"
      by (rule IH2) (use pg tu that prems mid in auto)
    ultimately show ?thesis
      using pg(1) tu
      by (subst bisect.simps, simp only: False Let_def if_False flip: mid_def)
        (auto intro!: pred_on_ok pred_conseq[OF prems(3)[OF mid(3,4)]])
  qed (simp add: bisect.simps)
qed

lemma scan_left_clean:
  assumes "\<And>p. 1 \<le> p \<Longrightarrow> p \<le> npages \<Longrightarrow> pred_state (\<lambda>r. r = Inr (pages p)) (getPage p)"
    "\<And>p. 1 \<le> p \<Longrightarrow> p \<le> npages \<Longrightarrow> \<exists>v. judge (pages p) = Inr v"
  shows "page \<le> npages \<Longrightarrow> pred_state (\<lambda>r. \<exists>f. r = Inr f) (scan_left getPage judge page)"
proof (induction "nat page" arbitrary: page rule: less_induct)
  case less
  show ?case
  proof (cases "page < 1")
    case False
    then obtain v where "judge (pages page) = Inr v" using assms(2)[of page] less.prems by auto
    then show ?thesis
      using less.hyps[of "page - 1"] less.prems False
      by (subst scan_left.simps)
        (auto intro!: pred_on_ok pred_conseq[OF assms(1)[of page]] split: verdict.split)
  qed (simp add: scan_left.simps)
qed

lemma scan_right_clean:
  assumes "\<And>p. 1 \<le> p \<Longrightarrow> p \<le> npages \<Longrightarrow> pred_state (\<lambda>r. r = Inr (pages p)) (getPage p)"
    "\<And>p. 1 \<le> p \<Longrightarrow> p \<le> npages \<Longrightarrow> \<exists>v. judge (pages p) = Inr v"
  shows "1 \<le> page \<Longrightarrow> pred_state (\<lambda>r. \<exists>f. r = Inr f) (scan_right getPage judge npages page)"
proof (induction "nat (npages - page + 1)" arbitrary: page rule: less_induct)
  case less
  show ?case
  proof (cases "page > npages")
    case False
    then obtain v where "judge (pages page) = Inr v" using assms(2)[of page] less.prems by auto
    then show ?thesis
      using less.hyps[of "page + 1"] less.prems False
      by (subst scan_right.simps)
        (auto intro!: pred_on_ok pred_conseq[OF assms(1)[of page]] split: verdict.split)
  qed (simp add: scan_right.simps)
qed

lemma findTicketIn_clean:
  assumes "clean fetch pages target direction passport loc"
  shows "pred_state (\<lambda>r. \<exists>f. r = Inr f) (findTicketIn fetch target direction passport loc)"
proof -
  let ?n = "TotalPage (pages 1)"
  let ?get = "\<lambda>page. if page = 1 then return (Inr (pages 1)) else fetch page"
  have n: "1 \<le> ?n" and b1: "Bookings (pages 1) \<noteq> []" and f1: "pred_state (\<lambda>r. r = Inr (pages 1)) (fetch 1)"
    using assms by (auto simp: clean_def)
  have get: "pred_state (\<lambda>r. r = Inr (pages p)) (?get p)" if "1 \<le> p" "p \<le> ?n" for p
    using assms that by (auto simp: clean_def)
  have judge: "\<exists>v. scan_page m target direction passport loc (pages p) = Inr v" if "1 \<le> p" "p \<le> ?n" for p m
    using assms that by (intro scan_page_clean) (auto simp: clean_def)
  have parse: "Bookings (pages p) \<noteq> [] \<and> (\<forall>b \<in> set (Bookings (pages p)). \<exists>t. departOf b loc = Inr t)"
    if "1 \<le> p" "p \<le> ?n" for p
    using assms that by (fastforce simp: clean_def)
  have hit: "pred_state (\<lambda>r. \<exists>h. r = Inr h \<and> (h = 0 \<or> 1 \<le> h \<and> h \<le> ?n)) (bisect ?get target loc 1 ?n)"
  proof -
    have "pred_state (\<lambda>r. \<exists>h. r = Inr h) (bisect ?get target loc 1 ?n)"
      by (rule bisect_clean[OF get parse]) auto
    moreover have "pred_state (\<lambda>r. \<forall>h. r = Inr h \<longrightarrow> h = 0 \<or> 1 \<le> h \<and> h \<le> ?n) (bisect ?get target loc 1 ?n)"
      by (rule bisect_range) simp
    ultimately show ?thesis by (fastforce simp: state.pred_set)
  qed
  have left: "pred_state (\<lambda>r. \<exists>f. r = Inr f)
      (scan_left ?get (scan_page m target direction passport loc) h)" if "h \<le> ?n" for m h
    by (rule scan_left_clean[where npages = ?n and pages = pages]) (use get judge that in auto)
  have right: "pred_state (\<lambda>r. \<exists>f. r = Inr f)
      (scan_right ?get (scan_page m target direction passport loc) ?n h)" if "1 \<le> h" for m h
    by (rule scan_right_clean[where pages = pages]) (use get judge that in auto)
  show ?thesis
    unfolding findTicketIn_def Let_def
    apply (rule pred_on_ok, rule pred_conseq[OF f1])
    using n b1
    by (auto split: option.split intro!: pred_on_ok pred_conseq[OF hit]
        pred_conseq[OF left] pred_conseq[OF right])
qed

section \<open>Properties\<close>

text \<open>An account of two pages with one row each, used by the witnesses.\<close>

definition example_row :: "string \<Rightarrow> string \<Rightarrow> string \<Rightarrow> ktmb_booking" where
  "example_row no depart passport =
     \<lparr>BookingNo = no, DepartFromLocalDateTime = depart, FromStationName = ''Woodlands CIQ'',
      Trips = [\<lparr>Tickets = [\<lparr>PassengerPassportNo = passport, TicketNo = ''T'' @ no\<rparr>]\<rparr>]\<rparr>"

definition example_pages :: "int \<Rightarrow> ticket_list" where
  "example_pages p = \<lparr>Bookings = [if p = 1 then example_row ''K1'' ''2026-03-01T08:30:00'' ''e111''
      else example_row ''K2'' ''2026-03-02T08:30:00'' '' e222 ''], TotalPage = 2\<rparr>"

definition example_fetch :: "int \<Rightarrow> (unit, ticket_list result) state" where
  "example_fetch p = return (Inr (example_pages p))"

definition example_target :: instant where
  "example_target = date 2026 3 2 8 30 0 0 28800"

lemma example_serves: "serves example_fetch example_pages"
  by (simp add: serves_def example_fetch_def)

lemma example_departs:
  "departOf (example_row no ''2026-03-01T08:30:00'' ps) 28800 = Inr 1772325000000000000"
  "departOf (example_row no ''2026-03-02T08:30:00'' ps) 28800 = Inr 1772411400000000000"
  "example_target = 1772411400000000000"
  unfolding departOf_def example_row_def example_target_def by code_simp+

lemma example_rows: "rows example_pages 2 = [example_row ''K1'' ''2026-03-01T08:30:00'' ''e111'',
    example_row ''K2'' ''2026-03-02T08:30:00'' '' e222 '']"
  by (simp add: rows_def example_pages_def upto_rec1)

definition example_dep :: "ktmb_booking \<Rightarrow> instant" where
  "example_dep b = (case departOf b 28800 of Inl e \<Rightarrow> 0 | Inr t \<Rightarrow> t)"

lemma example_ascending: "ascending example_pages (TotalPage (example_pages 1)) 28800 example_dep"
  by (simp add: ascending_def example_rows example_departs example_dep_def example_pages_def[of 1])

text \<open>C1: an absent verdict is right. When the account's list ascends by departure and does not
  change during the scan, and \<open>findTicketIn\<close> returns \<open>(nil, nil)\<close>, no row of any page departing
  at the target carries the passenger's passport, not even a row whose departure does not parse.\<close>

theorem findTicketIn_absent:
  assumes "serves fetch pages" "ascending pages (TotalPage (pages 1)) loc dep"
    and "run_state (findTicketIn fetch target direction passport loc) s = (Inr None, s')"
    and "b \<in> set (rows pages (TotalPage (pages 1)))" "dep b = target"
  shows "\<not> snd (ticketForPassport b passport)"
  using pred_stateD[OF findTicketIn_correct[OF assms(1,2)] assms(3)] assms(4,5)
  by (auto simp: absent_in_def set_rows)

theorem findTicketIn_absent_witness:
  "\<not> snd (ticketForPassport (example_row ''K2'' ''2026-03-02T08:30:00'' '' e222 '') ''E111'')"
proof (rule findTicketIn_absent[OF example_serves example_ascending])
  show "run_state (findTicketIn example_fetch example_target ''WToJ'' ''E111'' 28800) () = (Inr None, ())"
    by code_simp
qed (simp_all add: example_pages_def[of 1] example_rows example_departs example_dep_def)

text \<open>A found ticket is ours. Whatever the order of the list, a ticket \<open>findTicketIn\<close> returns is
  a row of the list that departs exactly at the target, carries the passport under the returned
  ticket number, and whose station positively confirms the wanted direction.\<close>

theorem findTicketIn_found_sound:
  assumes "serves fetch pages"
    and "run_state (findTicketIn fetch target direction passport loc) s = (Inr (Some f), s')"
  shows "\<exists>b. b \<in> set (rows pages (TotalPage (pages 1))) \<and>
      departOf b loc = Inr target \<and>
      ticketForPassport b passport = (found_TicketNo f, True) \<and>
      classifyDirection (FromStationName b) = (direction, True) \<and>
      BookingNo b = found_BookingNo f"
  using pred_stateD[OF findTicketIn_found[OF assms(1)] assms(2)]
  by (fastforce simp: match_in_def is_match_def set_rows)

theorem findTicketIn_found_sound_witness:
  "\<exists>b. b \<in> set (rows example_pages (TotalPage (example_pages 1))) \<and>
      departOf b 28800 = Inr example_target \<and>
      ticketForPassport b ''E222'' = (''TK2'', True) \<and>
      classifyDirection (FromStationName b) = (''WToJ'', True) \<and>
      BookingNo b = ''K2''"
proof -
  have run: "run_state (findTicketIn example_fetch example_target ''WToJ'' ''E222'' 28800) () =
      (Inr (Some \<lparr>found_BookingNo = ''K2'', found_TicketNo = ''TK2''\<rparr>), ())"
    by code_simp
  show ?thesis
    using findTicketIn_found_sound[OF example_serves run] by simp
qed

text \<open>C2: a clean account gets a verdict. When every page can be fetched and has rows, every
  departure parses and the passenger's rows at the target name the station of the direction, the
  scan ends without an error, and it finds a ticket exactly when the passenger has one.\<close>

theorem findTicketIn_conclusive:
  assumes "clean fetch pages target direction passport loc"
    and "ascending pages (TotalPage (pages 1)) loc dep" "serves fetch pages"
  shows "\<exists>found. fst (run_state (findTicketIn fetch target direction passport loc) s) = Inr found \<and>
      (found \<noteq> None \<longleftrightarrow> (\<exists>b. b \<in> set (rows pages (TotalPage (pages 1))) \<and>
         departOf b loc = Inr target \<and> snd (ticketForPassport b passport)))"
proof -
  obtain r s' where run: "run_state (findTicketIn fetch target direction passport loc) s = (r, s')"
    by fastforce
  obtain found where r: "r = Inr found"
    using pred_stateD[OF findTicketIn_clean[OF assms(1)] run] by auto
  show ?thesis
  proof (cases found)
    case None
    then show ?thesis
      using pred_stateD[OF findTicketIn_correct[OF assms(3,2)] run] assms(2) run r
      by (fastforce simp: absent_in_def set_rows ascending_def)
  next
    case (Some f)
    then show ?thesis
      using pred_stateD[OF findTicketIn_found[OF assms(3)] run] run r
      by (force simp: match_in_def is_match_def set_rows)
  qed
qed

theorem findTicketIn_conclusive_witness:
  "\<exists>found. fst (run_state (findTicketIn example_fetch example_target ''WToJ'' ''E222'' 28800) ()) = Inr found \<and>
      (found \<noteq> None \<longleftrightarrow> (\<exists>b. b \<in> set (rows example_pages (TotalPage (example_pages 1))) \<and>
         departOf b 28800 = Inr example_target \<and> snd (ticketForPassport b ''E222'')))"
proof (rule findTicketIn_conclusive[OF _ example_ascending example_serves])
  have "classifyDirection ''Woodlands CIQ'' = (''WToJ'', True)" by code_simp
  then show "clean example_fetch example_pages example_target ''WToJ'' ''E222'' 28800"
    by (auto simp: clean_def example_fetch_def example_pages_def example_departs)
      (simp_all add: example_row_def)
qed
end
