(* ===== verification/Recoverer.thy ===== *)
theory Recoverer
  imports Ktmb_Scan
begin

text \<open>
  lib/recoverer/process.go: the classification and resolution of one parked booking.
  zinc, KTMB, the session service, redis and the clock are the fields of an environment
  over an abstract external state; every call is logged with its response. The calls
  to the generated zinc client take their parameters as the code sets them; the multipart
  form of an in-memory PDF cannot fail, and logging is left out.
\<close>

section \<open>Data\<close>

type_synonym uuid = nat
type_synonym pdf = string

record passenger =
  FullName :: "string option"
  Gender :: "string option"
  PassportExpiry :: "string option"
  PassportNumber :: "string option"

text \<open>The fields of zinc's \<open>BookingPrincipalRes\<close> the program reads.\<close>

record zinc_booking =
  zb_Id :: uuid
  zb_Status :: "string option"
  zb_BookingNo :: "string option"
  zb_TicketNo :: "string option"
  zb_Date :: "string option"
  zb_Time :: "string option"
  zb_Direction :: "string option"
  zb_Passenger :: passenger

text \<open>lib/dto.go\<close>

record RecoverDto =
  dto_BookingId :: string
  dto_Direction :: string
  dto_Date :: string
  dto_Time :: string
  dto_FullName :: string
  dto_Gender :: string
  dto_PassportExpiry :: string
  dto_PassportNumber :: string
  dto_BookingNo :: string
  dto_TicketNo :: string
  dto_Attempts :: int

datatype transition = Mark_Recovering | Mark_Duplicate | Mark_Manual | Recover_Revert

text \<open>The optional parameters of \<open>GET Booking\<close>; limits and offsets are int32.\<close>

record list_params =
  lp_PassportNumber :: "string option"
  lp_Date :: "string option"
  lp_Time :: "string option"
  lp_Direction :: "string option"
  lp_Status :: "string option"
  lp_MissingTicket :: "bool option"
  lp_Limit :: "int option"
  lp_Skip :: "int option"

definition no_params :: list_params where
  "no_params = \<lparr>lp_PassportNumber = None, lp_Date = None, lp_Time = None, lp_Direction = None,
     lp_Status = None, lp_MissingTicket = None, lp_Limit = None, lp_Skip = None\<rparr>"

record ListTicketRes =
  lt_Status :: bool
  lt_Data :: ticket_list

record check_report =
  rp_Status :: string
  rp_KtmbBookingNo :: "string option"
  rp_KtmbTicketNo :: "string option"
  rp_ClaimedBy :: "uuid option"
  rp_Error :: "string option"

text \<open>A value popped off a redis list: an envelope that does not unmarshal, an envelope
  whose message is not a string, or a sealed message.\<close>

datatype queue_item = Bad_Envelope | Bad_Message | Sealed string

datatype popped = Pop_Error error | Pop_Empty | Pop_Item queue_item

section \<open>The services and the log\<close>

type_synonym 'b reply = "'b response result"

record 'x recoverer_env =
  uuid_parse :: "string \<Rightarrow> uuid option"
  uuid_string :: "uuid \<Rightarrow> string"
  time_now :: "'x \<Rightarrow> instant \<times> 'x"
  ctx_err :: "'x \<Rightarrow> error option \<times> 'x"
  sleep :: "duration \<Rightarrow> 'x \<Rightarrow> bool \<times> 'x"
  zinc_get_booking :: "uuid \<Rightarrow> 'x \<Rightarrow> zinc_booking reply \<times> 'x"
  zinc_transition :: "transition \<Rightarrow> uuid \<Rightarrow> 'x \<Rightarrow> unit reply \<times> 'x"
  zinc_complete :: "uuid \<Rightarrow> string \<Rightarrow> string \<Rightarrow> pdf \<Rightarrow> 'x \<Rightarrow> unit reply \<times> 'x"
  zinc_attach :: "uuid \<Rightarrow> string \<Rightarrow> string \<Rightarrow> pdf \<Rightarrow> 'x \<Rightarrow> unit reply \<times> 'x"
  zinc_list :: "list_params \<Rightarrow> 'x \<Rightarrow> zinc_booking list reply \<times> 'x"
  zinc_expire :: "'x \<Rightarrow> zinc_booking list reply \<times> 'x"
  zinc_check_result :: "uuid \<Rightarrow> check_report \<Rightarrow> 'x \<Rightarrow> unit reply \<times> 'x"
  session_login :: "'x \<Rightarrow> string result \<times> 'x"
  ktmb_list_ticket :: "string \<Rightarrow> int \<Rightarrow> 'x \<Rightarrow> ListTicketRes result \<times> 'x"
  ktmb_print_ticket :: "string \<Rightarrow> string \<Rightarrow> string \<Rightarrow> 'x \<Rightarrow> pdf result \<times> 'x"
  redis_llen :: "'x \<Rightarrow> int result \<times> 'x"
  redis_rpop :: "'x \<Rightarrow> popped \<times> 'x"
  redis_lpush :: "string \<Rightarrow> 'x \<Rightarrow> unit result \<times> 'x"
  redis_lrange :: "'x \<Rightarrow> queue_item list result \<times> 'x"
  encrypt_any :: "RecoverDto \<Rightarrow> 'x \<Rightarrow> string result \<times> 'x"
  decrypt_any :: "string \<Rightarrow> RecoverDto result"

datatype event =
    Now instant
  | Ctx_Err "error option"
  | Slept duration bool
  | Get_Booking uuid "zinc_booking reply"
  | Transition transition uuid "unit reply"
  | Complete uuid string string pdf "unit reply"
  | Attach uuid string string pdf "unit reply"
  | List_Bookings list_params "zinc_booking list reply"
  | Expire "zinc_booking list reply"
  | Check_Result uuid check_report "unit reply"
  | Login "string result"
  | List_Ticket int "ListTicketRes result"
  | Print_Ticket string string "pdf result"
  | LLen "int result"
  | RPop popped
  | LPush string "unit result"
  | LRange "queue_item list result"
  | Encrypt RecoverDto "string result"

record recoverer_config =
  MaxAttempts :: int
  RepairEnable :: bool
  RepairLimit :: int
  RepairNotFoundPatterns :: "string list"
  Loc :: location

type_synonym ('x, 'a) action = "('x, event, 'a) proc"

definition zincDateTimeLayout :: "chunk list" where
  "zincDateTimeLayout =
     [Day, Lit (CHR ''-''), Month, Lit (CHR ''-''), Year, Lit (CHR '' ''),
      Hour, Lit (CHR '':''), Minute, Lit (CHR '':''), Second]"

definition terminalStatuses :: "string \<Rightarrow> bool" where
  "terminalStatuses s \<longleftrightarrow> s \<in> {''Completed'', ''Cancelled'', ''Refunded'', ''Duplicate'',
     ''Terminated'', ''RequireManualIntervention''}"

section \<open>Calls to zinc\<close>

definition with_uuid :: "'x recoverer_env \<Rightarrow> string \<Rightarrow> (uuid \<Rightarrow> ('x, 'a result) action) \<Rightarrow> ('x, 'a result) action" where
  "with_uuid env bookingId k =
     (case uuid_parse env bookingId of None \<Rightarrow> return (Inl Uuid_Error) | Some u \<Rightarrow> k u)"

definition getBooking :: "'x recoverer_env \<Rightarrow> string \<Rightarrow> ('x, zinc_booking option result) action" where
  "getBooking env bookingId = with_uuid env bookingId (\<lambda>u.
     on_ok (invoke (zinc_get_booking env u) (Get_Booking u)) (\<lambda>resp.
       return (if StatusCode resp = 404 then Inr None
         else if StatusCode resp \<noteq> 200 then Inl (Status_Error ''failed to get booking'' (StatusCode resp))
         else case Body resp of
             Unreadable \<Rightarrow> Inl Read_Error
           | Garbled \<Rightarrow> Inl Decode_Error
           | Decoded b \<Rightarrow> Inr (Some b))))"

definition postStatus :: "'x recoverer_env \<Rightarrow> string \<Rightarrow> transition \<Rightarrow> ('x, unit result) action" where
  "postStatus env bookingId t = with_uuid env bookingId (\<lambda>u.
     on_ok (invoke (zinc_transition env t u) (Transition t u)) (\<lambda>resp.
       return (if StatusCode resp \<noteq> 200 then Inl (Status_Error ''failed to mark booking'' (StatusCode resp))
         else Inr ())))"

definition markRecovering :: "'x recoverer_env \<Rightarrow> string \<Rightarrow> ('x, unit result) action" where
  "markRecovering env bookingId = postStatus env bookingId Mark_Recovering"

definition markDuplicate :: "'x recoverer_env \<Rightarrow> string \<Rightarrow> ('x, unit result) action" where
  "markDuplicate env bookingId = postStatus env bookingId Mark_Duplicate"

definition markManualIntervention :: "'x recoverer_env \<Rightarrow> string \<Rightarrow> ('x, unit result) action" where
  "markManualIntervention env bookingId = postStatus env bookingId Mark_Manual"

definition completeBooking :: "'x recoverer_env \<Rightarrow> string \<Rightarrow> string \<Rightarrow> string \<Rightarrow> pdf \<Rightarrow> ('x, unit result) action" where
  "completeBooking env bookingId bookingNo ticketNo pdf = with_uuid env bookingId (\<lambda>u.
     on_ok (invoke (zinc_complete env u bookingNo ticketNo pdf) (Complete u bookingNo ticketNo pdf)) (\<lambda>resp.
       return (if StatusCode resp \<noteq> 200 then Inl (Status_Error ''failed to complete booking'' (StatusCode resp))
         else Inr ())))"

definition recycleOrDuplicate :: "'x recoverer_env \<Rightarrow> string \<Rightarrow> ('x, unit result) action" where
  "recycleOrDuplicate env bookingId = with_uuid env bookingId (\<lambda>u.
     on_ok (invoke (zinc_transition env Recover_Revert u) (Transition Recover_Revert u)) (\<lambda>resp.
       if StatusCode resp = 200 then return (Inr ())
       else if StatusCode resp = 409 then markDuplicate env bookingId
       else if StatusCode resp = 400 then return (Inr ())
       else return (Inl (Status_Error ''failed to recycle booking'' (StatusCode resp)))))"

fun first_claim :: "zinc_booking list \<Rightarrow> string \<Rightarrow> zinc_booking option" where
  "first_claim [] no = None"
| "first_claim (b # bs) no = (if zb_BookingNo b = Some no then Some b else first_claim bs no)"

definition claim_params :: "RecoverDto \<Rightarrow> list_params" where
  "claim_params dto = no_params\<lparr>
     lp_PassportNumber := Some (dto_PassportNumber dto),
     lp_Date := Some (dto_Date dto),
     lp_Time := Some (dto_Time dto),
     lp_Direction := Some (dto_Direction dto),
     lp_Status := Some ''Completed'',
     lp_Limit := Some 100\<rparr>"

definition claimant :: "'x recoverer_env \<Rightarrow> RecoverDto \<Rightarrow> string \<Rightarrow> ('x, zinc_booking option result) action" where
  "claimant env dto ktmbBookingNo =
     on_ok (invoke (zinc_list env (claim_params dto)) (List_Bookings (claim_params dto))) (\<lambda>resp.
       return (if StatusCode resp \<noteq> 200
         then Inl (Status_Error ''failed to search completed bookings'' (StatusCode resp))
         else case Body resp of
             Unreadable \<Rightarrow> Inl Read_Error
           | Garbled \<Rightarrow> Inl Decode_Error
           | Decoded bookings \<Rightarrow> Inr (first_claim bookings ktmbBookingNo)))"

definition isClaimed :: "'x recoverer_env \<Rightarrow> RecoverDto \<Rightarrow> string \<Rightarrow> ('x, bool result) action" where
  "isClaimed env dto ktmbBookingNo =
     on_ok (claimant env dto ktmbBookingNo) (\<lambda>b. return (Inr (b \<noteq> None)))"

section \<open>Calls to KTMB\<close>

definition listPage :: "'x recoverer_env \<Rightarrow> string \<Rightarrow> int \<Rightarrow> ('x, ticket_list result) action" where
  "listPage env userData page =
     on_ok (invoke (ktmb_list_ticket env userData page) (List_Ticket page)) (\<lambda>res.
       return (if \<not> lt_Status res then Inl (Msg ''failed to list tickets'') else Inr (lt_Data res)))"

definition fetchPage :: "'x recoverer_env \<Rightarrow> string \<Rightarrow> int \<Rightarrow> ('x, ticket_list result) action" where
  "fetchPage env userData page = do {
     e \<leftarrow> invoke (ctx_err env) Ctx_Err;
     case e of Some err \<Rightarrow> return (Inl err) | None \<Rightarrow> listPage env userData page
   }"

definition findTicket :: "'x recoverer_env \<Rightarrow> recoverer_config \<Rightarrow> string \<Rightarrow> instant \<Rightarrow> string \<Rightarrow> string
    \<Rightarrow> ('x, foundTicket option result) action" where
  "findTicket env cfg userData target direction passport =
     findTicketIn (fetchPage env userData) target direction passport (Loc cfg)"

definition scanOurAccount :: "'x recoverer_env \<Rightarrow> recoverer_config \<Rightarrow> instant \<Rightarrow> string \<Rightarrow> string
    \<Rightarrow> ('x, foundTicket option result) action" where
  "scanOurAccount env cfg target direction passport = do {
     r \<leftarrow> invoke (session_login env) Login;
     case r of
       Inl e \<Rightarrow> return (Inl (Wrapped ''failed to login to KTMB'' e))
     | Inr userData \<Rightarrow> findTicket env cfg userData target direction passport
   }"

definition forceComplete :: "'x recoverer_env \<Rightarrow> string \<Rightarrow> string \<Rightarrow> string \<Rightarrow> ('x, unit result) action" where
  "forceComplete env bookingId bookingNo ticketNo =
     on_ok (invoke (session_login env) Login) (\<lambda>userData.
       on_ok (invoke (ktmb_print_ticket env userData bookingNo ticketNo) (Print_Ticket bookingNo ticketNo))
         (\<lambda>pdf. completeBooking env bookingId bookingNo ticketNo pdf))"

section \<open>One parked booking\<close>

definition departure :: "recoverer_config \<Rightarrow> RecoverDto \<Rightarrow> instant result" where
  "departure cfg dto = parse_in_location zincDateTimeLayout (dto_Date dto @ '' '' @ dto_Time dto) (Loc cfg)"

text \<open>The tail of \<open>ProcessItem\<close>, once the booking is known to be Recovering.\<close>

definition resolveByScan :: "'x recoverer_env \<Rightarrow> recoverer_config \<Rightarrow> RecoverDto \<Rightarrow> ('x, unit result) action" where
  "resolveByScan env cfg dto =
     (case departure cfg dto of
        Inl _ \<Rightarrow> markManualIntervention env (dto_BookingId dto)
      | Inr target \<Rightarrow> do {
          now \<leftarrow> invoke (time_now env) Now;
          if target < now then markManualIntervention env (dto_BookingId dto)
          else on_ok (scanOurAccount env cfg target (dto_Direction dto) (dto_PassportNumber dto)) (\<lambda>found.
            case found of
              Some f \<Rightarrow> on_ok (isClaimed env dto (found_BookingNo f)) (\<lambda>claimed.
                if claimed then markDuplicate env (dto_BookingId dto)
                else forceComplete env (dto_BookingId dto) (found_BookingNo f) (found_TicketNo f))
            | None \<Rightarrow> recycleOrDuplicate env (dto_BookingId dto))
        })"

definition resolve :: "'x recoverer_env \<Rightarrow> recoverer_config \<Rightarrow> RecoverDto \<Rightarrow> ('x, unit result) action" where
  "resolve env cfg dto =
     (if dto_BookingNo dto \<noteq> '''' \<and> dto_TicketNo dto \<noteq> ''''
      then forceComplete env (dto_BookingId dto) (dto_BookingNo dto) (dto_TicketNo dto)
      else resolveByScan env cfg dto)"

definition ProcessItem :: "'x recoverer_env \<Rightarrow> recoverer_config \<Rightarrow> RecoverDto \<Rightarrow> ('x, unit result) action" where
  "ProcessItem env cfg dto =
     on_ok (getBooking env (dto_BookingId dto)) (\<lambda>booking.
       case booking of
         None \<Rightarrow> return (Inr ())
       | Some b \<Rightarrow>
          (let bookStatus = deref (zb_Status b) in
           if terminalStatuses bookStatus then return (Inr ())
           else if deref (zb_BookingNo b) \<noteq> '''' then markManualIntervention env (dto_BookingId dto)
           else if bookStatus = ''Buying''
             then on_ok (markRecovering env (dto_BookingId dto)) (\<lambda>_. resolve env cfg dto)
           else if bookStatus \<noteq> ''Recovering'' then markManualIntervention env (dto_BookingId dto)
           else resolve env cfg dto))"

section \<open>What each call leaves in the log\<close>

lemma effect_all_on_ok:
  assumes "effect p (\<lambda>_ tr. list_all Q tr)" "\<And>a. effect (k a) (\<lambda>_ tr. list_all Q tr)"
  shows "effect (on_ok p k) (\<lambda>_ tr. list_all Q tr)"
  by (rule effect_on_ok, rule effect_conseq[OF assms(1)])
    (use assms(2) in \<open>auto split: sum.split\<close>)

lemma effect_all_bind:
  assumes "effect p (\<lambda>_ tr. list_all Q tr)" "\<And>a. effect (k a) (\<lambda>_ tr. list_all Q tr)"
  shows "effect (p \<bind> k) (\<lambda>_ tr. list_all Q tr)"
  by (rule effect_bind, rule effect_conseq[OF assms(1)])
    (use assms(2) in auto)

lemma effect_all_return: "effect (return a) (\<lambda>_ tr. list_all Q tr)"
  by simp

lemma effect_all_invoke: "(\<And>r. Q (ev r)) \<Longrightarrow> effect (invoke f ev) (\<lambda>_ tr. list_all Q tr)"
  by (rule effect_invoke) simp

lemmas effect_all_intros = effect_all_on_ok effect_all_bind effect_all_return effect_all_invoke
  effect_if effect_case_sum effect_case_option effect_case_prod effect_Let

lemma effect_bisect:
  assumes "\<And>p. effect (getPage p) (\<lambda>_ tr. list_all Q tr)"
  shows "effect (bisect getPage target loc lo hi) (\<lambda>_ tr. list_all Q tr)"
  using assms
proof (induction getPage target loc lo hi rule: bisect.induct)
  case (1 getPage target loc lo hi)
  show ?case
    using 1 by (subst bisect.simps) (intro effect_all_intros; simp)
qed

lemma effect_scan_left:
  assumes "\<And>p. effect (getPage p) (\<lambda>_ tr. list_all Q tr)"
  shows "effect (scan_left getPage judge page) (\<lambda>_ tr. list_all Q tr)"
  using assms
proof (induction getPage judge page rule: scan_left.induct)
  case (1 getPage judge page)
  then show ?case
    by (subst scan_left.simps) (auto intro!: effect_all_intros split: sum.split verdict.split)
qed

lemma effect_scan_right:
  assumes "\<And>p. effect (getPage p) (\<lambda>_ tr. list_all Q tr)"
  shows "effect (scan_right getPage judge npages page) (\<lambda>_ tr. list_all Q tr)"
  using assms
proof (induction getPage judge npages page rule: scan_right.induct)
  case (1 getPage judge npages page)
  then show ?case
    by (subst scan_right.simps) (auto intro!: effect_all_intros split: sum.split verdict.split)
qed

lemma effect_findTicketIn:
  assumes "\<And>p. effect (fetch p) (\<lambda>_ tr. list_all Q tr)"
  shows "effect (findTicketIn fetch target direction passport loc) (\<lambda>_ tr. list_all Q tr)"
  unfolding findTicketIn_def Let_def
  by (intro effect_all_intros effect_bisect effect_scan_left effect_scan_right assms)

text \<open>The calls that only read.\<close>

fun is_scan_event :: "event \<Rightarrow> bool" where
  "is_scan_event (Login r) = True"
| "is_scan_event (Ctx_Err r) = True"
| "is_scan_event (List_Ticket p r) = True"
| "is_scan_event e = False"

lemma effect_scanOurAccount:
  "effect (scanOurAccount env cfg target direction passport) (\<lambda>_ tr. list_all is_scan_event tr)"
  unfolding scanOurAccount_def findTicket_def fetchPage_def listPage_def
  by (intro effect_all_intros effect_findTicketIn; simp)


definition accepted :: "'b reply \<Rightarrow> bool" where
  "accepted r \<longleftrightarrow> (case r of Inl e \<Rightarrow> False | Inr resp \<Rightarrow> StatusCode resp = 200)"

definition status_of :: "'b reply \<Rightarrow> int option" where
  "status_of r = (case r of Inl e \<Rightarrow> None | Inr resp \<Rightarrow> Some (StatusCode resp))"

lemma accepted_simps [simp]:
  "\<not> accepted (Inl e)" "accepted (Inr resp) \<longleftrightarrow> StatusCode resp = 200"
  by (simp_all add: accepted_def)

lemma status_of_simps [simp]:
  "status_of (Inl e) = None" "status_of (Inr resp) = Some (StatusCode resp)"
  by (simp_all add: status_of_def)

lemma accepted_status: "accepted r \<longleftrightarrow> status_of r = Some 200"
  by (cases r) auto

text \<open>The events by which zinc resolves a parked booking.\<close>

fun resolves :: "event \<Rightarrow> bool" where
  "resolves (Transition t u r) = (t \<noteq> Mark_Recovering \<and> accepted r)"
| "resolves (Complete u no tno p r) = accepted r"
| "resolves e = False"

lemma scan_not_resolves: "list_all is_scan_event tr \<Longrightarrow> filter resolves tr = []"
  by (induction tr) (auto elim!: is_scan_event.elims)

lemma effect_with_uuid [effect_intros]:
  "(uuid_parse env bookingId = None \<Longrightarrow> P (Inl Uuid_Error) []) \<Longrightarrow>
   (\<And>u. uuid_parse env bookingId = Some u \<Longrightarrow> effect (k u) P) \<Longrightarrow>
   effect (with_uuid env bookingId k) P"
  by (auto simp: with_uuid_def split: option.split)

text \<open>The shapes of the log each step can leave, with the step's result.\<close>

definition mark_run :: "'x recoverer_env \<Rightarrow> string \<Rightarrow> transition \<Rightarrow> unit result \<Rightarrow> event list \<Rightarrow> bool" where
  "mark_run env bookingId t r tr \<longleftrightarrow>
     (uuid_parse env bookingId = None \<and> tr = [] \<and> r = Inl Uuid_Error) \<or>
     (\<exists>u resp. uuid_parse env bookingId = Some u \<and> tr = [Transition t u resp] \<and>
        (r = Inr () \<longleftrightarrow> accepted resp))"

definition force_run :: "'x recoverer_env \<Rightarrow> string \<Rightarrow> string \<Rightarrow> string \<Rightarrow> unit result \<Rightarrow> event list \<Rightarrow> bool" where
  "force_run env bookingId no tno r tr \<longleftrightarrow>
     (\<exists>u pdf resp l. uuid_parse env bookingId = Some u \<and>
        tr = [Login l, Print_Ticket no tno (Inr pdf), Complete u no tno pdf resp] \<and>
        (r = Inr () \<longleftrightarrow> accepted resp)) \<or>
     ((\<exists>e. r = Inl e) \<and> (\<forall>ev \<in> set tr. (\<exists>l. ev = Login l) \<or> (\<exists>p. ev = Print_Ticket no tno p)))"

definition recycle_run :: "'x recoverer_env \<Rightarrow> string \<Rightarrow> unit result \<Rightarrow> event list \<Rightarrow> bool" where
  "recycle_run env bookingId r tr \<longleftrightarrow>
     (uuid_parse env bookingId = None \<and> tr = [] \<and> r = Inl Uuid_Error) \<or>
     (\<exists>u resp. uuid_parse env bookingId = Some u \<and>
        ((tr = [Transition Recover_Revert u resp] \<and> status_of resp \<noteq> Some 409 \<and>
           (r = Inr () \<longleftrightarrow> status_of resp = Some 200 \<or> status_of resp = Some 400)) \<or>
         (\<exists>resp'. tr = [Transition Recover_Revert u resp, Transition Mark_Duplicate u resp'] \<and>
            status_of resp = Some 409 \<and> (r = Inr () \<longleftrightarrow> accepted resp'))))"

lemma effect_mark: "effect (postStatus env bookingId t) (mark_run env bookingId t)"
  unfolding postStatus_def
  by (intro effect_intros) (auto simp: mark_run_def split: sum.split intro!: effect_intros)

lemmas mark_defs = markRecovering_def markDuplicate_def markManualIntervention_def

lemma effect_forceComplete: "effect (forceComplete env bookingId no tno) (force_run env bookingId no tno)"
  unfolding forceComplete_def completeBooking_def
  by (intro effect_intros) (auto simp: force_run_def split: sum.split intro!: effect_intros)

lemma effect_recycleOrDuplicate: "effect (recycleOrDuplicate env bookingId) (recycle_run env bookingId)"
  unfolding recycleOrDuplicate_def
  by (intro effect_intros) (auto simp: mark_defs recycle_run_def mark_run_def split: sum.split
      intro!: effect_intros effect_conseq[OF effect_mark])

text \<open>A decoded answer with status 200.\<close>

abbreviation ok_reply :: "'b \<Rightarrow> 'b reply" where
  "ok_reply b \<equiv> Inr \<lparr>StatusCode = 200, Body = Decoded b\<rparr>"

lemma decoded_response:
  "Body resp = Decoded b \<Longrightarrow> StatusCode resp = c \<Longrightarrow> resp = \<lparr>StatusCode = c, Body = Decoded b\<rparr>"
  by (cases resp) auto

lemma first_claim_None: "first_claim bs no = None \<longleftrightarrow> (\<forall>b \<in> set bs. zb_BookingNo b \<noteq> Some no)"
  by (induction bs) auto

lemma effect_claimant:
  "effect (claimant env dto no) (\<lambda>r tr. \<exists>resp. tr = [List_Bookings (claim_params dto) resp] \<and>
     (\<forall>c. r = Inr c \<longrightarrow> (\<exists>bs. resp = ok_reply bs \<and> c = first_claim bs no)))"
  unfolding claimant_def
  by (intro effect_intros) (auto split: sum.split body.split intro!: effect_intros dest: decoded_response)

lemma effect_isClaimed:
  "effect (isClaimed env dto no) (\<lambda>r tr. \<exists>resp. tr = [List_Bookings (claim_params dto) resp] \<and>
     (\<forall>c. r = Inr c \<longrightarrow> (\<exists>bs. resp = ok_reply bs \<and> (c \<longleftrightarrow> first_claim bs no \<noteq> None))))"
  unfolding isClaimed_def
  by (rule effect_on_ok, rule effect_conseq[OF effect_claimant]) (auto split: sum.split)

lemma effect_getBooking:
  "effect (getBooking env bookingId) (\<lambda>r tr.
     (uuid_parse env bookingId = None \<and> tr = [] \<and> r = Inl Uuid_Error) \<or>
     (\<exists>u resp. uuid_parse env bookingId = Some u \<and> tr = [Get_Booking u resp] \<and>
        (r = Inr None \<longleftrightarrow> status_of resp = Some 404) \<and>
        (\<forall>b. r = Inr (Some b) \<longleftrightarrow> resp = ok_reply b)))"
  unfolding getBooking_def
  by (intro effect_intros) (auto split: sum.split body.split intro!: effect_intros dest: decoded_response)

lemma effect_seq:
  assumes "effect p Q" "\<And>a. effect (k a) (R a)"
  shows "effect (on_ok p k) (\<lambda>r tr. (\<exists>e. r = Inl e \<and> Q (Inl e) tr) \<or>
     (\<exists>a t1 t2. tr = t1 @ t2 \<and> Q (Inr a) t1 \<and> R a r t2))"
  by (rule effect_on_ok, rule effect_conseq[OF assms(1)])
    (auto split: sum.split intro!: effect_conseq[OF assms(2)])

section \<open>The specification of one item\<close>

text \<open>What resolving one Recovering booking may do; \<open>V\<close> is what a verdict of the account scan
  means.\<close>

inductive resolve_run :: "'x recoverer_env \<Rightarrow> recoverer_config \<Rightarrow> RecoverDto
    \<Rightarrow> (instant \<Rightarrow> foundTicket option \<Rightarrow> bool) \<Rightarrow> unit result \<Rightarrow> event list \<Rightarrow> bool"
  for env cfg dto V where
  carried: "dto_BookingNo dto \<noteq> [] \<Longrightarrow> dto_TicketNo dto \<noteq> [] \<Longrightarrow>
    force_run env (dto_BookingId dto) (dto_BookingNo dto) (dto_TicketNo dto) r tr \<Longrightarrow>
    resolve_run env cfg dto V r tr"
| unparseable: "departure cfg dto = Inl e \<Longrightarrow> mark_run env (dto_BookingId dto) Mark_Manual r tr \<Longrightarrow>
    resolve_run env cfg dto V r tr"
| departed: "departure cfg dto = Inr target \<Longrightarrow> target < now \<Longrightarrow>
    mark_run env (dto_BookingId dto) Mark_Manual r tr \<Longrightarrow>
    resolve_run env cfg dto V r (Now now # tr)"
| inconclusive: "departure cfg dto = Inr target \<Longrightarrow> now \<le> target \<Longrightarrow> list_all is_scan_event tr \<Longrightarrow>
    resolve_run env cfg dto V (Inl e) (Now now # tr)"
| unknown_claim: "departure cfg dto = Inr target \<Longrightarrow> now \<le> target \<Longrightarrow> list_all is_scan_event tr \<Longrightarrow>
    V target (Some f) \<Longrightarrow>
    resolve_run env cfg dto V (Inl e) (Now now # tr @ [List_Bookings (claim_params dto) resp])"
| claimed: "departure cfg dto = Inr target \<Longrightarrow> now \<le> target \<Longrightarrow> list_all is_scan_event tr \<Longrightarrow>
    V target (Some f) \<Longrightarrow> first_claim bs (found_BookingNo f) = Some c \<Longrightarrow>
    mark_run env (dto_BookingId dto) Mark_Duplicate r tr' \<Longrightarrow>
    resolve_run env cfg dto V r (Now now # tr @ List_Bookings (claim_params dto) (ok_reply bs) # tr')"
| captured: "departure cfg dto = Inr target \<Longrightarrow> now \<le> target \<Longrightarrow> list_all is_scan_event tr \<Longrightarrow>
    V target (Some f) \<Longrightarrow> first_claim bs (found_BookingNo f) = None \<Longrightarrow>
    force_run env (dto_BookingId dto) (found_BookingNo f) (found_TicketNo f) r tr' \<Longrightarrow>
    resolve_run env cfg dto V r (Now now # tr @ List_Bookings (claim_params dto) (ok_reply bs) # tr')"
| absent: "departure cfg dto = Inr target \<Longrightarrow> now \<le> target \<Longrightarrow> list_all is_scan_event tr \<Longrightarrow>
    V target None \<Longrightarrow> recycle_run env (dto_BookingId dto) r tr' \<Longrightarrow>
    resolve_run env cfg dto V r (Now now # tr @ tr')"

inductive item_run :: "'x recoverer_env \<Rightarrow> recoverer_config \<Rightarrow> RecoverDto
    \<Rightarrow> (instant \<Rightarrow> foundTicket option \<Rightarrow> bool) \<Rightarrow> unit result \<Rightarrow> event list \<Rightarrow> bool"
  for env cfg dto V where
  bad_id: "uuid_parse env (dto_BookingId dto) = None \<Longrightarrow> item_run env cfg dto V (Inl Uuid_Error) []"
| unread: "uuid_parse env (dto_BookingId dto) = Some u \<Longrightarrow> status_of resp \<noteq> Some 404 \<Longrightarrow>
    (\<forall>b. resp \<noteq> ok_reply b) \<Longrightarrow> item_run env cfg dto V (Inl e) [Get_Booking u resp]"
| gone: "uuid_parse env (dto_BookingId dto) = Some u \<Longrightarrow> status_of resp = Some 404 \<Longrightarrow>
    item_run env cfg dto V (Inr ()) [Get_Booking u resp]"
| terminal: "uuid_parse env (dto_BookingId dto) = Some u \<Longrightarrow> terminalStatuses (deref (zb_Status b)) \<Longrightarrow>
    item_run env cfg dto V (Inr ()) [Get_Booking u (ok_reply b)]"
| parked: "uuid_parse env (dto_BookingId dto) = Some u \<Longrightarrow> \<not> terminalStatuses (deref (zb_Status b)) \<Longrightarrow>
    deref (zb_BookingNo b) \<noteq> [] \<or> deref (zb_Status b) \<notin> {''Buying'', ''Recovering''} \<Longrightarrow>
    mark_run env (dto_BookingId dto) Mark_Manual r tr \<Longrightarrow>
    item_run env cfg dto V r (Get_Booking u (ok_reply b) # tr)"
| buying_stuck: "uuid_parse env (dto_BookingId dto) = Some u \<Longrightarrow> deref (zb_Status b) = ''Buying'' \<Longrightarrow>
    deref (zb_BookingNo b) = [] \<Longrightarrow> mark_run env (dto_BookingId dto) Mark_Recovering (Inl e) tr \<Longrightarrow>
    item_run env cfg dto V (Inl e) (Get_Booking u (ok_reply b) # tr)"
| buying: "uuid_parse env (dto_BookingId dto) = Some u \<Longrightarrow> deref (zb_Status b) = ''Buying'' \<Longrightarrow>
    deref (zb_BookingNo b) = [] \<Longrightarrow> mark_run env (dto_BookingId dto) Mark_Recovering (Inr ()) tr \<Longrightarrow>
    resolve_run env cfg dto V r tr' \<Longrightarrow>
    item_run env cfg dto V r (Get_Booking u (ok_reply b) # tr @ tr')"
| recovering: "uuid_parse env (dto_BookingId dto) = Some u \<Longrightarrow> deref (zb_Status b) = ''Recovering'' \<Longrightarrow>
    deref (zb_BookingNo b) = [] \<Longrightarrow> resolve_run env cfg dto V r tr \<Longrightarrow>
    item_run env cfg dto V r (Get_Booking u (ok_reply b) # tr)"

definition scan_means :: "'x recoverer_env \<Rightarrow> recoverer_config \<Rightarrow> RecoverDto
    \<Rightarrow> (instant \<Rightarrow> foundTicket option \<Rightarrow> bool) \<Rightarrow> bool" where
  "scan_means env cfg dto V \<longleftrightarrow> (\<forall>target. pred_state (\<lambda>r. \<forall>x. r = Inr x \<longrightarrow> V target x)
     (scanOurAccount env cfg target (dto_Direction dto) (dto_PassportNumber dto)))"

lemma effect_resolveByScan:
  assumes "scan_means env cfg dto V"
  shows "effect (resolveByScan env cfg dto) (resolve_run env cfg dto V)"
proof (cases "departure cfg dto")
  case (Inl e)
  then show ?thesis
    unfolding resolveByScan_def mark_defs
    by (auto intro!: effect_conseq[OF effect_mark] intro: resolve_run.unparseable)
next
  case (Inr target)
  let ?found = "\<lambda>found. case found of
              Some f \<Rightarrow> on_ok (isClaimed env dto (found_BookingNo f)) (\<lambda>claimed.
                if claimed then markDuplicate env (dto_BookingId dto)
                else forceComplete env (dto_BookingId dto) (found_BookingNo f) (found_TicketNo f))
            | None \<Rightarrow> recycleOrDuplicate env (dto_BookingId dto)"
  have found: "effect (?found x) (\<lambda>r tr. \<forall>now sc. now \<le> target \<longrightarrow> list_all is_scan_event sc \<longrightarrow> V target x \<longrightarrow>
      resolve_run env cfg dto V r (Now now # sc @ tr))" for x
  proof (cases x)
    case None
    then show ?thesis
      by (auto intro!: effect_conseq[OF effect_recycleOrDuplicate] resolve_run.absent[OF Inr])
  next
    case (Some f)
    have claim: "effect (if c then markDuplicate env (dto_BookingId dto)
                else forceComplete env (dto_BookingId dto) (found_BookingNo f) (found_TicketNo f))
          (\<lambda>r tr. if c then mark_run env (dto_BookingId dto) Mark_Duplicate r tr
             else force_run env (dto_BookingId dto) (found_BookingNo f) (found_TicketNo f) r tr)" for c
      by (simp add: mark_defs effect_mark effect_forceComplete)
    show ?thesis
      unfolding Some option.case
      by (rule effect_conseq[OF effect_seq[OF effect_isClaimed claim]])
        (auto intro: resolve_run.unknown_claim[OF Inr] resolve_run.claimed[OF Inr]
          resolve_run.captured[OF Inr] split: if_splits)
  qed
  have scan: "effect (scanOurAccount env cfg target (dto_Direction dto) (dto_PassportNumber dto))
      (\<lambda>r tr. list_all is_scan_event tr \<and> (\<forall>x. r = Inr x \<longrightarrow> V target x))"
    using assms by (intro effect_pred[OF effect_scanOurAccount]) (simp add: scan_means_def)
  have rest: "effect (on_ok (scanOurAccount env cfg target (dto_Direction dto) (dto_PassportNumber dto)) ?found)
      (\<lambda>r tr. \<forall>now. now \<le> target \<longrightarrow> resolve_run env cfg dto V r (Now now # tr))"
    by (rule effect_conseq[OF effect_seq[OF scan found]]) (auto intro: resolve_run.inconclusive[OF Inr])
  show ?thesis
    unfolding resolveByScan_def Inr sum.case mark_defs
    by (intro effect_bind effect_invoke effect_if)
      (auto intro!: effect_conseq[OF effect_mark] effect_conseq[OF rest[unfolded mark_defs]]
        intro: resolve_run.departed[OF Inr])
qed

lemma effect_resolve:
  assumes "scan_means env cfg dto V"
  shows "effect (resolve env cfg dto) (resolve_run env cfg dto V)"
  unfolding resolve_def
  by (auto intro!: effect_conseq[OF effect_forceComplete] effect_resolveByScan assms intro: resolve_run.carried)

lemma effect_ProcessItem:
  assumes "scan_means env cfg dto V"
  shows "effect (ProcessItem env cfg dto) (item_run env cfg dto V)"
proof -
  let ?id = "dto_BookingId dto"
  let ?rest = "\<lambda>booking. case booking of
         None \<Rightarrow> return (Inr ())
       | Some b \<Rightarrow>
          (let bookStatus = deref (zb_Status b) in
           if terminalStatuses bookStatus then return (Inr ())
           else if deref (zb_BookingNo b) \<noteq> [] then markManualIntervention env (dto_BookingId dto)
           else if bookStatus = ''Buying''
             then on_ok (markRecovering env (dto_BookingId dto)) (\<lambda>_. resolve env cfg dto)
           else if bookStatus \<noteq> ''Recovering'' then markManualIntervention env (dto_BookingId dto)
           else resolve env cfg dto)"
  have buying: "effect (on_ok (markRecovering env ?id) (\<lambda>_. resolve env cfg dto))
      (\<lambda>r tr. \<forall>u b. uuid_parse env ?id = Some u \<longrightarrow> deref (zb_Status b) = ''Buying'' \<longrightarrow>
        deref (zb_BookingNo b) = [] \<longrightarrow> item_run env cfg dto V r (Get_Booking u (ok_reply b) # tr))"
    unfolding mark_defs
    by (rule effect_conseq[OF effect_seq[OF effect_mark effect_resolve[OF assms]]])
      (auto intro: item_run.buying_stuck item_run.buying)
  have rest: "effect (?rest booking) (\<lambda>r tr. \<forall>u resp. uuid_parse env ?id = Some u \<longrightarrow>
      (booking = None \<longleftrightarrow> status_of resp = Some 404) \<longrightarrow>
      (\<forall>b. booking = Some b \<longrightarrow> resp = ok_reply b) \<longrightarrow>
      item_run env cfg dto V r (Get_Booking u resp # tr))" for booking
    unfolding Let_def mark_defs
    by (auto intro!: effect_intros effect_conseq[OF effect_mark] effect_conseq[OF effect_resolve[OF assms]]
        effect_conseq[OF buying[unfolded mark_defs]] intro: item_run.gone item_run.terminal item_run.parked
        item_run.recovering split: option.split)
  show ?thesis
    unfolding ProcessItem_def
    by (rule effect_conseq[OF effect_seq[OF effect_getBooking rest]])
      (auto intro: item_run.bad_id item_run.unread)
qed


section \<open>What an item's run guarantees\<close>

inductive_cases resolve_runE: "resolve_run env cfg dto V r tr"
inductive_cases item_runE: "item_run env cfg dto V r tr"

fun drops :: "event \<Rightarrow> bool" where
  "drops (Get_Booking u resp) = (case resp of Inl e \<Rightarrow> False
     | Inr r \<Rightarrow> StatusCode r = 404 \<or> StatusCode r = 200 \<and>
         (case Body r of Decoded b \<Rightarrow> terminalStatuses (deref (zb_Status b)) | _ \<Rightarrow> False))"
| "drops (Transition t u resp) = (t = Recover_Revert \<and> status_of resp = Some 400)"
| "drops e = False"

definition settles :: "unit result \<Rightarrow> event list \<Rightarrow> bool" where
  "settles r tr \<longleftrightarrow> (case r of
       Inl e \<Rightarrow> filter resolves tr = []
     | Inr _ \<Rightarrow> length (filter resolves tr) = 1 \<or> filter resolves tr = [] \<and> list_ex drops tr)"

lemma mark_settles: "mark_run env i t r tr \<Longrightarrow> t \<noteq> Mark_Recovering \<Longrightarrow> settles r tr"
  by (auto simp: mark_run_def settles_def split: sum.split)

lemma mark_recovering_resolves: "mark_run env i Mark_Recovering r tr \<Longrightarrow> filter resolves tr = []"
  by (auto simp: mark_run_def)

lemma force_settles: "force_run env i no tno r tr \<Longrightarrow> settles r tr"
  by (auto simp: force_run_def settles_def filter_empty_conv split: sum.split)

lemma recycle_settles: "recycle_run env i r tr \<Longrightarrow> settles r tr"
  by (auto simp: recycle_run_def settles_def list_ex_iff accepted_status split: sum.split)

lemma settles_prepend:
  "settles r tr \<Longrightarrow> filter resolves tr0 = [] \<Longrightarrow> settles r (tr0 @ tr)"
  "settles r tr \<Longrightarrow> \<not> resolves ev \<Longrightarrow> settles r (ev # tr)"
  by (auto simp: settles_def list_ex_iff split: sum.split)

lemma settles_error: "filter resolves tr = [] \<Longrightarrow> settles (Inl e) tr"
  by (simp add: settles_def)

lemma resolve_settles: "resolve_run env cfg dto V r tr \<Longrightarrow> settles r tr"
  by (erule resolve_runE)
    (auto intro!: settles_prepend settles_error dest: mark_settles force_settles recycle_settles
      scan_not_resolves)

lemma item_settles: "item_run env cfg dto V r tr \<Longrightarrow> settles r tr"
proof (erule item_runE)
  fix u resp assume "r = Inr ()" "tr = [Get_Booking u resp]" "status_of resp = Some 404"
  then show "settles r tr" by (cases resp) (auto simp: settles_def)
next
  fix u b assume "r = Inr ()" "tr = [Get_Booking u (ok_reply b)]" "terminalStatuses (deref (zb_Status b))"
  then show "settles r tr" by (auto simp: settles_def list_ex_iff)
qed (auto intro!: settles_prepend settles_error dest: mark_settles resolve_settles mark_recovering_resolves)

definition settled_untouched :: "unit result \<Rightarrow> event list \<Rightarrow> bool" where
  "settled_untouched r tr \<longleftrightarrow> (\<forall>u resp. Get_Booking u resp \<in> set tr \<longrightarrow>
     status_of resp = Some 404 \<or> (\<exists>b. resp = ok_reply b \<and> terminalStatuses (deref (zb_Status b))) \<longrightarrow>
     r = Inr () \<and> tr = [Get_Booking u resp])"

lemma scan_no_get: "list_all is_scan_event tr \<Longrightarrow> Get_Booking u resp \<notin> set tr"
  by (auto simp: list_all_iff)

lemma mark_no_get: "mark_run env i t r tr \<Longrightarrow> Get_Booking u resp \<notin> set tr"
  by (auto simp: mark_run_def)

lemma force_no_get: "force_run env i no tno r tr \<Longrightarrow> Get_Booking u resp \<notin> set tr"
  by (auto simp: force_run_def)

lemma recycle_no_get: "recycle_run env i r tr \<Longrightarrow> Get_Booking u resp \<notin> set tr"
  by (auto simp: recycle_run_def)

lemma resolve_no_get: "resolve_run env cfg dto V r tr \<Longrightarrow> Get_Booking u resp \<notin> set tr"
  by (erule resolve_runE) (auto dest: scan_no_get mark_no_get force_no_get recycle_no_get)

lemma item_settled_untouched: "item_run env cfg dto V r tr \<Longrightarrow> settled_untouched r tr"
  unfolding settled_untouched_def
  by (erule item_runE) (auto simp: mark_no_get resolve_no_get terminalStatuses_def)

definition ticket_verdict :: "(int \<Rightarrow> ticket_list) \<Rightarrow> (ktmb_booking \<Rightarrow> instant) \<Rightarrow> recoverer_config \<Rightarrow> RecoverDto
    \<Rightarrow> instant \<Rightarrow> foundTicket option \<Rightarrow> bool" where
  "ticket_verdict pages dep cfg dto target found \<longleftrightarrow>
     (case found of
        None \<Rightarrow> \<forall>b \<in> set (rows pages (TotalPage (pages 1))).
          dep b = target \<longrightarrow> \<not> snd (ticketForPassport b (dto_PassportNumber dto))
      | Some f \<Rightarrow> \<exists>b \<in> set (rows pages (TotalPage (pages 1))).
          is_match b target (dto_Direction dto) (dto_PassportNumber dto) (Loc cfg) f)"

definition duplicate_justified :: "(instant \<Rightarrow> foundTicket option \<Rightarrow> bool) \<Rightarrow> recoverer_config \<Rightarrow> RecoverDto
    \<Rightarrow> event list \<Rightarrow> bool" where
  "duplicate_justified V cfg dto tr \<longleftrightarrow>
     (\<forall>u resp. Transition Mark_Duplicate u resp \<in> set tr \<longrightarrow>
       (\<exists>target. departure cfg dto = Inr target \<and>
         ((V target None \<and> (\<exists>r. Transition Recover_Revert u r \<in> set tr \<and> status_of r = Some 409)) \<or>
          (\<exists>f bs c. V target (Some f) \<and> List_Bookings (claim_params dto) (ok_reply bs) \<in> set tr \<and>
             c \<in> set bs \<and> zb_BookingNo c = Some (found_BookingNo f)))))"

lemma scan_no_transition: "list_all is_scan_event tr \<Longrightarrow> Transition t u r \<notin> set tr"
  by (auto simp: list_all_iff)

lemma first_claim_Some: "first_claim bs no = Some c \<Longrightarrow> c \<in> set bs \<and> zb_BookingNo c = Some no"
  by (induction bs) (auto split: if_splits)

lemma mark_other: "mark_run env i t r tr \<Longrightarrow> t \<noteq> t' \<Longrightarrow> Transition t' u resp \<notin> set tr"
  by (auto simp: mark_run_def)

lemma force_no_transition: "force_run env i no tno r tr \<Longrightarrow> Transition t u resp \<notin> set tr"
  by (auto simp: force_run_def)

lemma resolve_duplicate: "resolve_run env cfg dto V r tr \<Longrightarrow> duplicate_justified V cfg dto tr"
proof (erule resolve_runE)
  fix target now sc bs f c tr'
  assume *: "departure cfg dto = Inr target" "V target (Some f)" "list_all is_scan_event sc"
    "first_claim bs (found_BookingNo f) = Some c"
    "tr = Now now # sc @ List_Bookings (claim_params dto) (ok_reply bs) # tr'"
  have "List_Bookings (claim_params dto) (ok_reply bs) \<in> set tr" using *(5) by simp
  then show "duplicate_justified V cfg dto tr"
    unfolding duplicate_justified_def using *(1,2) first_claim_Some[OF *(4)] by blast
qed (auto simp: duplicate_justified_def recycle_run_def
    dest: scan_no_transition mark_other force_no_transition)

lemma item_duplicate: "item_run env cfg dto V r tr \<Longrightarrow> duplicate_justified V cfg dto tr"
proof (erule item_runE)
  fix u b t1 t2
  assume "tr = Get_Booking u (ok_reply b) # t1 @ t2" "mark_run env (dto_BookingId dto) Mark_Recovering (Inr ()) t1"
    "resolve_run env cfg dto V r t2"
  then show "duplicate_justified V cfg dto tr"
    using resolve_duplicate[of env cfg dto V r t2]
    by (fastforce simp: duplicate_justified_def mark_run_def)
next
  fix u b t2
  assume "tr = Get_Booking u (ok_reply b) # t2" "resolve_run env cfg dto V r t2"
  then show "duplicate_justified V cfg dto tr"
    using resolve_duplicate[of env cfg dto V r t2]
    by (fastforce simp: duplicate_justified_def)
qed (auto simp: duplicate_justified_def mark_run_def)

definition capture_justified :: "(instant \<Rightarrow> foundTicket option \<Rightarrow> bool) \<Rightarrow> recoverer_config \<Rightarrow> RecoverDto
    \<Rightarrow> event list \<Rightarrow> bool" where
  "capture_justified V cfg dto tr \<longleftrightarrow>
     (\<forall>u no tno p resp. Complete u no tno p resp \<in> set tr \<longrightarrow>
       Print_Ticket no tno (Inr p) \<in> set tr \<and>
       (\<exists>b. Get_Booking u (ok_reply b) \<in> set tr \<and> deref (zb_BookingNo b) = [] \<and>
          deref (zb_Status b) \<in> {''Buying'', ''Recovering''}) \<and>
       ((no = dto_BookingNo dto \<and> tno = dto_TicketNo dto \<and> no \<noteq> [] \<and> tno \<noteq> []) \<or>
        (\<exists>target f bs. departure cfg dto = Inr target \<and> V target (Some f) \<and>
           no = found_BookingNo f \<and> tno = found_TicketNo f \<and>
           List_Bookings (claim_params dto) (ok_reply bs) \<in> set tr \<and>
           (\<forall>c \<in> set bs. zb_BookingNo c \<noteq> Some no))))"

definition resolve_capture :: "'x recoverer_env \<Rightarrow> (instant \<Rightarrow> foundTicket option \<Rightarrow> bool) \<Rightarrow> recoverer_config \<Rightarrow> RecoverDto
    \<Rightarrow> event list \<Rightarrow> bool" where
  "resolve_capture env V cfg dto tr \<longleftrightarrow>
     (\<forall>u no tno p resp. Complete u no tno p resp \<in> set tr \<longrightarrow>
       uuid_parse env (dto_BookingId dto) = Some u \<and>
       Print_Ticket no tno (Inr p) \<in> set tr \<and>
       ((no = dto_BookingNo dto \<and> tno = dto_TicketNo dto \<and> no \<noteq> [] \<and> tno \<noteq> []) \<or>
        (\<exists>target f bs. departure cfg dto = Inr target \<and> V target (Some f) \<and>
           no = found_BookingNo f \<and> tno = found_TicketNo f \<and>
           List_Bookings (claim_params dto) (ok_reply bs) \<in> set tr \<and>
           (\<forall>c \<in> set bs. zb_BookingNo c \<noteq> Some no))))"

lemma force_complete:
  "force_run env i no tno r tr \<Longrightarrow> Complete u no' tno' p resp \<in> set tr \<Longrightarrow>
     uuid_parse env i = Some u \<and> no' = no \<and> tno' = tno \<and> Print_Ticket no tno (Inr p) \<in> set tr"
  by (auto simp: force_run_def)

lemma scan_no_complete: "list_all is_scan_event tr \<Longrightarrow> Complete u no tno p r \<notin> set tr"
  by (auto simp: list_all_iff)

lemma mark_no_complete: "mark_run env i t r tr \<Longrightarrow> Complete u no tno p resp \<notin> set tr"
  by (auto simp: mark_run_def)

lemma recycle_no_complete: "recycle_run env i r tr \<Longrightarrow> Complete u no tno p resp \<notin> set tr"
  by (auto simp: recycle_run_def)

lemma resolve_run_capture: "resolve_run env cfg dto V r tr \<Longrightarrow> resolve_capture env V cfg dto tr"
proof (erule resolve_runE)
  fix target now sc bs f tr'
  assume *: "departure cfg dto = Inr target" "V target (Some f)" "list_all is_scan_event sc"
    "first_claim bs (found_BookingNo f) = None"
    "tr = Now now # sc @ List_Bookings (claim_params dto) (ok_reply bs) # tr'"
    "force_run env (dto_BookingId dto) (found_BookingNo f) (found_TicketNo f) r tr'"
  show "resolve_capture env V cfg dto tr"
    unfolding resolve_capture_def
  proof (intro allI impI)
    fix u no tno p resp assume "Complete u no tno p resp \<in> set tr"
    then have "Complete u no tno p resp \<in> set tr'" using * by (auto dest: scan_no_complete)
    from force_complete[OF *(6) this]
    show "uuid_parse env (dto_BookingId dto) = Some u \<and>
       Print_Ticket no tno (Inr p) \<in> set tr \<and>
       ((no = dto_BookingNo dto \<and> tno = dto_TicketNo dto \<and> no \<noteq> [] \<and> tno \<noteq> []) \<or>
        (\<exists>target f bs. departure cfg dto = Inr target \<and> V target (Some f) \<and>
           no = found_BookingNo f \<and> tno = found_TicketNo f \<and>
           List_Bookings (claim_params dto) (ok_reply bs) \<in> set tr \<and>
           (\<forall>c \<in> set bs. zb_BookingNo c \<noteq> Some no)))"
      using *(1,2,4,5) by (auto simp: first_claim_None)
  qed
qed (auto simp: resolve_capture_def dest: scan_no_complete mark_no_complete recycle_no_complete
    dest!: force_complete)

lemma item_capture: "item_run env cfg dto V r tr \<Longrightarrow> capture_justified V cfg dto tr"
proof (erule item_runE)
  fix u b t1 t2
  assume *: "tr = Get_Booking u (ok_reply b) # t1 @ t2" "mark_run env (dto_BookingId dto) Mark_Recovering (Inr ()) t1"
    "resolve_run env cfg dto V r t2" "uuid_parse env (dto_BookingId dto) = Some u"
    "deref (zb_Status b) = ''Buying''" "deref (zb_BookingNo b) = []"
  then show "capture_justified V cfg dto tr"
    using resolve_run_capture[OF *(3)] mark_no_complete[OF *(2)]
    unfolding capture_justified_def resolve_capture_def by auto metis+
next
  fix u b t2
  assume *: "tr = Get_Booking u (ok_reply b) # t2" "resolve_run env cfg dto V r t2"
    "uuid_parse env (dto_BookingId dto) = Some u"
    "deref (zb_Status b) = ''Recovering''" "deref (zb_BookingNo b) = []"
  then show "capture_justified V cfg dto tr"
    using resolve_run_capture[OF *(2)]
    unfolding capture_justified_def resolve_capture_def by auto
qed (auto simp: capture_justified_def mark_run_def)

text \<open>KTMB answers every successful page request with the page of one unchanging list.\<close>

definition account :: "'x recoverer_env \<Rightarrow> (int \<Rightarrow> ticket_list) \<Rightarrow> bool" where
  "account env pages \<longleftrightarrow> (\<forall>userData p x res. fst (ktmb_list_ticket env userData p x) = Inr res \<longrightarrow>
     lt_Status res \<longrightarrow> lt_Data res = pages p)"

lemma account_serves:
  assumes "account env pages"
  shows "serves (fetchPage env userData) pages"
  unfolding serves_def
proof (intro allI pred_stateI impI)
  fix p r s s' pg
  assume "run_state (fetchPage env userData p) s = (r, s')" "r = Inr pg"
  then show "pg = pages p"
    using assms unfolding account_def fetchPage_def listPage_def
    by (auto split: option.splits sum.splits if_splits)
qed

lemma account_scan_means:
  assumes "account env pages" "ascending pages (TotalPage (pages 1)) (Loc cfg) dep"
  shows "scan_means env cfg dto (ticket_verdict pages dep cfg dto)"
  unfolding scan_means_def
proof
  fix target
  have find: "pred_state (\<lambda>r. \<forall>x. r = Inr x \<longrightarrow> ticket_verdict pages dep cfg dto target x)
      (findTicket env cfg ud target (dto_Direction dto) (dto_PassportNumber dto))" for ud
    unfolding findTicket_def
    by (rule pred_conseq[OF findTicketIn_correct[OF account_serves[OF assms(1)] assms(2)]])
      (auto simp: ticket_verdict_def absent_in_def match_in_def set_rows split: option.split)
  show "pred_state (\<lambda>r. \<forall>x. r = Inr x \<longrightarrow> ticket_verdict pages dep cfg dto target x)
      (scanOurAccount env cfg target (dto_Direction dto) (dto_PassportNumber dto))"
    unfolding scanOurAccount_def
    by (rule bind_predI, rule pred_conseq[where Q = "\<lambda>_. True"])
      (auto simp: pred_stateI find split: sum.split)
qed

text \<open>A found ticket is a confirmed row of the list; nothing is said of an absent one.\<close>

definition found_verdict :: "(int \<Rightarrow> ticket_list) \<Rightarrow> recoverer_config \<Rightarrow> RecoverDto
    \<Rightarrow> instant \<Rightarrow> foundTicket option \<Rightarrow> bool" where
  "found_verdict pages cfg dto target found \<longleftrightarrow>
     (case found of None \<Rightarrow> True
      | Some f \<Rightarrow> \<exists>b \<in> set (rows pages (TotalPage (pages 1))).
          is_match b target (dto_Direction dto) (dto_PassportNumber dto) (Loc cfg) f)"

lemma account_found_means:
  assumes "account env pages"
  shows "scan_means env cfg dto (found_verdict pages cfg dto)"
  unfolding scan_means_def
proof
  fix target
  have find: "pred_state (\<lambda>r. \<forall>x. r = Inr x \<longrightarrow> found_verdict pages cfg dto target x)
      (findTicket env cfg ud target (dto_Direction dto) (dto_PassportNumber dto))" for ud
    unfolding findTicket_def
    by (rule pred_conseq[OF findTicketIn_found[OF account_serves[OF assms(1)]]])
      (auto simp: found_verdict_def match_in_def set_rows split: option.split)
  show "pred_state (\<lambda>r. \<forall>x. r = Inr x \<longrightarrow> found_verdict pages cfg dto target x)
      (scanOurAccount env cfg target (dto_Direction dto) (dto_PassportNumber dto))"
    unfolding scanOurAccount_def
    by (rule bind_predI, rule pred_conseq[where Q = "\<lambda>_. True"])
      (auto simp: pred_stateI find split: sum.split)
qed

lemma any_scan_means: "scan_means env cfg dto (\<lambda>_ _. True)"
  by (simp add: scan_means_def pred_stateI)

section \<open>Properties\<close>

text \<open>A zinc that answers every transition with 409 for a recycle and 200 otherwise, and the
  account of the scan's example, used by the witnesses.\<close>

definition example_booking :: zinc_booking where
  "example_booking = \<lparr>zb_Id = 7, zb_Status = Some ''Recovering'', zb_BookingNo = None, zb_TicketNo = None,
     zb_Date = Some ''02-03-2026'', zb_Time = Some ''08:30:00'', zb_Direction = Some ''WToJ'',
     zb_Passenger = \<lparr>FullName = None, Gender = None, PassportExpiry = None, PassportNumber = Some ''E111''\<rparr>\<rparr>"

definition example_env :: "unit recoverer_env" where
  "example_env =
     (let ok = (\<lambda>x. (Inr \<lparr>StatusCode = 200, Body = Decoded ()\<rparr>, x)) in
      \<lparr>uuid_parse = (\<lambda>s. if s = ''7'' then Some 7 else None),
       uuid_string = itoa,
       time_now = Pair 0,
       ctx_err = Pair None,
       sleep = (\<lambda>d. Pair False),
       zinc_get_booking = (\<lambda>u. Pair (Inr \<lparr>StatusCode = 200, Body = Decoded example_booking\<rparr>)),
       zinc_transition = (\<lambda>t u. Pair (Inr \<lparr>StatusCode = (if t = Recover_Revert then 409 else 200), Body = Decoded ()\<rparr>)),
       zinc_complete = (\<lambda>u no tno p. ok),
       zinc_attach = (\<lambda>u no tno p. ok),
       zinc_list = (\<lambda>p. Pair (Inr \<lparr>StatusCode = 200, Body = Decoded []\<rparr>)),
       zinc_expire = Pair (Inr \<lparr>StatusCode = 200, Body = Decoded []\<rparr>),
       zinc_check_result = (\<lambda>u r. ok),
       session_login = Pair (Inr ''token''),
       ktmb_list_ticket = (\<lambda>t p. Pair (Inr \<lparr>lt_Status = True, lt_Data = example_pages p\<rparr>)),
       ktmb_print_ticket = (\<lambda>t no tno. Pair (Inr ''pdf'')),
       redis_llen = Pair (Inr 0),
       redis_rpop = Pair Pop_Empty,
       redis_lpush = (\<lambda>s. Pair (Inr ())),
       redis_lrange = Pair (Inr []),
       encrypt_any = (\<lambda>d. Pair (Inr ''sealed'')),
       decrypt_any = (\<lambda>s. Inl (External ''cipher''))\<rparr>)"

definition example_config :: recoverer_config where
  "example_config = \<lparr>MaxAttempts = 3, RepairEnable = True, RepairLimit = 10,
     RepairNotFoundPatterns = [''not found''], Loc = 28800\<rparr>"

definition example_dto :: "string \<Rightarrow> RecoverDto" where
  "example_dto passport = \<lparr>dto_BookingId = ''7'', dto_Direction = ''WToJ'', dto_Date = ''02-03-2026'',
     dto_Time = ''08:30:00'', dto_FullName = [], dto_Gender = [], dto_PassportExpiry = [],
     dto_PassportNumber = passport, dto_BookingNo = [], dto_TicketNo = [], dto_Attempts = 0\<rparr>"

lemma example_account: "account example_env example_pages"
  by (simp add: account_def example_env_def Let_def)

lemma example_config_ascending:
  "ascending example_pages (TotalPage (example_pages 1)) (Loc example_config) example_dep"
  using example_ascending by (simp add: example_config_def)

lemma run_ProcessItem_recovering:
  assumes "run_state (getBooking env (dto_BookingId dto)) w = (Inr (Some b), w')"
    "zb_Status b = Some ''Recovering''" "zb_BookingNo b = None"
  shows "run_state (ProcessItem env cfg dto) w = run_state (resolve env cfg dto) w'"
  using assms by (simp add: ProcessItem_def terminalStatuses_def)

lemma run_resolve_captured:
  assumes "dto_BookingNo dto = []" "departure cfg dto = Inr target"
    "time_now env (ext w) = (now, x)" "now \<le> target"
    "run_state (scanOurAccount env cfg target (dto_Direction dto) (dto_PassportNumber dto))
       (w\<lparr>ext := x, log := log w @ [Now now]\<rparr>) = (Inr (Some f), w2)"
    "run_state (isClaimed env dto (found_BookingNo f)) w2 = (Inr False, w3)"
  shows "run_state (resolve env cfg dto) w =
     run_state (forceComplete env (dto_BookingId dto) (found_BookingNo f) (found_TicketNo f)) w3"
  using assms by (simp add: resolve_def resolveByScan_def)

lemma run_resolve_absent:
  assumes "dto_BookingNo dto = []" "departure cfg dto = Inr target"
    "time_now env (ext w) = (now, x)" "now \<le> target"
    "run_state (scanOurAccount env cfg target (dto_Direction dto) (dto_PassportNumber dto))
       (w\<lparr>ext := x, log := log w @ [Now now]\<rparr>) = (Inr None, w2)"
  shows "run_state (resolve env cfg dto) w = run_state (recycleOrDuplicate env (dto_BookingId dto)) w2"
  using assms by (simp add: resolve_def resolveByScan_def)

definition example_fetched :: "(unit, event) world" where
  "example_fetched = \<lparr>ext = (), log = [Get_Booking 7 (Inr \<lparr>StatusCode = 200, Body = Decoded example_booking\<rparr>)]\<rparr>"

lemma example_ProcessItem:
  "run_state (ProcessItem example_env example_config (example_dto passport)) (fresh_world ()) =
     run_state (resolve example_env example_config (example_dto passport)) example_fetched"
  by (rule run_ProcessItem_recovering[where b = example_booking])
    (simp_all add: example_dto_def example_booking_def example_env_def example_fetched_def
      getBooking_def with_uuid_def fresh_world_def Let_def)

text \<open>C3: a booking is refunded as a duplicate only for cause. Whatever zinc, redis and the session
  answer, when the KTMB account is one ascending list, each duplicate transition in the log of
  \<open>ProcessItem\<close> follows either a conclusive absence of the passenger's ticket together with zinc's
  409 on the recycle, or a confirmed ticket of the passenger whose KTMB booking number a completed
  zinc booking of the same passenger and slot already records.\<close>

theorem ProcessItem_duplicate_justified:
  assumes "account env pages" "ascending pages (TotalPage (pages 1)) (Loc cfg) dep"
  shows "effect (ProcessItem env cfg dto)
    (\<lambda>r tr. duplicate_justified (ticket_verdict pages dep cfg dto) cfg dto tr)"
  by (rule effect_conseq[OF effect_ProcessItem[OF account_scan_means[OF assms]] item_duplicate])

theorem ProcessItem_duplicate_justified_witness:
  "duplicate_justified (ticket_verdict example_pages example_dep example_config (example_dto ''E111''))
     example_config (example_dto ''E111'')
     (trace (ProcessItem example_env example_config (example_dto ''E111'')) ()) \<and>
   Transition Mark_Duplicate 7 (Inr \<lparr>StatusCode = 200, Body = Decoded ()\<rparr>)
     \<in> set (trace (ProcessItem example_env example_config (example_dto ''E111'')) ())"
proof
  show "duplicate_justified (ticket_verdict example_pages example_dep example_config (example_dto ''E111''))
     example_config (example_dto ''E111'')
     (trace (ProcessItem example_env example_config (example_dto ''E111'')) ())"
    by (rule effect_trace[OF ProcessItem_duplicate_justified[OF example_account example_config_ascending]])
  let ?dto = "example_dto ''E111''"
  let ?w = "example_fetched\<lparr>ext := (), log := log example_fetched @ [Now 0]\<rparr>"
  define w2 where "w2 = snd (run_state (scanOurAccount example_env example_config example_target ''WToJ'' ''E111'') ?w)"
  have dep: "departure example_config ?dto = Inr example_target" by code_simp
  have "run_state (scanOurAccount example_env example_config example_target ''WToJ'' ''E111'') ?w = (Inr None, w2)"
    unfolding w2_def prod_eq_iff fst_conv snd_conv by (rule conjI, code_simp) simp
  then have scan: "run_state (scanOurAccount example_env example_config example_target
       (dto_Direction ?dto) (dto_PassportNumber ?dto)) ?w = (Inr None, w2)"
    by (simp add: example_dto_def)
  have run: "run_state (resolve example_env example_config ?dto) example_fetched =
      run_state (recycleOrDuplicate example_env ''7'') w2"
    using run_resolve_absent[OF _ dep _ _ scan]
    by (simp add: example_dto_def example_env_def Let_def example_departs)
  show "Transition Mark_Duplicate 7 (Inr \<lparr>StatusCode = 200, Body = Decoded ()\<rparr>)
     \<in> set (trace (ProcessItem example_env example_config ?dto) ())"
    unfolding trace_def example_ProcessItem run
    by (simp add: recycleOrDuplicate_def mark_defs postStatus_def with_uuid_def example_env_def Let_def)
qed

text \<open>C4: a booking is completed only with its own ticket. Each completion \<open>ProcessItem\<close> sends carries
  a PDF KTMB printed for exactly those numbers, for a booking zinc shows in Buying or Recovering with
  no ticket captured, and the numbers are either the ones the buyer recorded in the item or those of
  a confirmed row of the account that no completed booking of this passenger and slot claims.\<close>

theorem ProcessItem_capture_justified:
  assumes "account env pages"
  shows "effect (ProcessItem env cfg dto)
    (\<lambda>r tr. capture_justified (found_verdict pages cfg dto) cfg dto tr)"
  by (rule effect_conseq[OF effect_ProcessItem[OF account_found_means[OF assms]] item_capture])

theorem ProcessItem_capture_justified_witness:
  "capture_justified (found_verdict example_pages example_config (example_dto ''E222''))
     example_config (example_dto ''E222'')
     (trace (ProcessItem example_env example_config (example_dto ''E222'')) ()) \<and>
   Complete 7 ''K2'' ''TK2'' ''pdf'' (Inr \<lparr>StatusCode = 200, Body = Decoded ()\<rparr>)
     \<in> set (trace (ProcessItem example_env example_config (example_dto ''E222'')) ())"
proof
  show "capture_justified (found_verdict example_pages example_config (example_dto ''E222''))
     example_config (example_dto ''E222'')
     (trace (ProcessItem example_env example_config (example_dto ''E222'')) ())"
    by (rule effect_trace[OF ProcessItem_capture_justified[OF example_account]])
  let ?dto = "example_dto ''E222''"
  let ?w = "example_fetched\<lparr>ext := (), log := log example_fetched @ [Now 0]\<rparr>"
  define w2 where "w2 = snd (run_state (scanOurAccount example_env example_config example_target ''WToJ'' ''E222'') ?w)"
  have dep: "departure example_config ?dto = Inr example_target" by code_simp
  have "run_state (scanOurAccount example_env example_config example_target ''WToJ'' ''E222'') ?w
      = (Inr (Some \<lparr>found_BookingNo = ''K2'', found_TicketNo = ''TK2''\<rparr>), w2)"
    unfolding w2_def prod_eq_iff fst_conv snd_conv by (rule conjI, code_simp) simp
  then have scan: "run_state (scanOurAccount example_env example_config example_target
       (dto_Direction ?dto) (dto_PassportNumber ?dto)) ?w
      = (Inr (Some \<lparr>found_BookingNo = ''K2'', found_TicketNo = ''TK2''\<rparr>), w2)"
    by (simp add: example_dto_def)
  have claim: "run_state (isClaimed example_env ?dto ''K2'') w2 = (Inr False,
      w2\<lparr>log := log w2 @ [List_Bookings (claim_params ?dto) (Inr \<lparr>StatusCode = 200, Body = Decoded []\<rparr>)]\<rparr>)"
    by (simp add: isClaimed_def claimant_def example_env_def Let_def)
  have run: "run_state (resolve example_env example_config ?dto) example_fetched =
      run_state (forceComplete example_env ''7'' ''K2'' ''TK2'')
        (w2\<lparr>log := log w2 @ [List_Bookings (claim_params ?dto) (Inr \<lparr>StatusCode = 200, Body = Decoded []\<rparr>)]\<rparr>)"
    using run_resolve_captured[OF _ dep _ _ scan, simplified foundTicket.simps, OF _ _ _ claim]
    by (simp add: example_dto_def example_env_def Let_def example_departs)
  show "Complete 7 ''K2'' ''TK2'' ''pdf'' (Inr \<lparr>StatusCode = 200, Body = Decoded ()\<rparr>)
     \<in> set (trace (ProcessItem example_env example_config ?dto) ())"
    unfolding trace_def example_ProcessItem run
    by (simp add: forceComplete_def completeBooking_def with_uuid_def example_env_def Let_def)
qed

text \<open>C5: an item is settled once, and an item to be retried is unsettled. When \<open>ProcessItem\<close> returns
  an error, zinc accepted no completion, refund, recycle or park in that run; when it returns nil,
  zinc accepted exactly one of them, or none and the item was rightly dropped (booking gone, already
  terminal, or zinc's 400 on the recycle).\<close>

theorem ProcessItem_settles: "effect (ProcessItem env cfg dto) (\<lambda>r tr. settles r tr)"
  by (rule effect_conseq[OF effect_ProcessItem[OF any_scan_means] item_settles])

text \<open>a settled booking is left alone. When zinc answers that the booking is gone or already in a
  terminal status, that read is the only call \<open>ProcessItem\<close> makes and the item is done.\<close>

theorem ProcessItem_settled_untouched: "effect (ProcessItem env cfg dto) (\<lambda>r tr. settled_untouched r tr)"
  by (rule effect_conseq[OF effect_ProcessItem[OF any_scan_means] item_settled_untouched])

end
