(* ===== verification/Recoverer_Queue.thy ===== *)
theory Recoverer_Queue
  imports Recoverer
begin

text \<open>
  lib/recoverer/client.go, repair.go, check.go and the listing helpers of process.go: the
  drain of the recover queue with its attempt-counted requeue, the sweep that reconciles with
  zinc, the repair of missing ticket files and the read-only admin check. Booking ids are
  compared as the strings the Go maps are keyed by; the maps to \<open>true\<close> are sets.
\<close>

section \<open>Listing zinc\<close>

text \<open>An int32 wraps around.\<close>

definition int32 :: "int \<Rightarrow> int" where
  "int32 n = (n + 2 ^ 31) mod 2 ^ 32 - 2 ^ 31"

definition listed :: "string \<Rightarrow> zinc_booking list response \<Rightarrow> zinc_booking list result" where
  "listed what resp =
     (if StatusCode resp \<noteq> 200 then Inl (Status_Error what (StatusCode resp))
      else case Body resp of
          Unreadable \<Rightarrow> Inl Read_Error
        | Garbled \<Rightarrow> Inl Decode_Error
        | Decoded page \<Rightarrow> Inr page)"

definition recovering_params :: "int \<Rightarrow> list_params" where
  "recovering_params skip = no_params\<lparr>lp_Status := Some ''Recovering'', lp_Limit := Some 100, lp_Skip := Some skip\<rparr>"

text \<open>The loop runs until a page comes back short; \<open>None\<close> is running out of fuel, a loop still
  running.\<close>

fun listRecovering_loop :: "'x recoverer_env \<Rightarrow> nat \<Rightarrow> int \<Rightarrow> zinc_booking list
    \<Rightarrow> ('x, zinc_booking list result option) action" where
  "listRecovering_loop env 0 skip so_far = return None"
| "listRecovering_loop env (Suc fuel) skip so_far = do {
     r \<leftarrow> invoke (zinc_list env (recovering_params skip)) (List_Bookings (recovering_params skip));
     case r of
       Inl e \<Rightarrow> return (Some (Inl e))
     | Inr resp \<Rightarrow> (case listed ''failed to list recovering bookings'' resp of
           Inl e \<Rightarrow> return (Some (Inl e))
         | Inr page \<Rightarrow>
             if int (length page) < 100 then return (Some (Inr (so_far @ page)))
             else listRecovering_loop env fuel (int32 (skip + 100)) (so_far @ page))
   }"

definition listRecovering :: "'x recoverer_env \<Rightarrow> nat \<Rightarrow> ('x, zinc_booking list result option) action" where
  "listRecovering env fuel = listRecovering_loop env fuel 0 []"

text \<open>The index panic of \<open>ZincToHeliumDate\<close> cannot happen here: the length is checked first.\<close>

definition safeHeliumExpiry :: "string \<Rightarrow> string" where
  "safeHeliumExpiry zincExpiry =
     (if length (split_on (CHR ''-'') zincExpiry) \<noteq> 3 then []
      else case ZincToHeliumDate zincExpiry of
          None \<Rightarrow> []
        | Some d \<Rightarrow> d @ ''T00:00:00'')"

definition ReconstructDto :: "'x recoverer_env \<Rightarrow> zinc_booking \<Rightarrow> RecoverDto" where
  "ReconstructDto env b = \<lparr>
     dto_BookingId = uuid_string env (zb_Id b),
     dto_Direction = deref (zb_Direction b),
     dto_Date = deref (zb_Date b),
     dto_Time = deref (zb_Time b),
     dto_FullName = deref (FullName (zb_Passenger b)),
     dto_Gender = deref (Gender (zb_Passenger b)),
     dto_PassportExpiry = safeHeliumExpiry (deref (PassportExpiry (zb_Passenger b))),
     dto_PassportNumber = deref (PassportNumber (zb_Passenger b)),
     dto_BookingNo = [], dto_TicketNo = [], dto_Attempts = 0\<rparr>"

section \<open>The queue\<close>

abbreviation recoverRequeueRetries :: nat where "recoverRequeueRetries \<equiv> 3"

abbreviation millisecond :: duration where "millisecond \<equiv> 1000000"

function push_retry :: "'x recoverer_env \<Rightarrow> string \<Rightarrow> nat \<Rightarrow> ('x, unit) action" where
  "push_retry env enc attempt =
     (if attempt \<ge> recoverRequeueRetries then return ()
      else do {
        r \<leftarrow> invoke (redis_lpush env enc) (LPush enc);
        case r of
          Inr _ \<Rightarrow> return ()
        | Inl _ \<Rightarrow> do {
            cancelled \<leftarrow> invoke (sleep env ((int attempt + 1) * 100 * millisecond))
              (Slept ((int attempt + 1) * 100 * millisecond));
            if cancelled then return () else push_retry env enc (attempt + 1)
          }
      })"
  by pat_completeness auto
termination by (relation "measure (\<lambda>(_, _, attempt). recoverRequeueRetries - attempt)") auto

declare push_retry.simps [simp del]

definition push_back :: "'x recoverer_env \<Rightarrow> RecoverDto \<Rightarrow> ('x, unit) action" where
  "push_back env dto = do {
     r \<leftarrow> invoke (encrypt_any env dto) (Encrypt dto);
     case r of Inl _ \<Rightarrow> return () | Inr enc \<Rightarrow> push_retry env enc 0
   }"

text \<open>The attempts are an int of Go; here they are counted without its bound of \<open>2 ^ 63\<close>.\<close>

definition requeue :: "'x recoverer_env \<Rightarrow> recoverer_config \<Rightarrow> RecoverDto \<Rightarrow> ('x, unit) action" where
  "requeue env cfg dto0 =
     (let dto = dto0\<lparr>dto_Attempts := dto_Attempts dto0 + 1\<rparr> in
      if MaxAttempts cfg \<le> dto_Attempts dto then do {
        r \<leftarrow> markManualIntervention env (dto_BookingId dto);
        case r of Inl _ \<Rightarrow> push_back env dto | Inr _ \<Rightarrow> return ()
      }
      else push_back env dto)"

text \<open>Processing one decrypted item: a failure is requeued.\<close>

definition handle_item :: "'x recoverer_env \<Rightarrow> recoverer_config \<Rightarrow> RecoverDto \<Rightarrow> ('x, unit) action" where
  "handle_item env cfg dto = do {
     r \<leftarrow> ProcessItem env cfg dto;
     case r of Inl _ \<Rightarrow> requeue env cfg dto | Inr _ \<Rightarrow> return ()
   }"

fun drain_loop :: "'x recoverer_env \<Rightarrow> recoverer_config \<Rightarrow> nat \<Rightarrow> string set
    \<Rightarrow> ('x, string set \<times> error option) action" where
  "drain_loop env cfg 0 handled = return (handled, None)"
| "drain_loop env cfg (Suc n) handled = do {
     p \<leftarrow> invoke (redis_rpop env) RPop;
     case p of
       Pop_Error e \<Rightarrow> return (handled, Some e)
     | Pop_Empty \<Rightarrow> return (handled, None)
     | Pop_Item Bad_Envelope \<Rightarrow> return (handled, Some Decode_Error)
     | Pop_Item Bad_Message \<Rightarrow> drain_loop env cfg n handled
     | Pop_Item (Sealed enc) \<Rightarrow>
         (case decrypt_any env enc of
            Inl _ \<Rightarrow> drain_loop env cfg n handled
          | Inr dto \<Rightarrow> do {
              handle_item env cfg dto;
              drain_loop env cfg n (insert (dto_BookingId dto) handled)
            })
   }"

definition Drain :: "'x recoverer_env \<Rightarrow> recoverer_config \<Rightarrow> ('x, string set \<times> error option) action" where
  "Drain env cfg = do {
     r \<leftarrow> invoke (redis_llen env) LLen;
     case r of
       Inl e \<Rightarrow> return ({}, Some e)
     | Inr len \<Rightarrow> drain_loop env cfg (nat len) {}
   }"

text \<open>The ids of the items that open.\<close>

fun queued_ids :: "'x recoverer_env \<Rightarrow> queue_item list \<Rightarrow> string set" where
  "queued_ids env [] = {}"
| "queued_ids env (v # vals) =
     (case v of
        Sealed enc \<Rightarrow> (case decrypt_any env enc of
            Inl _ \<Rightarrow> queued_ids env vals
          | Inr dto \<Rightarrow> insert (dto_BookingId dto) (queued_ids env vals))
      | _ \<Rightarrow> queued_ids env vals)"

definition queuedBookingIds :: "'x recoverer_env \<Rightarrow> ('x, string set result) action" where
  "queuedBookingIds env =
     on_ok (invoke (redis_lrange env) LRange) (\<lambda>vals. return (Inr (queued_ids env vals)))"

definition sweep_one :: "'x recoverer_env \<Rightarrow> recoverer_config \<Rightarrow> string set \<Rightarrow> zinc_booking \<Rightarrow> ('x, unit) action" where
  "sweep_one env cfg skip b =
     (let dto = ReconstructDto env b in
      if dto_BookingId dto = [] \<or> dto_BookingId dto \<in> skip then return () else handle_item env cfg dto)"

definition Sweep :: "'x recoverer_env \<Rightarrow> recoverer_config \<Rightarrow> nat \<Rightarrow> string set \<Rightarrow> ('x, unit result option) action" where
  "Sweep env cfg fuel skip = do {
     r \<leftarrow> listRecovering env fuel;
     case r of
       None \<Rightarrow> return None
     | Some (Inl e) \<Rightarrow> return (Some (Inl e))
     | Some (Inr bookings) \<Rightarrow>
         if bookings = [] then return (Some (Inr ()))
         else do {
           q \<leftarrow> queuedBookingIds env;
           case q of
             Inl e \<Rightarrow> return (Some (Inl e))
           | Inr queued \<Rightarrow> do {
               for_each (sweep_one env cfg (skip \<union> queued)) bookings;
               return (Some (Inr ()))
             }
         }
   }"

definition ExpireRecovery :: "'x recoverer_env \<Rightarrow> ('x, unit result) action" where
  "ExpireRecovery env =
     on_ok (invoke (zinc_expire env) Expire) (\<lambda>resp.
       return (if StatusCode resp \<noteq> 200 then Inl (Status_Error ''failed to expire recycled bookings'' (StatusCode resp))
         else case Body resp of Decoded _ \<Rightarrow> Inr () | _ \<Rightarrow> Inl Decode_Error))"

section \<open>Repair of missing ticket files\<close>

fun matches_any :: "string list \<Rightarrow> string \<Rightarrow> bool" where
  "matches_any [] body = False"
| "matches_any (p # ps) body = (p \<noteq> [] \<and> contains body (to_lower p) \<or> matches_any ps body)"

definition matchesNotFound :: "string list \<Rightarrow> error \<Rightarrow> bool" where
  "matchesNotFound patterns err =
     (case as_http_status err of
        None \<Rightarrow> False
      | Some (code, body) \<Rightarrow> code \<in> {400, 404, 410} \<and> matches_any patterns (to_lower body))"

definition missing_params :: "recoverer_config \<Rightarrow> list_params" where
  "missing_params cfg = no_params\<lparr>lp_Status := Some ''Completed'', lp_MissingTicket := Some True,
     lp_Limit := Some (int32 (RepairLimit cfg))\<rparr>"

text \<open>Unlike the other listings, this one reads the body before it looks at the status.\<close>

definition listMissingTickets :: "'x recoverer_env \<Rightarrow> recoverer_config \<Rightarrow> ('x, zinc_booking list result) action" where
  "listMissingTickets env cfg =
     on_ok (invoke (zinc_list env (missing_params cfg)) (List_Bookings (missing_params cfg))) (\<lambda>resp.
       return (case Body resp of
           Unreadable \<Rightarrow> Inl Read_Error
         | _ \<Rightarrow> listed ''failed to list missing-ticket bookings'' resp))"

definition uploadTicket :: "'x recoverer_env \<Rightarrow> string \<Rightarrow> string \<Rightarrow> string \<Rightarrow> pdf \<Rightarrow> ('x, unit result) action" where
  "uploadTicket env bookingId bookingNo ticketNo pdf = with_uuid env bookingId (\<lambda>u.
     on_ok (invoke (zinc_attach env u bookingNo ticketNo pdf) (Attach u bookingNo ticketNo pdf)) (\<lambda>resp.
       return (if StatusCode resp \<noteq> 200 then Inl (Status_Error ''failed to attach ticket to booking'' (StatusCode resp))
         else Inr ())))"

definition repairOne :: "'x recoverer_env \<Rightarrow> recoverer_config \<Rightarrow> string \<Rightarrow> zinc_booking \<Rightarrow> ('x, unit) action" where
  "repairOne env cfg userData b =
     (let bookingId = uuid_string env (zb_Id b);
          bookingNo = deref (zb_BookingNo b);
          ticketNo = deref (zb_TicketNo b)
      in if deref (zb_Status b) \<noteq> ''Completed'' then return ()
         else if bookingNo = [] \<or> ticketNo = [] then do {
           _ \<leftarrow> markManualIntervention env bookingId;
           return ()
         }
         else do {
           r \<leftarrow> invoke (ktmb_print_ticket env userData bookingNo ticketNo) (Print_Ticket bookingNo ticketNo);
           case r of
             Inl err \<Rightarrow>
               if matchesNotFound (RepairNotFoundPatterns cfg) err then do {
                 _ \<leftarrow> markManualIntervention env bookingId;
                 return ()
               }
               else return ()
           | Inr pdf \<Rightarrow>
               if pdf = [] then return ()
               else do {
                 _ \<leftarrow> uploadTicket env bookingId bookingNo ticketNo pdf;
                 return ()
               }
         })"

definition repairBookings :: "'x recoverer_env \<Rightarrow> recoverer_config \<Rightarrow> zinc_booking list \<Rightarrow> string \<Rightarrow> ('x, unit) action" where
  "repairBookings env cfg bookings userData = for_each (repairOne env cfg userData) bookings"

definition Repair :: "'x recoverer_env \<Rightarrow> recoverer_config \<Rightarrow> ('x, unit result) action" where
  "Repair env cfg =
     (if \<not> RepairEnable cfg then return (Inr ())
      else on_ok (listMissingTickets env cfg) (\<lambda>bookings.
        if bookings = [] then return (Inr ())
        else on_ok (invoke (session_login env) Login) (\<lambda>userData. do {
          repairBookings env cfg bookings userData;
          return (Inr ())
        })))"

text \<open>One tick of \<open>Start\<close>: both ticks drain and expire, the sweep tick also reconciles and repairs.
  Failures are logged and do not stop the tick. \<open>None\<close>: the sweep ran out of fuel, and the tick does not return.\<close>

definition cycle :: "'x recoverer_env \<Rightarrow> recoverer_config \<Rightarrow> nat \<Rightarrow> bool \<Rightarrow> ('x, unit option) action" where
  "cycle env cfg fuel sweep = do {
     d \<leftarrow> Drain env cfg;
     _ \<leftarrow> ExpireRecovery env;
     if sweep then do {
       s \<leftarrow> Sweep env cfg fuel (fst d);
       case s of
         None \<Rightarrow> return None
       | Some _ \<Rightarrow> do {
           _ \<leftarrow> Repair env cfg;
           return (Some ())
         }
     }
     else return (Some ())
   }"

section \<open>The admin check\<close>

record CheckResult =
  cr_Status :: string
  cr_KtmbBookingNo :: string
  cr_KtmbTicketNo :: string
  cr_ClaimedBy :: "uuid option"
  cr_Error :: string

abbreviation CheckFound :: string where "CheckFound \<equiv> ''Found''"
abbreviation CheckNotFound :: string where "CheckNotFound \<equiv> ''NotFound''"
abbreviation CheckDeparted :: string where "CheckDeparted \<equiv> ''Departed''"
abbreviation CheckError :: string where "CheckError \<equiv> ''Error''"

text \<open>\<open>err.Error()\<close>, without the values an error interpolates into its text.\<close>

fun error_text :: "error \<Rightarrow> string" where
  "error_text (External s) = s"
| "error_text (Msg s) = s"
| "error_text (Status_Error s code) = s"
| "error_text (Http_Status_Error code body) = ''status code, body '' @ body"
| "error_text Uuid_Error = ''invalid UUID''"
| "error_text Read_Error = ''unexpected EOF''"
| "error_text Decode_Error = ''invalid character''"
| "error_text (Wrapped s e) = s @ '': '' @ error_text e"

definition check_of :: "string \<Rightarrow> string \<Rightarrow> CheckResult" where
  "check_of status err = \<lparr>cr_Status = status, cr_KtmbBookingNo = [], cr_KtmbTicketNo = [],
     cr_ClaimedBy = None, cr_Error = err\<rparr>"

text \<open>The tail of \<open>CheckBooking\<close>: the ticket is on our account, who claims it?\<close>

definition check_claim :: "'x recoverer_env \<Rightarrow> RecoverDto \<Rightarrow> foundTicket \<Rightarrow> ('x, CheckResult) action" where
  "check_claim env dto found = do {
     c \<leftarrow> claimant env dto (found_BookingNo found);
     let res = (check_of CheckFound [])\<lparr>cr_KtmbBookingNo := found_BookingNo found,
           cr_KtmbTicketNo := found_TicketNo found\<rparr>;
     return (case c of
         Inl err \<Rightarrow> res\<lparr>cr_Error :=
           ''could not look up which booking claims this ticket: '' @ error_text err\<rparr>
       | Inr None \<Rightarrow> res
       | Inr (Some claim) \<Rightarrow> res\<lparr>cr_ClaimedBy := Some (zb_Id claim)\<rparr>)
   }"

definition unparseable :: "RecoverDto \<Rightarrow> error \<Rightarrow> string" where
  "unparseable dto err = ''unparseable departure '' @ go_quote (dto_Date dto) @ '' '' @ go_quote (dto_Time dto) @ '': '' @ error_text err"

definition CheckBooking :: "'x recoverer_env \<Rightarrow> recoverer_config \<Rightarrow> string \<Rightarrow> instant
    \<Rightarrow> (instant \<Rightarrow> string \<Rightarrow> string \<Rightarrow> ('x, foundTicket option result) action) \<Rightarrow> ('x, CheckResult) action" where
  "CheckBooking env cfg bookingId now scan = do {
     r \<leftarrow> getBooking env bookingId;
     case r of
       Inl err \<Rightarrow> return (check_of CheckError (error_text err))
     | Inr None \<Rightarrow> return (check_of CheckError ''booking not found in zinc'')
     | Inr (Some booking) \<Rightarrow>
         (let dto = ReconstructDto env booking in
          case departure cfg dto of
            Inl err \<Rightarrow> return (check_of CheckError (unparseable dto err))
          | Inr target \<Rightarrow>
              if target \<le> now then return (check_of CheckDeparted [])
              else do {
                f \<leftarrow> scan target (dto_Direction dto) (dto_PassportNumber dto);
                case f of
                  Inl err \<Rightarrow> return (check_of CheckError (''KTMB scan inconclusive: '' @ error_text err))
                | Inr None \<Rightarrow> return (check_of CheckNotFound [])
                | Inr (Some found) \<Rightarrow> check_claim env dto found
              })
   }"

definition optional :: "string \<Rightarrow> string option" where
  "optional s = (if s = [] then None else Some s)"

definition report_of :: "CheckResult \<Rightarrow> check_report" where
  "report_of res = \<lparr>rp_Status = cr_Status res, rp_KtmbBookingNo = optional (cr_KtmbBookingNo res),
     rp_KtmbTicketNo = optional (cr_KtmbTicketNo res), rp_ClaimedBy = cr_ClaimedBy res,
     rp_Error = optional (cr_Error res)\<rparr>"

definition reportCheck :: "'x recoverer_env \<Rightarrow> uuid \<Rightarrow> CheckResult \<Rightarrow> ('x, unit result) action" where
  "reportCheck env checkId res =
     on_ok (invoke (zinc_check_result env checkId (report_of res)) (Check_Result checkId (report_of res))) (\<lambda>resp.
       return (if StatusCode resp = 404 then Inr ()
         else if StatusCode resp \<noteq> 200 then Inl (Status_Error ''failed to report KTMB check'' (StatusCode resp))
         else Inr ()))"

function report_retry :: "'x recoverer_env \<Rightarrow> uuid \<Rightarrow> CheckResult \<Rightarrow> nat \<Rightarrow> ('x, unit) action" where
  "report_retry env checkId res attempt =
     (if attempt \<ge> recoverRequeueRetries then return ()
      else do {
        r \<leftarrow> reportCheck env checkId res;
        case r of
          Inr _ \<Rightarrow> return ()
        | Inl _ \<Rightarrow> do {
            cancelled \<leftarrow> invoke (sleep env ((int attempt + 1) * 200 * millisecond))
              (Slept ((int attempt + 1) * 200 * millisecond));
            if cancelled then return () else report_retry env checkId res (attempt + 1)
          }
      })"
  by pat_completeness auto
termination by (relation "measure (\<lambda>(_, _, _, attempt). recoverRequeueRetries - attempt)") auto

declare report_retry.simps [simp del]

definition answerCheck :: "'x recoverer_env \<Rightarrow> recoverer_config \<Rightarrow> uuid \<Rightarrow> uuid \<Rightarrow> ('x, unit) action" where
  "answerCheck env cfg checkId bookingId = do {
     now \<leftarrow> invoke (time_now env) Now;
     res \<leftarrow> CheckBooking env cfg (uuid_string env bookingId) now (scanOurAccount env cfg);
     report_retry env checkId res 0
   }"

section \<open>Requeue\<close>

inductive pushes :: "string \<Rightarrow> nat \<Rightarrow> event list \<Rightarrow> bool" for enc where
  given_up: "recoverRequeueRetries \<le> attempt \<Longrightarrow> pushes enc attempt []"
| pushed: "attempt < recoverRequeueRetries \<Longrightarrow> pushes enc attempt [LPush enc (Inr ())]"
| push_cancelled: "attempt < recoverRequeueRetries \<Longrightarrow> pushes enc attempt [LPush enc (Inl e), Slept d True]"
| push_again: "attempt < recoverRequeueRetries \<Longrightarrow> pushes enc (attempt + 1) tr \<Longrightarrow>
    pushes enc attempt (LPush enc (Inl e) # Slept d False # tr)"

lemma effect_push_retry: "effect (push_retry env enc attempt) (\<lambda>_ tr. pushes enc attempt tr)"
proof (induction env enc attempt rule: push_retry.induct)
  case (1 env enc attempt)
  show ?case
  proof (cases "recoverRequeueRetries \<le> attempt")
    case True
    then show ?thesis by (simp add: push_retry.simps pushes.given_up)
  next
    case False
    then have a: "attempt < recoverRequeueRetries" by simp
    have again: "effect (push_retry env enc (attempt + 1))
        (\<lambda>_ tr. pushes enc attempt (LPush enc (Inl e) # Slept d False # tr))" for e d
      by (rule effect_conseq[OF 1[OF False, of False]]) (auto intro: pushes.push_again[OF a, simplified])
    show ?thesis
      using False pushes.pushed[OF a] pushes.push_cancelled[OF a] again
      by (subst push_retry.simps) (auto split: sum.split intro!: effect_bind effect_invoke effect_if)
  qed
qed

lemma pushes_no_resolve: "pushes enc n tr \<Longrightarrow> filter resolves tr = []"
  by (induction rule: pushes.induct) auto

text \<open>What a requeue leaves: a park zinc accepted, at the attempt cap only; or the item, sealed with
  its attempts counted up, pushed until redis takes it, three pushes fail or the context ends.\<close>

definition sealed_run :: "string result \<Rightarrow> event list \<Rightarrow> bool" where
  "sealed_run r ps \<longleftrightarrow> (case r of Inl e \<Rightarrow> ps = [] | Inr enc \<Rightarrow> pushes enc 0 ps)"

definition requeued :: "recoverer_config \<Rightarrow> RecoverDto \<Rightarrow> event list \<Rightarrow> bool" where
  "requeued cfg dto tr \<longleftrightarrow>
     (\<exists>u resp. tr = [Transition Mark_Manual u resp] \<and> accepted resp \<and> MaxAttempts cfg \<le> dto_Attempts dto + 1) \<or>
     (\<exists>pre r ps. tr = pre @ Encrypt (dto\<lparr>dto_Attempts := dto_Attempts dto + 1\<rparr>) r # ps \<and>
        (pre = [] \<or> (\<exists>u resp. pre = [Transition Mark_Manual u resp] \<and> \<not> accepted resp \<and>
           MaxAttempts cfg \<le> dto_Attempts dto + 1)) \<and>
        sealed_run r ps)"

lemma effect_push_back:
  "effect (push_back env dto) (\<lambda>_ tr. \<exists>r ps. tr = Encrypt dto r # ps \<and>
     sealed_run r ps)"
  unfolding push_back_def
  by (intro effect_bind effect_invoke) (auto simp: sealed_run_def split: sum.split intro!: effect_conseq[OF effect_push_retry])

lemma effect_requeue: "effect (requeue env cfg dto) (\<lambda>_ tr. requeued cfg dto tr)"
proof -
  let ?d = "dto\<lparr>dto_Attempts := dto_Attempts dto + 1\<rparr>"
  have pushed_back: "effect (push_back env ?d) (\<lambda>_ tr. requeued cfg dto (pre @ tr))"
    if "pre = [] \<or> (\<exists>u resp. pre = [Transition Mark_Manual u resp] \<and> \<not> accepted resp \<and>
           MaxAttempts cfg \<le> dto_Attempts dto + 1)" for pre
    using that by (intro effect_conseq[OF effect_push_back]) (unfold requeued_def, blast)
  show ?thesis
    unfolding requeue_def Let_def markManualIntervention_def
  proof (intro effect_if effect_bind effect_conseq[OF effect_mark])
    fix a tr
    assume "MaxAttempts cfg \<le> dto_Attempts ?d"
      "mark_run env (dto_BookingId ?d) Mark_Manual a tr"
    then show "effect (case a of Inl x \<Rightarrow> push_back env ?d | Inr x \<Rightarrow> return ())
        (\<lambda>b tr'. requeued cfg dto (tr @ tr'))"
      using pushed_back[of tr] by (auto simp: mark_run_def requeued_def split: sum.split)
  next
    show "effect (push_back env ?d) (\<lambda>_. requeued cfg dto)"
      using pushed_back[of "[]"] by simp
  qed
qed

text \<open>One decrypted item is settled, or nothing was settled and it is requeued.\<close>

definition after_item :: "recoverer_config \<Rightarrow> RecoverDto \<Rightarrow> unit result \<Rightarrow> event list \<Rightarrow> bool" where
  "after_item cfg dto r tr \<longleftrightarrow> (case r of Inl e \<Rightarrow> requeued cfg dto tr | Inr _ \<Rightarrow> tr = [])"

definition item_accounted :: "recoverer_config \<Rightarrow> RecoverDto \<Rightarrow> event list \<Rightarrow> bool" where
  "item_accounted cfg dto tr \<longleftrightarrow> (\<exists>t1 t2 r. tr = t1 @ t2 \<and> settles r t1 \<and>
     after_item cfg dto r t2)"

definition handle_run :: "'x recoverer_env \<Rightarrow> recoverer_config \<Rightarrow> RecoverDto
    \<Rightarrow> (instant \<Rightarrow> foundTicket option \<Rightarrow> bool) \<Rightarrow> event list \<Rightarrow> bool" where
  "handle_run env cfg dto V tr \<longleftrightarrow> (\<exists>t1 t2 r. tr = t1 @ t2 \<and> item_run env cfg dto V r t1 \<and>
     after_item cfg dto r t2)"

lemma handle_runI:
  "item_run env cfg dto V r t1 \<Longrightarrow> after_item cfg dto r t2 \<Longrightarrow> handle_run env cfg dto V (t1 @ t2)"
  unfolding handle_run_def by blast

lemma effect_handle_item:
  assumes "scan_means env cfg dto V"
  shows "effect (handle_item env cfg dto) (\<lambda>_ tr. handle_run env cfg dto V tr)"
  unfolding handle_item_def
proof (intro effect_bind effect_conseq[OF effect_ProcessItem[OF assms]])
  fix r t1 assume t1: "item_run env cfg dto V r t1"
  then show "effect (case r of Inl x \<Rightarrow> requeue env cfg dto | Inr x \<Rightarrow> return ())
      (\<lambda>b tr'. handle_run env cfg dto V (t1 @ tr'))"
    using handle_runI[OF t1] by (cases r) (auto intro!: effect_conseq[OF effect_requeue] simp: after_item_def)
qed

lemma handle_accounted: "handle_run env cfg dto V tr \<Longrightarrow> item_accounted cfg dto tr"
  unfolding handle_run_def item_accounted_def using item_settles by blast

section \<open>Drain\<close>

fun is_pop :: "event \<Rightarrow> bool" where
  "is_pop (RPop p) = True"
| "is_pop e = False"

fun popped_items :: "event list \<Rightarrow> queue_item list" where
  "popped_items [] = []"
| "popped_items (ev # tr) = (case ev of RPop (Pop_Item it) \<Rightarrow> it # popped_items tr | _ \<Rightarrow> popped_items tr)"

lemma popped_items_append: "popped_items (t1 @ t2) = popped_items t1 @ popped_items t2"
  by (induction t1) (auto split: event.split popped.split)

lemma no_pops: "filter is_pop tr = [] \<Longrightarrow> popped_items tr = []"
  by (induction tr) (auto split: event.split if_splits)

lemma pushes_no_pop: "pushes enc n tr \<Longrightarrow> filter is_pop tr = []"
  by (induction rule: pushes.induct) auto

lemma pushed_no_pop: "sealed_run r ps \<Longrightarrow> filter is_pop ps = []"
  by (cases r) (auto simp: sealed_run_def dest: pushes_no_pop)

lemma requeued_no_pop: "requeued cfg dto tr \<Longrightarrow> filter is_pop tr = []"
  by (auto simp: requeued_def dest: pushed_no_pop)

lemma scan_no_pop: "list_all is_scan_event tr \<Longrightarrow> filter is_pop tr = []"
  by (induction tr) (auto elim!: is_scan_event.elims)

lemma mark_no_pop: "mark_run env i t r tr \<Longrightarrow> filter is_pop tr = []"
  by (auto simp: mark_run_def)

lemma force_no_pop: "force_run env i no tno r tr \<Longrightarrow> filter is_pop tr = []"
  by (auto simp: force_run_def filter_empty_conv)

lemma recycle_no_pop: "recycle_run env i r tr \<Longrightarrow> filter is_pop tr = []"
  by (auto simp: recycle_run_def)

lemma resolve_no_pop: "resolve_run env cfg dto V r tr \<Longrightarrow> filter is_pop tr = []"
  by (erule resolve_runE) (simp_all add: scan_no_pop mark_no_pop force_no_pop recycle_no_pop)

lemma item_no_pop: "item_run env cfg dto V r tr \<Longrightarrow> filter is_pop tr = []"
  by (erule item_runE) (simp_all add: mark_no_pop resolve_no_pop)

lemma requeue_case_no_pop:
  "after_item cfg dto r t \<Longrightarrow> filter is_pop t = []"
  by (cases r) (auto simp: after_item_def dest: requeued_no_pop)

lemma handle_no_pop: "handle_run env cfg dto V tr \<Longrightarrow> filter is_pop tr = []"
  by (auto simp: handle_run_def item_no_pop dest: requeue_case_no_pop)

text \<open>The specification of a drain of at most \<open>n\<close> items.\<close>

inductive drain_run :: "'x recoverer_env \<Rightarrow> recoverer_config \<Rightarrow> nat \<Rightarrow> string set \<Rightarrow> string set \<Rightarrow> event list \<Rightarrow> bool"
  for env cfg where
  drained_out: "drain_run env cfg 0 h h []"
| drain_stop: "p = Pop_Empty \<or> p = Pop_Error e \<or> p = Pop_Item Bad_Envelope \<Longrightarrow>
    drain_run env cfg (Suc n) h h [RPop p]"
| drain_skip: "it = Bad_Message \<or> it = Sealed enc \<and> decrypt_any env enc = Inl e \<Longrightarrow>
    drain_run env cfg n h h' tr \<Longrightarrow> drain_run env cfg (Suc n) h h' (RPop (Pop_Item it) # tr)"
| drain_item: "decrypt_any env enc = Inr dto \<Longrightarrow> handle_run env cfg dto (\<lambda>_ _. True) t1 \<Longrightarrow>
    drain_run env cfg n (insert (dto_BookingId dto) h) h' t2 \<Longrightarrow>
    drain_run env cfg (Suc n) h h' (RPop (Pop_Item (Sealed enc)) # t1 @ t2)"

lemma effect_drain_loop:
  "effect (drain_loop env cfg n h) (\<lambda>r tr. drain_run env cfg n h (fst r) tr)"
proof (induction n arbitrary: h)
  case 0
  then show ?case by (auto intro: drain_run.intros)
next
  case (Suc n)
  have skip: "effect (drain_loop env cfg n h) (\<lambda>r tr. drain_run env cfg (Suc n) h (fst r) (RPop (Pop_Item it) # tr))"
    if "it = Bad_Message \<or> it = Sealed enc \<and> decrypt_any env enc = Inl e" for it enc e
    by (rule effect_conseq[OF Suc]) (rule drain_run.drain_skip[OF that])
  have item: "effect (handle_item env cfg dto \<bind> (\<lambda>_. drain_loop env cfg n (insert (dto_BookingId dto) h)))
      (\<lambda>r tr. drain_run env cfg (Suc n) h (fst r) (RPop (Pop_Item (Sealed enc)) # tr))"
    if "decrypt_any env enc = Inr dto" for enc dto
    by (intro effect_bind effect_conseq[OF effect_handle_item[OF any_scan_means]] effect_conseq[OF Suc])
      (rule drain_run.drain_item[OF that])
  show ?case
    by (simp, intro effect_bind effect_invoke)
      (auto split: popped.split queue_item.split sum.split intro!: skip item intro: drain_run.intros)
qed

lemma drain_run_bounded: "drain_run env cfg n h h' tr \<Longrightarrow> length (filter is_pop tr) \<le> n"
  by (induction rule: drain_run.induct) (auto simp: handle_no_pop)

lemma queued_ids_Cons_other:
  "it = Bad_Message \<or> it = Bad_Envelope \<or> it = Sealed enc \<and> decrypt_any env enc = Inl e \<Longrightarrow>
     queued_ids env (it # xs) = queued_ids env xs"
  by (auto split: queue_item.split)

lemma drain_run_handled: "drain_run env cfg n h h' tr \<Longrightarrow> h' = h \<union> queued_ids env (popped_items tr)"
  by (induction rule: drain_run.induct)
    (auto simp: popped_items_append no_pops handle_no_pop split: queue_item.splits)


definition drained :: "'x recoverer_env \<Rightarrow> recoverer_config \<Rightarrow> string set \<Rightarrow> event list \<Rightarrow> bool" where
  "drained env cfg handled tr \<longleftrightarrow>
     (\<exists>e. tr = [LLen (Inl e)] \<and> handled = {}) \<or>
     (\<exists>len tr'. tr = LLen (Inr len) # tr' \<and> drain_run env cfg (nat len) {} handled tr' \<and>
        length (filter is_pop tr') \<le> nat len \<and> handled = queued_ids env (popped_items tr'))"

lemma effect_Drain: "effect (Drain env cfg) (\<lambda>r tr. drained env cfg (fst r) tr)"
  unfolding Drain_def
  by (intro effect_bind effect_invoke)
    (auto simp: drained_def split: sum.split intro!: effect_conseq[OF effect_drain_loop]
      dest: drain_run_bounded drain_run_handled)

section \<open>Sweep\<close>

lemma effect_for_each_all:
  assumes "\<And>x. x \<in> set xs \<Longrightarrow> effect (f x) (\<lambda>_ tr. list_all Q tr)"
  shows "effect (for_each f xs) (\<lambda>_ tr. list_all Q tr)"
  using assms by (rule effect_for_each)

text \<open>The bookings a log reads belong to ids outside a set.\<close>

fun reads_outside :: "'x recoverer_env \<Rightarrow> string set \<Rightarrow> event \<Rightarrow> bool" where
  "reads_outside env skip (Get_Booking u r) = (\<exists>s. uuid_parse env s = Some u \<and> s \<notin> skip)"
| "reads_outside env skip e = True"

lemma no_get_outside: "(\<And>u r. Get_Booking u r \<notin> set tr) \<Longrightarrow> list_all (reads_outside env skip) tr"
  unfolding list_all_iff by (metis reads_outside.elims(3))

lemma item_outside:
  "item_run env cfg dto V r tr \<Longrightarrow> dto_BookingId dto \<notin> skip \<Longrightarrow> list_all (reads_outside env skip) tr"
  by (erule item_runE)
    (auto intro!: no_get_outside dest: mark_no_get resolve_no_get)

lemma pushes_no_get: "pushes enc n tr \<Longrightarrow> Get_Booking u r \<notin> set tr"
  by (induction rule: pushes.induct) auto

lemma sealed_no_get: "sealed_run r ps \<Longrightarrow> Get_Booking u resp \<notin> set ps"
  by (cases r) (auto simp: sealed_run_def pushes_no_get)

lemma requeued_no_get: "requeued cfg dto tr \<Longrightarrow> Get_Booking u resp \<notin> set tr"
  by (auto simp: requeued_def sealed_no_get)

lemma after_no_get: "after_item cfg dto r tr \<Longrightarrow> Get_Booking u resp \<notin> set tr"
  by (cases r) (auto simp: after_item_def requeued_no_get)

lemma handle_outside:
  "handle_run env cfg dto V tr \<Longrightarrow> dto_BookingId dto \<notin> skip \<Longrightarrow> list_all (reads_outside env skip) tr"
  using item_outside no_get_outside[of _ env skip] after_no_get
  by (fastforce simp: handle_run_def)

lemma effect_sweep_one:
  "effect (sweep_one env cfg skip b) (\<lambda>_ tr. list_all (reads_outside env skip) tr)"
  unfolding sweep_one_def Let_def
  by (auto intro!: effect_conseq[OF effect_handle_item[OF any_scan_means]] dest: handle_outside)

lemma effect_listRecovering_loop:
  "effect (listRecovering_loop env fuel skip acc) (\<lambda>_ tr. list_all (\<lambda>ev. \<exists>p r. ev = List_Bookings p r) tr)"
  by (induction fuel arbitrary: skip acc)
    (auto intro!: effect_all_intros split: sum.split)

text \<open>The sweep takes up no booking whose queue item is stronger than what zinc knows: every booking
  it reads is outside the drained ids, and outside the ids on the queue as read in that sweep.\<close>

definition sweep_avoids :: "'x recoverer_env \<Rightarrow> string set \<Rightarrow> event list \<Rightarrow> bool" where
  "sweep_avoids env skip tr \<longleftrightarrow>
     (\<forall>u resp. Get_Booking u resp \<in> set tr \<longrightarrow>
        (\<exists>s items. uuid_parse env s = Some u \<and> s \<notin> skip \<and>
           LRange (Inr items) \<in> set tr \<and> s \<notin> queued_ids env items))"

lemma effect_Sweep: "effect (Sweep env cfg fuel skip) (\<lambda>_ tr. sweep_avoids env skip tr)"
proof -
  have one: "effect (for_each (sweep_one env cfg (skip \<union> queued_ids env items)) bookings)
      (\<lambda>_ tr. \<forall>pre. list_all (\<lambda>ev. \<exists>p r. ev = List_Bookings p r) pre \<longrightarrow>
         sweep_avoids env skip (pre @ LRange (Inr items) # tr))" for items bookings
  proof (rule effect_conseq[OF effect_for_each_all[OF effect_sweep_one]], intro allI impI)
    fix tr pre
    assume "list_all (reads_outside env (skip \<union> queued_ids env items)) tr"
      "list_all (\<lambda>ev. \<exists>p r. ev = List_Bookings p r) pre"
    then show "sweep_avoids env skip (pre @ LRange (Inr items) # tr)"
      by (fastforce simp: sweep_avoids_def list_all_iff)
  qed
  have none: "sweep_avoids env skip pre" "sweep_avoids env skip (pre @ [LRange (Inl e)])"
    if "list_all (\<lambda>ev. \<exists>p r. ev = List_Bookings p r) pre" for pre e
    using that by (auto simp: sweep_avoids_def list_all_iff)
  show ?thesis
    unfolding Sweep_def listRecovering_def queuedBookingIds_def
    by (intro effect_bind effect_conseq[OF effect_listRecovering_loop])
      (auto split: option.split sum.split intro!: effect_bind effect_on_ok effect_invoke effect_conseq[OF one]
        intro: none)
qed

section \<open>Repair\<close>

lemma matches_any_iff:
  "matches_any patterns body \<longleftrightarrow> (\<exists>p. p \<in> set patterns \<and> p \<noteq> [] \<and> sublist (to_lower p) body)"
  by (induction patterns) (auto simp: contains_sublist)

definition repair_justified :: "recoverer_config \<Rightarrow> zinc_booking \<Rightarrow> event list \<Rightarrow> bool" where
  "repair_justified cfg b tr \<longleftrightarrow>
     (let no = deref (zb_BookingNo b); tno = deref (zb_TicketNo b) in
      (tr \<noteq> [] \<longrightarrow> zb_Status b = Some ''Completed'') \<and>
      (\<forall>ev \<in> set tr. case ev of
          Print_Ticket no' tno' r \<Rightarrow> no' = no \<and> tno' = tno \<and> no \<noteq> [] \<and> tno \<noteq> []
        | Transition t u r \<Rightarrow> t = Mark_Manual \<and>
            (no = [] \<or> tno = [] \<or> (\<exists>err. Print_Ticket no tno (Inl err) \<in> set tr \<and>
               matchesNotFound (RepairNotFoundPatterns cfg) err))
        | Attach u no' tno' p r \<Rightarrow> no' = no \<and> tno' = tno \<and> p \<noteq> [] \<and> Print_Ticket no tno (Inr p) \<in> set tr
        | _ \<Rightarrow> False))"

lemma deref_Some: "deref s = t \<Longrightarrow> t \<noteq> [] \<Longrightarrow> s = Some t"
  by (cases s) auto

lemma effect_uploadTicket:
  "effect (uploadTicket env i no tno p) (\<lambda>_ tr. tr = [] \<or> (\<exists>u r. tr = [Attach u no tno p r]))"
  unfolding uploadTicket_def by (intro effect_intros) (auto split: sum.split)

lemma effect_park: "effect (markManualIntervention env i) (\<lambda>_ tr. tr = [] \<or> (\<exists>u r. tr = [Transition Mark_Manual u r]))"
  unfolding markManualIntervention_def
  by (rule effect_conseq[OF effect_mark]) (auto simp: mark_run_def)

lemma effect_repairOne: "effect (repairOne env cfg userData b) (\<lambda>_ tr. repair_justified cfg b tr)"
  unfolding repairOne_def Let_def
  apply (intro effect_if effect_bind effect_invoke effect_conseq[OF effect_park])
  by (auto simp: repair_justified_def Let_def deref_Some split: sum.split
      intro!: effect_bind effect_conseq[OF effect_park] effect_conseq[OF effect_uploadTicket])

section \<open>The check only reads\<close>

fun check_event :: "event \<Rightarrow> bool" where
  "check_event (Now t) = True"
| "check_event (Slept d c) = True"
| "check_event (Get_Booking u r) = True"
| "check_event (List_Bookings p r) = True"
| "check_event (Check_Result c rp r) = True"
| "check_event e = is_scan_event e"

lemma scan_check: "is_scan_event e \<Longrightarrow> check_event e"
  by (cases e) auto

lemma effect_report_retry: "effect (report_retry env checkId res n) (\<lambda>_ tr. list_all check_event tr)"
proof (induction env checkId res n rule: report_retry.induct)
  case (1 env checkId res n)
  show ?case
    by (subst report_retry.simps)
      (auto simp: reportCheck_def split: sum.split intro!: effect_all_intros 1[simplified])
qed

lemma effect_CheckBooking:
  assumes "\<And>t d p. effect (scan t d p) (\<lambda>_ tr. list_all check_event tr)"
  shows "effect (CheckBooking env cfg bookingId now scan) (\<lambda>_ tr. list_all check_event tr)"
  unfolding CheckBooking_def check_claim_def getBooking_def with_uuid_def claimant_def Let_def
  by (auto split: option.split sum.split body.split intro!: effect_all_intros assms)

section \<open>Properties\<close>

lemma effect_invoke_env: "(\<And>x. P (fst (f x)) [ev (fst (f x))]) \<Longrightarrow> effect (invoke f ev) P"
  by (simp add: effect_def)


definition kept :: "'x recoverer_env \<Rightarrow> recoverer_config \<Rightarrow> RecoverDto \<Rightarrow> event list \<Rightarrow> bool" where
  "kept env cfg dto tr \<longleftrightarrow>
     (\<exists>u resp. tr = [Transition Mark_Manual u resp] \<and> accepted resp \<and> MaxAttempts cfg \<le> dto_Attempts dto + 1) \<or>
     (\<exists>pre r s. tr = pre @ [Encrypt (dto\<lparr>dto_Attempts := dto_Attempts dto + 1\<rparr>) r, LPush s (Inr ())] \<and>
        decrypt_any env s = Inr (dto\<lparr>dto_Attempts := dto_Attempts dto + 1\<rparr>) \<and>
        (pre = [] \<or> (\<exists>u resp. pre = [Transition Mark_Manual u resp] \<and> \<not> accepted resp \<and>
           MaxAttempts cfg \<le> dto_Attempts dto + 1)))"

lemma effect_push_back_healthy:
  assumes "\<And>x. \<exists>s. fst (encrypt_any env d x) = Inr s \<and> decrypt_any env s = Inr d"
    and "\<And>s x. fst (redis_lpush env s x) = Inr ()"
  shows "effect (push_back env d) (\<lambda>_ tr. \<exists>r s. tr = [Encrypt d r, LPush s (Inr ())] \<and> decrypt_any env s = Inr d)"
  unfolding push_back_def
proof (intro effect_bind effect_invoke_env)
  fix x
  obtain s where s: "fst (encrypt_any env d x) = Inr s" "decrypt_any env s = Inr d"
    using assms(1) by blast
  show "effect (case fst (encrypt_any env d x) of Inl x \<Rightarrow> return () | Inr enc \<Rightarrow> push_retry env enc 0)
     (\<lambda>b tr'. \<exists>r s. [Encrypt d (fst (encrypt_any env d x))] @ tr' = [Encrypt d r, LPush s (Inr ())] \<and>
        decrypt_any env s = Inr d)"
    using s by (simp add: push_retry.simps, intro effect_bind effect_invoke_env) (simp add: assms(2))
qed

text \<open>C6: A requeued item is kept. When redis takes pushes and sealed items open to what was sealed,
  \<open>requeue\<close> either parks the booking, which it does only at the attempt cap and with zinc's consent,
  or leaves exactly one successful push, of a text that opens to the item with one attempt more.\<close>
theorem requeue_keeps:
  assumes "\<And>x. \<exists>s. fst (encrypt_any env (dto\<lparr>dto_Attempts := dto_Attempts dto + 1\<rparr>) x) = Inr s \<and>
      decrypt_any env s = Inr (dto\<lparr>dto_Attempts := dto_Attempts dto + 1\<rparr>)"
    and "\<And>s x. fst (redis_lpush env s x) = Inr ()"
  shows "effect (requeue env cfg dto) (\<lambda>_ tr. kept env cfg dto tr)"
proof -
  let ?d = "dto\<lparr>dto_Attempts := dto_Attempts dto + 1\<rparr>"
  have stored: "effect (push_back env ?d) (\<lambda>_ tr. kept env cfg dto (pre @ tr))"
    if "pre = [] \<or> (\<exists>u resp. pre = [Transition Mark_Manual u resp] \<and> \<not> accepted resp \<and>
           MaxAttempts cfg \<le> dto_Attempts dto + 1)" for pre
    using that by (intro effect_conseq[OF effect_push_back_healthy[OF assms]]) (unfold kept_def, blast)
  show ?thesis
    unfolding requeue_def Let_def markManualIntervention_def
  proof (intro effect_if effect_bind effect_conseq[OF effect_mark])
    fix a tr
    assume "MaxAttempts cfg \<le> dto_Attempts ?d"
      "mark_run env (dto_BookingId ?d) Mark_Manual a tr"
    then show "effect (case a of Inl x \<Rightarrow> push_back env ?d | Inr x \<Rightarrow> return ())
        (\<lambda>b tr'. kept env cfg dto (tr @ tr'))"
      using stored[of tr] by (auto simp: mark_run_def kept_def split: sum.split)
  next
    show "effect (push_back env ?d) (\<lambda>_. kept env cfg dto)"
      using stored[of "[]"] by simp
  qed
qed

theorem requeue_keeps_witness:
  "kept (example_env\<lparr>decrypt_any := (\<lambda>s. Inr (example_dto ''E111''\<lparr>dto_Attempts := 1\<rparr>))\<rparr>) example_config
     (example_dto ''E111'')
     (trace (requeue (example_env\<lparr>decrypt_any := (\<lambda>s. Inr (example_dto ''E111''\<lparr>dto_Attempts := 1\<rparr>))\<rparr>)
        example_config (example_dto ''E111'')) ())"
  by (rule effect_trace, rule requeue_keeps) (simp_all add: example_env_def Let_def example_dto_def)

text \<open>A drain is bounded and accounts for every item it opens. \<open>Drain\<close> pops at most as many items
  as the queue held when it started, so requeued items wait for the next tick; each opened item is
  processed by \<open>ProcessItem\<close> and requeued exactly when that fails; and the returned set is exactly the
  ids of the opened items.\<close>

theorem Drain_accounts: "effect (Drain env cfg) (\<lambda>r tr. drained env cfg (fst r) tr)"
  by (rule effect_Drain)

text \<open>the sweep leaves stronger items alone: every booking \<open>Sweep\<close> reads from zinc is outside the
  ids the drain handled and outside the ids found on the queue in that same sweep.\<close>

theorem Sweep_avoids_queued: "effect (Sweep env cfg fuel skip) (\<lambda>_ tr. sweep_avoids env skip tr)"
  by (rule effect_Sweep)

lemma int32_small: "0 \<le> n \<Longrightarrow> n < 2 ^ 31 \<Longrightarrow> int32 n = n"
  by (simp add: int32_def)

lemma listRecovering_loop_complete:
  assumes "\<And>skip x. 0 \<le> skip \<Longrightarrow> fst (zinc_list env (recovering_params skip) x) =
      ok_reply (take 100 (drop (nat skip) bookings))"
    and "int (length bookings) < 2 ^ 31 - 100"
  shows "k \<le> length bookings \<Longrightarrow> length bookings - k < 100 * fuel \<Longrightarrow>
    fst (run_state (listRecovering_loop env fuel (int k) (take k bookings)) w) = Some (Inr bookings)"
proof (induction fuel arbitrary: k w)
  case (Suc fuel)
  let ?r = "ok_reply (take 100 (drop k bookings))"
  obtain w' where step: "run_state (invoke (zinc_list env (recovering_params (int k)))
      (List_Bookings (recovering_params (int k)))) w = (?r, w')"
    using assms(1)[of "int k"] by simp
  show ?case
  proof (cases "length bookings - k < 100")
    case True
    then have "take k bookings @ take 100 (drop k bookings) = bookings" by simp
    then show ?thesis using True step by (simp add: listed_def)
  next
    case False
    then have k: "int32 (int k + 100) = int (k + 100)" and "k + 100 \<le> length bookings"
      using assms(2) by (simp_all add: int32_small)
    moreover have "take k bookings @ take 100 (drop k bookings) = take (k + 100) bookings"
      by (simp add: take_add)
    ultimately show ?thesis
      using False Suc.IH[of "k + 100"] Suc.prems step by (simp add: listed_def)
  qed
qed simp

text \<open>The sweep sees every Recovering booking. When zinc pages through one list, enough fuel (one
  page more than the full ones) makes \<open>listRecovering\<close> return exactly that list.\<close>

theorem listRecovering_complete:
  assumes "\<And>skip x. 0 \<le> skip \<Longrightarrow> fst (zinc_list env (recovering_params skip) x) =
      Inr \<lparr>StatusCode = 200, Body = Decoded (take 100 (drop (nat skip) bookings))\<rparr>"
    and "int (length bookings) < 2 ^ 31 - 100" "length bookings < 100 * fuel"
  shows "fst (run_state (listRecovering env fuel) w) = Some (Inr bookings)"
  using listRecovering_loop_complete[OF assms(1,2), of 0 fuel w] assms(3)
  by (simp add: listRecovering_def)

theorem listRecovering_complete_witness:
  "fst (run_state (listRecovering (example_env\<lparr>zinc_list := (\<lambda>p. Pair (ok_reply
      (take 100 (drop (nat (case lp_Skip p of None \<Rightarrow> 0 | Some k \<Rightarrow> k)) (replicate 120 example_booking)))))\<rparr>) 2)
     (fresh_world ())) = Some (Inr (replicate 120 example_booking))"
  by (rule listRecovering_complete) (simp_all add: recovering_params_def)

text \<open>C7: a repair parks only a ticket nobody can print again. For each booking \<open>repairOne\<close> acts only
  when zinc shows it Completed; it parks only when an identifier is missing or KTMB's print error is a
  definitive not-found, and it attaches only the non-empty PDF KTMB printed for the booking's own
  identifiers.\<close>

theorem repairOne_justified: "effect (repairOne env cfg userData b) (\<lambda>_ tr. repair_justified cfg b tr)"
  by (rule effect_repairOne)

text \<open>an admin check changes nothing. Everything \<open>answerCheck\<close> does is read the clock, zinc and
  KTMB, wait, and report the check's own result.\<close>

theorem answerCheck_reads_only: "effect (answerCheck env cfg checkId bookingId) (\<lambda>_ tr. list_all check_event tr)"
proof -
  have scan: "effect (scanOurAccount env cfg t d p) (\<lambda>_ tr. list_all check_event tr)" for t d p
    by (rule effect_conseq[OF effect_scanOurAccount]) (auto simp: list_all_iff scan_check)
  show ?thesis
    unfolding answerCheck_def
    by (intro effect_all_bind effect_all_invoke effect_CheckBooking effect_report_retry scan) simp
qed


definition check_sound :: "(int \<Rightarrow> ticket_list) \<Rightarrow> (ktmb_booking \<Rightarrow> instant) \<Rightarrow> 'x recoverer_env \<Rightarrow> recoverer_config
    \<Rightarrow> instant \<Rightarrow> CheckResult \<Rightarrow> event list \<Rightarrow> bool" where
  "check_sound pages dep env cfg now res tr \<longleftrightarrow>
     (cr_Status res \<in> {CheckFound, CheckNotFound} \<longrightarrow>
       (\<exists>u b target. Get_Booking u (ok_reply b) \<in> set tr \<and>
          departure cfg (ReconstructDto env b) = Inr target \<and> now < target \<and>
          (if cr_Status res = CheckNotFound
           then ticket_verdict pages dep cfg (ReconstructDto env b) target None
           else (\<exists>f. ticket_verdict pages dep cfg (ReconstructDto env b) target (Some f) \<and>
              cr_KtmbBookingNo res = found_BookingNo f \<and> cr_KtmbTicketNo res = found_TicketNo f \<and>
              (\<forall>i. cr_ClaimedBy res = Some i \<longrightarrow>
                 (\<exists>bs c. List_Bookings (claim_params (ReconstructDto env b)) (ok_reply bs) \<in> set tr \<and>
                    c \<in> set bs \<and> zb_Id c = i \<and> zb_BookingNo c = Some (found_BookingNo f)))))))"

lemma check_sound_other:
  "cr_Status res \<noteq> CheckFound \<Longrightarrow> cr_Status res \<noteq> CheckNotFound \<Longrightarrow> check_sound pages dep env cfg now res tr"
  by (simp add: check_sound_def)

definition claim_named :: "RecoverDto \<Rightarrow> foundTicket \<Rightarrow> CheckResult \<Rightarrow> event list \<Rightarrow> bool" where
  "claim_named dto f res tr \<longleftrightarrow> cr_Status res = CheckFound \<and>
     cr_KtmbBookingNo res = found_BookingNo f \<and> cr_KtmbTicketNo res = found_TicketNo f \<and>
     (\<forall>i. cr_ClaimedBy res = Some i \<longrightarrow>
        (\<exists>bs c. List_Bookings (claim_params dto) (ok_reply bs) \<in> set tr \<and>
           c \<in> set bs \<and> zb_Id c = i \<and> zb_BookingNo c = Some (found_BookingNo f)))"

lemma effect_check_claim: "effect (check_claim env dto f) (\<lambda>res tr. claim_named dto f res tr)"
  unfolding check_claim_def Let_def
proof (intro effect_bind effect_conseq[OF effect_claimant] effect_return)
  fix c :: "zinc_booking option result" and tr
  assume "\<exists>resp. tr = [List_Bookings (claim_params dto) resp] \<and>
    (\<forall>x. c = Inr x \<longrightarrow> (\<exists>bs. resp = ok_reply bs \<and> x = first_claim bs (found_BookingNo f)))"
  then show "claim_named dto f (case c of
         Inl err \<Rightarrow> check_of CheckFound []\<lparr>cr_KtmbBookingNo := found_BookingNo f,
           cr_KtmbTicketNo := found_TicketNo f, cr_Error :=
           ''could not look up which booking claims this ticket: '' @ error_text err\<rparr>
       | Inr None \<Rightarrow> check_of CheckFound []\<lparr>cr_KtmbBookingNo := found_BookingNo f,
           cr_KtmbTicketNo := found_TicketNo f\<rparr>
       | Inr (Some claim) \<Rightarrow> check_of CheckFound []\<lparr>cr_KtmbBookingNo := found_BookingNo f,
           cr_KtmbTicketNo := found_TicketNo f, cr_ClaimedBy := Some (zb_Id claim)\<rparr>) (tr @ [])"
    by (auto simp: claim_named_def check_of_def split: sum.split option.split
        dest!: first_claim_Some[OF sym], blast)
qed

lemma check_sound_NotFound:
  assumes "Get_Booking u (ok_reply b) \<in> set tr" "departure cfg (ReconstructDto env b) = Inr target"
    "now < target" "ticket_verdict pages dep cfg (ReconstructDto env b) target None"
  shows "check_sound pages dep env cfg now (check_of CheckNotFound []) tr"
  unfolding check_sound_def check_of_def using assms by auto

lemma check_sound_Found:
  assumes "Get_Booking u (ok_reply b) \<in> set tr" "departure cfg (ReconstructDto env b) = Inr target"
    "now < target" "ticket_verdict pages dep cfg (ReconstructDto env b) target (Some f)"
    "claim_named (ReconstructDto env b) f res tr"
  shows "check_sound pages dep env cfg now res tr"
proof -
  from assms(5) have "cr_Status res \<noteq> CheckNotFound" by (simp add: claim_named_def)
  then show ?thesis
    using assms unfolding check_sound_def claim_named_def by auto
qed

lemma claim_named_mono: "claim_named dto f res tr \<Longrightarrow> set tr \<subseteq> set tr' \<Longrightarrow> claim_named dto f res tr'"
  unfolding claim_named_def by blast

abbreviation check_scanned :: "'x recoverer_env \<Rightarrow> RecoverDto \<Rightarrow> foundTicket option result \<Rightarrow> ('x, CheckResult) action" where
  "check_scanned env d f \<equiv> (case f of
      Inl err \<Rightarrow> return (check_of CheckError (''KTMB scan inconclusive: '' @ error_text err))
    | Inr None \<Rightarrow> return (check_of CheckNotFound [])
    | Inr (Some found) \<Rightarrow> check_claim env d found)"

abbreviation check_dto :: "'x recoverer_env \<Rightarrow> recoverer_config \<Rightarrow> instant \<Rightarrow> RecoverDto \<Rightarrow> ('x, CheckResult) action" where
  "check_dto env cfg now d \<equiv> (case departure cfg d of
      Inl err \<Rightarrow> return (check_of CheckError (unparseable d err))
    | Inr target \<Rightarrow>
        if target \<le> now then return (check_of CheckDeparted [])
        else do {
          f \<leftarrow> scanOurAccount env cfg target (dto_Direction d) (dto_PassportNumber d);
          check_scanned env d f
        })"

lemma effect_check_scanned:
  assumes "departure cfg (ReconstructDto env b) = Inr target" "now < target"
    "\<forall>x. f = Inr x \<longrightarrow> ticket_verdict pages dep cfg (ReconstructDto env b) target x"
  shows "effect (check_scanned env (ReconstructDto env b) f)
    (\<lambda>res tr. check_sound pages dep env cfg now res ([Get_Booking u (ok_reply b)] @ sc @ tr))"
proof -
  consider e where "f = Inl e" | "f = Inr None" | found where "f = Inr (Some found)"
    by (cases f) auto
  then show ?thesis
  proof cases
    case 1
    then show ?thesis by (auto intro!: check_sound_other simp: check_of_def)
  next
    case 2
    then show ?thesis using assms by (auto intro!: check_sound_NotFound[OF _ assms(1)])
  next
    case (3 found)
    then show ?thesis
      using assms by (auto intro!: effect_conseq[OF effect_check_claim] check_sound_Found[OF _ assms(1)]
          elim: claim_named_mono)
  qed
qed

lemma effect_check_dto:
  assumes "account env pages" "ascending pages (TotalPage (pages 1)) (Loc cfg) dep"
  shows "effect (check_dto env cfg now (ReconstructDto env b))
    (\<lambda>res tr. check_sound pages dep env cfg now res ([Get_Booking u (ok_reply b)] @ tr))"
proof (cases "departure cfg (ReconstructDto env b)")
  case (Inr target)
  have scan: "effect (scanOurAccount env cfg target (dto_Direction d) (dto_PassportNumber d))
      (\<lambda>r tr. list_all is_scan_event tr \<and> (\<forall>x. r = Inr x \<longrightarrow> ticket_verdict pages dep cfg d target x))" for d
    using account_scan_means[OF assms] by (intro effect_pred[OF effect_scanOurAccount]) (simp add: scan_means_def)
  show ?thesis
    unfolding Inr sum.case
    by (intro effect_if effect_bind effect_conseq[OF scan] effect_check_scanned[OF Inr] effect_return)
      (auto intro!: check_sound_other simp: check_of_def)
qed (auto intro!: check_sound_other simp: check_of_def)

lemma effect_check_read:
  assumes "\<And>b. r = Inr (Some b) \<Longrightarrow> effect (k b) (\<lambda>res tr'. check_sound pages dep env cfg now res (tr @ tr'))"
  shows "effect (case r of
       Inl err \<Rightarrow> return (check_of CheckError (error_text err))
     | Inr None \<Rightarrow> return (check_of CheckError ''booking not found in zinc'')
     | Inr (Some b) \<Rightarrow> k b) (\<lambda>res tr'. check_sound pages dep env cfg now res (tr @ tr'))"
  using assms by (auto split: sum.split option.split intro!: check_sound_other simp: check_of_def)

text \<open>C8: An admin check reports what the account holds. On one ascending account, \<open>CheckBooking\<close> answers
  NotFound only when no row at the booking's departure carries its passport and the departure lies
  ahead, and Found only with the numbers of a confirmed row; when it names a claiming booking, that is
  a completed zinc booking that records the found KTMB number.\<close>
theorem CheckBooking_verdict:
  assumes "account env pages" "ascending pages (TotalPage (pages 1)) (Loc cfg) dep"
  shows "effect (CheckBooking env cfg bookingId now (scanOurAccount env cfg))
    (\<lambda>res tr. check_sound pages dep env cfg now res tr)"
  unfolding CheckBooking_def Let_def
proof (intro effect_bind effect_conseq[OF effect_getBooking] effect_check_read)
  fix r tr b
  assume "(uuid_parse env bookingId = None \<and> tr = [] \<and> r = Inl Uuid_Error) \<or>
     (\<exists>u resp. uuid_parse env bookingId = Some u \<and> tr = [Get_Booking u resp] \<and>
        (r = Inr None \<longleftrightarrow> status_of resp = Some 404) \<and>
        (\<forall>b. r = Inr (Some b) \<longleftrightarrow> resp = ok_reply b))" "r = Inr (Some b)"
  then obtain u where "tr = [Get_Booking u (ok_reply b)]" by auto
  then show "effect (check_dto env cfg now (ReconstructDto env b))
      (\<lambda>res tr'. check_sound pages dep env cfg now res (tr @ tr'))"
    using effect_check_dto[OF assms, where now = now and b = b and u = u] by simp
qed

theorem CheckBooking_verdict_witness:
  "check_sound example_pages example_dep example_env example_config 0
     (outcome (CheckBooking example_env example_config ''7'' 0 (scanOurAccount example_env example_config)) ())
     (trace (CheckBooking example_env example_config ''7'' 0 (scanOurAccount example_env example_config)) ()) \<and>
   cr_Status (outcome (CheckBooking example_env example_config ''7'' 0 (scanOurAccount example_env example_config)) ())
     = CheckNotFound"
  by (rule conjI, rule effect_trace[OF CheckBooking_verdict[OF example_account example_config_ascending]], code_simp)

end
