(* ===== verification/Sharding.thy ===== *)
theory Sharding
  imports Tin_Prelude
begin

text \<open>
  Splitting a list of targets into the chunks one Job or pod works on. The prober and the
  poller each have their own function; the contract both owe their callers is a locale, and
  the facts the callers use are proved once inside it. \<open>slices\<close> is the slicing loop the
  two functions share.
\<close>

locale sharding =
  fixes shard :: "'a list \<Rightarrow> int \<Rightarrow> 'a list list"
  assumes shard_concat: "concat (shard xs n) = xs"
    and shard_size: "0 < n \<Longrightarrow> s \<in> set (shard xs n) \<Longrightarrow> int (length s) \<le> n"
    and shard_nonempty: "xs \<noteq> [] \<Longrightarrow> s \<in> set (shard xs n) \<Longrightarrow> s \<noteq> []"
begin

lemma shard_member: "x \<in> set xs \<longleftrightarrow> (\<exists>s \<in> set (shard xs n). x \<in> set s)"
  using arg_cong[OF shard_concat[of xs n], of set] by auto

lemma shard_total: "sum_list (map length (shard xs n)) = length xs"
  using arg_cong[OF shard_concat[of xs n], of length] by (simp add: length_concat)

lemma shard_count: "xs \<noteq> [] \<Longrightarrow> length (shard xs n) \<le> length xs"
proof -
  assume "xs \<noteq> []"
  then have "sum_list (map (\<lambda>_. 1) (shard xs n)) \<le> sum_list (map length (shard xs n))"
    using shard_nonempty[of xs _ n] by (intro sum_list_mono) (fastforce simp: Suc_le_eq)
  then show ?thesis by (simp add: shard_total sum_list_triv)
qed

lemma shard_disjoint:
  assumes "distinct xs" "i < j" "j < length (shard xs n)"
  shows "set (shard xs n ! i) \<inter> set (shard xs n ! j) = {}"
proof -
  let ?s = "shard xs n"
  have "?s = take j ?s @ ?s ! j # drop (Suc j) ?s"
    using assms(3) by (simp add: id_take_nth_drop)
  then have "xs = concat (take j ?s) @ ?s ! j @ concat (drop (Suc j) ?s)"
    by (metis shard_concat concat.simps(2) concat_append)
  then have "set (concat (take j ?s)) \<inter> set (?s ! j) = {}"
    using assms(1) by (metis distinct_append disjoint_iff UnI1 set_append)
  moreover have "?s ! i \<in> set (take j ?s)"
    using assms(2,3) by (auto simp: in_set_conv_nth intro!: exI[of _ i])
  ultimately show ?thesis by fastforce
qed

end

text \<open>\<open>for start := 0; start < len; start += size\<close>, each slice cut at the end of the list.\<close>

function slices :: "nat \<Rightarrow> 'a list \<Rightarrow> 'a list list" where
  "slices k xs = (if xs = [] \<or> k = 0 then [] else take k xs # slices k (drop k xs))"
  by pat_completeness auto
termination by (relation "measure (\<lambda>(k, xs). length xs)") auto

declare slices.simps [simp del]

lemma slices_concat: "0 < k \<Longrightarrow> concat (slices k xs) = xs"
proof (induction k xs rule: slices.induct)
  case (1 k xs)
  then show ?case by (cases "xs = []") (simp_all add: slices.simps[of k xs] slices.simps[of k "[]"])
qed

lemma slices_size: "s \<in> set (slices k xs) \<Longrightarrow> length s \<le> k \<and> s \<noteq> []"
proof (induction k xs rule: slices.induct)
  case (1 k xs)
  then show ?case by (auto simp: slices.simps[of k xs] split: if_splits)
qed

end
