(* ===== verification/Count.thy ===== *)
theory Count
  imports Go_Time
begin

text \<open>
  lib/count/client.go: the demand snapshot (how many seats each departure still needs) that
  the poller, the reserver and the prober fleet read, and the windows it is filtered by. A Go
  map is the list of its entries in some iteration order; \<open>wf_count\<close> says its keys are
  distinct on each level, as the keys of a map are.
\<close>

type_synonym times = "(string \<times> int) list"
type_synonym dates = "(string \<times> times) list"
type_synonym count = "(string \<times> dates) list"

definition wf_count :: "count \<Rightarrow> bool" where
  "wf_count c \<longleftrightarrow> distinct (map fst c) \<and>
     (\<forall>dc \<in> set (map snd c). distinct (map fst dc) \<and> (\<forall>tc \<in> set (map snd dc). distinct (map fst tc)))"

text \<open>\<open>counts[dir][date][time]\<close>; a read through a missing level finds nothing.\<close>

definition demand :: "count \<Rightarrow> string \<Rightarrow> string \<Rightarrow> string \<Rightarrow> int option" where
  "demand c dir day t =
     Option.bind (map_of c dir) (\<lambda>dc. Option.bind (map_of dc day) (\<lambda>tc. map_of tc t))"

record buffer_config =
  Closing :: int

record client =
  buffer :: buffer_config
  client_loc :: location

definition countLayout :: "chunk list" where
  "countLayout = [Day, Lit (CHR ''-''), Month, Lit (CHR ''-''), Year, Lit (CHR '' ''),
     Hour, Lit (CHR '':''), Minute, Lit (CHR '':''), Second]"

definition parseDateTime :: "client \<Rightarrow> string \<Rightarrow> string \<Rightarrow> instant result" where
  "parseDateTime p dateStr timeStr = parse_in_location countLayout (dateStr @ '' '' @ timeStr) (client_loc p)"

text \<open>The window: from \<open>Closing\<close> minutes ahead to the last second of the month that holds the day
  six months ahead, in Go's normalising date arithmetic.\<close>

definition genRange :: "client \<Rightarrow> instant \<Rightarrow> instant \<times> instant" where
  "genRange p now =
     (let loc = client_loc p;
          plus30m = now + Closing (buffer p) * minute;
          six = civil loc (add_date loc now 0 6 0);
          lastDay = civil loc (date (fst six) (fst (snd six) + 1) 0 0 0 0 0 loc)
      in (plus30m, date (fst lastDay) (fst (snd lastDay)) (snd (snd lastDay)) 23 59 59 0 loc))"

lemmas genRange_eq [code] = genRange_def [unfolded Let_def]

definition isPollable :: "client \<Rightarrow> instant \<Rightarrow> string \<Rightarrow> string \<Rightarrow> bool result" where
  "isPollable p now dateStr timeStr =
     (case parseDateTime p dateStr timeStr of
        Inl e \<Rightarrow> Inl e
      | Inr given \<Rightarrow> (case genRange p now of (start, end_) \<Rightarrow> Inr (start < given \<and> given < end_)))"

definition isReservable :: "client \<Rightarrow> instant \<Rightarrow> string \<Rightarrow> string \<Rightarrow> bool result" where
  "isReservable p now dateStr timeStr =
     (case parseDateTime p dateStr timeStr of
        Inl e \<Rightarrow> Inl e
      | Inr given \<Rightarrow> Inr (fst (genRange p now) < given))"

text \<open>The two filters run the same loops with their own test; inner maps are made on the first entry
  that passes, so an entry with nothing left does not appear.\<close>

fun filter_times :: "(string \<Rightarrow> bool result) \<Rightarrow> times \<Rightarrow> times result" where
  "filter_times within [] = Inr []"
| "filter_times within ((t, c) # ts) =
     (case within t of
        Inl e \<Rightarrow> Inl e
      | Inr w \<Rightarrow> (case filter_times within ts of
            Inl e \<Rightarrow> Inl e
          | Inr r \<Rightarrow> Inr (if w then (t, c) # r else r)))"

fun filter_dates :: "(string \<Rightarrow> string \<Rightarrow> bool result) \<Rightarrow> dates \<Rightarrow> dates result" where
  "filter_dates within [] = Inr []"
| "filter_dates within ((d, ts) # ds) =
     (case filter_times (within d) ts of
        Inl e \<Rightarrow> Inl e
      | Inr ts' \<Rightarrow> (case filter_dates within ds of
            Inl e \<Rightarrow> Inl e
          | Inr r \<Rightarrow> Inr (if ts' = [] then r else (d, ts') # r)))"

fun filter_count :: "(string \<Rightarrow> string \<Rightarrow> bool result) \<Rightarrow> count \<Rightarrow> count result" where
  "filter_count within [] = Inr []"
| "filter_count within ((dir, ds) # c) =
     (case filter_dates within ds of
        Inl e \<Rightarrow> Inl e
      | Inr ds' \<Rightarrow> (case filter_count within c of
            Inl e \<Rightarrow> Inl e
          | Inr r \<Rightarrow> Inr (if ds' = [] then r else (dir, ds') # r)))"

definition filterPoller :: "client \<Rightarrow> count \<Rightarrow> instant \<Rightarrow> count result" where
  "filterPoller p counts now = filter_count (isPollable p now) counts"

definition filterReserve :: "client \<Rightarrow> count \<Rightarrow> instant \<Rightarrow> count result" where
  "filterReserve p counts now = filter_count (isReservable p now) counts"

text \<open>The three results of the Go functions: whether the key exists, the counts (\<open>None\<close> is the nil map)
  and the error. The snapshot key is read with \<open>EXISTS\<close> and \<open>GET\<close>; a JSON null decodes to nil.\<close>

record 'x count_env =
  redis_exists :: "'x \<Rightarrow> int result \<times> 'x"
  redis_get :: "'x \<Rightarrow> string result \<times> 'x"
  count_unmarshal :: "string \<Rightarrow> count option result"

datatype count_event = Exists "int result" | Get "string result"

type_synonym count_read = "bool \<times> count option \<times> error option"

definition getCount :: "'x count_env \<Rightarrow> ('x, count_event, count_read) proc" where
  "getCount env = do {
     exists \<leftarrow> invoke (redis_exists env) Exists;
     case exists of
       Inl err \<Rightarrow> return (False, None, Some err)
     | Inr n \<Rightarrow>
         if n = 0 then return (False, None, None)
         else do {
           r \<leftarrow> invoke (redis_get env) Get;
           return (case r of
               Inl err \<Rightarrow> (False, None, Some err)
             | Inr countsJson \<Rightarrow> (case count_unmarshal env countsJson of
                   Inl err \<Rightarrow> (False, None, Some err)
                 | Inr counts \<Rightarrow> (True, counts, None)))
         }
   }"

definition with_filter :: "(count \<Rightarrow> count result) \<Rightarrow> count_read \<Rightarrow> count_read" where
  "with_filter f r = (case r of
       (exist, None, err) \<Rightarrow> (exist, None, err)
     | (exist, Some counts, err) \<Rightarrow> (case f counts of
           Inl e \<Rightarrow> (exist, None, Some e)
         | Inr c \<Rightarrow> (exist, Some c, None)))"

definition GetPollerCount :: "'x count_env \<Rightarrow> client \<Rightarrow> instant \<Rightarrow> ('x, count_event, count_read) proc" where
  "GetPollerCount env p now = do {
     r \<leftarrow> getCount env;
     return (with_filter (\<lambda>counts. filterPoller p counts now) r)
   }"

definition GetReserverCount :: "'x count_env \<Rightarrow> client \<Rightarrow> instant \<Rightarrow> ('x, count_event, count_read) proc" where
  "GetReserverCount env p now = do {
     r \<leftarrow> getCount env;
     return (with_filter (\<lambda>counts. filterReserve p counts now) r)
   }"

section \<open>Lemmas\<close>

lemma filter_times_map_of:
  "filter_times within ts = Inr r \<Longrightarrow> distinct (map fst ts) \<Longrightarrow>
   map_of r t = (if within t = Inr True then map_of ts t else None) \<and> fst ` set r \<subseteq> fst ` set ts"
proof (induction within ts arbitrary: r rule: filter_times.induct)
  case (2 within u c ts)
  then obtain w r' where w: "within u = Inr w" "filter_times within ts = Inr r'"
    "r = (if w then (u, c) # r' else r')" by (auto split: sum.splits)
  have IH: "map_of r' t = (if within t = Inr True then map_of ts t else None)" "fst ` set r' \<subseteq> fst ` set ts"
    using 2(1)[OF w(1,2)] 2(3) by auto
  show ?case
  proof (cases "t = u")
    case True
    then have "map_of ts t = None" using 2(3) by (simp add: map_of_eq_None_iff)
    then show ?thesis using True w IH by auto
  next
    case False
    then show ?thesis using w IH by auto
  qed
qed simp

lemma filter_dates_map_of:
  "filter_dates within ds = Inr r \<Longrightarrow> distinct (map fst ds) \<Longrightarrow>
   (\<forall>ts \<in> set (map snd ds). distinct (map fst ts)) \<Longrightarrow>
   Option.bind (map_of r d) (\<lambda>ts. map_of ts t) =
     (if within d t = Inr True then Option.bind (map_of ds d) (\<lambda>ts. map_of ts t) else None) \<and>
   fst ` set r \<subseteq> fst ` set ds"
proof (induction within ds arbitrary: r rule: filter_dates.induct)
  case (2 within e ts ds)
  then obtain ts' r' where w: "filter_times (within e) ts = Inr ts'" "filter_dates within ds = Inr r'"
    "r = (if ts' = [] then r' else (e, ts') # r')" by (auto split: sum.splits)
  have IH: "Option.bind (map_of r' d) (\<lambda>ts. map_of ts t) =
     (if within d t = Inr True then Option.bind (map_of ds d) (\<lambda>ts. map_of ts t) else None)"
    "fst ` set r' \<subseteq> fst ` set ds"
    using 2(1)[OF w(1,2)] 2(3,4) by auto
  have ts: "map_of ts' t = (if within e t = Inr True then map_of ts t else None)"
    using filter_times_map_of[OF w(1)] 2(4) by simp
  show ?case
  proof (cases "d = e")
    case True
    then have "map_of r' d = None" using IH(2) 2(3) by (auto simp: map_of_eq_None_iff)
    then show ?thesis using True w(3) IH ts by (auto split: if_splits)
  next
    case False
    then show ?thesis using w(3) IH by auto
  qed
qed simp

lemma filter_count_demand:
  "filter_count within c = Inr r \<Longrightarrow> wf_count c \<Longrightarrow>
   demand r dir d t = (if within d t = Inr True then demand c dir d t else None) \<and>
   fst ` set r \<subseteq> fst ` set c"
proof (induction within c arbitrary: r rule: filter_count.induct)
  case (2 within e ds c)
  then obtain ds' r' where w: "filter_dates within ds = Inr ds'" "filter_count within c = Inr r'"
    "r = (if ds' = [] then r' else (e, ds') # r')" by (auto split: sum.splits)
  have wf: "wf_count c" and e: "e \<notin> fst ` set c" and ds: "distinct (map fst ds)"
      "\<forall>ts \<in> set (map snd ds). distinct (map fst ts)"
    using 2(3) by (auto simp: wf_count_def)
  note IH = 2(1)[OF w(1,2) wf]
  note D = filter_dates_map_of[OF w(1) ds, of d t]
  show ?case
  proof (cases "dir = e")
    case True
    then have "map_of r' dir = None" using IH e by (auto simp: map_of_eq_None_iff)
    then show ?thesis using True w(3) IH D by (auto simp: demand_def split: if_splits)
  next
    case False
    then show ?thesis using w(3) IH by (auto simp: demand_def)
  qed
qed (simp add: demand_def)

lemma filter_times_error:
  "(\<exists>r. filter_times within ts = Inr r) \<longleftrightarrow> (\<forall>(t, c) \<in> set ts. \<exists>w. within t = Inr w)"
  by (induction within ts rule: filter_times.induct) (auto split: sum.splits)

lemma filter_dates_error:
  "(\<exists>r. filter_dates within ds = Inr r) \<longleftrightarrow>
     (\<forall>(d, ts) \<in> set ds. \<forall>(t, c) \<in> set ts. \<exists>w. within d t = Inr w)"
proof (induction within ds rule: filter_dates.induct)
  case (2 within d ts ds)
  then show ?case
    using filter_times_error[of "within d" ts] by (auto split: sum.splits) fastforce+
qed simp

section \<open>Properties\<close>

text \<open>The poller's window. When \<open>filterPoller\<close> returns counts, a departure is demanded in them
  exactly when the snapshot demands it and it lies strictly between the closing buffer and the end
  of the window, with the same number of seats.\<close>

theorem filterPoller_window:
  assumes "wf_count counts" "filterPoller p counts now = Inr r"
  shows "demand r dir d t = (case parseDateTime p d t of
      Inl e \<Rightarrow> None
    | Inr given \<Rightarrow> if fst (genRange p now) < given \<and> given < snd (genRange p now)
        then demand counts dir d t else None)"
  using filter_count_demand[OF assms(2)[unfolded filterPoller_def] assms(1), of dir d t]
  by (auto simp: isPollable_def split: sum.split prod.split)

definition example_client :: client where
  "example_client = \<lparr>buffer = \<lparr>Closing = 30\<rparr>, client_loc = 28800\<rparr>"

definition example_counts :: count where
  "example_counts = [(''JToW'', [(''01-03-2026'', [(''08:30:00'', 2)]), (''01-12-2026'', [(''08:30:00'', 1)])])]"

lemma example_civil:
  "civil 28800 1769875200000000000 = (2026, 2, 1)" "civil 28800 1785513600000000000 = (2026, 8, 1)"
  "civil 28800 1788105600000000000 = (2026, 8, 31)"
  by code_simp+

lemma example_range:
  "genRange example_client 1769875200000000000 = (1769877000000000000, 1788191999000000000)"
  by (simp add: genRange_eq add_date_eq example_civil example_client_def minute_def second_def
      local_seconds_def date_eq days_from_civil_eq)

lemma example_parse:
  "parseDateTime example_client ''01-03-2026'' ''08:30:00'' = Inr 1772325000000000000"
  "parseDateTime example_client ''01-12-2026'' ''08:30:00'' = Inr 1796085000000000000"
  by code_simp+

theorem filterPoller_window_witness:
  "demand [(''JToW'', [(''01-03-2026'', [(''08:30:00'', 2)])])] ''JToW'' ''01-03-2026'' ''08:30:00'' =
    (case parseDateTime example_client ''01-03-2026'' ''08:30:00'' of
      Inl e \<Rightarrow> None
    | Inr given \<Rightarrow> if fst (genRange example_client 1769875200000000000) < given \<and>
          given < snd (genRange example_client 1769875200000000000)
        then demand example_counts ''JToW'' ''01-03-2026'' ''08:30:00'' else None)"
  by (rule filterPoller_window)
    (simp_all add: wf_count_def example_counts_def filterPoller_def isPollable_def example_parse example_range)

end
