(* ===== verification/Prober_Fleet.thy ===== *)
theory Prober_Fleet
  imports Sharding Count "HOL-Library.Multiset" "HOL-Library.List_Lexorder" "HOL-Library.Product_Lexorder" "HOL-Library.Char_ord"
begin

text \<open>
  lib/prober/model.go, job.go and spawner.go: one prober epoch, from the demand snapshot to
  the Jobs that probe it. The snapshot's iteration order is that of a Go map, so the targets
  are sorted; they are cut into shards and each shard is probed by \<open>Fanout\<close> Jobs with
  deterministic names, so that a second attempt in the same epoch creates nothing new.
\<close>

section \<open>Data\<close>

record Target =
  Direction :: string
  Date :: string
  Time :: string
  Needed :: int

definition Key :: "Target \<Rightarrow> string" where
  "Key t = Direction t @ '':'' @ Date t @ '':'' @ Time t"

record SlotTally =
  Slot :: string
  Polls :: int
  Holds :: int
  SoldOut :: int
  Stale :: int
  Errors :: int
  RateLimited :: int
  SessionDead :: int
  Skipped :: int
  ReleaseFailed :: int

record JobTally =
  Epoch :: int
  Job :: string
  Slots :: "SlotTally list"
  Total :: SlotTally

definition slot_zero :: "string \<Rightarrow> SlotTally" where
  "slot_zero s = \<lparr>Slot = s, Polls = 0, Holds = 0, SoldOut = 0, Stale = 0, Errors = 0, RateLimited = 0,
     SessionDead = 0, Skipped = 0, ReleaseFailed = 0\<rparr>"

definition add_tally :: "SlotTally \<Rightarrow> SlotTally \<Rightarrow> SlotTally" where
  "add_tally acc slot = \<lparr>Slot = Slot acc,
     Polls = Polls acc + Polls slot,
     Holds = Holds acc + Holds slot,
     SoldOut = SoldOut acc + SoldOut slot,
     Stale = Stale acc + Stale slot,
     Errors = Errors acc + Errors slot,
     RateLimited = RateLimited acc + RateLimited slot,
     SessionDead = SessionDead acc + SessionDead slot,
     Skipped = Skipped acc + Skipped slot,
     ReleaseFailed = ReleaseFailed acc + ReleaseFailed slot\<rparr>"

definition SumTallies :: "int \<Rightarrow> string \<Rightarrow> SlotTally list \<Rightarrow> JobTally" where
  "SumTallies epoch job slots = \<lparr>Epoch = epoch, Job = job, Slots = slots,
     Total = foldl add_tally (slot_zero ''total'') slots\<rparr>"

section \<open>Targets\<close>

definition targets_of_times :: "string \<Rightarrow> string \<Rightarrow> times \<Rightarrow> Target list" where
  "targets_of_times dir day ts =
     [\<lparr>Direction = dir, Date = day, Time = t, Needed = n\<rparr>. (t, n) \<leftarrow> ts, n > 0]"

definition targets_of :: "count \<Rightarrow> Target list" where
  "targets_of counts = concat (map (\<lambda>(dir, ds). concat (map (\<lambda>(day, ts). targets_of_times dir day ts) ds)) counts)"

definition sort_order :: "Target \<Rightarrow> string \<times> string \<times> string" where
  "sort_order t = (Date t, Direction t, Time t)"

definition TargetsFromCount :: "count \<Rightarrow> Target list" where
  "TargetsFromCount counts = sort_key sort_order (targets_of counts)"

definition ShardTargets :: "Target list \<Rightarrow> int \<Rightarrow> Target list list" where
  "ShardTargets targets k =
     (if targets = [] then []
      else if k \<le> 0 \<or> int (length targets) \<le> k then [targets]
      else slices (nat k) targets)"

fun matches_pattern :: "string \<Rightarrow> string list \<Rightarrow> bool" where
  "matches_pattern message [] = False"
| "matches_pattern message (p # ps) =
     (let pattern = trim_space (to_lower p)
      in pattern \<noteq> [] \<and> contains message pattern \<or> matches_pattern message ps)"

fun Matches :: "string list \<Rightarrow> string list \<Rightarrow> bool" where
  "Matches [] patterns = False"
| "Matches (m # ms) patterns = (matches_pattern (to_lower m) patterns \<or> Matches ms patterns)"

section \<open>Jobs\<close>

definition JobName :: "int \<Rightarrow> int \<Rightarrow> int \<Rightarrow> string" where
  "JobName epoch shard fanout =
     ''tin-prober-'' @ format_int epoch @ ''-'' @ format_int shard @ ''-'' @ format_int fanout"

record app_config =
  Landscape :: string
  Platform :: string
  Service :: string

record job_creator =
  jobNamespace :: string
  jobApp :: app_config
  jobMinutes :: int
  jobCpu :: string
  jobMemory :: string

text \<open>The fields of the Kubernetes Job the creator sets; the pod's container is otherwise the
  spawner's own.\<close>

record job_spec =
  job_Name :: string
  job_Namespace :: string
  job_Labels :: "(string \<times> string) list"
  job_BackoffLimit :: int
  job_TTLSecondsAfterFinished :: int
  job_ActiveDeadlineSeconds :: int
  job_Command :: "string list"
  job_Args :: "string list"
  job_Module :: string
  job_Cpu :: string
  job_Memory :: string

datatype create_result = Created | Already_Exists | Create_Failed error

record 'x spawner_env =
  marshal_targets :: "Target list \<Rightarrow> string result"
  kube_create :: "job_spec \<Rightarrow> 'x \<Rightarrow> create_result \<times> 'x"
  poller_count :: "instant \<Rightarrow> 'x \<Rightarrow> count_read \<times> 'x"
  recover_session :: "'x \<Rightarrow> unit result \<times> 'x"
  ensure_store :: "Target list \<Rightarrow> 'x \<Rightarrow> unit result \<times> 'x"
  write_expected :: "int \<Rightarrow> string list \<Rightarrow> 'x \<Rightarrow> unit result \<times> 'x"
  read_expected :: "int \<Rightarrow> 'x \<Rightarrow> string list result \<times> 'x"
  read_tallies :: "int \<Rightarrow> 'x \<Rightarrow> JobTally option list result \<times> 'x"

datatype spawn_event =
    Read_Expected int "string list result"
  | Read_Tallies int "JobTally option list result"
  | Poller_Count count_read
  | Recover_Session "unit result"
  | Ensure_Store "Target list" "unit result"
  | Write_Expected int "string list" "unit result"
  | Create_Job job_spec create_result

record prober_config =
  EpochMinutes :: int
  JobMinutes :: int
  SlotsPerJob :: int
  Fanout :: int

definition job_labels :: "job_creator \<Rightarrow> int \<Rightarrow> (string \<times> string) list" where
  "job_labels c epoch =
     [(''atomi.cloud/landscape'', Landscape (jobApp c)),
      (''atomi.cloud/platform'', Platform (jobApp c)),
      (''atomi.cloud/service'', Service (jobApp c)),
      (''atomi.cloud/module'', ''prober''),
      (''atomi.cloud/layer'', ''2''),
      (''nitroso.atomi.cloud/epoch'', format_int epoch)]"

text \<open>The source parses the cpu and the memory as Kubernetes quantities here, and panics when the configuration has a
  malformed one; they are kept as the strings they are configured as.\<close>

definition job_of :: "job_creator \<Rightarrow> int \<Rightarrow> int \<Rightarrow> int \<Rightarrow> string \<Rightarrow> job_spec" where
  "job_of c epoch shard fanout data =
     \<lparr>job_Name = JobName epoch shard fanout,
      job_Namespace = jobNamespace c,
      job_Labels = job_labels c epoch,
      job_BackoffLimit = 0,
      job_TTLSecondsAfterFinished = 300,
      job_ActiveDeadlineSeconds = jobMinutes c * 60 + 125,
      job_Command = [''/app/nitroso-tin'', ''prober''],
      job_Args = [''--data'', data, ''--interval'', format_int (jobMinutes c * 60),
        ''--epoch'', format_int epoch, ''--job'', JobName epoch shard fanout],
      job_Module = ''prober'',
      job_Cpu = (if jobCpu c = [] then ''250m'' else jobCpu c),
      job_Memory = (if jobMemory c = [] then ''128Mi'' else jobMemory c)\<rparr>"

definition Create :: "'x spawner_env \<Rightarrow> job_creator \<Rightarrow> int \<Rightarrow> int \<Rightarrow> int \<Rightarrow> Target list
    \<Rightarrow> ('x, spawn_event, unit result) proc" where
  "Create env c epoch shard fanout targets =
     (case marshal_targets env targets of
        Inl err \<Rightarrow> return (Inl (Wrapped ''marshal prober targets'' err))
      | Inr data \<Rightarrow> do {
          r \<leftarrow> invoke (kube_create env (job_of c epoch shard fanout data)) (Create_Job (job_of c epoch shard fanout data));
          return (case r of
              Already_Exists \<Rightarrow> Inr ()
            | Create_Failed err \<Rightarrow> Inl (Wrapped (''create prober Job '' @ JobName epoch shard fanout) err)
            | Created \<Rightarrow> Inr ())
        })"

section \<open>Spawning an epoch\<close>

fun MissingJobs :: "string list \<Rightarrow> string set \<Rightarrow> string list" where
  "MissingJobs [] received = []"
| "MissingJobs (name # names) received =
     (if name \<notin> received then name # MissingJobs names received else MissingJobs names received)"

text \<open>The report of the previous epoch: the missing Jobs and the totals it logs; \<open>None\<close> when it logs
  none. An entry that does not unmarshal is skipped.\<close>

definition logPreviousTally :: "'x spawner_env \<Rightarrow> int
    \<Rightarrow> ('x, spawn_event, (string list \<times> int \<times> int \<times> int) option) proc" where
  "logPreviousTally env epoch = do {
     e \<leftarrow> invoke (read_expected env epoch) (Read_Expected epoch);
     v \<leftarrow> invoke (read_tallies env epoch) (Read_Tallies epoch);
     let expected = (case e of Inl _ \<Rightarrow> [] | Inr names \<Rightarrow> names);
     return (case v of
         Inl _ \<Rightarrow> None
       | Inr values \<Rightarrow>
           if expected = [] \<and> values = [] then None
           else (let tallies = List.map_filter id values in
             Some (MissingJobs expected (Job ` set tallies),
               sum_list (map (\<lambda>t. Polls (Total t)) tallies),
               sum_list (map (\<lambda>t. Holds (Total t)) tallies),
               sum_list (map (\<lambda>t. RateLimited (Total t)) tallies))))
   }"

text \<open>The Jobs of an epoch, in the order both loops run.\<close>

definition fleet :: "prober_config \<Rightarrow> Target list \<Rightarrow> (int \<times> int \<times> Target list) list" where
  "fleet cfg targets =
     [(int i, int f, s). (i, s) \<leftarrow> enumerate 0 (ShardTargets targets (SlotsPerJob cfg)), f \<leftarrow> [0..<nat (Fanout cfg)]]"

fun create_all :: "'x spawner_env \<Rightarrow> job_creator \<Rightarrow> int \<Rightarrow> (int \<times> int \<times> Target list) list \<Rightarrow> error list
    \<Rightarrow> ('x, spawn_event, error list) proc" where
  "create_all env c epoch [] createErrors = return createErrors"
| "create_all env c epoch ((shard, fanout, targets) # js) createErrors = do {
     r \<leftarrow> Create env c epoch shard fanout targets;
     case r of
       Inl err \<Rightarrow> create_all env c epoch js (createErrors @ [err])
     | Inr _ \<Rightarrow> create_all env c epoch js createErrors
   }"

text \<open>Go's integer division truncates; \<open>now.Unix()\<close> floors.\<close>

definition quot :: "int \<Rightarrow> int \<Rightarrow> int" where
  "quot a b = sgn a * sgn b * (\<bar>a\<bar> div \<bar>b\<bar>)"

definition unix :: "instant \<Rightarrow> int" where
  "unix t = t div nanos_per_second"

text \<open>Recording the fleet and creating its Jobs.\<close>

definition launch :: "'x spawner_env \<Rightarrow> job_creator \<Rightarrow> prober_config \<Rightarrow> int \<Rightarrow> Target list
    \<Rightarrow> ('x, spawn_event, unit result) proc" where
  "launch env c cfg epoch targets =
     on_ok (invoke (recover_session env) Recover_Session) (\<lambda>_.
       on_ok (invoke (ensure_store env targets) (Ensure_Store targets)) (\<lambda>_.
         (let expected = map (\<lambda>(shard, fanout, _). JobName epoch shard fanout) (fleet cfg targets) in do {
            w \<leftarrow> invoke (write_expected env epoch expected) (Write_Expected epoch expected);
            case w of
              Inl err \<Rightarrow> return (Inl (Wrapped ''persist expected prober fleet'' err))
            | Inr _ \<Rightarrow> do {
                createErrors \<leftarrow> create_all env c epoch (fleet cfg targets) [];
                return (join_errors createErrors)
              }
          })))"

definition Spawn :: "'x spawner_env \<Rightarrow> job_creator \<Rightarrow> prober_config \<Rightarrow> instant \<Rightarrow> ('x, spawn_event, unit result) proc" where
  "Spawn env c cfg now =
     (let epochSeconds = EpochMinutes cfg * 60 in
      if epochSeconds \<le> 0 \<or> JobMinutes cfg \<le> 0 \<or> SlotsPerJob cfg \<le> 0 \<or> Fanout cfg \<le> 0
      then return (Inl (Msg ''invalid prober fleet config: epochMinutes, jobMinutes, slotsPerJob and fanout must be positive''))
      else
        (let epoch = quot (unix now) epochSeconds;
             overlap = quot (JobMinutes cfg + EpochMinutes cfg - 1) (EpochMinutes cfg)
         in do {
           _ \<leftarrow> logPreviousTally env (epoch - overlap - 1);
           r \<leftarrow> invoke (poller_count env now) Poller_Count;
           case r of
             (exists, counts, Some err) \<Rightarrow> return (Inl err)
           | (exists, counts, None) \<Rightarrow>
               if \<not> exists then return (Inr ())
               else (let targets = TargetsFromCount (case counts of None \<Rightarrow> [] | Some cs \<Rightarrow> cs) in
                 if targets = [] then return (Inr ()) else launch env c cfg epoch targets)
         }))"

section \<open>Targets: the demanded slots, once each, in one order\<close>

interpretation prober_shards: sharding ShardTargets
proof unfold_locales
  fix xs :: "Target list" and s :: "Target list" and n :: int
  show "concat (ShardTargets xs n) = xs"
    by (simp add: ShardTargets_def slices_concat)
  show "0 < n \<Longrightarrow> s \<in> set (ShardTargets xs n) \<Longrightarrow> int (length s) \<le> n"
    by (auto simp: ShardTargets_def dest: slices_size split: if_splits)
  show "xs \<noteq> [] \<Longrightarrow> s \<in> set (ShardTargets xs n) \<Longrightarrow> s \<noteq> []"
    by (auto simp: ShardTargets_def dest: slices_size split: if_splits)
qed

lemma targets_of_times_member:
  "t \<in> set (targets_of_times dir day ts) \<longleftrightarrow>
     Direction t = dir \<and> Date t = day \<and> Needed t > 0 \<and> (Time t, Needed t) \<in> set ts"
proof -
  have "t = \<lparr>Direction = dir, Date = day, Time = x, Needed = n\<rparr> \<longleftrightarrow>
      Direction t = dir \<and> Date t = day \<and> Time t = x \<and> Needed t = n" for x n
    by (cases t) auto
  then show ?thesis by (auto simp: targets_of_times_def)
qed

lemma targets_of_member:
  "t \<in> set (targets_of c) \<longleftrightarrow> Needed t > 0 \<and>
     (\<exists>ds ts. (Direction t, ds) \<in> set c \<and> (Date t, ts) \<in> set ds \<and> (Time t, Needed t) \<in> set ts)"
  by (fastforce simp: targets_of_def targets_of_times_member)

lemma wf_count_lookup:
  assumes "wf_count c"
  shows "(\<exists>ds ts. (dir, ds) \<in> set c \<and> (day, ts) \<in> set ds \<and> (t, n) \<in> set ts) \<longleftrightarrow> demand c dir day t = Some n"
proof -
  have "distinct (map fst c)" "(dir, ds) \<in> set c \<Longrightarrow> distinct (map fst ds)"
    "(dir, ds) \<in> set c \<Longrightarrow> (day, ts) \<in> set ds \<Longrightarrow> distinct (map fst ts)" for ds ts
    using assms by (force simp: wf_count_def)+
  then show ?thesis
    by (auto simp: demand_def bind_eq_Some_conv) (metis map_of_SomeD)
qed

lemma targets_of_demand:
  "wf_count c \<Longrightarrow> t \<in> set (targets_of c) \<longleftrightarrow>
     demand c (Direction t) (Date t) (Time t) = Some (Needed t) \<and> Needed t > 0"
  by (subst targets_of_member, subst wf_count_lookup) auto

lemma distinct_concat_by:
  assumes "distinct (map fst xs)" "\<And>k v. (k, v) \<in> set xs \<Longrightarrow> distinct (g k v)"
    and "\<And>k v y. (k, v) \<in> set xs \<Longrightarrow> y \<in> set (g k v) \<Longrightarrow> h y = k"
  shows "distinct (concat (map (\<lambda>(k, v). g k v) xs))"
  using assms
proof (induction xs)
  case (Cons x xs)
  obtain k v where x: "x = (k, v)" by (cases x)
  have "set (g k v) \<inter> (\<Union>(k', v') \<in> set xs. set (g k' v')) = {}"
  proof (rule equals0I)
    fix y assume "y \<in> set (g k v) \<inter> (\<Union>(k', v') \<in> set xs. set (g k' v'))"
    then obtain k' v' where "y \<in> set (g k v)" "(k', v') \<in> set xs" "y \<in> set (g k' v')" by auto
    then have "k = k'" using Cons.prems(3) x by (metis list.set_intros)
    then show False using Cons.prems(1) x \<open>(k', v') \<in> set xs\<close> by force
  qed
  moreover have "distinct (concat (map (\<lambda>(k, v). g k v) xs))"
    using Cons.prems by (intro Cons.IH) (auto, metis)
  ultimately show ?case using Cons.prems(2)[of k v] x by (simp add: split_def)
qed simp

lemma distinct_targets_of:
  assumes "wf_count c" shows "distinct (targets_of c)"
  unfolding targets_of_def
proof (rule distinct_concat_by[where h = Direction])
  show "distinct (map fst c)" using assms by (simp add: wf_count_def)
  fix dir ds assume d: "(dir, ds) \<in> set c"
  show "distinct (concat (map (\<lambda>(day, ts). targets_of_times dir day ts) ds))"
  proof (rule distinct_concat_by[where h = Date])
    show "distinct (map fst ds)" using assms d by (force simp: wf_count_def)
    fix day ts assume t: "(day, ts) \<in> set ds"
    have "distinct (map fst ts)" using assms d t by (force simp: wf_count_def)
    then show "distinct (targets_of_times dir day ts)"
      unfolding targets_of_times_def
      by (intro distinct_concat_by[where h = Time]) (auto split: if_splits)
  qed (auto simp: targets_of_times_def)
qed (auto simp: targets_of_times_def)

lemma inj_sort_order:
  assumes "wf_count c" shows "inj_on sort_order (set (targets_of c))"
  by (rule inj_onI) (auto simp: targets_of_demand[OF assms] sort_order_def intro: Target.equality)

lemma TargetsFromCount_set [simp]: "set (TargetsFromCount c) = set (targets_of c)"
  by (simp add: TargetsFromCount_def)

lemma distinct_TargetsFromCount: "wf_count c \<Longrightarrow> distinct (TargetsFromCount c)"
  by (simp add: TargetsFromCount_def distinct_targets_of)

text \<open>C9: Two iteration orders of the same snapshot give one and the same target list: exactly the
  positive demand of the snapshot, each departure once, ordered by date, direction and time.\<close>

theorem TargetsFromCount_canonical:
  assumes "wf_count c" "wf_count c'" "demand c = demand c'"
  shows "TargetsFromCount c = TargetsFromCount c'
    \<and> (\<forall>t. t \<in> set (TargetsFromCount c) = (demand c (Direction t) (Date t) (Time t) = Some (Needed t) \<and> 0 < Needed t))
    \<and> distinct (map sort_order (TargetsFromCount c)) \<and> sorted (map sort_order (TargetsFromCount c))"
proof (intro conjI)
  have "mset (targets_of c) = mset (targets_of c')"
    using assms by (simp add: set_eq_iff_mset_eq_distinct[symmetric] distinct_targets_of set_eq_iff targets_of_demand)
  then show "TargetsFromCount c = TargetsFromCount c'"
    unfolding TargetsFromCount_def
    by (intro sort_key_inj_key_eq) (simp_all add: inj_sort_order assms)
  show "distinct (map sort_order (TargetsFromCount c))"
    by (simp add: distinct_map distinct_TargetsFromCount inj_sort_order assms)
qed (simp_all add: TargetsFromCount_def targets_of_demand assms)

definition ex_count :: count where
  "ex_count = [(''WToJ'', [(''02-01-2026'', [(''08:00:00'', 2), (''09:00:00'', 0)])]), (''JToW'', [(''01-01-2026'', [(''10:00:00'', 1)])])]"

definition ex_count' :: count where
  "ex_count' = [(''JToW'', [(''01-01-2026'', [(''10:00:00'', 1)])]), (''WToJ'', [(''02-01-2026'', [(''09:00:00'', 0), (''08:00:00'', 2)])])]"

theorem TargetsFromCount_canonical_witness:
  "TargetsFromCount ex_count = TargetsFromCount ex_count' \<and> length (TargetsFromCount ex_count) = 2"
proof -
  have w: "wf_count ex_count" "wf_count ex_count'"
    by (simp_all add: wf_count_def ex_count_def ex_count'_def)
  have "demand ex_count = demand ex_count'"
    by (intro ext) (simp add: demand_def ex_count_def ex_count'_def)
  from TargetsFromCount_canonical[OF w this]
  have "TargetsFromCount ex_count = TargetsFromCount ex_count'" by blast
  moreover have "length (TargetsFromCount ex_count) = 2"
    by (simp add: TargetsFromCount_def targets_of_def targets_of_times_def ex_count_def)
  ultimately show ?thesis by blast
qed

section \<open>The fleet: deterministic names, every slot in \<open>Fanout\<close> Jobs\<close>

lemma format_int_no_dash: "0 \<le> n \<Longrightarrow> CHR ''-'' \<notin> set (format_int n)"
  using itoa_digits[of "CHR ''-''"] by (auto simp: format_int_def)

lemma JobName_inject:
  assumes "0 \<le> e" "0 \<le> s" "0 \<le> f" "0 \<le> e'" "0 \<le> s'" "0 \<le> f'"
  shows "JobName e s f = JobName e' s' f' \<longleftrightarrow> e = e' \<and> s = s' \<and> f = f'"
proof
  assume "JobName e s f = JobName e' s' f'"
  then have "split_on (CHR ''-'') (format_int e @ CHR ''-'' # format_int s @ CHR ''-'' # format_int f)
    = split_on (CHR ''-'') (format_int e' @ CHR ''-'' # format_int s' @ CHR ''-'' # format_int f')"
    by (simp add: JobName_def)
  then show "e = e' \<and> s = s' \<and> f = f'"
    using assms by (simp add: split_on_append split_on_no_sep format_int_no_dash)
qed simp


text \<open>The Jobs an epoch needs, with the arguments their creation is given.\<close>

definition fleet_jobs :: "'x spawner_env \<Rightarrow> job_creator \<Rightarrow> prober_config \<Rightarrow> int \<Rightarrow> Target list \<Rightarrow> (job_spec) list" where
  "fleet_jobs env c cfg epoch targets =
     map (\<lambda>(i, f, ts). job_of c epoch i f (case marshal_targets env ts of Inl _ \<Rightarrow> [] | Inr d \<Rightarrow> d)) (fleet cfg targets)"

lemma job_Name_fleet_jobs:
  "map job_Name (fleet_jobs env c cfg epoch targets) = map (\<lambda>(i, f, _). JobName epoch i f) (fleet cfg targets)"
  by (simp add: fleet_jobs_def job_of_def split_def)

lemma fleet_indices:
  "map (\<lambda>(i, f, _). (i, f)) (fleet cfg ts) =
     [(int i, int f). i \<leftarrow> [0..<length (ShardTargets ts (SlotsPerJob cfg))], f \<leftarrow> [0..<nat (Fanout cfg)]]"
proof -
  have "map (\<lambda>(i, f, _). (i, f)) [(int i, int f, s). (i, s) \<leftarrow> enumerate k xs, f \<leftarrow> [0..<n]] =
     [(int i, int f). i \<leftarrow> [k..<k + length xs], f \<leftarrow> [0..<n]]" for k n and xs :: "Target list list"
    by (induction xs arbitrary: k) (simp_all add: upt_conv_Cons comp_def del: upt_Suc)
  from this[where k = 0 and n = "nat (Fanout cfg)"] show ?thesis by (simp add: fleet_def)
qed

lemma distinct_indices: "distinct xs \<Longrightarrow> distinct [(int i, int f). i \<leftarrow> xs, f \<leftarrow> [0..<n]]"
proof (induction xs)
  case (Cons x xs)
  have "distinct (map (\<lambda>f. (int x, int f)) [0..<n])" by (simp add: distinct_map inj_on_def)
  then show ?case using Cons by auto
qed simp

lemma distinct_fleet_names:
  assumes "0 \<le> epoch"
  shows "distinct (map (\<lambda>(i, f, _). JobName epoch i f) (fleet cfg ts))"
proof -
  let ?p = "map (\<lambda>(i, f, _). (i, f)) (fleet cfg ts)"
  have "distinct ?p" by (simp only: fleet_indices distinct_indices distinct_upt)
  moreover have "inj_on (\<lambda>(i, f). JobName epoch i f) (set ?p)"
    unfolding fleet_indices by (auto intro!: inj_onI simp: JobName_inject assms)
  ultimately have "distinct (map (\<lambda>(i, f). JobName epoch i f) ?p)" by (simp only: distinct_map)
  then show ?thesis by (simp add: comp_def split_def)
qed

lemma fleet_member:
  "(i, f, s) \<in> set (fleet cfg ts) \<longleftrightarrow> 0 \<le> f \<and> f < Fanout cfg \<and> 0 \<le> i
     \<and> i < int (length (ShardTargets ts (SlotsPerJob cfg))) \<and> s = ShardTargets ts (SlotsPerJob cfg) ! nat i"
  by (auto simp: fleet_def in_set_enumerate_eq image_iff zless_nat_eq_int_zless
      intro!: bexI[of _ "nat f"] exI[of _ "nat i"])

lemma fleet_covering:
  assumes "distinct ts" "t \<in> set ts" "0 < SlotsPerJob cfg"
  shows "length (filter (\<lambda>(_, _, s). t \<in> set s) (fleet cfg ts)) = nat (Fanout cfg)"
proof -
  let ?s = "ShardTargets ts (SlotsPerJob cfg)"
  have gen: "length (filter (\<lambda>(_, _, s). t \<in> set s) [(int i, int f, s). (i, s) \<leftarrow> enumerate k xs, f \<leftarrow> [0..<n]])
      = n * length (filter (\<lambda>s. t \<in> set s) xs)" for k n and xs :: "Target list list"
    by (induction xs arbitrary: k) (simp_all add: comp_def)
  obtain i where i: "i < length ?s" "t \<in> set (?s ! i)"
    using prober_shards.shard_member[of t ts "SlotsPerJob cfg"] assms(2) by (metis in_set_conv_nth)
  have u: "j = i" if "j < length ?s" "t \<in> set (?s ! j)" for j
    using prober_shards.shard_disjoint[OF assms(1), of j i "SlotsPerJob cfg"]
      prober_shards.shard_disjoint[OF assms(1), of i j "SlotsPerJob cfg"] i that
    by (cases j i rule: linorder_cases) auto
  have "{j. j < length ?s \<and> t \<in> set (?s ! j)} = {i}" using i u by blast
  then have "length (filter (\<lambda>s. t \<in> set s) ?s) = 1" by (simp add: length_filter_conv_card)
  then show ?thesis using gen[where k = 0 and xs = ?s] by (simp add: fleet_def)
qed

text \<open>C10: For a valid configuration and distinct targets, the fleet's Job names are pairwise distinct
  within the epoch, every target is probed by exactly \<open>Fanout\<close> Jobs, and no Job gets more than
  \<open>SlotsPerJob\<close> targets, nor an empty list.\<close>

theorem fleet_partitions:
  assumes "0 \<le> epoch" "0 < SlotsPerJob cfg" "distinct ts" "ts \<noteq> []"
  shows "distinct (map (\<lambda>(i, f, _). JobName epoch i f) (fleet cfg ts))
    \<and> (\<forall>t \<in> set ts. length (filter (\<lambda>(_, _, s). t \<in> set s) (fleet cfg ts)) = nat (Fanout cfg))
    \<and> (\<forall>(i, f, s) \<in> set (fleet cfg ts). s \<noteq> [] \<and> set s \<subseteq> set ts \<and> int (length s) \<le> SlotsPerJob cfg)"
proof -
  have "s \<noteq> [] \<and> set s \<subseteq> set ts \<and> int (length s) \<le> SlotsPerJob cfg" if "(i, f, s) \<in> set (fleet cfg ts)" for i f s
  proof -
    have s: "s \<in> set (ShardTargets ts (SlotsPerJob cfg))" using that by (auto simp: fleet_member)
    then show ?thesis
      using prober_shards.shard_nonempty[OF assms(4) s] prober_shards.shard_size[OF assms(2) s]
      by (auto simp: prober_shards.shard_member[of _ ts "SlotsPerJob cfg"])
  qed
  then show ?thesis using assms by (auto simp: distinct_fleet_names fleet_covering)
qed

theorem fleet_partitions_witness:
  "distinct (map (\<lambda>(i, f, _). JobName 7 i f)
     (fleet \<lparr>EpochMinutes = 5, JobMinutes = 12, SlotsPerJob = 1, Fanout = 2\<rparr> (TargetsFromCount ex_count)))"
proof -
  have "wf_count ex_count" by (simp add: wf_count_def ex_count_def)
  from distinct_TargetsFromCount[OF this] have "distinct (TargetsFromCount ex_count)" .
  moreover have "TargetsFromCount ex_count \<noteq> []"
    by (simp add: TargetsFromCount_def targets_of_def targets_of_times_def ex_count_def)
  ultimately show ?thesis
    using fleet_partitions[of 7 "\<lparr>EpochMinutes = 5, JobMinutes = 12, SlotsPerJob = 1, Fanout = 2\<rparr>" "TargetsFromCount ex_count"]
    by simp
qed

section \<open>A spawn: expected fleet recorded first, then every Job, or nothing\<close>

fun failed :: "create_result \<Rightarrow> bool" where
  "failed (Create_Failed e) = True"
| "failed _ = False"

fun is_create :: "spawn_event \<Rightarrow> bool" where
  "is_create (Create_Job j r) = True"
| "is_create _ = False"

lemma effect_Create:
  assumes "marshal_targets env ts = Inr d"
  shows "effect (Create env c epoch i f ts) (\<lambda>r tr. \<exists>res. tr = [Create_Job (job_of c epoch i f d) res]
    \<and> ((\<exists>e. r = Inl e) \<longleftrightarrow> failed res))"
  unfolding Create_def assms sum.case
  by (intro effect_intros) (auto split: create_result.splits)

lemma effect_create_all:
  assumes "\<And>ts. \<exists>d. marshal_targets env ts = Inr d"
  shows "effect (create_all env c epoch js errs) (\<lambda>r tr. \<exists>rs. length rs = length js
    \<and> tr = map2 Create_Job (map (\<lambda>(i, f, ts). job_of c epoch i f (case marshal_targets env ts of Inl _ \<Rightarrow> [] | Inr d \<Rightarrow> d)) js) rs
    \<and> (r = [] \<longleftrightarrow> errs = [] \<and> \<not> list_ex failed rs))"
proof (induction js arbitrary: errs)
  case (Cons j js)
  obtain i f ts where j: "j = (i, f, ts)" by (cases j)
  obtain d where d: "marshal_targets env ts = Inr d" using assms by blast
  show ?case unfolding j create_all.simps
  proof (intro effect_bind effect_conseq[OF effect_Create[OF d]])
    fix r :: "unit result" and tr assume "\<exists>res. tr = [Create_Job (job_of c epoch i f d) res] \<and> ((\<exists>e. r = Inl e) \<longleftrightarrow> failed res)"
    then obtain res where tr: "tr = [Create_Job (job_of c epoch i f d) res]" and f: "(\<exists>e. r = Inl e) \<longleftrightarrow> failed res" by blast
    show "effect (case r of Inl err \<Rightarrow> create_all env c epoch js (errs @ [err]) | Inr _ \<Rightarrow> create_all env c epoch js errs)
      (\<lambda>b tr'. \<exists>rs. length rs = length ((i, f, ts) # js) \<and>
        tr @ tr' = map2 Create_Job (map (\<lambda>(i, f, ts). job_of c epoch i f
          (case marshal_targets env ts of Inl _ \<Rightarrow> [] | Inr d \<Rightarrow> d)) ((i, f, ts) # js)) rs \<and>
        (b = [] \<longleftrightarrow> errs = [] \<and> \<not> list_ex failed rs))"
    proof (rule effect_conseq)
      show "effect (case r of Inl err \<Rightarrow> create_all env c epoch js (errs @ [err]) | Inr _ \<Rightarrow> create_all env c epoch js errs)
        (\<lambda>b tr'. \<exists>rs. length rs = length js
          \<and> tr' = map2 Create_Job (map (\<lambda>(i, f, ts). job_of c epoch i f (case marshal_targets env ts of Inl _ \<Rightarrow> [] | Inr d \<Rightarrow> d)) js) rs
          \<and> (b = [] \<longleftrightarrow> errs = [] \<and> \<not> failed res \<and> \<not> list_ex failed rs))"
        by (intro effect_case_sum effect_conseq[OF Cons.IH]) (use f in auto)
    qed (elim exE conjE, rule_tac x = "res # rs" in exI, auto simp: tr d)
  qed
qed simp

definition epoch_of :: "prober_config \<Rightarrow> instant \<Rightarrow> int" where
  "epoch_of cfg now = quot (unix now) (EpochMinutes cfg * 60)"

definition snapshot_targets :: "count_read \<Rightarrow> Target list" where
  "snapshot_targets rd = TargetsFromCount (case fst (snd rd) of None \<Rightarrow> [] | Some cs \<Rightarrow> cs)"

definition nothing_spawned :: "unit result \<Rightarrow> spawn_event list \<Rightarrow> bool" where
  "nothing_spawned r tr \<longleftrightarrow> \<not> list_ex is_create tr \<and>
     (r = Inr () \<longrightarrow> (\<exists>rd. Poller_Count rd \<in> set tr \<and> snd (snd rd) = None \<and> (\<not> fst rd \<or> snapshot_targets rd = [])))"

lemma nothing_spawnedI:
  "\<not> list_ex is_create tr \<Longrightarrow> Poller_Count rd \<in> set tr \<Longrightarrow> snd (snd rd) = None
    \<Longrightarrow> \<not> fst rd \<or> snapshot_targets rd = [] \<Longrightarrow> nothing_spawned (Inr ()) tr"
  by (auto simp: nothing_spawned_def simp del: split_paired_Ex)

lemma nothing_spawned_error: "\<not> list_ex is_create tr \<Longrightarrow> nothing_spawned (Inl e) tr"
  by (simp add: nothing_spawned_def)

definition fleet_spawned :: "'x spawner_env \<Rightarrow> job_creator \<Rightarrow> prober_config \<Rightarrow> instant \<Rightarrow> unit result \<Rightarrow> spawn_event list \<Rightarrow> bool" where
  "fleet_spawned env c cfg now r tr \<longleftrightarrow> (\<exists>pre rd rs.
     Poller_Count rd \<in> set pre \<and> fst rd \<and> snd (snd rd) = None \<and> \<not> list_ex is_create pre
     \<and> tr = pre @ [Recover_Session (Inr ()), Ensure_Store (snapshot_targets rd) (Inr ()),
          Write_Expected (epoch_of cfg now) (map job_Name (fleet_jobs env c cfg (epoch_of cfg now) (snapshot_targets rd))) (Inr ())]
        @ map2 Create_Job (fleet_jobs env c cfg (epoch_of cfg now) (snapshot_targets rd)) rs
     \<and> length rs = length (fleet_jobs env c cfg (epoch_of cfg now) (snapshot_targets rd))
     \<and> (r = Inr () \<longleftrightarrow> \<not> list_ex failed rs))"

lemma effect_logPreviousTally:
  "effect (logPreviousTally env e) (\<lambda>_ tr. \<exists>a b. tr = [Read_Expected e a, Read_Tallies e b])"
  unfolding logPreviousTally_def by (intro effect_intros) auto

lemma effect_launch:
  assumes "\<And>ts. \<exists>d. marshal_targets env ts = Inr d"
  shows "effect (launch env c cfg epoch targets) (\<lambda>r tr. (\<exists>e. r = Inl e) \<and> \<not> list_ex is_create tr \<or>
       (\<exists>rs. tr = [Recover_Session (Inr ()), Ensure_Store targets (Inr ()),
              Write_Expected epoch (map job_Name (fleet_jobs env c cfg epoch targets)) (Inr ())]
            @ map2 Create_Job (fleet_jobs env c cfg epoch targets) rs
          \<and> length rs = length (fleet_jobs env c cfg epoch targets) \<and> (r = Inr () \<longleftrightarrow> \<not> list_ex failed rs)))"
  unfolding launch_def Let_def job_Name_fleet_jobs
  by (intro effect_intros effect_conseq[OF effect_create_all[OF assms]])
    (auto split: sum.splits intro!: effect_intros effect_conseq[OF effect_create_all[OF assms]] simp: fleet_jobs_def)

text \<open>What \<open>Spawn\<close> does once it has the demand snapshot.\<close>

abbreviation spawn_counted :: "'x spawner_env \<Rightarrow> job_creator \<Rightarrow> prober_config \<Rightarrow> int \<Rightarrow> count_read \<Rightarrow> ('x, spawn_event, unit result) proc" where
  "spawn_counted env c cfg epoch rd \<equiv> (case rd of
      (exists, counts, Some err) \<Rightarrow> return (Inl err)
    | (exists, counts, None) \<Rightarrow>
        if \<not> exists then return (Inr ())
        else if TargetsFromCount (case counts of None \<Rightarrow> [] | Some cs \<Rightarrow> cs) = [] then return (Inr ())
        else launch env c cfg epoch (TargetsFromCount (case counts of None \<Rightarrow> [] | Some cs \<Rightarrow> cs)))"

lemma effect_launch_fleet:
  assumes "\<And>ts. \<exists>d. marshal_targets env ts = Inr d" and rd: "rd = (True, cs, None)" "snapshot_targets rd \<noteq> []"
  shows "effect (launch env c cfg (epoch_of cfg now) (snapshot_targets rd))
    (\<lambda>r tr. nothing_spawned r ([Read_Expected e a, Read_Tallies e b, Poller_Count rd] @ tr)
          \<or> fleet_spawned env c cfg now r ([Read_Expected e a, Read_Tallies e b, Poller_Count rd] @ tr))"
proof (rule effect_conseq[OF effect_launch[OF assms(1)]], elim disjE exE conjE)
  fix r :: "unit result" and tr err
  assume "r = Inl err" "\<not> list_ex is_create tr"
  then show "nothing_spawned r ([Read_Expected e a, Read_Tallies e b, Poller_Count rd] @ tr)
      \<or> fleet_spawned env c cfg now r ([Read_Expected e a, Read_Tallies e b, Poller_Count rd] @ tr)"
    by (simp add: nothing_spawned_error)
next
  let ?jobs = "fleet_jobs env c cfg (epoch_of cfg now) (snapshot_targets rd)"
  fix r :: "unit result" and tr rs
  assume "tr = [Recover_Session (Inr ()), Ensure_Store (snapshot_targets rd) (Inr ()),
        Write_Expected (epoch_of cfg now) (map job_Name ?jobs) (Inr ())] @ map2 Create_Job ?jobs rs"
    "length rs = length ?jobs" "r = Inr () \<longleftrightarrow> \<not> list_ex failed rs"
  then have "fleet_spawned env c cfg now r ([Read_Expected e a, Read_Tallies e b, Poller_Count rd] @ tr)"
    unfolding fleet_spawned_def
    by (intro exI[of _ "[Read_Expected e a, Read_Tallies e b, Poller_Count rd]"] exI[of _ rd] exI[of _ rs])
      (use assms(3) in \<open>simp add: rd(1)\<close>)
  then show "nothing_spawned r ([Read_Expected e a, Read_Tallies e b, Poller_Count rd] @ tr)
      \<or> fleet_spawned env c cfg now r ([Read_Expected e a, Read_Tallies e b, Poller_Count rd] @ tr)" by blast
qed

lemma effect_spawn_counted:
  assumes "\<And>ts. \<exists>d. marshal_targets env ts = Inr d"
  shows "effect (spawn_counted env c cfg (epoch_of cfg now) rd)
    (\<lambda>r tr. nothing_spawned r ([Read_Expected e a, Read_Tallies e b, Poller_Count rd] @ tr)
          \<or> fleet_spawned env c cfg now r ([Read_Expected e a, Read_Tallies e b, Poller_Count rd] @ tr))"
proof (cases "snd (snd rd) = None \<and> fst rd \<and> snapshot_targets rd \<noteq> []")
  case True
  then obtain cs where rd: "rd = (True, cs, None)" by (cases rd) auto
  show ?thesis using effect_launch_fleet[OF assms rd] True by (simp add: rd snapshot_targets_def)
next
  case False
  obtain x cs er where rd: "rd = (x, cs, er)" by (cases rd) auto
  show ?thesis
  proof (cases er)
    case None
    have "nothing_spawned (Inr ()) [Read_Expected e a, Read_Tallies e b, Poller_Count rd]"
      by (rule nothing_spawnedI[of _ rd]) (use False in \<open>auto simp: rd None\<close>)
    moreover have "\<not> x \<or> TargetsFromCount (case cs of None \<Rightarrow> [] | Some cs \<Rightarrow> cs) = []"
      using False by (simp add: rd None snapshot_targets_def)
    ultimately show ?thesis by (cases x) (simp_all add: rd None)
  next
    case (Some err)
    then show ?thesis by (simp add: rd nothing_spawned_error)
  qed
qed

text \<open>C11: When the snapshot marshals, a spawn either creates no Job at all - and then it returns nil
  only if the snapshot is missing or demands nothing - or it has recovered the login session, ensured
  the search store and recorded the expected fleet, and then asks for exactly the recorded Jobs, each
  once, in order, and returns nil exactly when each was created or had been created before.\<close>

theorem Spawn_all_or_nothing:
  assumes "\<And>ts. \<exists>d. marshal_targets env ts = Inr d"
  shows "effect (Spawn env c cfg now) (\<lambda>r tr. nothing_spawned r tr \<or> fleet_spawned env c cfg now r tr)"
proof (cases "EpochMinutes cfg * 60 \<le> 0 \<or> JobMinutes cfg \<le> 0 \<or> SlotsPerJob cfg \<le> 0 \<or> Fanout cfg \<le> 0")
  case True
  then show ?thesis by (auto simp: Spawn_def nothing_spawned_def)
next
  case valid: False
  show ?thesis
    unfolding Spawn_def Let_def if_not_P[OF valid] epoch_of_def[symmetric]
    by (intro effect_bind effect_invoke effect_conseq[OF effect_logPreviousTally])
      (elim exE, simp add: effect_spawn_counted[OF assms, unfolded append_Cons append_Nil])
qed

definition ex_spawner :: "unit spawner_env" where
  "ex_spawner = \<lparr>marshal_targets = (\<lambda>_. Inr ''[]''), kube_create = (\<lambda>_ x. (Created, x)),
     poller_count = (\<lambda>_ x. ((True, Some ex_count, None), x)), recover_session = (\<lambda>x. (Inr (), x)),
     ensure_store = (\<lambda>_ x. (Inr (), x)), write_expected = (\<lambda>_ _ x. (Inr (), x)),
     read_expected = (\<lambda>_ x. (Inr [], x)), read_tallies = (\<lambda>_ x. (Inr [], x))\<rparr>"

definition ex_creator :: job_creator where
  "ex_creator = \<lparr>jobNamespace = ''nitroso'', jobApp = \<lparr>Landscape = ''l'', Platform = ''p'', Service = ''tin''\<rparr>,
     jobMinutes = 12, jobCpu = [], jobMemory = []\<rparr>"

definition ex_config :: prober_config where
  "ex_config = \<lparr>EpochMinutes = 5, JobMinutes = 12, SlotsPerJob = 1, Fanout = 2\<rparr>"

theorem Spawn_all_or_nothing_witness:
  "let p = Spawn ex_spawner ex_creator ex_config 1000000000000
   in nothing_spawned (outcome p ()) (trace p ()) \<or> fleet_spawned ex_spawner ex_creator ex_config 1000000000000 (outcome p ()) (trace p ())"
  unfolding Let_def
  by (rule effect_trace[OF Spawn_all_or_nothing]) (simp add: ex_spawner_def)

section \<open>The tally of a finished epoch\<close>

definition reads_finished :: "prober_config \<Rightarrow> instant \<Rightarrow> spawn_event list \<Rightarrow> bool" where
  "reads_finished cfg now tr \<longleftrightarrow> (\<forall>e res t. Read_Tallies e res \<in> set tr \<longrightarrow> epoch_of cfg t = e
     \<longrightarrow> unix t + JobMinutes cfg * 60 < unix now)"

lemma quot_nonneg: "0 \<le> a \<Longrightarrow> 0 < b \<Longrightarrow> quot a b = a div b"
  by (cases "a = 0") (simp_all add: quot_def)

lemma quot_upper: "0 < b \<Longrightarrow> a < (quot a b + 1) * b"
proof -
  assume b: "0 < b"
  have "- b < a - b * quot a b \<and> a - b * quot a b < b"
  proof (cases "0 \<le> a")
    case True
    then show ?thesis using b
      by (simp add: quot_nonneg minus_mult_div_eq_mod pos_mod_bound) (meson b less_le_trans neg_less_0_iff_less pos_mod_sign)
  next
    case False
    then have "quot a b = - ((- a) div b)" using b by (simp add: quot_def)
    then have "a - b * quot a b = - ((- a) mod b)"
      by (simp add: minus_mult_div_eq_mod[symmetric])
    then show ?thesis using b by (simp add: pos_mod_bound) (meson b neg_le_0_iff_le pos_mod_sign le_less_trans)
  qed
  then show ?thesis by (simp add: algebra_simps)
qed

lemma overlap_bound:
  assumes "0 < E" "0 < M" "0 \<le> n" "quot a (E * 60) = quot n (E * 60) - quot (M + E - 1) E - 1"
  shows "a + M * 60 < n"
proof -
  let ?o = "quot (M + E - 1) E"
  have o: "M \<le> ?o * E"
  proof -
    have "M + E - 1 < (?o + 1) * E" using assms(1) by (rule quot_upper)
    then show ?thesis by (simp add: algebra_simps)
  qed
  have "a < (quot a (E * 60) + 1) * (E * 60)" using assms(1) by (intro quot_upper) simp
  also have "\<dots> = quot n (E * 60) * (E * 60) - ?o * E * 60" by (simp add: assms(4) algebra_simps)
  also have "\<dots> \<le> n - ?o * E * 60"
    using assms(1,3) minus_mod_eq_div_mult[of n "E * 60", symmetric] pos_mod_sign[of "E * 60" n]
    by (simp only: quot_nonneg) simp
  finally show ?thesis using o by simp
qed

lemma epoch_overlap_finished:
  assumes "0 < EpochMinutes cfg" "0 < JobMinutes cfg" "0 \<le> now"
    and "epoch_of cfg t = epoch_of cfg now - quot (JobMinutes cfg + EpochMinutes cfg - 1) (EpochMinutes cfg) - 1"
  shows "unix t + JobMinutes cfg * 60 < unix now"
  using assms by (intro overlap_bound[of "EpochMinutes cfg"])
    (simp_all add: epoch_of_def unix_def pos_imp_zdiv_nonneg_iff)

lemma effect_log_tally_epoch:
  "effect (logPreviousTally env e) (\<lambda>_ tr. \<forall>e' res. Read_Tallies e' res \<in> set tr \<longrightarrow> e' = e)"
  by (rule effect_conseq[OF effect_logPreviousTally]) auto

definition no_tally :: "spawn_event list \<Rightarrow> bool" where
  "no_tally tr \<longleftrightarrow> (\<forall>e res. Read_Tallies e res \<notin> set tr)"

lemma no_tally_simps [simp]:
  "no_tally []" "no_tally (ev # tr) \<longleftrightarrow> (\<forall>e res. ev \<noteq> Read_Tallies e res) \<and> no_tally tr"
  "no_tally (tr @ tr') \<longleftrightarrow> no_tally tr \<and> no_tally tr'"
  by (auto simp: no_tally_def)

lemma effect_no_tally_Create: "effect (Create env c e i f ts) (\<lambda>_ tr. no_tally tr)"
  unfolding Create_def by (intro effect_intros) auto

lemma effect_no_tally_create_all: "effect (create_all env c epoch js errs) (\<lambda>_ tr. no_tally tr)"
proof (induction js arbitrary: errs)
  case (Cons j js)
  obtain i f ts where j: "j = (i, f, ts)" by (cases j)
  show ?case unfolding j create_all.simps
    by (intro effect_bind effect_conseq[OF effect_no_tally_Create] effect_case_sum effect_conseq[OF Cons.IH]) simp_all
qed simp

text \<open>The spawner reports the tallies of an epoch only once every Job of that epoch is over: a
  Job started at any instant of the epoch it reads, running for the configured minutes, ended before now.\<close>

theorem Spawn_reports_finished_epoch:
  assumes "0 \<le> now"
  shows "effect (Spawn env c cfg now) (\<lambda>_ tr. reads_finished cfg now tr)"
proof (cases "EpochMinutes cfg * 60 \<le> 0 \<or> JobMinutes cfg \<le> 0 \<or> SlotsPerJob cfg \<le> 0 \<or> Fanout cfg \<le> 0")
  case True
  then show ?thesis by (auto simp: Spawn_def reads_finished_def)
next
  case valid: False
  have spec: "reads_finished cfg now ([Read_Expected e a, Read_Tallies e b] @ tr)"
    if "no_tally tr" "e = epoch_of cfg now - quot (JobMinutes cfg + EpochMinutes cfg - 1) (EpochMinutes cfg) - 1" for tr e a b
    using that valid epoch_overlap_finished[of cfg now] assms by (auto simp: reads_finished_def no_tally_def)
  have "effect (launch env c cfg epoch targets) (\<lambda>_ tr. no_tally tr)" for epoch targets
    unfolding launch_def Let_def
    by (intro effect_intros effect_conseq[OF effect_no_tally_create_all])
      (auto split: sum.splits intro!: effect_intros effect_conseq[OF effect_no_tally_create_all])
  then show ?thesis
    unfolding Spawn_def Let_def if_not_P[OF valid] epoch_of_def[symmetric]
    by (intro effect_bind effect_invoke effect_conseq[OF effect_logPreviousTally])
      (elim exE, simp only: append_Cons append_Nil append_assoc,
       rule effect_conseq[OF _ spec[unfolded append_Cons append_Nil]],
       auto split: option.split)
qed

theorem Spawn_reports_finished_epoch_witness:
  "reads_finished ex_config 1000000000000 (trace (Spawn ex_spawner ex_creator ex_config 1000000000000) ())"
  by (rule effect_trace[OF Spawn_reports_finished_epoch]) simp

section \<open>The report\<close>

lemma MissingJobs_filter: "MissingJobs names received = filter (\<lambda>n. n \<notin> received) names"
  by (induction names) simp_all

lemma SumTallies_total:
  "Polls (Total (SumTallies e j ss)) = sum_list (map Polls ss)"
  "Holds (Total (SumTallies e j ss)) = sum_list (map Holds ss)"
  "SoldOut (Total (SumTallies e j ss)) = sum_list (map SoldOut ss)"
  "Stale (Total (SumTallies e j ss)) = sum_list (map Stale ss)"
  "Errors (Total (SumTallies e j ss)) = sum_list (map Errors ss)"
  "RateLimited (Total (SumTallies e j ss)) = sum_list (map RateLimited ss)"
  "SessionDead (Total (SumTallies e j ss)) = sum_list (map SessionDead ss)"
  "Skipped (Total (SumTallies e j ss)) = sum_list (map Skipped ss)"
  "ReleaseFailed (Total (SumTallies e j ss)) = sum_list (map ReleaseFailed ss)"
proof -
  have "Polls (foldl add_tally z ss) = Polls z + sum_list (map Polls ss)
    \<and> Holds (foldl add_tally z ss) = Holds z + sum_list (map Holds ss)
    \<and> SoldOut (foldl add_tally z ss) = SoldOut z + sum_list (map SoldOut ss)
    \<and> Stale (foldl add_tally z ss) = Stale z + sum_list (map Stale ss)
    \<and> Errors (foldl add_tally z ss) = Errors z + sum_list (map Errors ss)
    \<and> RateLimited (foldl add_tally z ss) = RateLimited z + sum_list (map RateLimited ss)
    \<and> SessionDead (foldl add_tally z ss) = SessionDead z + sum_list (map SessionDead ss)
    \<and> Skipped (foldl add_tally z ss) = Skipped z + sum_list (map Skipped ss)
    \<and> ReleaseFailed (foldl add_tally z ss) = ReleaseFailed z + sum_list (map ReleaseFailed ss)" for z
    by (induction ss arbitrary: z) (simp_all add: add_tally_def)
  then show "Polls (Total (SumTallies e j ss)) = sum_list (map Polls ss)"
    "Holds (Total (SumTallies e j ss)) = sum_list (map Holds ss)"
    "SoldOut (Total (SumTallies e j ss)) = sum_list (map SoldOut ss)"
    "Stale (Total (SumTallies e j ss)) = sum_list (map Stale ss)"
    "Errors (Total (SumTallies e j ss)) = sum_list (map Errors ss)"
    "RateLimited (Total (SumTallies e j ss)) = sum_list (map RateLimited ss)"
    "SessionDead (Total (SumTallies e j ss)) = sum_list (map SessionDead ss)"
    "Skipped (Total (SumTallies e j ss)) = sum_list (map Skipped ss)"
    "ReleaseFailed (Total (SumTallies e j ss)) = sum_list (map ReleaseFailed ss)"
    by (simp_all add: SumTallies_def slot_zero_def)
qed

end
