(* ===== verification/Encryptor.thy ===== *)
theory Encryptor
  imports Tin_Prelude
begin

text \<open>
  lib/encryptor/encryptor.go: AES-GCM sealing of strings and of JSON values, printed as
  \<open>hex(nonce):hex(ciphertext)\<close>. The hexadecimal codec and the framing are modelled; AES-GCM
  itself (crypto/aes, crypto/cipher) and encoding/json are parameters.
\<close>

section \<open>encoding/hex\<close>

definition hex_digit :: "nat \<Rightarrow> char" where
  "hex_digit n = (if n < 10 then char_of (48 + n) else char_of (87 + n))"

definition hex_value :: "char \<Rightarrow> nat option" where
  "hex_value c =
     (let n = of_char c :: nat in
      if 48 \<le> n \<and> n \<le> 57 then Some (n - 48)
      else if 97 \<le> n \<and> n \<le> 102 then Some (n - 87)
      else if 65 \<le> n \<and> n \<le> 70 then Some (n - 55)
      else None)"

fun hex_encode :: "string \<Rightarrow> string" where
  "hex_encode [] = []"
| "hex_encode (c # s) = hex_digit (of_char c div 16) # hex_digit (of_char c mod 16) # hex_encode s"

fun hex_decode :: "string \<Rightarrow> string result" where
  "hex_decode [] = Inr []"
| "hex_decode [c] = Inl (External ''encoding/hex: odd length hex string'')"
| "hex_decode (a # b # s) =
     (case (hex_value a, hex_value b) of
        (Some h, Some l) \<Rightarrow> (case hex_decode s of Inl e \<Rightarrow> Inl e | Inr r \<Rightarrow> Inr (char_of (16 * h + l) # r))
      | _ \<Rightarrow> Inl (External ''encoding/hex: invalid byte''))"

lemma hex_value_digit [simp]: "n < 16 \<Longrightarrow> hex_value (hex_digit n) = Some n"
  by (auto simp: hex_value_def hex_digit_def Let_def)

lemma hex_decode_encode [simp]: "hex_decode (hex_encode s) = Inr s"
proof (induction s)
  case (Cons c s)
  have "(of_char c :: nat) < 256" by simp
  then have "(of_char c :: nat) div 16 < 16" by (simp add: less_mult_imp_div_less)
  moreover have "char_of (16 * (of_char c div 16) + of_char c mod 16 :: nat) = c"
    by (simp only: mult_div_mod_eq char_of_char)
  ultimately show ?case using Cons by simp
qed simp

lemma hex_digit_not_colon: "n < 16 \<Longrightarrow> hex_digit n \<noteq> CHR '':''"
  by (auto simp: hex_digit_def char_of_eq_iff[symmetric]  dest: arg_cong[of _ _ "of_char :: char \<Rightarrow> nat"])

lemma hex_encode_no_colon: "CHR '':'' \<notin> set (hex_encode s)"
proof (induction s)
  case (Cons c s)
  have "(of_char c :: nat) < 256" by simp
  then have "(of_char c :: nat) div 16 < 16" by (simp add: less_mult_imp_div_less)
  then show ?case using Cons hex_digit_not_colon by (metis (no_types, lifting) hex_encode.simps(2) mod_less_divisor set_ConsD zero_less_numeral)
qed simp

section \<open>Sealing\<close>

text \<open>A \<open>cipher.AEAD\<close> made by \<open>NewGCM\<close> over \<open>aes.NewCipher\<close>, which takes 16, 24 or 32 byte keys.
  \<open>Open\<close> panics on a nonce of another length than \<open>NonceSize\<close>.\<close>

record aead =
  NonceSize :: nat
  seal :: "string \<Rightarrow> string \<Rightarrow> string"
  unseal :: "string \<Rightarrow> string \<Rightarrow> string result"

type_synonym aes_gcm = "string \<Rightarrow> aead"

definition NewCipher :: "aes_gcm \<Rightarrow> string \<Rightarrow> aead result" where
  "NewCipher aes key =
     (if length key \<in> {16, 24, 32} then Inr (aes key) else Inl (External ''crypto/aes: invalid key size''))"

datatype rand_event = Rand nat "string result"

text \<open>\<open>rand_read n\<close> is what \<open>rand.Read\<close> fills a slice of \<open>n\<close> bytes with.\<close>

definition Encrypt :: "aes_gcm \<Rightarrow> (nat \<Rightarrow> 'x \<Rightarrow> string result \<times> 'x) \<Rightarrow> string \<Rightarrow> string \<Rightarrow> ('x, rand_event, string result) proc" where
  "Encrypt aes rand_read key s =
     (case NewCipher aes key of
        Inl err \<Rightarrow> return (Inl err)
      | Inr gcm \<Rightarrow>
          on_ok (invoke (rand_read (NonceSize gcm)) (Rand (NonceSize gcm))) (\<lambda>nonce.
            return (Inr (hex_encode nonce @ '':'' @ hex_encode (seal gcm nonce s)))))"

text \<open>\<open>strings.SplitN (s, '':'', 2)\<close>: \<open>None\<close> when there is no separator.\<close>

fun split_first :: "char \<Rightarrow> string \<Rightarrow> (string \<times> string) option" where
  "split_first d [] = None"
| "split_first d (c # s) = (if c = d then Some ([], s) else map_option (\<lambda>(a, b). (c # a, b)) (split_first d s))"

lemma split_first_append: "d \<notin> set a \<Longrightarrow> split_first d (a @ d # b) = Some (a, b)"
  by (induction a) auto

text \<open>\<open>None\<close> is a panic.\<close>

definition Decrypt :: "aes_gcm \<Rightarrow> string \<Rightarrow> string \<Rightarrow> string result option" where
  "Decrypt aes key s =
     (case NewCipher aes key of
        Inl err \<Rightarrow> Some (Inl err)
      | Inr gcm \<Rightarrow>
          (case split_first (CHR '':'') s of
             None \<Rightarrow> Some (Inl (Msg ''invalid encrypted value: missing nonce separator''))
           | Some (nonceHex, ciphertextHex) \<Rightarrow>
               (case hex_decode nonceHex of
                  Inl err \<Rightarrow> Some (Inl err)
                | Inr nonce \<Rightarrow>
                    (case hex_decode ciphertextHex of
                       Inl err \<Rightarrow> Some (Inl err)
                     | Inr ciphertext \<Rightarrow>
                         if length nonce \<noteq> NonceSize gcm then None
                         else Some (unseal gcm nonce ciphertext)))))"

definition EncryptAny :: "aes_gcm \<Rightarrow> (nat \<Rightarrow> 'x \<Rightarrow> string result \<times> 'x) \<Rightarrow> ('t \<Rightarrow> string result) \<Rightarrow> string \<Rightarrow> 't
    \<Rightarrow> ('x, rand_event, string result) proc" where
  "EncryptAny aes rand_read marshal key obj =
     (case marshal obj of
        Inl err \<Rightarrow> return (Inl err)
      | Inr s \<Rightarrow> Encrypt aes rand_read key s)"

definition DecryptAny :: "aes_gcm \<Rightarrow> (string \<Rightarrow> 't result) \<Rightarrow> string \<Rightarrow> string \<Rightarrow> 't result option" where
  "DecryptAny aes unmarshal key s =
     (case Decrypt aes key s of
        None \<Rightarrow> None
      | Some (Inl err) \<Rightarrow> Some (Inl err)
      | Some (Inr decrypted) \<Rightarrow> Some (unmarshal decrypted))"

section \<open>What was sealed opens\<close>

text \<open>The documented contract of an AEAD, and of a \<open>rand.Read\<close> that fills the slice it is given.\<close>

definition opens_sealed :: "aes_gcm \<Rightarrow> bool" where
  "opens_sealed aes \<longleftrightarrow> (\<forall>key n p. length n = NonceSize (aes key) \<longrightarrow> unseal (aes key) n (seal (aes key) n p) = Inr p)"

definition fills :: "(nat \<Rightarrow> 'x \<Rightarrow> string result \<times> 'x) \<Rightarrow> bool" where
  "fills rand_read \<longleftrightarrow> (\<forall>n x b. fst (rand_read n x) = Inr b \<longrightarrow> length b = n)"

lemma Encrypt_result:
  assumes "fst (run_state (Encrypt aes rand_read key s) w) = Inr c" "fills rand_read" "opens_sealed aes"
  shows "Decrypt aes key c = Some (Inr s)"
proof -
  obtain gcm nonce where g: "NewCipher aes key = Inr gcm" "fst (rand_read (NonceSize gcm) (ext w)) = Inr nonce"
    and c: "c = hex_encode nonce @ '':'' @ hex_encode (seal gcm nonce s)"
    using assms(1) by (auto simp: Encrypt_def split: sum.splits)
  moreover have "gcm = aes key" using g(1) by (auto simp: NewCipher_def split: if_splits)
  moreover have "length nonce = NonceSize gcm" using assms(2) g(2) by (simp add: fills_def)
  ultimately show ?thesis
    using assms(3) by (simp add: Decrypt_def split_first_append hex_encode_no_colon opens_sealed_def)
qed

text \<open>C12: A JSON value that \<open>EncryptAny\<close> sealed is what \<open>DecryptAny\<close> with the same key returns, without
  an error or a panic, if the AEAD opens what it sealed and JSON round-trips the value.\<close>

theorem DecryptAny_EncryptAny:
  assumes "fst (run_state (EncryptAny aes rand_read marshal key obj) w) = Inr c"
    and "fills rand_read" "opens_sealed aes"
    and "\<And>s. marshal obj = Inr s \<Longrightarrow> unmarshal s = Inr obj"
  shows "DecryptAny aes unmarshal key c = Some (Inr obj)"
  using assms Encrypt_result[OF _ assms(2,3), of key _ w]
  by (auto simp: EncryptAny_def DecryptAny_def split: sum.splits)

definition ex_aes :: aes_gcm where
  "ex_aes key = \<lparr>NonceSize = 2, seal = (\<lambda>n p. n @ p), unseal = (\<lambda>n c. Inr (drop (length n) c))\<rparr>"

theorem DecryptAny_EncryptAny_witness:
  "DecryptAny ex_aes Inr ''0123456789abcdef''
     (case outcome (EncryptAny ex_aes (\<lambda>n x. (Inr (replicate n (CHR ''A'')), x)) Inr ''0123456789abcdef'' ''hi'') () of Inr c \<Rightarrow> c)
   = Some (Inr ''hi'')"
proof -
  have run: "fst (run_state (EncryptAny ex_aes (\<lambda>n x. (Inr (replicate n (CHR ''A'')), x)) Inr ''0123456789abcdef'' ''hi'') (fresh_world ()))
     = Inr ''4141:41416869''"
    by (simp add: EncryptAny_def Encrypt_def NewCipher_def ex_aes_def hex_digit_def numeral_2_eq_2) code_simp
  have "DecryptAny ex_aes Inr ''0123456789abcdef'' ''4141:41416869'' = Some (Inr ''hi'')"
    by (rule DecryptAny_EncryptAny[OF run]) (auto simp: fills_def opens_sealed_def ex_aes_def)
  then show ?thesis by (simp add: outcome_def run)
qed

text \<open>\<open>Decrypt\<close> panics exactly on a value that is framed and hexadecimal but whose nonce has not
  the AEAD's length; such a value can come from outside, since nothing checks the length first.\<close>

theorem Decrypt_panics_iff:
  "Decrypt aes key s = None \<longleftrightarrow> length key \<in> {16, 24, 32} \<and>
     (\<exists>n c nonce ct. split_first (CHR '':'') s = Some (n, c) \<and> hex_decode n = Inr nonce \<and> hex_decode c = Inr ct
        \<and> length nonce \<noteq> NonceSize (aes key))"
  by (auto simp: Decrypt_def NewCipher_def split: option.splits sum.splits if_splits)

end
