(* ===== verification/Ktmb_Types.thy ===== *)
theory Ktmb_Types
  imports Tin_Prelude "HOL-Library.Word"
begin

text \<open>
  lib/ktmb/res.go: the answers of KTMB, struct by struct, in an order that lets a record name the
  records of its fields; a field carries the name of its struct as a prefix. A float is its IEEE bit
  pattern, since the program only compares amounts with zero and passes them on; \<open>interface{}\<close> is a
  JSON value, and a pointer an option. The field MessageCode of GenericRes is read nowhere and left out.
\<close>

type_synonym float32 = "32 word"
type_synonym float64 = "64 word"

datatype json =
    JNull
  | JString string
  | JNumber string
  | JInt int
  | JFloat float32
  | JBool bool
  | JArray "json list"
  | JObject "(string \<times> json) list"

text \<open>\<open>JNumber\<close> is a number decoded with UseNumber, kept as its text; \<open>JInt\<close> and \<open>JFloat\<close> are sent only.\<close>

record 'd GenericRes =
  Status :: bool
  Messages :: "string list"
  Data :: 'd

record LoginRes =
  login_Email :: string
  login_EWalletCurrency :: string
  login_EWalletAmount :: float64
  login_FullName :: string
  login_PnrNo :: string
  login_UserData :: string

record StationRes =
  ID :: string
  station_Description :: string
  station_State :: string
  station_Region :: string
  station_Country :: string
  station_Currency :: string
  StationData :: string
  station_TrainServices :: "string list"

record StationsAllRes =
  stations_MaximumPassengerCount :: int
  stations_Today :: string
  Stations :: "StationRes list"

record SearchStationsRes =
  search_BookingTripCount :: int
  search_SearchData :: string

record TripRes =
  trip_ID :: string
  trip_TrainNo :: string
  trip_ServiceCategory :: string
  DepartDateTime :: string
  trip_ArrivalDateTime :: string
  trip_ArrivalDayOffset :: int
  trip_Currency :: string
  trip_Price :: float32
  trip_Seat :: int
  trip_TripData :: string

record TripAllRes =
  trips_FromStationDescription :: string
  trips_ToStationDescription :: string
  trips_DepartDate :: string
  trips_IsReturn :: bool
  trips_TrainService :: string
  trips_Trips :: "TripRes list"

record ReserveRes =
  reserve_BookingData :: string
  reserve_IsBookingTripCompleted :: bool

record SelfRes =
  self_ContactNo :: string
  self_FullName :: string
  self_Gender :: string
  self_PassportExpiryDate :: "string option"
  self_PassportNo :: string
  self_PnrData :: string
  self_PnrNo :: string
  self_IsConcession :: "bool option"

record TicketRes =
  ticket_TripNo :: string
  ticket_TripName :: string
  ticket_FromStationName :: string
  ticket_ToStationName :: string
  ticket_FromLocalDateTime :: string
  ticket_ToLocalDateTime :: string
  ticket_IsReturn :: bool
  ticket_CurrencyCode :: string
  ticket_TicketAmount :: float32
  ticket_TicketData :: string
  ticket_TicketIndex :: int
  ticket_TotalAddOnAmount :: float32
  ticket_TotalAmount :: float32
  ticket_PromoCode :: json

record TicketTypeRes =
  type_Description :: string
  type_ID :: string
  type_IsDefault :: bool
  type_IsEnabled :: bool
  type_IsFreeDutyPass :: bool
  type_IsLedger :: bool
  type_IsPNR :: bool
  type_IsFreeTravel :: bool

record PassengerRes =
  res_IsAddFavorite :: bool
  res_IsBuyInsurance :: bool
  res_IsSelf :: bool
  res_PassengerData :: string
  res_PassengerPNRData :: json
  res_PnrNo :: json
  res_BottomLabels :: "string list"
  res_ContactNo :: json
  res_FullName :: json
  res_Gender :: json
  res_PassportExpiryDate :: json
  res_PassportNo :: json
  res_TicketTypeID :: json
  res_Tickets :: "TicketRes list"
  res_TicketTypes :: "TicketTypeRes list"

record BookStartRes =
  start_BookingData :: string
  start_UserData :: string
  start_BookingExpiryDateTime :: string
  start_BookingExpiryTimeSpan :: "(string \<times> float64) list"
  start_PassengerCount :: int
  start_HasReturn :: bool
  start_CurrencyCode :: string
  start_TotalTicketAmount :: float32
  start_TotalAddOnAmount :: float32
  start_RoundingAmount :: float32
  start_TotalAmount :: float32
  start_PassportMinimumExpiryDate :: string
  start_EWalletBalanceAmount :: float32
  start_Self :: SelfRes
  start_Favorites :: "SelfRes list"
  start_Passengers :: "PassengerRes list"

record PaymentMethodRes =
  method_Description :: string
  method_ID :: string
  method_ImageFileVersion :: string

record PaymentTicketRes =
  pay_ticket_CoachName :: string
  pay_ticket_PackageName :: json
  pay_ticket_PassengerContactNo :: string
  pay_ticket_PassengerFullName :: string
  pay_ticket_PassengerGender :: string
  pay_ticket_PassengerIdentityNo :: string
  pay_ticket_PassengerPassportExpiryDate :: string
  pay_ticket_PassengerPassportNo :: string
  pay_ticket_PassengerPNRNo :: string
  pay_ticket_SeatNo :: string
  pay_ticket_SeatTypeName :: string
  pay_ticket_ServiceTypeName :: string
  pay_ticket_CurrencyCode :: string
  pay_ticket_TicketAmount :: float32
  pay_ticket_PromoAmount :: float32
  pay_ticket_TotalAddOnAmount :: float32
  pay_ticket_TotalAmount :: float32
  pay_ticket_TicketTypeName :: string
  pay_ticket_TicketIndex :: int
  pay_ticket_PassengerIndex :: int

record PaymentTripRes =
  pay_trip_TrainService :: string
  pay_trip_TrainServiceLabel :: json
  pay_trip_TripIndex :: int
  pay_trip_TripNo :: string
  pay_trip_TripName :: string
  pay_trip_FromStationName :: string
  pay_trip_ToStationName :: string
  pay_trip_FromLocalDateTime :: string
  pay_trip_ToLocalDateTime :: string
  pay_trip_IsReturn :: bool
  pay_trip_CurrencyCode :: string
  pay_trip_TotalTicketAmount :: float32
  pay_trip_TotalAddOnAmount :: float32
  pay_trip_TotalInsuranceAddOnAmount :: float32
  pay_trip_TotalTicketInsuranceAddOnAmount :: float32
  pay_trip_TotalAmount :: float32
  pay_trip_TicketCount :: int
  pay_trip_IsPromoCodeRequired :: bool
  pay_trip_Tickets :: "PaymentTicketRes list"

record SetPassengerRes =
  passenger_BookingData :: string
  passenger_UserData :: string
  passenger_BookingExpiryDateTime :: string
  passenger_BookingExpiryTimeSpan :: "(string \<times> float64) list"
  passenger_PassengerCount :: int
  passenger_HasReturn :: bool
  passenger_CurrencyCode :: string
  passenger_TotalTicketAmount :: float32
  passenger_TotalAddOnAmount :: float32
  passenger_TotalTicketInsuranceAddOnAmount :: float32
  passenger_RoundingAmount :: float32
  passenger_TotalAmount :: float32
  passenger_DiscountAmount :: float32
  passenger_PaymentAmount :: float32
  passenger_TicketCount :: int
  passenger_TicketAddOnCount :: int
  passenger_EWalletBalanceAmount :: float32
  passenger_PaymentMethods :: "PaymentMethodRes list"
  passenger_Trips :: "PaymentTripRes list"

record PaymentRes =
  payment_BookingData :: string

record CompleteDetailRes =
  done_detail_CurrencyCode :: string
  done_detail_DetailData :: string
  done_detail_PaymentAmount :: float32
  done_detail_PaymentDetailTypeKey :: string
  done_detail_PaymentMethodKey :: string
  done_detail_PaymentMethodName :: string
  done_detail_UserEnteredAmount :: float32
  done_detail_UserEnteredText :: string

record CompletePaymentRes =
  done_payment_BookingPaymentData :: string
  done_payment_CompletedLocalDateTime :: string
  payment_CurrencyCode :: string
  done_payment_DiscountAmount :: float32
  done_payment_PaymentAmount :: float32
  done_payment_PaymentLocalDateTime :: string
  done_payment_PaymentNo :: string
  done_payment_PaymentStatusKey :: string
  done_payment_RoundingAmount :: float32
  done_payment_TotalAddOnAmount :: float32
  done_payment_TotalBookingAmount :: float32
  done_payment_TotalTicketAmount :: float32
  done_payment_Details :: "CompleteDetailRes list"

record CompleteTicketRes =
  done_ticket_BoardingCode :: string
  done_ticket_CoachName :: string
  done_ticket_CurrencyCode :: string
  done_ticket_FromLocalDateTime :: string
  done_ticket_IsPrintTicketAllowed :: bool
  done_ticket_IsRefundAllowed :: bool
  done_ticket_IsSeatTransferred :: bool
  done_ticket_IsTicketExtended :: bool
  done_ticket_PackageID :: string
  done_ticket_PackageName :: string
  done_ticket_PackageName2 :: string
  done_ticket_PassengerContactNo :: string
  done_ticket_PassengerFullName :: string
  done_ticket_PassengerGender :: string
  done_ticket_PassengerIdentityNo :: string
  done_ticket_PassengerIndex :: int
  done_ticket_PassengerPassportExpiryDate :: string
  done_ticket_PassengerPassportNo :: string
  done_ticket_PassengerPNRNo :: string
  done_ticket_PromoAmount :: float32
  done_ticket_PromoCode :: string
  done_ticket_SeatNo :: string
  done_ticket_SeatTypeName :: string
  done_ticket_ServiceTypeName :: string
  done_ticket_TicketAmount :: float32
  done_ticket_TicketData :: string
  done_ticket_TicketIndex :: int
  done_ticket_TicketMinusPromoAmount :: float32
  complete_TicketNo :: string
  done_ticket_TicketStatusLabel :: string
  done_ticket_TicketStatusKey :: string
  done_ticket_TicketTypeID :: string
  done_ticket_TicketTypeName :: string
  done_ticket_ToLocalDateTime :: string
  done_ticket_TotalAddOnAmount :: float32
  done_ticket_TotalAmount :: float32

record CompleteTripRes =
  done_trip_CurrencyCode :: string
  done_trip_FromLocalDateTime :: string
  done_trip_FromStationName :: string
  done_trip_IsCanceled :: bool
  done_trip_IsRefundAllowed :: bool
  done_trip_IsReturn :: bool
  done_trip_ToLocalDateTime :: string
  done_trip_ToStationName :: string
  done_trip_TotalAddOnAmount :: float32
  done_trip_TotalAmount :: float32
  done_trip_TotalInsuranceAddOnAmount :: float32
  done_trip_TotalTicketAmount :: float32
  done_trip_TotalTicketInsuranceAddOnAmount :: float32
  done_trip_TrainService :: string
  done_trip_TrainServiceLabel :: string
  done_trip_TrainServiceCategory :: string
  done_trip_TripData :: string
  done_trip_TripIndex :: int
  done_trip_TripName :: string
  done_trip_TripNo :: string
  done_trip_TripStatusLabel :: string
  done_trip_TripStatusKey :: string
  complete_Tickets :: "CompleteTicketRes list"

record CompleteBookingRes =
  done_BookingData :: string
  done_BookingLocalDateTime :: string
  complete_BookingNo :: string
  done_BookingStatusLabel :: string
  done_BookingStatusLabelBackgroundColor :: string
  done_BookingStatusKey :: string
  done_BookingTypeKey :: string
  booking_CurrencyCode :: string
  done_DepartFromLocalDateTime :: string
  done_DepartToLocalDateTime :: string
  done_FromStationName :: string
  done_HasReturn :: bool
  done_IsPrintTicketAllowed :: bool
  done_IsRefundAllowed :: bool
  done_PassengerCount :: int
  done_RoundingAmount :: float32
  done_TicketAddOnCount :: int
  done_TicketCount :: int
  done_ToStationName :: string
  done_TotalAddOnAmount :: float32
  done_TotalAmount :: float32
  done_TotalTicketAmount :: float32
  done_TripCount :: int
  complete_Payment :: CompletePaymentRes
  complete_Trips :: "CompleteTripRes list"

record CompleteRes =
  complete_UserData :: string
  complete_EWalletBalanceAmount :: float32
  complete_IsLoyaltyPointShown :: bool
  complete_LoyaltyPointDescription :: string
  Booking :: CompleteBookingRes

record GetTicketDetail =
  get_detail_CurrencyCode :: string
  get_detail_DetailData :: string
  get_detail_PaymentAmount :: float32
  get_detail_PaymentDetailTypeKey :: string
  get_detail_PaymentMethodKey :: string
  get_detail_PaymentMethodName :: string
  get_detail_UserEnteredAmount :: float32
  get_detail_UserEnteredText :: string

record GetTicketPayment =
  get_payment_BookingPaymentData :: string
  get_payment_CompletedLocalDateTime :: string
  get_payment_CurrencyCode :: string
  get_payment_Details :: "GetTicketDetail list"
  get_payment_DiscountAmount :: float32
  get_payment_PaymentAmount :: float32
  get_payment_PaymentLocalDateTime :: string
  get_payment_PaymentNo :: string
  get_payment_PaymentStatusKey :: string
  get_payment_RoundingAmount :: float32
  get_payment_TotalAddOnAmount :: float32
  get_payment_TotalBookingAmount :: float32
  get_payment_TotalTicketAmount :: float32

record GetTicketTicket =
  get_ticket_AddOns :: "json list"
  get_ticket_BoardingCode :: string
  get_ticket_CoachName :: string
  get_ticket_CoachNameFrom :: json
  get_ticket_CurrencyCode :: string
  get_ticket_FromLocalDateTime :: string
  get_ticket_InsuranceAddOn :: json
  get_ticket_IsPrintTicketAllowed :: bool
  get_ticket_IsRefundAllowed :: bool
  get_ticket_IsSeatTransferred :: bool
  get_ticket_IsTicketExtended :: bool
  get_ticket_NewBookingNo :: json
  get_ticket_OriginalTicket :: json
  get_ticket_PackageID :: string
  get_ticket_PackageName :: string
  get_ticket_PackageName2 :: string
  get_ticket_PassengerContactNo :: string
  get_ticket_PassengerFullName :: string
  get_ticket_PassengerGender :: string
  get_ticket_PassengerIdentityNo :: string
  get_ticket_PassengerIndex :: int
  get_ticket_PassengerPNRNo :: string
  get_ticket_PassengerPassportExpiryDate :: string
  get_ticket_PassengerPassportNo :: string
  get_ticket_PromoAmount :: float32
  get_ticket_PromoCode :: string
  get_ticket_SeatNo :: string
  get_ticket_SeatNoFrom :: json
  get_ticket_SeatTypeName :: string
  get_ticket_ServiceTypeName :: string
  get_ticket_TicketAmount :: float32
  get_ticket_TicketData :: string
  get_ticket_TicketIndex :: int
  get_ticket_TicketMinusPromoAmount :: float32
  get_ticket_TicketNo :: string
  get_ticket_TicketStatusKey :: string
  get_ticket_TicketStatusLabel :: string
  get_ticket_TicketTypeID :: string
  get_ticket_TicketTypeName :: string
  get_ticket_ToLocalDateTime :: string
  get_ticket_TotalAddOnAmount :: float32
  get_ticket_TotalAmount :: float32

record GetTicketTrip =
  get_trip_AddOns :: "json list"
  get_trip_CurrencyCode :: string
  get_trip_FromLocalDateTime :: string
  get_trip_FromStationName :: string
  get_trip_IsCanceled :: bool
  get_trip_IsRefundAllowed :: bool
  get_trip_IsReturn :: bool
  get_trip_OriginalTrip :: json
  get_trip_Tickets :: "GetTicketTicket list"
  get_trip_ToLocalDateTime :: string
  get_trip_ToStationName :: string
  get_trip_TotalAddOnAmount :: float32
  get_trip_TotalAmount :: float32
  get_trip_TotalInsuranceAddOnAmount :: float32
  get_trip_TotalTicketAmount :: float32
  get_trip_TotalTicketInsuranceAddOnAmount :: float32
  get_trip_TrainService :: string
  get_trip_TrainServiceCategory :: string
  get_trip_TrainServiceLabel :: string
  get_trip_TripBorderLeftColor :: json
  get_trip_TripData :: string
  get_trip_TripIndex :: int
  get_trip_TripLabelTagText :: json
  get_trip_TripName :: string
  get_trip_TripNo :: string
  get_trip_TripStatusKey :: string
  get_trip_TripStatusLabel :: string

record GetTicketBookingRes =
  get_booking_BookingData :: string
  get_booking_BookingLocalDateTime :: string
  get_booking_BookingNo :: string
  get_booking_BookingStatusKey :: string
  get_booking_BookingStatusLabel :: string
  get_booking_BookingStatusLabelBackgroundColor :: string
  get_booking_BookingTypeKey :: string
  get_booking_CurrencyCode :: string
  get_booking_DepartFromLocalDateTime :: string
  get_booking_DepartToLocalDateTime :: string
  get_booking_FromStationName :: string
  get_booking_HasReturn :: bool
  get_booking_IsPrintTicketAllowed :: bool
  get_booking_IsRefundAllowed :: bool
  get_booking_OriginalBooking :: json
  get_booking_PassengerCount :: int
  get_booking_Payment :: GetTicketPayment
  get_booking_ReturnFromLocalDateTime :: json
  get_booking_ReturnToLocalDateTime :: json
  get_booking_RoundingAmount :: float32
  get_booking_TicketAddOnCount :: int
  get_booking_TicketCount :: int
  get_booking_ToStationName :: string
  get_booking_TotalAddOnAmount :: float32
  get_booking_TotalAmount :: float32
  get_booking_TotalTicketAmount :: float32
  get_booking_TripCount :: int
  get_booking_Trips :: "GetTicketTrip list"

record GetTicketRes =
  get_Bookings :: "GetTicketBookingRes list"
  get_CompanyAddress :: string
  get_CompanyName :: string
  get_CompanyRegistrationNo :: string
  get_ErlTicketMessage :: json
  get_TicketMessage :: string

record TicketListDetailRes =
  list_detail_CurrencyCode :: string
  list_detail_DetailData :: string
  list_detail_PaymentAmount :: float32
  list_detail_PaymentDetailTypeKey :: string
  list_detail_PaymentMethodKey :: string
  list_detail_PaymentMethodName :: json
  list_detail_UserEnteredAmount :: float32
  list_detail_UserEnteredText :: string

record TicketListPaymentRes =
  list_payment_BookingPaymentData :: string
  list_payment_CompletedLocalDateTime :: string
  list_payment_CurrencyCode :: string
  list_payment_Details :: "TicketListDetailRes list"
  list_payment_DiscountAmount :: float32
  list_payment_PaymentAmount :: float32
  list_payment_PaymentLocalDateTime :: string
  list_payment_PaymentNo :: string
  list_payment_PaymentStatusKey :: string
  list_payment_RoundingAmount :: float32
  list_payment_TotalAddOnAmount :: float32
  list_payment_TotalBookingAmount :: float32
  list_payment_TotalTicketAmount :: float32

record TicketListTicketRes =
  list_ticket_AddOns :: "json list"
  list_ticket_BoardingCode :: string
  list_ticket_CoachName :: string
  list_ticket_CoachNameFrom :: json
  list_ticket_CurrencyCode :: string
  list_ticket_FromLocalDateTime :: string
  list_ticket_InsuranceAddOn :: json
  list_ticket_IsPrintTicketAllowed :: bool
  list_ticket_IsRefundAllowed :: bool
  list_ticket_IsSeatTransferred :: bool
  list_ticket_IsTicketExtended :: bool
  list_ticket_NewBookingNo :: json
  list_ticket_OriginalTicket :: json
  list_ticket_PackageID :: string
  list_ticket_PackageName :: string
  list_ticket_PackageName2 :: string
  list_ticket_PassengerContactNo :: string
  list_ticket_PassengerFullName :: string
  list_ticket_PassengerGender :: string
  list_ticket_PassengerIdentityNo :: string
  list_ticket_PassengerIndex :: int
  list_ticket_PassengerPNRNo :: string
  list_ticket_PassengerPassportExpiryDate :: string
  list_ticket_PassengerPassportNo :: string
  list_ticket_PromoAmount :: float32
  list_ticket_PromoCode :: string
  list_ticket_SeatNo :: string
  list_ticket_SeatNoFrom :: json
  list_ticket_SeatTypeName :: string
  list_ticket_ServiceTypeName :: string
  list_ticket_TicketAmount :: float32
  list_ticket_TicketData :: string
  list_ticket_TicketIndex :: int
  list_ticket_TicketMinusPromoAmount :: float32
  list_ticket_TicketNo :: string
  list_ticket_TicketStatusKey :: string
  list_ticket_TicketStatusLabel :: string
  list_ticket_TicketTypeID :: string
  list_ticket_TicketTypeName :: string
  list_ticket_ToLocalDateTime :: string
  list_ticket_TotalAddOnAmount :: float32
  list_ticket_TotalAmount :: float32

record TicketListTripRes =
  list_trip_AddOns :: "json list"
  list_trip_CurrencyCode :: string
  list_trip_FromLocalDateTime :: string
  list_trip_FromStationName :: string
  list_trip_IsCanceled :: bool
  list_trip_IsRefundAllowed :: bool
  list_trip_IsReturn :: bool
  list_trip_OriginalTrip :: json
  list_trip_Tickets :: "TicketListTicketRes list"
  list_trip_ToLocalDateTime :: string
  list_trip_ToStationName :: string
  list_trip_TotalAddOnAmount :: float32
  list_trip_TotalAmount :: float32
  list_trip_TotalInsuranceAddOnAmount :: float32
  list_trip_TotalTicketAmount :: float32
  list_trip_TotalTicketInsuranceAddOnAmount :: float32
  list_trip_TrainService :: string
  list_trip_TrainServiceCategory :: string
  list_trip_TrainServiceLabel :: string
  list_trip_TripBorderLeftColor :: json
  list_trip_TripData :: string
  list_trip_TripIndex :: int
  list_trip_TripLabelTagText :: json
  list_trip_TripName :: string
  list_trip_TripNo :: string
  list_trip_TripStatusKey :: string
  list_trip_TripStatusLabel :: string

record TicketListBookingRes =
  list_booking_BookingData :: string
  list_booking_BookingLocalDateTime :: string
  list_booking_BookingNo :: string
  list_booking_BookingStatusKey :: string
  list_booking_BookingStatusLabel :: string
  list_booking_BookingStatusLabelBackgroundColor :: string
  list_booking_BookingTypeKey :: string
  list_booking_CurrencyCode :: string
  list_booking_DepartFromLocalDateTime :: string
  list_booking_DepartToLocalDateTime :: string
  list_booking_FromStationName :: string
  list_booking_HasReturn :: bool
  list_booking_IsPrintTicketAllowed :: bool
  list_booking_IsRefundAllowed :: bool
  list_booking_OriginalBooking :: json
  list_booking_PassengerCount :: int
  list_booking_Payment :: TicketListPaymentRes
  list_booking_ReturnFromLocalDateTime :: json
  list_booking_ReturnToLocalDateTime :: json
  list_booking_RoundingAmount :: float32
  list_booking_TicketAddOnCount :: int
  list_booking_TicketCount :: int
  list_booking_ToStationName :: string
  list_booking_TotalAddOnAmount :: float32
  list_booking_TotalAmount :: float32
  list_booking_TotalTicketAmount :: float32
  list_booking_TripCount :: int
  list_booking_Trips :: "TicketListTripRes list"

record TicketListRes =
  list_Bookings :: "TicketListBookingRes list"
  list_IsAcceptPdpa :: bool
  list_Page :: int
  list_RefundPassword :: json
  list_ShareBookingEmail :: json
  list_ShareReceiptEmail :: json
  list_TotalCount :: int
  list_TotalPage :: int

record RefundPolicyTripTicketRes =
  policy_ticket_AddOns :: "json list"
  policy_ticket_CurrencyCode :: string
  policy_ticket_InsuranceAddOn :: json
  policy_ticket_PassengerFullName :: string
  policy_ticket_RefundAmount :: float32
  policy_ticket_RefundPercentage :: float32
  policy_ticket_TicketData :: string
  policy_ticket_TicketMinusPromoAmount :: float32
  policy_ticket_TicketNo :: string
  policy_ticket_TotalAmount :: float32

record RefundPolicyTripRes =
  policy_trip_FromLocalDateTime :: string
  policy_trip_FromStationName :: string
  policy_trip_Tickets :: "RefundPolicyTripTicketRes list"
  policy_trip_ToLocalDateTime :: string
  policy_trip_ToStationName :: string
  policy_trip_TripName :: string

record RefundPolicyRes =
  policy_BookingData :: string
  policy_CurrencyCode :: string
  policy_IsRefundAllowed :: bool
  policy_TotalRefundAmount :: float32
  policy_Trips :: "RefundPolicyTripRes list"

text \<open>\<open>x > 0\<close> on the bit pattern: the sign bit is clear, and the value is neither zero nor a NaN.\<close>

definition positive :: "float32 \<Rightarrow> bool" where
  "positive x \<longleftrightarrow> 0 < x \<and> x \<le> 0x7F800000"

end
