(* ===== verification/Ktmb_Req.thy ===== *)
theory Ktmb_Req
  imports Ktmb_Types
begin

text \<open>
  lib/ktmb/req.go: the payloads of the requests to KTMB, struct by struct, each with the JSON object that its
  tags make of it. A field carries the name of its struct as a prefix.
\<close>

record LoginReq =
  lr_Email :: string
  lr_Password :: string

definition LoginReq_json :: "LoginReq \<Rightarrow> json" where
  "LoginReq_json r = JObject [(''email'', JString (lr_Email r)), (''password'', JString (lr_Password r))]"

record SearchReq =
  sr_FromStationData :: string
  sr_FromStationID :: string
  sr_OnwardDate :: string
  sr_PassengerCount :: int
  sr_ToStationData :: string
  sr_ToStationID :: string

definition SearchReq_json :: "SearchReq \<Rightarrow> json" where
  "SearchReq_json r = JObject
     [(''FromStationData'', JString (sr_FromStationData r)), (''FromStationId'', JString (sr_FromStationID r)),
      (''OnwardDate'', JString (sr_OnwardDate r)), (''PassengerCount'', JInt (sr_PassengerCount r)),
      (''ToStationData'', JString (sr_ToStationData r)), (''ToStationId'', JString (sr_ToStationID r))]"

record TripReq =
  tr_BookingTripSequenceNo :: int
  tr_DepartDate :: string
  tr_SearchData :: string

definition TripReq_json :: "TripReq \<Rightarrow> json" where
  "TripReq_json r = JObject
     [(''BookingTripSequenceNo'', JInt (tr_BookingTripSequenceNo r)), (''DepartDate'', JString (tr_DepartDate r)),
      (''searchData'', JString (tr_SearchData r))]"

record Trip =
  tq_TripData :: string

definition Trip_json :: "Trip \<Rightarrow> json" where
  "Trip_json t = JObject [(''tripData'', JString (tq_TripData t))]"

record ReserveReq =
  rr_AppInformation :: string
  rr_SearchData :: string
  rr_Trips :: "Trip list"

definition ReserveReq_json :: "ReserveReq \<Rightarrow> json" where
  "ReserveReq_json r = JObject
     [(''appInformation'', JString (rr_AppInformation r)), (''searchData'', JString (rr_SearchData r)),
      (''trips'', JArray (map Trip_json (rr_Trips r)))]"

record BookStartReq =
  bs_BookingData :: string

definition BookStartReq_json :: "BookStartReq \<Rightarrow> json" where
  "BookStartReq_json r = JObject [(''bookingData'', JString (bs_BookingData r))]"

record TicketReq =
  PromoCode :: string

definition TicketReq_json :: "TicketReq \<Rightarrow> json" where
  "TicketReq_json t = JObject [(''promoCode'', JString (PromoCode t))]"

record PassengerReq =
  ContactNo :: string
  FullName :: string
  Gender :: string
  IsAddFavorite :: bool
  IsBuyInsurance :: bool
  IsSelf :: bool
  PassengerData :: string
  PassportExpiryDate :: string
  PassportNo :: string
  PnrData :: string
  PnrNo :: string
  TicketTypeID :: string
  PassengerTickets :: "TicketReq list"

definition PassengerReq_json :: "PassengerReq \<Rightarrow> json" where
  "PassengerReq_json p = JObject
     [(''contactNo'', JString (ContactNo p)), (''fullName'', JString (FullName p)), (''gender'', JString (Gender p)),
      (''isAddFavorite'', JBool (IsAddFavorite p)), (''isBuyInsurance'', JBool (IsBuyInsurance p)), (''isSelf'', JBool (IsSelf p)),
      (''passengerData'', JString (PassengerData p)), (''passportExpiryDate'', JString (PassportExpiryDate p)),
      (''passportNo'', JString (PassportNo p)), (''pnrData'', JString (PnrData p)), (''pnrNo'', JString (PnrNo p)),
      (''ticketTypeId'', JString (TicketTypeID p)), (''tickets'', JArray (map TicketReq_json (PassengerTickets p)))]"

record SetPassengerReq =
  sp_BookingData :: string
  sp_Passengers :: "PassengerReq list"

definition SetPassengerReq_json :: "SetPassengerReq \<Rightarrow> json" where
  "SetPassengerReq_json r = JObject
     [(''bookingData'', JString (sp_BookingData r)), (''passengers'', JArray (map PassengerReq_json (sp_Passengers r)))]"

record PayReq =
  pay_BookingData :: string
  pay_DiscountAmount :: float32
  pay_EWalletAmount :: float32
  pay_PaymentAmount :: float32
  pay_TotalAmount :: float32
  pay_PaymentMethod :: string

definition PayReq_json :: "PayReq \<Rightarrow> json" where
  "PayReq_json r = JObject
     [(''bookingData'', JString (pay_BookingData r)), (''discountAmount'', JFloat (pay_DiscountAmount r)),
      (''eWalletAmount'', JFloat (pay_EWalletAmount r)), (''paymentAmount'', JFloat (pay_PaymentAmount r)),
      (''totalAmount'', JFloat (pay_TotalAmount r)), (''paymentMethod'', JString (pay_PaymentMethod r))]"

record CompleteReq =
  cq_BookingData :: string

definition CompleteReq_json :: "CompleteReq \<Rightarrow> json" where
  "CompleteReq_json r = JObject [(''bookingData'', JString (cq_BookingData r))]"

record PrintTicketTicketReq =
  ptt_TicketNo :: string

record PrintTicketReq =
  pt_BookingNo :: string
  pt_Tickets :: "PrintTicketTicketReq list"

definition PrintTicketReq_json :: "PrintTicketReq \<Rightarrow> json" where
  "PrintTicketReq_json r = JObject
     [(''bookingNo'', JString (pt_BookingNo r)),
      (''tickets'', JArray (map (\<lambda>t. JObject [(''ticketNo'', JString (ptt_TicketNo t))]) (pt_Tickets r)))]"

record CancelReserveReq =
  cr_BookingData :: string

definition CancelReserveReq_json :: "CancelReserveReq \<Rightarrow> json" where
  "CancelReserveReq_json r = JObject [(''bookingData'', JString (cr_BookingData r))]"

record GetTicketTicketReq =
  gtt_TicketNo :: string

record GetTicketReq =
  gt_BookingNo :: string
  gt_Tickets :: "GetTicketTicketReq list"

definition GetTicketReq_json :: "GetTicketReq \<Rightarrow> json" where
  "GetTicketReq_json r = JObject
     [(''bookingNo'', JString (gt_BookingNo r)),
      (''tickets'', JArray (map (\<lambda>t. JObject [(''ticketNo'', JString (gtt_TicketNo t))]) (gt_Tickets r)))]"

record RefundTicketTicketReq =
  rtt_TicketData :: string

record RefundTicketReq =
  rt_BookingData :: string
  rt_RefundPassword :: string
  rt_Tickets :: "RefundTicketTicketReq list"

definition RefundTicketReq_json :: "RefundTicketReq \<Rightarrow> json" where
  "RefundTicketReq_json r = JObject
     [(''bookingData'', JString (rt_BookingData r)), (''refundPassword'', JString (rt_RefundPassword r)),
      (''tickets'', JArray (map (\<lambda>t. JObject [(''ticketData'', JString (rtt_TicketData t))]) (rt_Tickets r)))]"

record TicketListReq =
  tl_Page :: int

definition TicketListReq_json :: "TicketListReq \<Rightarrow> json" where
  "TicketListReq_json r = JObject [(''page'', JInt (tl_Page r))]"

record RefundPolicyTicketReq =
  rpt_TicketData :: string

record RefundPolicyReq =
  rp_BookingData :: string
  rp_Tickets :: "RefundPolicyTicketReq list"

definition RefundPolicyReq_json :: "RefundPolicyReq \<Rightarrow> json" where
  "RefundPolicyReq_json r = JObject
     [(''bookingData'', JString (rp_BookingData r)),
      (''tickets'', JArray (map (\<lambda>t. JObject [(''ticketData'', JString (rpt_TicketData t))]) (rp_Tickets r)))]"

end
