(* ===== verification/Ktmb_Api.thy ===== *)
theory Ktmb_Api
  imports Ktmb_Req
begin

text \<open>
  lib/ktmb/http.go and lib/ktmb/ktmb.go: the requests the program sends to KTMB; their payloads are
  those of \<open>Ktmb_Req\<close>, the response types those of \<open>Ktmb_Types\<close>. The network, encoding/json, URL
  parsing and the random octets are parameters. A float32 is its bit pattern: the program only passes
  amounts on.
\<close>

text \<open>How \<open>%v\<close> and \<open>%+v\<close> print a slice of strings.\<close>

definition fmt_strings :: "string list \<Rightarrow> string" where
  "fmt_strings ms = ''['' @ join_with '' '' ms @ '']''"

section \<open>A plausible public address\<close>

type_synonym octets = "nat \<times> nat \<times> nat \<times> nat"

fun reserved :: "octets \<Rightarrow> bool" where
  "reserved (a, b, c, d) \<longleftrightarrow>
     a = 0 \<or> a = 10 \<or> a = 127
   \<or> a = 100 \<and> 64 \<le> b \<and> b \<le> 127
   \<or> a = 169 \<and> b = 254
   \<or> a = 172 \<and> 16 \<le> b \<and> b \<le> 31
   \<or> a = 192 \<and> b = 168
   \<or> a = 192 \<and> b = 0 \<and> c = 2
   \<or> a = 198 \<and> (b = 18 \<or> b = 19)
   \<or> a = 198 \<and> b = 51 \<and> c = 100
   \<or> a = 203 \<and> b = 0 \<and> c = 113
   \<or> a \<ge> 224"

fun dotted :: "octets \<Rightarrow> string" where
  "dotted (a, b, c, d) = itoa a @ ''.'' @ itoa b @ ''.'' @ itoa c @ ''.'' @ itoa d"

text \<open>The loop redraws until the address is public; \<open>None\<close> if it never is.\<close>

partial_function (option) randomPublicIP :: "(nat \<Rightarrow> octets) \<Rightarrow> nat \<Rightarrow> string option" where
  [code]: "randomPublicIP draws i = (if reserved (draws i) then randomPublicIP draws (Suc i) else Some (dotted (draws i)))"

section \<open>One request\<close>

record http_config =
  Url :: string
  Header :: "(string \<times> string) list"

record http_request =
  Method :: string
  Target_Url :: string
  Content :: string
  Headers :: "(string \<times> string) list"

datatype http_reply = No_Response error | Response int "string result"

record 'x transport =
  new_request :: "string \<Rightarrow> unit result"
  marshal :: "json \<Rightarrow> string result"
  rand_draws :: "'x \<Rightarrow> (nat \<Rightarrow> octets) \<times> 'x"
  round_trip :: "http_request \<Rightarrow> 'x \<Rightarrow> http_reply \<times> 'x"

datatype http_event = Drew "nat \<Rightarrow> octets" | Exchanged http_request http_reply

definition request_of :: "http_config \<Rightarrow> string \<Rightarrow> string \<Rightarrow> string \<Rightarrow> (string \<times> string) list \<Rightarrow> string \<Rightarrow> http_request" where
  "request_of k meth path body headers ip =
     \<lparr>Method = meth, Target_Url = Url k @ ''/'' @ path, Content = body,
      Headers = filter (\<lambda>(h, v). h \<noteq> ''X-Real-IP'') (headers @ Header k) @ [(''X-Real-IP'', ip)]\<rparr>"

text \<open>The result is \<open>None\<close> when no public address is ever drawn, so that the call does not return.\<close>

definition do_request :: "'x transport \<Rightarrow> http_config \<Rightarrow> string \<Rightarrow> string \<Rightarrow> string \<Rightarrow> (string \<times> string) list
    \<Rightarrow> ('x, http_event, http_reply option) proc" where
  "do_request env k meth path body headers =
     (case new_request env (Url k @ ''/'' @ path) of
        Inl err \<Rightarrow> return (Some (No_Response err))
      | Inr _ \<Rightarrow> do {
          draws \<leftarrow> invoke (rand_draws env) Drew;
          case randomPublicIP draws 0 of
            None \<Rightarrow> return None
          | Some ip \<Rightarrow> do {
              r \<leftarrow> invoke (round_trip env (request_of k meth path body headers ip)) (Exchanged (request_of k meth path body headers ip));
              return (Some r)
            }
        })"

definition SendContext :: "'x transport \<Rightarrow> http_config \<Rightarrow> (string \<Rightarrow> 'y result) \<Rightarrow> string \<Rightarrow> string
    \<Rightarrow> (string \<times> string) list \<Rightarrow> ('x, http_event, 'y result option) proc" where
  "SendContext env k unmarshal meth path headers = do {
     r \<leftarrow> do_request env k meth path [] headers;
     return (case r of
         None \<Rightarrow> None
       | Some (No_Response err) \<Rightarrow> Some (Inl err)
       | Some (Response status body) \<Rightarrow>
           if status > 399 then Some (Inl (Http_Status_Error status (case body of Inl _ \<Rightarrow> [] | Inr b \<Rightarrow> b)))
           else (case body of Inl err \<Rightarrow> Some (Inl err) | Inr b \<Rightarrow> Some (unmarshal b)))
   }"

text \<open>Reading the answer, the same in the two functions that send a payload.\<close>

fun read_answer :: "(string \<Rightarrow> 'y result) \<Rightarrow> http_reply option \<Rightarrow> 'y result option" where
  "read_answer unmarshal None = None"
| "read_answer unmarshal (Some (No_Response err)) = Some (Inl err)"
| "read_answer unmarshal (Some (Response status (Inl err))) = Some (Inl err)"
| "read_answer unmarshal (Some (Response status (Inr b))) =
     Some (if status > 399 then Inl (Http_Status_Error status b) else unmarshal b)"

definition SendWithContext :: "'x transport \<Rightarrow> http_config \<Rightarrow> (string \<Rightarrow> 'y result) \<Rightarrow> string \<Rightarrow> string \<Rightarrow> json
    \<Rightarrow> (string \<times> string) list \<Rightarrow> ('x, http_event, 'y result option) proc" where
  "SendWithContext env k unmarshal meth path payload headers =
     (case marshal env payload of
        Inl err \<Rightarrow> return (Some (Inl err))
      | Inr content \<Rightarrow> do {
          r \<leftarrow> do_request env k meth path content headers;
          return (read_answer unmarshal r)
        })"

definition BinarySendWith :: "'x transport \<Rightarrow> http_config \<Rightarrow> string \<Rightarrow> string \<Rightarrow> json
    \<Rightarrow> (string \<times> string) list \<Rightarrow> ('x, http_event, string result option) proc" where
  "BinarySendWith env k meth path payload headers =
     (case marshal env payload of
        Inl err \<Rightarrow> return (Some (Inl err))
      | Inr content \<Rightarrow> do {
          r \<leftarrow> do_request env k meth path content headers;
          return (read_answer Inr r)
        })"

section \<open>The calls\<close>

record Ktmb =
  ApiUrl :: string
  AppUrl :: string
  Signature :: string

definition apiHost :: "(string \<times> string) list" where
  "apiHost = [(''Host'', ''shuttleonline-api.ktmb.com.my'')]"

definition appHost :: "(string \<times> string) list" where
  "appHost = [(''Host'', ''online-api.ktmb.com.my'')]"

definition NewApi :: "Ktmb \<Rightarrow> http_config" where
  "NewApi k = \<lparr>Url = ApiUrl k, Header = [(''Content-Type'', ''application/json''), (''requestSignature'', Signature k)]\<rparr>"

definition NewApp :: "Ktmb \<Rightarrow> http_config" where
  "NewApp k = \<lparr>Url = AppUrl k, Header = [(''Content-Type'', ''application/json''), (''requestSignature'', Signature k)]\<rparr>"

definition user_header :: "string \<Rightarrow> (string \<times> string) list" where
  "user_header userData = [(''userData'', userData)]"

definition ktmb_Login where
  "ktmb_Login env k dec email password =
     SendWithContext env (NewApi k) dec ''POST'' ''v1/account/EmailLogin''
       (LoginReq_json \<lparr>lr_Email = email, lr_Password = password\<rparr>) []"

definition ktmb_Logout where
  "ktmb_Logout env k dec userData = SendContext env (NewApi k) dec ''POST'' ''v1/account/Logout'' (user_header userData)"

definition ktmb_StationsAll where
  "ktmb_StationsAll env k dec userData =
     SendContext env (NewApp k) dec ''POST'' ''/v1/shuttletrip/Station'' (apiHost @ user_header userData)"

definition ktmb_SearchStations where
  "ktmb_SearchStations env k dec userData fromStationId fromStationData toStationId toStationData onwardDate passengerCount =
     SendWithContext env (NewApp k) dec ''POST'' ''/v1/shuttletrip/Search''
       (SearchReq_json \<lparr>sr_FromStationData = fromStationData, sr_FromStationID = fromStationId, sr_OnwardDate = onwardDate,
          sr_PassengerCount = passengerCount, sr_ToStationData = toStationData, sr_ToStationID = toStationId\<rparr>)
       (apiHost @ user_header userData)"

definition ktmb_Trip where
  "ktmb_Trip env k dec userData departDate searchData =
     SendWithContext env (NewApp k) dec ''POST'' ''/v1/shuttletrip/Trip''
       (TripReq_json \<lparr>tr_BookingTripSequenceNo = 1, tr_DepartDate = departDate, tr_SearchData = searchData\<rparr>)
       (apiHost @ user_header userData)"

definition ktmb_Reserve where
  "ktmb_Reserve env k dec userData appInformation searchData tripData =
     SendWithContext env (NewApp k) dec ''POST'' ''/v1/shuttletrip/Reserve''
       (ReserveReq_json \<lparr>rr_AppInformation = appInformation, rr_SearchData = searchData, rr_Trips = [\<lparr>tq_TripData = tripData\<rparr>]\<rparr>)
       (apiHost @ user_header userData)"

definition ktmb_BookStart where
  "ktmb_BookStart env k dec userData bookingData =
     SendWithContext env (NewApp k) dec ''POST'' ''/v1/bookshuttle/GetBookingForUpdate'' (BookStartReq_json \<lparr>bs_BookingData = bookingData\<rparr>)
       (apiHost @ user_header userData)"

definition ktmb_SetPassenger where
  "ktmb_SetPassenger env k dec userData bookingData passengers =
     SendWithContext env (NewApp k) dec ''POST'' ''/v1/bookshuttle/UpdatePassenger''
       (SetPassengerReq_json \<lparr>sp_BookingData = bookingData, sp_Passengers = passengers\<rparr>)
       (apiHost @ user_header userData)"

definition ktmb_Pay where
  "ktmb_Pay env k dec userData bookingData meth amount =
     SendWithContext env (NewApp k) dec ''POST'' ''/v1/bookshuttle/UpdatePayment''
       (PayReq_json \<lparr>pay_BookingData = bookingData, pay_DiscountAmount = 0, pay_EWalletAmount = 0, pay_PaymentAmount = amount,
          pay_TotalAmount = amount, pay_PaymentMethod = meth\<rparr>)
       (apiHost @ user_header userData)"

definition ktmb_Complete where
  "ktmb_Complete env k dec userData bookingData =
     SendWithContext env (NewApp k) dec ''POST'' ''/v1/bookshuttle/Summary'' (CompleteReq_json \<lparr>cq_BookingData = bookingData\<rparr>)
       (apiHost @ user_header userData)"

definition ktmb_PrintTicket where
  "ktmb_PrintTicket env k userData bookingNo ticketNo =
     BinarySendWith env (NewApi k) ''POST'' ''/v1/booking/PrintTicketPdf''
       (PrintTicketReq_json \<lparr>pt_BookingNo = bookingNo, pt_Tickets = [\<lparr>ptt_TicketNo = ticketNo\<rparr>]\<rparr>)
       (appHost @ user_header userData)"

definition ktmb_Cancel where
  "ktmb_Cancel env k dec userData bookingData =
     SendWithContext env (NewApp k) dec ''POST'' ''/v1/bookshuttle/Cancel'' (CancelReserveReq_json \<lparr>cr_BookingData = bookingData\<rparr>)
       (apiHost @ user_header userData)"

definition ktmb_GetTicket where
  "ktmb_GetTicket env k dec userData bookingNo ticketNo =
     SendWithContext env (NewApi k) dec ''POST'' ''v1/booking/PrintTicket''
       (GetTicketReq_json \<lparr>gt_BookingNo = bookingNo, gt_Tickets = [\<lparr>gtt_TicketNo = ticketNo\<rparr>]\<rparr>)
       (appHost @ user_header userData)"

text \<open>The raw variant differs in what the data decode to.\<close>

definition ktmb_GetTicketRaw where
  "ktmb_GetTicketRaw env k dec userData bookingNo ticketNo =
     SendWithContext env (NewApi k) dec ''POST'' ''v1/booking/PrintTicket''
       (GetTicketReq_json \<lparr>gt_BookingNo = bookingNo, gt_Tickets = [\<lparr>gtt_TicketNo = ticketNo\<rparr>]\<rparr>)
       (appHost @ user_header userData)"

definition ktmb_RefundTicket where
  "ktmb_RefundTicket env k dec userData password bookingData ticketData =
     SendWithContext env (NewApi k) dec ''POST'' ''v1/booking/RefundTicket''
       (RefundTicketReq_json \<lparr>rt_BookingData = bookingData, rt_RefundPassword = password, rt_Tickets = [\<lparr>rtt_TicketData = ticketData\<rparr>]\<rparr>)
       (appHost @ user_header userData)"

definition ktmb_ListTicket where
  "ktmb_ListTicket env k dec userData page =
     SendWithContext env (NewApi k) dec ''POST'' ''v1/booking/UpcomingShuttleList'' (TicketListReq_json \<lparr>tl_Page = page\<rparr>)
       (appHost @ user_header userData)"

definition ktmb_GetRefundPolicy where
  "ktmb_GetRefundPolicy env k dec userData bookingData ticketData =
     SendWithContext env (NewApi k) dec ''POST'' ''v1/booking/GetRefundTicketPolicy''
       (RefundPolicyReq_json \<lparr>rp_BookingData = bookingData, rp_Tickets = [\<lparr>rpt_TicketData = ticketData\<rparr>]\<rparr>)
       (appHost @ user_header userData)"

section \<open>The address is public\<close>

lemma randomPublicIP_step:
  "reserved (draws i) \<Longrightarrow> randomPublicIP draws i = randomPublicIP draws (Suc i)"
  "\<not> reserved (draws i) \<Longrightarrow> randomPublicIP draws i = Some (dotted (draws i))"
  by (subst randomPublicIP.simps, simp)+

lemma randomPublicIP_skip:
  "(\<And>l. l < m \<Longrightarrow> reserved (draws l)) \<Longrightarrow> i \<le> m \<Longrightarrow> randomPublicIP draws i = randomPublicIP draws m"
proof (induction "m - i" arbitrary: i)
  case (Suc n)
  then have "reserved (draws i)" "Suc i \<le> m" "n = m - Suc i" by auto
  then show ?case using Suc.hyps(1)[of "Suc i"] Suc.prems by (simp add: randomPublicIP_step(1))
qed simp

text \<open>The address of a request is the first one drawn outside the private, loopback, link-local,
  documentation, multicast and reserved ranges, and one is found as soon as one is ever drawn.\<close>

theorem randomPublicIP_public:
  assumes "\<not> reserved (draws j)"
  shows "\<exists>m \<le> j. \<not> reserved (draws m) \<and> (\<forall>l < m. reserved (draws l)) \<and> randomPublicIP draws 0 = Some (dotted (draws m))"
proof -
  let ?m = "LEAST m. \<not> reserved (draws m)"
  have m: "\<not> reserved (draws ?m)" using assms by (rule LeastI)
  have l: "\<And>l. l < ?m \<Longrightarrow> reserved (draws l)" by (drule not_less_Least) simp
  have "randomPublicIP draws 0 = Some (dotted (draws ?m))"
    using randomPublicIP_skip[where m = ?m and i = 0 and draws = draws, OF l] m by (simp add: randomPublicIP_step(2))
  then show ?thesis using m l Least_le[of "\<lambda>m. \<not> reserved (draws m)" j] assms by blast
qed

definition ex_draws :: "nat \<Rightarrow> octets" where
  "ex_draws i = (if i = 0 then (10, 0, 0, 1) else (8, 8, 8, 8))"

theorem randomPublicIP_public_witness: "randomPublicIP ex_draws 0 = Some (dotted (8, 8, 8, 8))"
proof -
  have "\<not> reserved (ex_draws 1)" by (simp add: ex_draws_def)
  from randomPublicIP_public[where draws = ex_draws, OF this]
  obtain m where "\<not> reserved (ex_draws m)" "randomPublicIP ex_draws 0 = Some (dotted (ex_draws m))" by blast
  then show ?thesis by (cases "m = 0") (simp_all add: ex_draws_def)
qed

section \<open>What a call sends and what it makes of the answer\<close>

text \<open>At most one exchange, of that request but for the address; an answer decodes only a body that was
  read whole under a status below 400, and a typed status error is exactly one of 400 or more.\<close>

definition sent_one :: "http_config \<Rightarrow> string \<Rightarrow> string \<Rightarrow> (string \<times> string) list \<Rightarrow> http_event list \<Rightarrow> bool" where
  "sent_one k path body headers tr \<longleftrightarrow> (\<forall>req rep. Exchanged req rep \<in> set tr \<longrightarrow>
     (\<exists>ip. req = request_of k ''POST'' path body headers ip)) \<and> length (filter (\<lambda>ev. \<exists>q r. ev = Exchanged q r) tr) \<le> 1"

definition answer_of :: "(string \<Rightarrow> 'y result) \<Rightarrow> 'y result option \<Rightarrow> http_event list \<Rightarrow> bool" where
  "answer_of unmarshal r tr \<longleftrightarrow>
     (\<forall>y. r = Some (Inr y) \<longrightarrow> (\<exists>q s b. Exchanged q (Response s (Inr b)) \<in> set tr \<and> s \<le> 399 \<and> unmarshal b = Inr y))
   \<and> (\<forall>q s b. Exchanged q (Response s (Inr b)) \<in> set tr \<longrightarrow> s > 399 \<longrightarrow> r = Some (Inl (Http_Status_Error s b)))"

definition exchange_of :: "http_reply option \<Rightarrow> http_event list \<Rightarrow> bool" where
  "exchange_of r tr \<longleftrightarrow> (\<forall>q p. Exchanged q p \<in> set tr \<longrightarrow> r = Some p)
     \<and> (\<forall>s b. r = Some (Response s b) \<longrightarrow> (\<exists>q. Exchanged q (Response s b) \<in> set tr))"

lemma effect_do_request:
  "effect (do_request env k ''POST'' path body headers) (\<lambda>r tr. sent_one k path body headers tr \<and> exchange_of r tr)"
  unfolding do_request_def
  by (intro effect_intros) (auto simp: sent_one_def exchange_of_def)

lemma read_answer_spec:
  assumes "exchange_of r tr" shows "answer_of dec (read_answer dec r) tr"
  unfolding answer_of_def
proof (intro conjI allI impI)
  fix y assume "read_answer dec r = Some (Inr y)"
  then obtain s b where "r = Some (Response s (Inr b))" "s \<le> 399" "dec b = Inr y"
    by (cases "(dec, r)" rule: read_answer.cases) (auto split: if_splits)
  then show "\<exists>q s b. Exchanged q (Response s (Inr b)) \<in> set tr \<and> s \<le> 399 \<and> dec b = Inr y"
    using assms unfolding exchange_of_def by blast
next
  fix q s b assume "Exchanged q (Response s (Inr b)) \<in> set tr" "399 < s"
  then have "r = Some (Response s (Inr b))" using assms unfolding exchange_of_def by blast
  then show "read_answer dec r = Some (Inl (Http_Status_Error s b))" using \<open>399 < s\<close> by simp
qed

lemma effect_SendWithContext:
  "effect (SendWithContext env k dec ''POST'' path payload headers) (\<lambda>r tr. answer_of dec r tr
     \<and> (\<exists>body. (tr = [] \<or> marshal env payload = Inr body) \<and> sent_one k path body headers tr))"
  unfolding SendWithContext_def
  by (intro effect_case_sum effect_bind effect_return effect_conseq[OF effect_do_request])
    (auto simp: read_answer_spec, auto simp: answer_of_def sent_one_def)

lemma effect_BinarySendWith:
  "effect (BinarySendWith env k ''POST'' path payload headers) (\<lambda>r tr. answer_of Inr r tr
     \<and> (\<exists>body. (tr = [] \<or> marshal env payload = Inr body) \<and> sent_one k path body headers tr))"
  unfolding BinarySendWith_def
  by (intro effect_case_sum effect_bind effect_return effect_conseq[OF effect_do_request])
    (auto simp: read_answer_spec, auto simp: answer_of_def sent_one_def)

lemma effect_SendContext:
  "effect (SendContext env k dec ''POST'' path headers) (\<lambda>r tr. answer_of dec r tr \<and> sent_one k path [] headers tr)"
  unfolding SendContext_def
proof (intro effect_bind effect_conseq[OF effect_do_request] effect_return conjI)
  fix r tr assume "sent_one k path [] headers tr \<and> exchange_of r tr"
  then have e: "exchange_of r tr" and "sent_one k path [] headers tr" by auto
  then show "sent_one k path [] headers (tr @ [])" by simp
  have "answer_of dec (case r of None \<Rightarrow> None | Some (No_Response err) \<Rightarrow> Some (Inl err)
     | Some (Response status body) \<Rightarrow>
         if status > 399 then Some (Inl (Http_Status_Error status (case body of Inl _ \<Rightarrow> [] | Inr b \<Rightarrow> b)))
         else (case body of Inl err \<Rightarrow> Some (Inl err) | Inr b \<Rightarrow> Some (dec b))) tr" (is "answer_of dec ?r tr")
    unfolding answer_of_def
  proof (intro conjI allI impI)
    fix y assume "?r = Some (Inr y)"
    then obtain s b where "r = Some (Response s (Inr b))" "s \<le> 399" "dec b = Inr y"
      by (auto split: option.splits http_reply.splits sum.splits if_splits)
    then show "\<exists>q s b. Exchanged q (Response s (Inr b)) \<in> set tr \<and> s \<le> 399 \<and> dec b = Inr y"
      using e unfolding exchange_of_def by blast
  next
    fix q s b assume "Exchanged q (Response s (Inr b)) \<in> set tr" "399 < s"
    then have "r = Some (Response s (Inr b))" using e unfolding exchange_of_def by blast
    then show "?r = Some (Inl (Http_Status_Error s b))" using \<open>399 < s\<close> by simp
  qed
  then show "answer_of dec (case r of None \<Rightarrow> None | Some (No_Response err) \<Rightarrow> Some (Inl err)
     | Some (Response status body) \<Rightarrow>
         if status > 399 then Some (Inl (Http_Status_Error status (case body of Inl _ \<Rightarrow> [] | Inr b \<Rightarrow> b)))
         else (case body of Inl err \<Rightarrow> Some (Inl err) | Inr b \<Rightarrow> Some (dec b))) (tr @ [])"
    by simp
qed

text \<open>A call made for a user: one POST at most, with that user's session and the app's signature, and an
  answer only from a body received under a status below 400.\<close>

definition authorised :: "Ktmb \<Rightarrow> string \<Rightarrow> http_event list \<Rightarrow> bool" where
  "authorised k userData tr \<longleftrightarrow> length (filter (\<lambda>ev. \<exists>q r. ev = Exchanged q r) tr) \<le> 1
     \<and> (\<forall>q r. Exchanged q r \<in> set tr \<longrightarrow> Method q = ''POST''
          \<and> (''userData'', userData) \<in> set (Headers q) \<and> (''requestSignature'', Signature k) \<in> set (Headers q))"

definition user_call :: "Ktmb \<Rightarrow> string \<Rightarrow> (string \<Rightarrow> 'y result) \<Rightarrow> 'y result option \<Rightarrow> http_event list \<Rightarrow> bool" where
  "user_call k userData dec r tr \<longleftrightarrow> authorised k userData tr \<and> answer_of dec r tr"

lemma authorised_sent:
  assumes "sent_one c path body headers tr" "(''userData'', userData) \<in> set headers" "c = NewApi k \<or> c = NewApp k"
  shows "authorised k userData tr"
  using assms by (fastforce simp: authorised_def sent_one_def request_of_def NewApi_def NewApp_def)

lemma user_call_SendWithContext:
  assumes "(''userData'', userData) \<in> set headers" "c = NewApi k \<or> c = NewApp k"
  shows "effect (SendWithContext env c dec ''POST'' path payload headers) (user_call k userData dec)"
  by (rule effect_conseq[OF effect_SendWithContext]) (use assms in \<open>auto simp: user_call_def intro: authorised_sent\<close>)

lemma user_call_BinarySendWith:
  assumes "(''userData'', userData) \<in> set headers" "c = NewApi k \<or> c = NewApp k"
  shows "effect (BinarySendWith env c ''POST'' path payload headers) (user_call k userData Inr)"
  by (rule effect_conseq[OF effect_BinarySendWith]) (use assms in \<open>auto simp: user_call_def intro: authorised_sent\<close>)

lemma user_call_SendContext:
  assumes "(''userData'', userData) \<in> set headers" "c = NewApi k \<or> c = NewApp k"
  shows "effect (SendContext env c dec ''POST'' path headers) (user_call k userData dec)"
  by (rule effect_conseq[OF effect_SendContext]) (use assms in \<open>auto simp: user_call_def intro: authorised_sent\<close>)

lemmas user_calls = user_call_SendWithContext user_call_BinarySendWith user_call_SendContext

text \<open>C13: Every call but the login makes at most one POST, which carries the session it was given and
  the signature of the app, and returns data only if it decodes from a body received whole under a
  status below 400; a received status of 400 or more is returned as a typed error with its body.\<close>

theorem calls_authorised:
  "effect (ktmb_Logout env k d1 ud) (user_call k ud d1)
 \<and> effect (ktmb_StationsAll env k d2 ud) (user_call k ud d2)
 \<and> effect (ktmb_SearchStations env k d3 ud fi fd ti td on n) (user_call k ud d3)
 \<and> effect (ktmb_Trip env k d4 ud dd sd) (user_call k ud d4)
 \<and> effect (ktmb_Reserve env k d5 ud ai sd td) (user_call k ud d5)
 \<and> effect (ktmb_BookStart env k d6 ud bd) (user_call k ud d6)
 \<and> effect (ktmb_SetPassenger env k d7 ud bd ps) (user_call k ud d7)
 \<and> effect (ktmb_Pay env k d8 ud bd meth amount) (user_call k ud d8)
 \<and> effect (ktmb_Complete env k d9 ud bd) (user_call k ud d9)
 \<and> effect (ktmb_PrintTicket env k ud bn tn) (user_call k ud Inr)
 \<and> effect (ktmb_Cancel env k d10 ud bd) (user_call k ud d10)
 \<and> effect (ktmb_GetTicket env k d11 ud bn tn) (user_call k ud d11)
 \<and> effect (ktmb_GetTicketRaw env k d15 ud bn tn) (user_call k ud d15)
 \<and> effect (ktmb_RefundTicket env k d12 ud pw bd td) (user_call k ud d12)
 \<and> effect (ktmb_ListTicket env k d13 ud page) (user_call k ud d13)
 \<and> effect (ktmb_GetRefundPolicy env k d14 ud bd td) (user_call k ud d14)"
  unfolding ktmb_Logout_def ktmb_StationsAll_def ktmb_SearchStations_def ktmb_Trip_def ktmb_Reserve_def
    ktmb_BookStart_def ktmb_SetPassenger_def ktmb_Pay_def ktmb_Complete_def ktmb_PrintTicket_def ktmb_Cancel_def
    ktmb_GetTicket_def ktmb_GetTicketRaw_def ktmb_RefundTicket_def ktmb_ListTicket_def ktmb_GetRefundPolicy_def
  by (intro conjI user_calls) (simp_all add: user_header_def)

end
