(* ===== verification/Session.thy ===== *)
theory Session
  imports Go_Time Ktmb_Api
begin

text \<open>
  lib/session/client.go: the login session every module on the funded account shares. A miss
  of the cached token is filled under a redis lock; a rejected token is removed only while it is
  still the cached one. The redis replies, KTMB's login and the sealing of the token are
  parameters; the waiting loop runs on fuel.
\<close>

record 'x session_env =
  session_get :: "string \<Rightarrow> 'x \<Rightarrow> redis_read \<times> 'x"
  session_set_nx :: "string \<Rightarrow> string \<Rightarrow> duration \<Rightarrow> 'x \<Rightarrow> bool result \<times> 'x"
  session_set :: "string \<Rightarrow> string \<Rightarrow> 'x \<Rightarrow> unit result \<times> 'x"
  session_eval :: "string \<Rightarrow> string \<Rightarrow> 'x \<Rightarrow> int result \<times> 'x"
  session_sleep :: "duration \<Rightarrow> 'x \<Rightarrow> unit result \<times> 'x"
  session_uuid :: "'x \<Rightarrow> string \<times> 'x"
  session_encrypt :: "string \<Rightarrow> 'x \<Rightarrow> string result \<times> 'x"
  session_decrypt :: "string \<Rightarrow> string result"
  ktmb_login :: "string \<Rightarrow> string \<Rightarrow> 'x \<Rightarrow> LoginRes GenericRes result \<times> 'x"

text \<open>\<open>Eval_Delete key expected\<close> is the compare-and-delete script both \<open>releaseLock\<close> and
  \<open>Invalidate\<close> run: it removes the key when it still holds the expected value.\<close>

datatype session_event =
    Get_Key string redis_read
  | Set_NX string string duration "bool result"
  | Set_Key string string "unit result"
  | Eval_Delete string string "int result"
  | Wait_Ctx duration "unit result"
  | New_UUID string
  | Seal_Token string "string result"
  | Ktmb_Login "LoginRes GenericRes result"

definition compare_and_delete :: "string \<Rightarrow> string \<Rightarrow> (string \<rightharpoonup> string) \<Rightarrow> int \<times> (string \<rightharpoonup> string)" where
  "compare_and_delete k expected store = (if store k = Some expected then (1, store(k := None)) else (0, store))"

section \<open>Operations\<close>

text \<open>\<open>Inr None\<close> is a miss, the Go results \<open>("", false, nil)\<close>.\<close>

definition cached :: "'x session_env \<Rightarrow> string \<Rightarrow> ('x, session_event, string option result) proc" where
  "cached env key = do {
     r \<leftarrow> invoke (session_get env key) (Get_Key key);
     return (case r of
         Nil_Reply \<Rightarrow> Inr None
       | Read_Failed err \<Rightarrow> Inl err
       | Value encrypted \<Rightarrow> (case session_decrypt env encrypted of
             Inl err \<Rightarrow> Inl err
           | Inr token \<Rightarrow> Inr (Some token)))
   }"

datatype waiting = Acquired | Answered "string result" | Still_Waiting

fun acquire :: "'x session_env \<Rightarrow> string \<Rightarrow> string \<Rightarrow> string \<Rightarrow> nat \<Rightarrow> ('x, session_event, waiting) proc" where
  "acquire env key lockKey owner 0 = return Still_Waiting"
| "acquire env key lockKey owner (Suc n) = do {
     acquired \<leftarrow> invoke (session_set_nx env lockKey owner (90 * second)) (Set_NX lockKey owner (90 * second));
     case acquired of
       Inl err \<Rightarrow> return (Answered (Inl err))
     | Inr a \<Rightarrow>
         if a then return Acquired
         else do {
           c \<leftarrow> cached env key;
           case c of
             Inl err \<Rightarrow> return (Answered (Inl err))
           | Inr found \<Rightarrow> (case found of
                 Some token \<Rightarrow> return (Answered (Inr token))
               | None \<Rightarrow> do {
                   s \<leftarrow> invoke (session_sleep env (100 * millisecond)) (Wait_Ctx (100 * millisecond));
                   case s of
                     Inl err \<Rightarrow> return (Answered (Inl err))
                   | Inr _ \<Rightarrow> acquire env key lockKey owner n
                 })
         }
   }"

definition releaseLock :: "'x session_env \<Rightarrow> string \<Rightarrow> string \<Rightarrow> ('x, session_event, unit) proc" where
  "releaseLock env lockKey owner = do {
     _ \<leftarrow> invoke (session_eval env lockKey owner) (Eval_Delete lockKey owner);
     return ()
   }"

text \<open>What runs while the lock is held.\<close>

definition fill_cache :: "'x session_env \<Rightarrow> string \<Rightarrow> string \<Rightarrow> string \<Rightarrow> ('x, session_event, string result) proc" where
  "fill_cache env key email password = do {
     c \<leftarrow> cached env key;
     case c of
       Inl err \<Rightarrow> return (Inl err)
     | Inr found \<Rightarrow> (case found of
           Some token \<Rightarrow> return (Inr token)
         | None \<Rightarrow> do {
             l \<leftarrow> invoke (ktmb_login env email password) Ktmb_Login;
             case l of
               Inl err \<Rightarrow> return (Inl err)
             | Inr login \<Rightarrow>
                 if \<not> Status login then return (Inl (Msg (join_with '', '' (Messages login))))
                 else do {
                   enc \<leftarrow> invoke (session_encrypt env (login_UserData (Data login))) (Seal_Token (login_UserData (Data login)));
                   case enc of
                     Inl err \<Rightarrow> return (Inl err)
                   | Inr e \<Rightarrow> do {
                       s \<leftarrow> invoke (session_set env key e) (Set_Key key e);
                       case s of
                         Inl err \<Rightarrow> return (Inl err)
                       | Inr _ \<Rightarrow> return (Inr (login_UserData (Data login)))
                     }
                 }
           })
   }"

text \<open>\<open>None\<close>: the fuel ran out while waiting for the lock.\<close>

definition Login :: "'x session_env \<Rightarrow> string \<Rightarrow> string \<Rightarrow> string \<Rightarrow> nat \<Rightarrow> ('x, session_event, string result option) proc" where
  "Login env key email password fuel = do {
     c \<leftarrow> cached env key;
     case c of
       Inl err \<Rightarrow> return (Some (Inl err))
     | Inr found \<Rightarrow> (case found of
           Some token \<Rightarrow> return (Some (Inr token))
         | None \<Rightarrow> do {
             owner \<leftarrow> invoke (session_uuid env) New_UUID;
             w \<leftarrow> acquire env key (key @ '':login-lock'') owner fuel;
             case w of
               Still_Waiting \<Rightarrow> return None
             | Answered r \<Rightarrow> return (Some r)
             | Acquired \<Rightarrow> do {
                 r \<leftarrow> fill_cache env key email password;
                 releaseLock env (key @ '':login-lock'') owner;
                 return (Some r)
               }
           })
   }"

definition Invalidate :: "'x session_env \<Rightarrow> string \<Rightarrow> string \<Rightarrow> ('x, session_event, unit result) proc" where
  "Invalidate env key token = do {
     r \<leftarrow> invoke (session_get env key) (Get_Key key);
     case r of
       Nil_Reply \<Rightarrow> return (Inr ())
     | Read_Failed err \<Rightarrow> return (Inl err)
     | Value tokenEnc \<Rightarrow>
         (case session_decrypt env tokenEnc of
            Inl err \<Rightarrow> return (Inl err)
          | Inr c \<Rightarrow>
              if c \<noteq> token then return (Inr ())
              else on_ok (invoke (session_eval env key tokenEnc) (Eval_Delete key tokenEnc)) (\<lambda>_. return (Inr ())))
   }"

section \<open>What a login does\<close>

text \<open>The calls that need the lock: the login itself, the write of the token, the release.\<close>

fun guarded :: "session_event \<Rightarrow> bool" where
  "guarded (Ktmb_Login r) = True"
| "guarded (Set_Key k v r) = True"
| "guarded (Eval_Delete k v r) = True"
| "guarded _ = False"

inductive fill_run :: "'x session_env \<Rightarrow> string \<Rightarrow> string result \<Rightarrow> session_event list \<Rightarrow> bool" for env key where
  fill_error: "c = Read_Failed e \<or> c = Value v \<and> session_decrypt env v = Inl e \<Longrightarrow> fill_run env key (Inl e) [Get_Key key c]"
| fill_hit: "session_decrypt env v = Inr token \<Longrightarrow> fill_run env key (Inr token) [Get_Key key (Value v)]"
| fill_rejected: "(\<And>login. l = Inr login \<Longrightarrow> \<not> Status login) \<Longrightarrow>
    fill_run env key (Inl e) [Get_Key key Nil_Reply, Ktmb_Login l]"
| fill_unsealed: "Status login \<Longrightarrow>
    fill_run env key (Inl e) [Get_Key key Nil_Reply, Ktmb_Login (Inr login), Seal_Token (login_UserData (Data login)) (Inl e)]"
| fill_unsaved: "Status login \<Longrightarrow>
    fill_run env key (Inl err) [Get_Key key Nil_Reply, Ktmb_Login (Inr login), Seal_Token (login_UserData (Data login)) (Inr e), Set_Key key e (Inl err)]"
| fill_saved: "Status login \<Longrightarrow>
    fill_run env key (Inr (login_UserData (Data login)))
      [Get_Key key Nil_Reply, Ktmb_Login (Inr login), Seal_Token (login_UserData (Data login)) (Inr e), Set_Key key e (Inr ())]"

inductive_cases fill_savedE: "fill_run env key (Inr token) tr"

inductive cached_run :: "'x session_env \<Rightarrow> string \<Rightarrow> string option result \<Rightarrow> session_event list \<Rightarrow> bool" for env key where
  cached_miss: "cached_run env key (Inr None) [Get_Key key Nil_Reply]"
| cached_hit: "session_decrypt env v = Inr t \<Longrightarrow> cached_run env key (Inr (Some t)) [Get_Key key (Value v)]"
| cached_error: "c = Read_Failed e \<or> c = Value v \<and> session_decrypt env v = Inl e \<Longrightarrow> cached_run env key (Inl e) [Get_Key key c]"

inductive_simps cached_run_simps [simp]:
  "cached_run env key (Inr None) tr" "cached_run env key (Inr (Some t)) tr" "cached_run env key (Inl e) tr"

lemma effect_cached: "effect (cached env key) (cached_run env key)"
  unfolding cached_def
  by (intro effect_intros) (auto split: redis_read.splits sum.splits)

lemma effect_fill_cache: "effect (fill_cache env key email password) (fill_run env key)"
  unfolding fill_cache_def
  by (intro effect_bind effect_conseq[OF effect_cached] effect_case_sum effect_case_option effect_invoke effect_if)
    (auto intro!: effect_intros intro: fill_run.intros)

lemma effect_acquire:
  "effect (acquire env key lockKey owner n) (\<lambda>w tr. if w = Acquired
     then \<exists>pre. tr = pre @ [Set_NX lockKey owner (90 * second) (Inr True)] \<and> \<not> list_ex guarded pre
     else \<not> list_ex guarded tr)"
proof (induction n)
  case (Suc n)
  show ?case unfolding acquire.simps
    by (intro effect_bind effect_invoke effect_case_sum effect_if effect_conseq[OF effect_cached] effect_case_option
          effect_conseq[OF Suc])
      (auto split: if_splits)
qed simp

text \<open>A login answers without touching anything guarded, or everything guarded happens between the
  acquisition of the lock and its release by the same owner, which ends the run.\<close>

definition login_run :: "'x session_env \<Rightarrow> string \<Rightarrow> string result option \<Rightarrow> session_event list \<Rightarrow> bool" where
  "login_run env key r tr \<longleftrightarrow> \<not> list_ex guarded tr \<or>
     (\<exists>pre owner mid a rel. tr = pre @ Set_NX (key @ '':login-lock'') owner (90 * second) (Inr True) # mid @ [Eval_Delete (key @ '':login-lock'') owner rel]
        \<and> \<not> list_ex guarded pre \<and> r = Some a \<and> fill_run env key a mid)"

lemma login_run_prefix:
  assumes "\<not> list_ex guarded pre" "login_run env key r tr"
  shows "login_run env key r (pre @ tr)"
  using assms(2)[unfolded login_run_def]
proof (elim disjE exE conjE)
  fix p owner mid a rel
  assume "tr = p @ Set_NX (key @ '':login-lock'') owner (90 * second) (Inr True) # mid @ [Eval_Delete (key @ '':login-lock'') owner rel]"
    "\<not> list_ex guarded p" "r = Some a" "fill_run env key a mid"
  then show ?thesis using assms(1) unfolding login_run_def
    by (intro disjI2 exI[of _ "pre @ p"] exI[of _ owner] exI[of _ mid] exI[of _ a] exI[of _ rel]) simp
qed (simp add: assms(1) login_run_def)

lemma login_run_unguarded: "\<not> list_ex guarded tr \<Longrightarrow> login_run env key r tr"
  by (simp add: login_run_def)

lemma effect_locked:
  "effect (do { r \<leftarrow> fill_cache env key email password; releaseLock env (key @ '':login-lock'') owner; return (Some r) })
     (\<lambda>r tr. login_run env key r (Set_NX (key @ '':login-lock'') owner (90 * second) (Inr True) # tr))"
  unfolding releaseLock_def
  by (intro effect_bind effect_conseq[OF effect_fill_cache] effect_invoke effect_return)
    (force simp: login_run_def)

lemma effect_after_miss:
  "effect (do { w \<leftarrow> acquire env key (key @ '':login-lock'') owner fuel;
       case w of
         Still_Waiting \<Rightarrow> return None
       | Answered r \<Rightarrow> return (Some r)
       | Acquired \<Rightarrow> do {
           r \<leftarrow> fill_cache env key email password;
           releaseLock env (key @ '':login-lock'') owner;
           return (Some r)
         } }) (login_run env key)"
proof (rule effect_bind, rule effect_conseq[OF effect_acquire])
  fix w tr
  assume w: "if w = Acquired then \<exists>pre. tr = pre @ [Set_NX (key @ '':login-lock'') owner (90 * second) (Inr True)] \<and> \<not> list_ex guarded pre
     else \<not> list_ex guarded tr"
  show "effect (case w of
         Still_Waiting \<Rightarrow> return None
       | Answered r \<Rightarrow> return (Some r)
       | Acquired \<Rightarrow> do {
           r \<leftarrow> fill_cache env key email password;
           releaseLock env (key @ '':login-lock'') owner;
           return (Some r)
         }) (\<lambda>r tr'. login_run env key r (tr @ tr'))"
  proof (cases w)
    case Acquired
    with w obtain pre where "tr = pre @ [Set_NX (key @ '':login-lock'') owner (90 * second) (Inr True)]" "\<not> list_ex guarded pre" by auto
    then show ?thesis using Acquired
      by (auto intro!: effect_conseq[OF effect_locked] login_run_prefix)
  qed (use w in \<open>simp_all add: login_run_unguarded\<close>)
qed

text \<open>Login talks to KTMB and writes the cache only while it holds the login lock, and only after the
  cache was still empty under the lock; it releases the lock it took, as its last action, on every
  path; and the token it returns after logging in is the one it sealed and saved.\<close>

theorem Login_under_lock: "effect (Login env key email password fuel) (login_run env key)"
  unfolding Login_def
proof (rule effect_bind, rule effect_conseq[OF effect_cached])
  fix c tr assume c: "cached_run env key c tr"
  show "effect (case c of
       Inl err \<Rightarrow> return (Some (Inl err))
     | Inr found \<Rightarrow> (case found of
           Some token \<Rightarrow> return (Some (Inr token))
         | None \<Rightarrow> do {
             owner \<leftarrow> invoke (session_uuid env) New_UUID;
             w \<leftarrow> acquire env key (key @ '':login-lock'') owner fuel;
             case w of
               Still_Waiting \<Rightarrow> return None
             | Answered r \<Rightarrow> return (Some r)
             | Acquired \<Rightarrow> do {
                 r \<leftarrow> fill_cache env key email password;
                 releaseLock env (key @ '':login-lock'') owner;
                 return (Some r)
               }
           })) (\<lambda>r tr'. login_run env key r (tr @ tr'))" (is "effect ?p _")
  proof (cases "c = Inr None")
    case True
    then have "tr = [Get_Key key Nil_Reply]" using c by simp
    then show ?thesis using login_run_prefix[of "[Get_Key key Nil_Reply, New_UUID u]" env key for u]
      by (simp add: True) (rule effect_bind, rule effect_invoke, rule effect_conseq[OF effect_after_miss], simp)
  next
    case False
    then show ?thesis using c
      by (auto simp: login_run_unguarded split: sum.split option.split)
  qed
qed

definition invalidates_only :: "'x session_env \<Rightarrow> string \<Rightarrow> string \<Rightarrow> session_event list \<Rightarrow> bool" where
  "invalidates_only env key token tr \<longleftrightarrow> \<not> list_ex guarded tr \<or>
     (\<exists>v n. tr = [Get_Key key (Value v), Eval_Delete key v n] \<and> session_decrypt env v = Inr token
        \<and> (\<forall>store. store key \<noteq> Some v \<longrightarrow> snd (compare_and_delete key v store) = store))"

text \<open>Invalidate asks redis to delete nothing but the value it just read, and only when that value
  opens to the rejected token; the deletion itself compares again, so a token saved in between stays.\<close>

theorem Invalidate_own_token:
  "effect (Invalidate env key token) (\<lambda>r tr. invalidates_only env key token tr)"
  unfolding Invalidate_def
  by (intro effect_intros) (auto simp: invalidates_only_def compare_and_delete_def split: sum.splits)

end
