(* ===== verification/Session_Lock.thy ===== *)
theory Session_Lock
  imports Session
begin

text \<open>
  Many clients of lib/session/client.go on one redis. Each client runs the code of \<open>Login\<close>,
  abstracted to the point it is at (\<open>pc\<close>), which its calls advance; \<open>Login_follows\<close> shows that
  every run of \<open>Login\<close> is a path of this automaton. The calls of different clients interleave
  freely and are answered by one store; a failed call may or may not have reached it. Time passes
  between the calls: a key set with an expiry is gone once it has come, so the lock a client took is
  its own only for the 90 seconds of \<open>SetNX\<close>, its lease, which the code never renews or reads.
\<close>

section \<open>One client\<close>

datatype pc =
    Idle | Need_Owner | Locking string | Peeking string | Sleeping string
  | Holding string | Logging string | Sealing string | Saving string | Releasing string | Finished

fun advance :: "string \<Rightarrow> pc \<Rightarrow> session_event \<Rightarrow> pc option" where
  "advance key Idle ev = (case ev of
     Get_Key k r \<Rightarrow> if k = key then Some (if r = Nil_Reply then Need_Owner else Finished) else None | _ \<Rightarrow> None)"
| "advance key Need_Owner ev = (case ev of New_UUID u \<Rightarrow> Some (Locking u) | _ \<Rightarrow> None)"
| "advance key (Locking u) ev = (case ev of
     Set_NX k u' ttl r \<Rightarrow>
       if k = key @ '':login-lock'' \<and> u' = u \<and> ttl = 90 * second
       then Some (case r of Inl _ \<Rightarrow> Finished | Inr a \<Rightarrow> if a then Holding u else Peeking u) else None
   | _ \<Rightarrow> None)"
| "advance key (Peeking u) ev = (case ev of
     Get_Key k r \<Rightarrow> if k = key then Some (if r = Nil_Reply then Sleeping u else Finished) else None | _ \<Rightarrow> None)"
| "advance key (Sleeping u) ev = (case ev of
     Wait_Ctx d r \<Rightarrow> Some (case r of Inl _ \<Rightarrow> Finished | Inr _ \<Rightarrow> Locking u) | _ \<Rightarrow> None)"
| "advance key (Holding u) ev = (case ev of
     Get_Key k r \<Rightarrow> if k = key then Some (if r = Nil_Reply then Logging u else Releasing u) else None | _ \<Rightarrow> None)"
| "advance key (Logging u) ev = (case ev of
     Ktmb_Login r \<Rightarrow> Some (case r of Inl _ \<Rightarrow> Releasing u
       | Inr login \<Rightarrow> if Status login then Sealing u else Releasing u)
   | _ \<Rightarrow> None)"
| "advance key (Sealing u) ev = (case ev of
     Seal_Token t r \<Rightarrow> Some (case r of Inl _ \<Rightarrow> Releasing u | Inr _ \<Rightarrow> Saving u) | _ \<Rightarrow> None)"
| "advance key (Saving u) ev = (case ev of
     Set_Key k v r \<Rightarrow> if k = key then Some (Releasing u) else None | _ \<Rightarrow> None)"
| "advance key (Releasing u) ev = (case ev of
     Eval_Delete k u' r \<Rightarrow> if k = key @ '':login-lock'' \<and> u' = u then Some Finished else None | _ \<Rightarrow> None)"
| "advance key Finished ev = None"

fun path :: "string \<Rightarrow> pc \<Rightarrow> session_event list \<Rightarrow> pc option" where
  "path key p [] = Some p"
| "path key p (ev # tr) = Option.bind (advance key p ev) (\<lambda>p'. path key p' tr)"

lemma path_append: "path key p (tr @ tr') = Option.bind (path key p tr) (\<lambda>p'. path key p' tr')"
  by (induction tr arbitrary: p) (auto simp: bind_eq_Some_conv split: Option.bind_split)

lemma fill_run_path: "fill_run env key r tr \<Longrightarrow> path key (Holding u) tr = Some (Releasing u)"
  by (induction rule: fill_run.induct) (auto split: sum.split)

lemma cached_run_path:
  "cached_run env key c tr \<Longrightarrow> path key Idle tr = Some (if c = Inr None then Need_Owner else Finished)
    \<and> path key (Peeking u) tr = Some (if c = Inr None then Sleeping u else Finished)"
  by (induction rule: cached_run.induct) auto

lemma effect_acquire_path:
  "effect (acquire env key (key @ '':login-lock'') u n) (\<lambda>w tr. path key (Locking u) tr = Some
     (case w of Acquired \<Rightarrow> Holding u | Answered _ \<Rightarrow> Finished | Still_Waiting \<Rightarrow> Locking u))"
proof (induction n)
  case (Suc n)
  show ?case unfolding acquire.simps
    by (intro effect_bind effect_invoke effect_case_sum effect_if effect_conseq[OF effect_cached] effect_case_option
          effect_conseq[OF Suc])
      (auto simp: path_append dest!: cached_run_path[where u = u])
qed simp

text \<open>The rest of \<open>Login\<close> once the attempt on the lock has ended one of its three ways.\<close>

abbreviation with_lock :: "'x session_env \<Rightarrow> string \<Rightarrow> string \<Rightarrow> string \<Rightarrow> string \<Rightarrow> waiting \<Rightarrow> ('x, session_event, string result option) proc" where
  "with_lock env key email password owner w \<equiv> (case w of
       Still_Waiting \<Rightarrow> return None
     | Answered r \<Rightarrow> return (Some r)
     | Acquired \<Rightarrow> State_Monad.bind (fill_cache env key email password) (\<lambda>r.
         State_Monad.bind (releaseLock env (key @ '':login-lock'') owner) (\<lambda>_. return (Some r))))"

lemma effect_with_lock:
  "effect (with_lock env key email password u w)
     (\<lambda>r tr. path key (case w of Acquired \<Rightarrow> Holding u | Answered _ \<Rightarrow> Finished | Still_Waiting \<Rightarrow> Locking u) tr
        = Some (case r of Some _ \<Rightarrow> Finished | None \<Rightarrow> Locking u))"
  by (cases w) (auto simp: releaseLock_def path_append dest!: fill_run_path[where u = u]
      intro!: effect_bind effect_invoke effect_conseq[OF effect_fill_cache])

lemma effect_lock_and_fill:
  "effect (State_Monad.bind (acquire env key (key @ '':login-lock'') u fuel) (with_lock env key email password u))
     (\<lambda>r tr. path key (Locking u) tr = Some (case r of Some _ \<Rightarrow> Finished | None \<Rightarrow> Locking u))"
  by (rule effect_bind, rule effect_conseq[OF effect_acquire_path]) (simp add: path_append effect_with_lock)

text \<open>C14: Every run of Login is a path of the automaton, which ends at its end when Login returns.\<close>

theorem Login_follows:
  "effect (Login env key email password fuel) (\<lambda>r tr. \<exists>u. path key Idle tr = Some (case r of Some _ \<Rightarrow> Finished | None \<Rightarrow> Locking u))"
  unfolding Login_def
proof (rule effect_bind, rule effect_conseq[OF effect_cached])
  fix c tr assume c: "cached_run env key c tr"
  note p = cached_run_path[OF c]
  show "effect (case c of
       Inl err \<Rightarrow> return (Some (Inl err))
     | Inr found \<Rightarrow> (case found of
           Some token \<Rightarrow> return (Some (Inr token))
         | None \<Rightarrow> do {
             owner \<leftarrow> invoke (session_uuid env) New_UUID;
             w \<leftarrow> acquire env key (key @ '':login-lock'') owner fuel;
             with_lock env key email password owner w
           })) (\<lambda>r tr'. \<exists>u. path key Idle (tr @ tr') = Some (case r of Some _ \<Rightarrow> Finished | None \<Rightarrow> Locking u))"
  proof (cases "c = Inr None")
    case True
    then show ?thesis using p effect_lock_and_fill[of env key _ fuel email password]
      by (simp add: True path_append) (rule effect_bind, rule effect_invoke, simp, rule effect_conseq, assumption, blast)
  next
    case False
    then show ?thesis using p by (auto split: sum.split option.split)
  qed
qed

section \<open>Many clients, one store\<close>

text \<open>\<open>expires\<close> is when a key goes away by itself, \<open>ends\<close> the end of the lease a client's last \<open>SetNX\<close>
  asked for. \<open>saved_late\<close> records that some client wrote the token after the end of its lease.\<close>

record 'c system =
  redis :: "string \<rightharpoonup> string"
  expires :: "string \<rightharpoonup> instant"
  clock :: instant
  pcs :: "'c \<Rightarrow> pc"
  ends :: "'c \<Rightarrow> instant"
  used :: "string set"
  saved_late :: bool

text \<open>What the store answers and becomes, with its expiries, at a time. A plain \<open>Set\<close> clears the expiry.\<close>

inductive answered :: "instant \<Rightarrow> (string \<rightharpoonup> string) \<Rightarrow> (string \<rightharpoonup> instant) \<Rightarrow> session_event
    \<Rightarrow> (string \<rightharpoonup> string) \<Rightarrow> (string \<rightharpoonup> instant) \<Rightarrow> bool" for now st ex where
  get_value: "st k = Some v \<Longrightarrow> answered now st ex (Get_Key k (Value v)) st ex"
| get_nil: "st k = None \<Longrightarrow> answered now st ex (Get_Key k Nil_Reply) st ex"
| get_failed: "answered now st ex (Get_Key k (Read_Failed e)) st ex"
| setnx_true: "st k = None \<Longrightarrow> answered now st ex (Set_NX k u ttl (Inr True)) (st(k \<mapsto> u)) (ex(k \<mapsto> now + ttl))"
| setnx_false: "st k \<noteq> None \<Longrightarrow> answered now st ex (Set_NX k u ttl (Inr False)) st ex"
| setnx_failed: "answered now st ex (Set_NX k u ttl (Inl e)) st ex"
| setnx_lost: "st k = None \<Longrightarrow> answered now st ex (Set_NX k u ttl (Inl e)) (st(k \<mapsto> u)) (ex(k \<mapsto> now + ttl))"
| set_ok: "answered now st ex (Set_Key k v (Inr ())) (st(k \<mapsto> v)) (ex(k := None))"
| set_failed: "answered now st ex (Set_Key k v (Inl e)) st ex"
| set_lost: "answered now st ex (Set_Key k v (Inl e)) (st(k \<mapsto> v)) (ex(k := None))"
| eval_ok: "compare_and_delete k v st = (n, st') \<Longrightarrow> answered now st ex (Eval_Delete k v (Inr n)) st' (ex |` dom st')"
| eval_failed: "answered now st ex (Eval_Delete k v (Inl e)) st ex"
| eval_lost: "compare_and_delete k v st = (n, st') \<Longrightarrow> answered now st ex (Eval_Delete k v (Inl e)) st' (ex |` dom st')"
| outside: "\<not> list_ex guarded [ev] \<and> (\<forall>k r. ev \<noteq> Get_Key k r) \<and> (\<forall>k u ttl r. ev \<noteq> Set_NX k u ttl r) \<or> (\<exists>l. ev = Ktmb_Login l)
    \<Longrightarrow> answered now st ex ev st ex"

inductive_simps answered_simps [simp]:
  "answered now st ex (Get_Key k r) st' ex'" "answered now st ex (Set_NX k u ttl r) st' ex'"
  "answered now st ex (Set_Key k v w) st' ex'" "answered now st ex (Eval_Delete k v n) st' ex'"
  "answered now st ex (New_UUID u) st' ex'" "answered now st ex (Wait_Ctx d w) st' ex'"
  "answered now st ex (Seal_Token t e) st' ex'" "answered now st ex (Ktmb_Login l) st' ex'"

definition lapse :: "instant \<Rightarrow> (string \<rightharpoonup> instant) \<Rightarrow> (string \<rightharpoonup> string) \<Rightarrow> (string \<rightharpoonup> string)" where
  "lapse now ex st = (\<lambda>k. case ex k of Some t \<Rightarrow> if t \<le> now then None else st k | None \<Rightarrow> st k)"

fun lease :: "instant \<Rightarrow> instant \<Rightarrow> session_event \<Rightarrow> instant" where
  "lease now old (Set_NX k u ttl r) = now + ttl"
| "lease now old ev = old"

fun is_save :: "session_event \<Rightarrow> bool" where
  "is_save (Set_Key k v r) = True"
| "is_save ev = False"

definition called :: "'c system \<Rightarrow> 'c \<Rightarrow> session_event \<Rightarrow> pc \<Rightarrow> (string \<rightharpoonup> string) \<Rightarrow> (string \<rightharpoonup> instant) \<Rightarrow> 'c system" where
  "called s i ev p st ex = \<lparr>redis = st, expires = ex, clock = clock s, pcs = (pcs s)(i := p),
     ends = (ends s)(i := lease (clock s) (ends s i) ev), used = used s \<union> {u. ev = New_UUID u},
     saved_late = (saved_late s \<or> (is_save ev \<and> ends s i \<le> clock s))\<rparr>"

text \<open>A step is a call of one client, a fresh owner id being new, the passing of time, or an
  \<open>Invalidate\<close> deleting the token.\<close>

inductive system_step :: "string \<Rightarrow> 'c system \<Rightarrow> 'c system \<Rightarrow> bool" for key where
  client_step: "advance key (pcs s i) ev = Some p \<Longrightarrow> answered (clock s) (redis s) (expires s) ev st ex \<Longrightarrow>
    (\<And>u. ev = New_UUID u \<Longrightarrow> u \<notin> used s) \<Longrightarrow> system_step key s (called s i ev p st ex)"
| time_passes: "clock s \<le> now \<Longrightarrow> system_step key s (s\<lparr>clock := now, redis := lapse now (expires s) (redis s)\<rparr>)"
| invalidate_step: "system_step key s (s\<lparr>redis := (redis s)(key := None), expires := (expires s)(key := None)\<rparr>)"

inductive reachable :: "string \<Rightarrow> 'c system \<Rightarrow> bool" for key where
  initial: "pcs s = (\<lambda>_. Idle) \<Longrightarrow> reachable key s"
| later: "reachable key s \<Longrightarrow> system_step key s s' \<Longrightarrow> reachable key s'"

fun owner_of :: "pc \<Rightarrow> string option" where
  "owner_of (Locking u) = Some u" | "owner_of (Peeking u) = Some u" | "owner_of (Sleeping u) = Some u"
| "owner_of (Holding u) = Some u" | "owner_of (Logging u) = Some u" | "owner_of (Sealing u) = Some u"
| "owner_of (Saving u) = Some u" | "owner_of (Releasing u) = Some u" | "owner_of _ = None"

fun critical :: "pc \<Rightarrow> bool" where
  "critical (Holding u) = True" | "critical (Logging u) = True" | "critical (Sealing u) = True"
| "critical (Saving u) = True" | "critical (Releasing u) = True" | "critical _ = False"

fun filling :: "pc \<Rightarrow> bool" where
  "filling (Logging u) = True" | "filling (Sealing u) = True" | "filling (Saving u) = True" | "filling _ = False"

text \<open>A client is between taking the lock and giving it back, and its lease has not ended.\<close>

definition leased :: "'c system \<Rightarrow> 'c \<Rightarrow> bool" where
  "leased s i \<longleftrightarrow> critical (pcs s i) \<and> clock s < ends s i"

definition lock_inv :: "string \<Rightarrow> 'c system \<Rightarrow> bool" where
  "lock_inv key s \<longleftrightarrow>
     (\<forall>i u. owner_of (pcs s i) = Some u \<longrightarrow> u \<in> used s)
   \<and> (\<forall>i j. owner_of (pcs s i) = owner_of (pcs s j) \<longrightarrow> owner_of (pcs s i) \<noteq> None \<longrightarrow> i = j)
   \<and> (\<forall>i. leased s i \<longrightarrow> redis s (key @ '':login-lock'') = owner_of (pcs s i) \<and> expires s (key @ '':login-lock'') = Some (ends s i))
   \<and> (\<forall>i. leased s i \<longrightarrow> filling (pcs s i) \<longrightarrow> \<not> saved_late s \<longrightarrow> redis s key = None)"

lemma critical_owner: "critical p \<Longrightarrow> \<exists>u. owner_of p = Some u"
  by (cases p) auto

lemma filling_critical: "filling p \<Longrightarrow> critical p"
  by (cases p) auto

lemma leased_unique:
  "lock_inv key s \<Longrightarrow> leased s i \<Longrightarrow> leased s j \<Longrightarrow> i = j"
  unfolding lock_inv_def leased_def by (metis critical_owner option.distinct(1))

text \<open>How one call moves a client: what the invariant needs to know of it, the owners, the lock, the token.\<close>

lemma advance_owner:
  "advance key p ev = Some p' \<Longrightarrow> owner_of p' = None \<or> owner_of p' = owner_of p
     \<or> (\<exists>u. ev = New_UUID u \<and> owner_of p' = Some u)"
  by (cases p; cases ev) (auto split: if_splits sum.splits)

lemma advance_lock:
  assumes "advance key p ev = Some p'" "answered now st ex ev st' ex'"
  shows "(critical p' \<longrightarrow>
       (critical p \<and> lease now old ev = old \<and> owner_of p' = owner_of p
         \<and> st' (key @ '':login-lock'') = st (key @ '':login-lock'') \<and> ex' (key @ '':login-lock'') = ex (key @ '':login-lock''))
     \<or> (st' (key @ '':login-lock'') = owner_of p' \<and> ex' (key @ '':login-lock'') = Some (lease now old ev)))
   \<and> ((st' (key @ '':login-lock'') = st (key @ '':login-lock'') \<and> ex' (key @ '':login-lock'') = ex (key @ '':login-lock''))
     \<or> st (key @ '':login-lock'') = None \<or> (critical p \<and> st (key @ '':login-lock'') = owner_of p))"
  using assms
  by (cases p; cases ev) (auto simp: compare_and_delete_def restrict_map_def split: if_splits sum.splits)

lemma advance_token:
  assumes "advance key p ev = Some p'" "answered now st ex ev st' ex'"
  shows "(filling p' \<longrightarrow> critical p \<and> lease now old ev = old \<and> (filling p \<or> st key = None) \<and> st' key = st key)
    \<and> (st' key = st key \<or> filling p \<and> is_save ev)"
  using assms
  by (cases p; cases ev) (auto simp: compare_and_delete_def split: if_splits sum.splits)

lemma advance_lease: "advance key p ev = Some p' \<Longrightarrow> critical p \<Longrightarrow> lease now old ev = old"
  by (cases p; cases ev) (auto split: if_splits sum.splits)

text \<open>The owners stay apart because a new one is fresh.\<close>

lemma called_owners:
  assumes adv: "advance key (pcs s i) ev = Some p" and fresh: "\<And>u. ev = New_UUID u \<Longrightarrow> u \<notin> used s"
    and inv: "lock_inv key s"
  shows "owner_of (((pcs s)(i := p)) j) = Some u \<Longrightarrow> u \<in> used s \<or> ev = New_UUID u"
    and "owner_of (((pcs s)(i := p)) j) = Some u \<Longrightarrow> owner_of (((pcs s)(i := p)) k) = Some u \<Longrightarrow> j = k"
proof -
  have own: "owner_of (pcs s j) = Some u \<Longrightarrow> u \<in> used s" for j u using inv by (auto simp: lock_inv_def)
  have inj: "owner_of (pcs s j) = Some u \<Longrightarrow> owner_of (pcs s k) = Some u \<Longrightarrow> j = k" for j k u
    using inv by (auto simp: lock_inv_def)
  have mine: "owner_of p = Some u \<Longrightarrow> owner_of (pcs s i) = Some u \<or> ev = New_UUID u" for u
    using advance_owner[OF adv] by auto
  have other: "owner_of p = Some u \<Longrightarrow> owner_of (pcs s j) = Some u \<Longrightarrow> j = i" for j u
    using mine[of u] inj[of j u i] own[of j u] fresh[of u] by auto
  show "owner_of (((pcs s)(i := p)) j) = Some u \<Longrightarrow> u \<in> used s \<or> ev = New_UUID u"
    using mine[of u] own[of j u] own[of i u] by (auto split: if_splits)
  show "owner_of (((pcs s)(i := p)) j) = Some u \<Longrightarrow> owner_of (((pcs s)(i := p)) k) = Some u \<Longrightarrow> j = k"
    using other[of u j] other[of u k] inj[of j u k] by (auto split: if_splits)
qed

text \<open>A call of one client leaves the lock of another whose lease runs: it could only take a free lock,
  or delete one that is its own.\<close>

lemma called_lock:
  assumes adv: "advance key (pcs s i) ev = Some p" "answered (clock s) (redis s) (expires s) ev st ex"
    and inv: "lock_inv key s" and l: "leased (called s i ev p st ex) j"
  shows "st (key @ '':login-lock'') = owner_of (pcs (called s i ev p st ex) j)
    \<and> ex (key @ '':login-lock'') = Some (ends (called s i ev p st ex) j)"
proof (cases "j = i")
  case True
  have "leased s i \<Longrightarrow> redis s (key @ '':login-lock'') = owner_of (pcs s i) \<and> expires s (key @ '':login-lock'') = Some (ends s i)"
    using inv by (auto simp: lock_inv_def)
  then show ?thesis
    using advance_lock[OF adv, of "ends s i"] l True by (auto simp: leased_def called_def)
next
  case False
  then have j: "leased s j" using l by (simp add: leased_def called_def)
  then have h: "redis s (key @ '':login-lock'') = owner_of (pcs s j)" "expires s (key @ '':login-lock'') = Some (ends s j)"
    using inv by (auto simp: lock_inv_def)
  obtain u where u: "owner_of (pcs s j) = Some u" using j critical_owner by (auto simp: leased_def)
  have "\<not> owner_of (pcs s i) = Some u" using inv u False by (auto simp: lock_inv_def)
  then show ?thesis using advance_lock[OF adv] h u False by (auto simp: called_def)
qed

lemma called_token:
  assumes adv: "advance key (pcs s i) ev = Some p" "answered (clock s) (redis s) (expires s) ev st ex"
    and inv: "lock_inv key s" and l: "leased (called s i ev p st ex) j" "filling (pcs (called s i ev p st ex) j)"
    "\<not> saved_late (called s i ev p st ex)"
  shows "st key = None"
proof (cases "j = i")
  case True
  have "leased s i \<Longrightarrow> filling (pcs s i) \<Longrightarrow> redis s key = None" using inv l(3) by (auto simp: lock_inv_def called_def)
  then show ?thesis using advance_token[OF adv, of "ends s i"] l True by (auto simp: leased_def called_def)
next
  case False
  then have j: "leased s j" using l(1) by (simp add: leased_def called_def)
  then have "redis s key = None" using inv l(2,3) False by (auto simp: lock_inv_def called_def)
  moreover have False if "filling (pcs s i)" "is_save ev"
  proof -
    have "leased s i" using that l(3) filling_critical by (auto simp: leased_def called_def)
    then show False using leased_unique[OF inv j] False by simp
  qed
  ultimately show ?thesis using advance_token[OF adv] by auto
qed

lemma lock_inv_step:
  assumes "system_step key s s'" "lock_inv key s"
  shows "lock_inv key s'"
  using assms(1)
proof cases
  case (client_step i ev p st ex)
  note own = called_owners[OF client_step(2,4) assms(2)]
  have "owner_of (pcs s' j) = Some u \<Longrightarrow> u \<in> used s'" for j u
    using own(1)[of j u] by (auto simp: client_step(1) called_def split: if_splits)
  moreover have "owner_of (pcs s' j) = owner_of (pcs s' k) \<Longrightarrow> owner_of (pcs s' j) \<noteq> None \<Longrightarrow> j = k" for j k
    using own(2)[of j "the (owner_of (pcs s' k))" k] by (auto simp: client_step(1) called_def)
  moreover have "leased s' j \<Longrightarrow> redis s' (key @ '':login-lock'') = owner_of (pcs s' j) \<and> expires s' (key @ '':login-lock'') = Some (ends s' j)" for j
    using called_lock[OF client_step(2,3) assms(2), of j] unfolding client_step(1) by (simp add: called_def)
  moreover have "leased s' j \<Longrightarrow> filling (pcs s' j) \<Longrightarrow> \<not> saved_late s' \<Longrightarrow> redis s' key = None" for j
    using called_token[OF client_step(2,3) assms(2), of j] unfolding client_step(1) by (simp add: called_def)
  ultimately show ?thesis unfolding lock_inv_def by blast
next
  case (time_passes now)
  then show ?thesis using assms(2) by (fastforce simp: lock_inv_def leased_def lapse_def split: option.splits)
next
  case invalidate_step
  then show ?thesis using assms(2) by (auto simp: lock_inv_def leased_def)
qed

lemma reachable_lock_inv: "reachable key s \<Longrightarrow> lock_inv key s"
proof (induction rule: reachable.induct)
  case (initial s)
  then show ?case by (simp add: lock_inv_def leased_def)
next
  case (later s s')
  then show ?case using lock_inv_step by blast
qed

text \<open>C15: Whatever the interleaving, while the 90 second lease of a client that took the login lock runs and
  it has not released it, the lock stays its own: no late release of another client removes it, and no other
  client has the lock with its lease still running. A client that is then logging in to KTMB or saving
  the token does so on an empty cache, unless a client whose own lease was over has written the token.\<close>

theorem logins_exclude_each_other:
  assumes "reachable key s" "critical (pcs s i)" "clock s < ends s i"
  shows "redis s (key @ '':login-lock'') = owner_of (pcs s i)
    \<and> (critical (pcs s j) \<and> clock s < ends s j \<longrightarrow> i = j)
    \<and> (filling (pcs s i) \<and> \<not> saved_late s \<longrightarrow> redis s key = None)"
  using reachable_lock_inv[OF assms(1)] assms(2,3) leased_unique[of key s i j] by (auto simp: lock_inv_def leased_def)

lemma reachable_call:
  assumes "reachable key s" "advance key (pcs s i) ev = Some p" "answered (clock s) (redis s) (expires s) ev st ex"
    and "\<And>u. ev = New_UUID u \<Longrightarrow> u \<notin> used s"
  shows "reachable key (called s i ev p st ex)"
  using assms by (blast intro: later client_step)

theorem logins_exclude_each_other_witness:
  "\<exists>s. reachable ''k'' s \<and> filling (pcs s (0::nat)) \<and> redis s ''k:login-lock'' = Some ''u''
     \<and> (\<forall>j. critical (pcs s j) \<and> clock s < ends s j \<longrightarrow> 0 = j) \<and> redis s ''k'' = None"
proof -
  let ?s = "\<lambda>pc st ex e us. \<lparr>redis = st, expires = ex, clock = 0, pcs = (\<lambda>_. Idle)(0 := pc),
    ends = (\<lambda>_. 0)(0 := e), used = us, saved_late = False\<rparr> :: nat system"
  let ?l = "[''k:login-lock'' \<mapsto> ''u'']" and ?x = "[''k:login-lock'' \<mapsto> 90 * second]"
  have "reachable ''k'' (?s Idle Map.empty Map.empty 0 {})" by (rule initial) auto
  note reachable_call[OF this, of 0 "Get_Key ''k'' Nil_Reply" Need_Owner Map.empty Map.empty]
  then have "reachable ''k'' (?s Need_Owner Map.empty Map.empty 0 {})" by (simp add: called_def)
  note reachable_call[OF this, of 0 "New_UUID ''u''" "Locking ''u''" Map.empty Map.empty]
  then have "reachable ''k'' (?s (Locking ''u'') Map.empty Map.empty 0 {''u''})" by (simp add: called_def)
  note reachable_call[OF this, of 0 "Set_NX ''k:login-lock'' ''u'' (90 * second) (Inr True)" "Holding ''u''" ?l ?x]
  then have "reachable ''k'' (?s (Holding ''u'') ?l ?x (90 * second) {''u''})" by (simp add: called_def)
  note reachable_call[OF this, of 0 "Get_Key ''k'' Nil_Reply" "Logging ''u''" ?l ?x]
  then have r: "reachable ''k'' (?s (Logging ''u'') ?l ?x (90 * second) {''u''})" (is "reachable _ ?t") by (simp add: called_def)
  have "critical (pcs ?t 0)" "clock ?t < ends ?t 0" by (simp_all add: second_def)
  note e = logins_exclude_each_other[OF r this]
  have a: "\<forall>j. critical (pcs ?t j) \<and> clock ?t < ends ?t j \<longrightarrow> 0 = j" using e by blast
  have b: "redis ?t ''k'' = None" using e by simp
  have c: "redis ?t ''k:login-lock'' = Some ''u''" by simp
  have d: "filling (pcs ?t 0)" by simp
  show ?thesis by (rule exI[of _ ?t], intro conjI) (fact r d c a b)+
qed

end
