(* ===== verification/Slot_Store.thy ===== *)
theory Slot_Store
  imports Tin_Prelude "HOL-Library.Multiset"
begin

text \<open>
  The trip data the enricher keeps for every demanded slot: \<open>FindStore\<close>, a Go map of maps of
  maps, of lib/enricher and lib/prober. The contract the two packages rely on is the locale
  \<open>slot_store\<close>: what a lookup finds after a write. Both accessors are interpreted in it.
\<close>

record FindRes =
  SearchData :: string
  TripData :: string

type_synonym FindStore = "string \<rightharpoonup> (string \<rightharpoonup> (string \<rightharpoonup> FindRes))"

text \<open>The zero \<open>FindRes{}\<close>.\<close>

definition no_find :: FindRes where
  "no_find = \<lparr>SearchData = [], TripData = []\<rparr>"

locale slot_store =
  fixes lookup :: "'s \<Rightarrow> 'k \<Rightarrow> 'w" and update :: "'s \<Rightarrow> 'k \<Rightarrow> 'v \<Rightarrow> 's" and found :: "'v \<Rightarrow> 'w"
  assumes lookup_update: "lookup (update s k v) k' = (if k' = k then found v else lookup s k')"
begin

lemma lookup_updates_other:
  "k' \<notin> fst ` set kvs \<Longrightarrow> lookup (foldl (\<lambda>s (k, v). update s k v) s kvs) k' = lookup s k'"
  by (induction kvs arbitrary: s) (auto simp: lookup_update)

lemma lookup_updates:
  "distinct (map fst kvs) \<Longrightarrow> (k, v) \<in> set kvs \<Longrightarrow> lookup (foldl (\<lambda>s (k, v). update s k v) s kvs) k = found v"
proof (induction kvs arbitrary: s)
  case (Cons kv kvs)
  then show ?case
    by (cases kv) (auto simp: lookup_updates_other lookup_update)
qed simp

lemma lookup_updates_perm:
  assumes "distinct (map fst kvs)" "mset kvs = mset kvs'"
  shows "lookup (foldl (\<lambda>s (k, v). update s k v) s kvs) k = lookup (foldl (\<lambda>s (k, v). update s k v) s kvs') k"
proof -
  have d: "distinct (map fst kvs')" using assms by (metis mset_eq_imp_distinct_iff mset_map)
  have e: "set kvs = set kvs'" using assms(2) by (rule mset_eq_setD)
  show ?thesis
  proof (cases "k \<in> fst ` set kvs")
    case True
    then obtain v where "(k, v) \<in> set kvs" by auto
    then show ?thesis using lookup_updates[OF assms(1)] lookup_updates[OF d] e by simp
  qed (simp add: lookup_updates_other e)
qed

end

type_synonym slot = "string \<times> string \<times> string"

text \<open>\<open>getSlot\<close>: \<open>None\<close> is \<open>ok = false\<close>.\<close>

fun getSlot :: "FindStore \<Rightarrow> slot \<Rightarrow> FindRes option" where
  "getSlot s (dir, day, t) =
     (case s dir of None \<Rightarrow> None | Some dd \<Rightarrow> (case dd day of None \<Rightarrow> None | Some tt \<Rightarrow> tt t))"

fun setSlot :: "FindStore \<Rightarrow> slot \<Rightarrow> FindRes \<Rightarrow> FindStore" where
  "setSlot s (dir, day, t) fr =
     (let dd = (case s dir of None \<Rightarrow> Map.empty | Some dd \<Rightarrow> dd);
          tt = (case dd day of None \<Rightarrow> Map.empty | Some tt \<Rightarrow> tt)
      in s(dir \<mapsto> dd(day \<mapsto> tt(t \<mapsto> fr))))"

text \<open>The prober's accessor returns the zero value when a level is missing.\<close>

definition findSlot :: "FindStore \<Rightarrow> slot \<Rightarrow> FindRes" where
  "findSlot s k = (case getSlot s k of None \<Rightarrow> no_find | Some fr \<Rightarrow> fr)"

definition completeFind :: "FindRes \<Rightarrow> bool" where
  "completeFind fr \<longleftrightarrow> SearchData fr \<noteq> [] \<and> TripData fr \<noteq> []"

lemma getSlot_setSlot: "getSlot (setSlot s k fr) k' = (if k' = k then Some fr else getSlot s k')"
  by (cases k; cases k') (auto simp: Let_def split: option.splits)

interpretation enricher_slots: slot_store getSlot setSlot Some
  by unfold_locales (simp add: getSlot_setSlot)

interpretation prober_slots: slot_store findSlot setSlot "\<lambda>fr. fr"
  by unfold_locales (simp add: findSlot_def getSlot_setSlot)

lemma getSlot_empty [simp]: "getSlot Map.empty k = None"
  by (cases k) simp

declare getSlot.simps [simp del] setSlot.simps [simp del]

end
