(* ===== verification/Enricher.thy ===== *)
theory Enricher
  imports Slot_Store Count Ktmb_Api
begin

text \<open>
  lib/enricher: looking up the search and trip data of a departure (client.go) and keeping the
  store of every demanded slot fresh (enricher.go). The KTMB calls, redis, the count reader, the
  shared session and the sealing are parameters. \<open>fetchInto\<close> launches one goroutine per slot;
  the model runs them in launch order; by \<open>enricher_slots.lookup_updates_perm\<close> the order in which
  distinct slots are written is immaterial.
\<close>

record 'x find_env =
  stations_all :: "string \<Rightarrow> 'x \<Rightarrow> StationsAllRes GenericRes result \<times> 'x"
  search_stations :: "string \<Rightarrow> string \<Rightarrow> string \<Rightarrow> string \<Rightarrow> string \<Rightarrow> string \<Rightarrow> int \<Rightarrow> 'x \<Rightarrow> SearchStationsRes GenericRes result \<times> 'x"
  trip_all :: "string \<Rightarrow> string \<Rightarrow> string \<Rightarrow> 'x \<Rightarrow> TripAllRes GenericRes result \<times> 'x"
  find_sleep :: "duration \<Rightarrow> 'x \<Rightarrow> unit result \<times> 'x"

datatype find_event =
    Stations_All string "StationsAllRes GenericRes result"
  | Search_Stations string string string string "SearchStationsRes GenericRes result"
  | Trip_All string string string "TripAllRes GenericRes result"
  | Find_Sleep duration "unit result"

section \<open>Finding one departure\<close>

text \<open>Both loops keep the last match.\<close>

fun station_data :: "string \<Rightarrow> StationRes list \<Rightarrow> string \<Rightarrow> string" where
  "station_data sid [] found = found"
| "station_data sid (s # ss) found = station_data sid ss (if ID s = sid then StationData s else found)"

fun trip_data :: "string \<Rightarrow> TripRes list \<Rightarrow> string \<Rightarrow> string" where
  "trip_data dt [] td = td"
| "trip_data dt (v # vs) td = trip_data dt vs (if DepartDateTime v = dt then trip_TripData v else td)"

definition from_id :: "string \<Rightarrow> string" where
  "from_id dir = (if dir = ''JToW'' then ''37500'' else ''37600'')"

definition to_id :: "string \<Rightarrow> string" where
  "to_id dir = (if dir = ''JToW'' then ''37600'' else ''37500'')"

definition FindContext :: "'x find_env \<Rightarrow> string \<Rightarrow> string \<Rightarrow> string \<Rightarrow> string \<Rightarrow> ('x, find_event, FindRes result) proc" where
  "FindContext env userData dir day time =
     on_ok (invoke (stations_all env userData) (Stations_All userData)) (\<lambda>all.
       if \<not> Status all then return (Inl (Msg (''failed to get all station: '' @ fmt_strings (Messages all))))
       else on_ok (invoke (find_sleep env (2 * second)) (Find_Sleep (2 * second))) (\<lambda>_.
         on_ok (invoke (search_stations env userData (from_id dir) (station_data (from_id dir) (Stations (Data all)) [])
                  (to_id dir) (station_data (to_id dir) (Stations (Data all)) []) (day @ ''T00:00:00'') 1)
                (Search_Stations userData (from_id dir) (to_id dir) (day @ ''T00:00:00''))) (\<lambda>stations.
           if \<not> Status stations then return (Inl (Msg (''failed to search station: '' @ fmt_strings (Messages stations))))
           else on_ok (invoke (find_sleep env (2 * second)) (Find_Sleep (2 * second))) (\<lambda>_.
             on_ok (invoke (trip_all env userData (day @ ''T00:00:00'') (search_SearchData (Data stations)))
                    (Trip_All userData (day @ ''T00:00:00'') (search_SearchData (Data stations)))) (\<lambda>trip.
               if \<not> Status trip then return (Inl (Msg (''failed to get trips: '' @ fmt_strings (Messages trip))))
               else if trip_data (day @ ''T'' @ time) (trips_Trips (Data trip)) [] = []
               then return (Inl (Msg ''no trip found''))
               else return (Inr \<lparr>SearchData = search_SearchData (Data stations),
                      TripData = trip_data (day @ ''T'' @ time) (trips_Trips (Data trip)) []\<rparr>))))))"

text \<open>What was offered for a departure: a successful search in the direction's stations for the day,
  and, for the data it returned, a successful listing with a trip at the departure time.\<close>

definition offered :: "find_event list \<Rightarrow> string \<Rightarrow> string \<Rightarrow> string \<Rightarrow> FindRes \<Rightarrow> bool" where
  "offered tr dir day time fr \<longleftrightarrow> TripData fr \<noteq> [] \<and>
     (\<exists>ud sr ts v. Search_Stations ud (from_id dir) (to_id dir) (day @ ''T00:00:00'') (Inr sr) \<in> set tr \<and> Status sr
        \<and> SearchData fr = search_SearchData (Data sr)
        \<and> Trip_All ud (day @ ''T00:00:00'') (SearchData fr) (Inr ts) \<in> set tr \<and> Status ts
        \<and> v \<in> set (trips_Trips (Data ts)) \<and> DepartDateTime v = day @ ''T'' @ time \<and> TripData fr = trip_TripData v)"

lemma trip_data_member:
  "trip_data dt vs td = r \<Longrightarrow> r = td \<or> (\<exists>v \<in> set vs. DepartDateTime v = dt \<and> r = trip_TripData v)"
  by (induction vs arbitrary: td) fastforce+

lemma trip_data_found:
  "trip_data dt vs [] \<noteq> [] \<Longrightarrow> \<exists>v. v \<in> set vs \<and> DepartDateTime v = dt \<and> trip_data dt vs [] = trip_TripData v"
  using trip_data_member[OF refl, of dt vs "[]"] by auto

text \<open>Search and trip data that FindContext returns were offered by KTMB in this very lookup, for
  the requested direction, day and departure time, and the trip data is not empty.\<close>

theorem FindContext_offered:
  "effect (FindContext env userData dir day time) (\<lambda>r tr. case r of Inr fr \<Rightarrow> offered tr dir day time fr | Inl _ \<Rightarrow> True)"
  unfolding FindContext_def
  by (intro effect_intros) (auto split: sum.splits intro!: effect_intros simp: offered_def dest!: trip_data_found, blast)

section \<open>Keeping the store\<close>

record enricher_config =
  Delay :: int

record 'x enricher_env =
  enr_find :: "'x find_env"
  enr_now :: "'x \<Rightarrow> instant \<times> 'x"
  enr_count :: "instant \<Rightarrow> 'x \<Rightarrow> count_read \<times> 'x"
  enr_login :: "'x \<Rightarrow> string result \<times> 'x"
  enr_store_get :: "'x \<Rightarrow> redis_read \<times> 'x"
  enr_decrypt :: "string \<Rightarrow> FindStore result"
  enr_pause :: "duration \<Rightarrow> 'x \<Rightarrow> unit \<times> 'x"
  enr_seal_user :: "string \<Rightarrow> 'x \<Rightarrow> string result \<times> 'x"
  enr_seal_store :: "FindStore \<Rightarrow> 'x \<Rightarrow> string result \<times> 'x"
  enr_set_user :: "string \<Rightarrow> 'x \<Rightarrow> unit result \<times> 'x"
  enr_set_store :: "string \<Rightarrow> 'x \<Rightarrow> unit result \<times> 'x"
  enr_ping :: "'x \<Rightarrow> unit result \<times> 'x"

datatype enricher_event =
    Find_Call find_event
  | Enr_Now instant
  | Enr_Count count_read
  | Enr_Login "string result"
  | Store_Get redis_read
  | Enr_Pause duration
  | Seal_User string "string result"
  | Seal_Store FindStore "string result"
  | Set_User string "unit result"
  | Set_Store string "unit result"
  | Ping "unit result"

definition slots_of_times :: "string \<Rightarrow> string \<Rightarrow> times \<Rightarrow> slot list" where
  "slots_of_times dir day ts = map (\<lambda>(t, _). (dir, day, t)) ts"

definition slots_of :: "count \<Rightarrow> slot list" where
  "slots_of counts = concat (map (\<lambda>(dir, ds). concat (map (\<lambda>(day, ts). slots_of_times dir day ts) ds)) counts)"

definition known :: "FindStore \<Rightarrow> slot \<Rightarrow> bool" where
  "known cached k = (case getSlot cached k of None \<Rightarrow> False | Some fr \<Rightarrow> TripData fr \<noteq> [])"

text \<open>The loop that splits the demand, with the three accumulators it fills.\<close>

fun split_demand :: "FindStore \<Rightarrow> slot list \<Rightarrow> FindStore \<times> slot list \<times> slot list \<Rightarrow> FindStore \<times> slot list \<times> slot list" where
  "split_demand cached [] acc = acc"
| "split_demand cached (k # ks) (store, missing, existing) =
     split_demand cached ks
       (case getSlot cached k of
          Some fr \<Rightarrow> if TripData fr \<noteq> [] then (setSlot store k fr, missing, existing @ [k]) else (store, missing @ [k], existing)
        | None \<Rightarrow> (store, missing @ [k], existing))"

definition pullCache :: "'x enricher_env \<Rightarrow> ('x, enricher_event, FindStore) proc" where
  "pullCache env = do {
     r \<leftarrow> invoke (enr_store_get env) Store_Get;
     return (case r of
         Value enc \<Rightarrow> (case enr_decrypt env enc of Inl _ \<Rightarrow> Map.empty | Inr store \<Rightarrow> store)
       | Nil_Reply \<Rightarrow> Map.empty
       | Read_Failed _ \<Rightarrow> Map.empty)
   }"

text \<open>\<open>None\<close> is the panic of a goroutine on a date of fewer than three fragments.\<close>

fun fetchInto :: "'x enricher_env \<Rightarrow> enricher_config \<Rightarrow> string \<Rightarrow> slot list \<Rightarrow> FindStore \<Rightarrow> ('x, enricher_event, FindStore option) proc" where
  "fetchInto env cfg userData [] store = return (Some store)"
| "fetchInto env cfg userData ((dir, day, t) # ss) store = do {
     invoke (enr_pause env (Delay cfg * millisecond)) (\<lambda>_. Enr_Pause (Delay cfg * millisecond));
     case ZincToHeliumDate day of
       None \<Rightarrow> return None
     | Some d \<Rightarrow> do {
         r \<leftarrow> lifted Find_Call (FindContext (enr_find env) userData dir d t);
         fetchInto env cfg userData ss (case r of Inl _ \<Rightarrow> store | Inr fr \<Rightarrow> setSlot store (dir, day, t) fr)
       }
   }"

definition write_store :: "'x enricher_env \<Rightarrow> string \<Rightarrow> FindStore \<Rightarrow> ('x, enricher_event, unit result) proc" where
  "write_store env userData store =
     on_ok (invoke (enr_seal_user env userData) (Seal_User userData)) (\<lambda>ud.
     on_ok (invoke (enr_seal_store env store) (Seal_Store store)) (\<lambda>storeEn.
     on_ok (invoke (enr_set_user env ud) (Set_User ud)) (\<lambda>_.
     on_ok (invoke (enr_set_store env storeEn) (Set_Store storeEn)) (\<lambda>_.
     on_ok (invoke (enr_ping env) Ping) (\<lambda>_.
     return (Inr ()))))))"

text \<open>One pass over some slots and the write that follows it; the code has two, over the missing and over
  the existing slots.\<close>

definition pass :: "'x enricher_env \<Rightarrow> enricher_config \<Rightarrow> string \<Rightarrow> slot list \<Rightarrow> FindStore
    \<Rightarrow> ('x, enricher_event, FindStore result option) proc" where
  "pass env cfg userData slots store = do {
     s \<leftarrow> fetchInto env cfg userData slots store;
     case s of
       None \<Rightarrow> return None
     | Some store' \<Rightarrow> do {
         w \<leftarrow> write_store env userData store';
         return (Some (case w of Inl err \<Rightarrow> Inl err | Inr _ \<Rightarrow> Inr store'))
       }
   }"

definition refresh :: "'x enricher_env \<Rightarrow> enricher_config \<Rightarrow> string \<Rightarrow> FindStore \<times> slot list \<times> slot list
    \<Rightarrow> ('x, enricher_event, unit result option) proc" where
  "refresh env cfg userData acc = (case acc of (store, missing, existing) \<Rightarrow> do {
     r \<leftarrow> pass env cfg userData missing store;
     case r of
       None \<Rightarrow> return None
     | Some p \<Rightarrow> (case p of
           Inl err \<Rightarrow> return (Some (Inl err))
         | Inr store' \<Rightarrow>
             if existing = [] then return (Some (Inr ()))
             else do {
               r' \<leftarrow> pass env cfg userData existing store';
               return (map_option (\<lambda>p. case p of Inl err \<Rightarrow> Inl err | Inr _ \<Rightarrow> Inr ()) r')
             })
   })"

definition enrich :: "'x enricher_env \<Rightarrow> enricher_config \<Rightarrow> ('x, enricher_event, unit result option) proc" where
  "enrich env cfg = do {
     now \<leftarrow> invoke (enr_now env) Enr_Now;
     c \<leftarrow> invoke (enr_count env now) Enr_Count;
     case c of
       (exist, counts, Some err) \<Rightarrow> return (Some (Inl err))
     | (exist, counts, None) \<Rightarrow>
         if \<not> exist then return (Some (Inr ()))
         else do {
           l \<leftarrow> invoke (enr_login env) Enr_Login;
           case l of
             Inl err \<Rightarrow> return (Some (Inl err))
           | Inr userData \<Rightarrow> do {
               cached \<leftarrow> pullCache env;
               let slots = slots_of (case counts of None \<Rightarrow> [] | Some cs \<Rightarrow> cs);
               if slots = [] then return (Some (Inr ()))
               else refresh env cfg userData (split_demand cached slots (Map.empty, [], []))
             }
         }
   }"

section \<open>What the store holds\<close>

text \<open>A store is sound for a demand, a cache and the calls so far: it holds demanded slots only, each with
  its cached data or with data KTMB offered in a lookup of this run.\<close>

definition sound_store :: "slot set \<Rightarrow> FindStore \<Rightarrow> enricher_event list \<Rightarrow> FindStore \<Rightarrow> bool" where
  "sound_store ks cached tr store \<longleftrightarrow> (\<forall>dir day t fr. getSlot store (dir, day, t) = Some fr \<longrightarrow>
     (dir, day, t) \<in> ks \<and> TripData fr \<noteq> [] \<and> (getSlot cached (dir, day, t) = Some fr
        \<or> (\<exists>d ftr. ZincToHeliumDate day = Some d \<and> offered ftr dir d t fr \<and> Find_Call ` set ftr \<subseteq> set tr)))"

definition keeps_known :: "slot set \<Rightarrow> FindStore \<Rightarrow> FindStore \<Rightarrow> bool" where
  "keeps_known ks cached store \<longleftrightarrow> (\<forall>k \<in> ks. known cached k \<longrightarrow> getSlot store k \<noteq> None)"

definition good :: "slot set \<Rightarrow> FindStore \<Rightarrow> enricher_event list \<Rightarrow> FindStore \<Rightarrow> bool" where
  "good ks cached tr store \<longleftrightarrow> sound_store ks cached tr store \<and> keeps_known ks cached store"

lemma good_mono: "good ks cached tr store \<Longrightarrow> set tr \<subseteq> set tr' \<Longrightarrow> good ks cached tr' store"
  unfolding good_def sound_store_def by (meson subset_trans)

lemma good_set_offered:
  assumes "good ks cached tr store" "(dir, day, t) \<in> ks" "ZincToHeliumDate day = Some d" "offered ftr dir d t fr"
  shows "good ks cached (tr @ map Find_Call ftr) (setSlot store (dir, day, t) fr)"
  unfolding good_def
proof
  show "sound_store ks cached (tr @ map Find_Call ftr) (setSlot store (dir, day, t) fr)"
    unfolding sound_store_def
  proof (intro allI impI)
    fix dir' day' t' fr'
    assume g: "getSlot (setSlot store (dir, day, t) fr) (dir', day', t') = Some fr'"
    show "(dir', day', t') \<in> ks \<and> TripData fr' \<noteq> [] \<and> (getSlot cached (dir', day', t') = Some fr'
        \<or> (\<exists>d ftr'. ZincToHeliumDate day' = Some d \<and> offered ftr' dir' d t' fr' \<and> Find_Call ` set ftr' \<subseteq> set (tr @ map Find_Call ftr)))"
    proof (cases "(dir', day', t') = (dir, day, t)")
      case True
      then have "fr' = fr" using g by (simp add: getSlot_setSlot)
      moreover have "TripData fr \<noteq> []" using assms(4) by (simp add: offered_def)
      ultimately show ?thesis using True assms by auto
    next
      case False
      then have "getSlot store (dir', day', t') = Some fr'"
        using g by (simp add: getSlot_setSlot split: if_splits)
      then have "(dir', day', t') \<in> ks \<and> TripData fr' \<noteq> [] \<and> (getSlot cached (dir', day', t') = Some fr'
        \<or> (\<exists>d ftr'. ZincToHeliumDate day' = Some d \<and> offered ftr' dir' d t' fr' \<and> Find_Call ` set ftr' \<subseteq> set tr))"
        using assms(1)[unfolded good_def sound_store_def] by simp
      moreover have "set tr \<subseteq> set (tr @ map Find_Call ftr)" by simp
      ultimately show ?thesis by (meson subset_trans)
    qed
  qed
  show "keeps_known ks cached (setSlot store (dir, day, t) fr)"
    using assms(1) by (auto simp: good_def keeps_known_def getSlot_setSlot)
qed

lemma split_demand_spec:
  assumes "split_demand cached ks (store, missing, existing) = (store', missing', existing')"
  shows "(\<forall>k. getSlot store' k = (if k \<in> set ks \<and> known cached k then getSlot cached k else getSlot store k))
    \<and> set missing' = set missing \<union> {k \<in> set ks. \<not> known cached k}
    \<and> set existing' = set existing \<union> {k \<in> set ks. known cached k}"
  using assms
proof (induction ks arbitrary: store missing existing)
  case (Cons k ks)
  show ?case
  proof (cases "known cached k")
    case True
    then obtain fr where fr: "getSlot cached k = Some fr" "TripData fr \<noteq> []" by (auto simp: known_def split: option.splits)
    with Cons.prems have "split_demand cached ks (setSlot store k fr, missing, existing @ [k]) = (store', missing', existing')" by simp
    from Cons.IH[OF this] show ?thesis using True fr
      by (auto simp: getSlot_setSlot)
  next
    case False
    with Cons.prems have "split_demand cached ks (store, missing @ [k], existing) = (store', missing', existing')"
      by (auto simp: known_def split: option.splits)
    from Cons.IH[OF this] show ?thesis using False by auto
  qed
qed auto

lemma good_split_demand:
  assumes "split_demand cached ks (Map.empty, [], []) = (store, missing, existing)"
  shows "good (set ks) cached tr store \<and> set missing \<subseteq> set ks \<and> set existing \<subseteq> set ks"
proof -
  have g: "getSlot store k = (if k \<in> set ks \<and> known cached k then getSlot cached k else None)" for k
    using split_demand_spec[OF assms] by (metis getSlot_empty)
  then have "good (set ks) cached tr store"
    by (auto simp: good_def sound_store_def keeps_known_def known_def split: if_splits option.splits)
  then show ?thesis using split_demand_spec[OF assms] by auto
qed

definition writes :: "slot set \<Rightarrow> FindStore \<Rightarrow> enricher_event list \<Rightarrow> enricher_event list \<Rightarrow> bool" where
  "writes ks cached tr0 tr \<longleftrightarrow>
     (\<forall>s res. Seal_Store s res \<in> set tr \<longrightarrow> good ks cached (tr0 @ tr) s)
   \<and> (\<forall>v res. Set_Store v res \<in> set tr \<longrightarrow> (\<exists>s. Seal_Store s (Inr v) \<in> set tr))"

lemma writes_append:
  assumes "writes ks cached tr0 tr1" "writes ks cached (tr0 @ tr1) tr2"
  shows "writes ks cached tr0 (tr1 @ tr2)"
  using assms good_mono[of ks cached "tr0 @ tr1" _ "tr0 @ tr1 @ tr2"] by (fastforce simp: writes_def)

lemma writes_none:
  "(\<And>s res. Seal_Store s res \<notin> set tr) \<Longrightarrow> (\<And>v res. Set_Store v res \<notin> set tr) \<Longrightarrow> writes ks cached tr0 tr"
  by (simp add: writes_def)

lemma effect_fetchInto:
  assumes "good ks cached tr0 store" "set ss \<subseteq> ks"
  shows "effect (fetchInto env cfg userData ss store) (\<lambda>r tr. writes ks cached tr0 tr
    \<and> (case r of None \<Rightarrow> True | Some s \<Rightarrow> good ks cached (tr0 @ tr) s))"
  using assms
proof (induction ss arbitrary: tr0 store)
  case (Cons k ss)
  obtain dir day t where k: "k = (dir, day, t)" by (cases k) auto
  let ?P = "\<lambda>r tr. writes ks cached tr0 tr \<and> (case r of None \<Rightarrow> True | Some s \<Rightarrow> good ks cached (tr0 @ tr) s)"
  show ?case
  proof (cases "ZincToHeliumDate day")
    case None
    then show ?thesis by (auto simp: k intro!: effect_intros writes_none)
  next
    case (Some d)
    show ?thesis unfolding k fetchInto.simps
    proof (rule effect_bind, rule effect_invoke, simp only: Some option.case, rule effect_bind,
        rule effect_conseq[OF effect_lifted[OF FindContext_offered]], elim exE conjE)
      fix r tr ftr u
      assume tr: "tr = map Find_Call ftr"
        and ok: "case r of Inr fr \<Rightarrow> offered ftr dir d t fr | Inl _ \<Rightarrow> True"
      let ?pre = "Enr_Pause (Delay cfg * millisecond) # map Find_Call ftr"
      let ?s = "case r of Inl _ \<Rightarrow> store | Inr fr \<Rightarrow> setSlot store (dir, day, t) fr"
      have "good ks cached (tr0 @ ?pre) ?s"
      proof (cases r)
        case (Inl e)
        then show ?thesis by (auto intro: good_mono[OF Cons.prems(1)])
      next
        case (Inr fr)
        then have "good ks cached (tr0 @ map Find_Call ftr) ?s"
          using good_set_offered[OF Cons.prems(1), of dir day t d ftr fr] Cons.prems(2) Some ok k by simp
        then show ?thesis by (rule good_mono) auto
      qed
      from Cons.IH[OF this] Cons.prems(2)
      have "effect (fetchInto env cfg userData ss ?s) (\<lambda>r tr. writes ks cached (tr0 @ ?pre) tr
        \<and> (case r of None \<Rightarrow> True | Some s \<Rightarrow> good ks cached ((tr0 @ ?pre) @ tr) s))" by simp
      moreover have "writes ks cached tr0 ?pre" by (rule writes_none) auto
      ultimately show "effect (fetchInto env cfg userData ss ?s)
        (\<lambda>r tr'. ?P r ([Enr_Pause (Delay cfg * millisecond)] @ tr @ tr'))"
        unfolding tr by (elim effect_conseq) (auto dest: writes_append split: option.splits)
    qed
  qed
qed (simp add: writes_none)

lemma effect_write_store:
  assumes "good ks cached tr0 store"
  shows "effect (write_store env userData store) (\<lambda>r tr. writes ks cached tr0 tr)"
proof -
  have g: "good ks cached (tr0 @ tr) store" for tr using assms by (rule good_mono) simp
  show ?thesis unfolding write_store_def
    by (intro effect_intros) (auto split: sum.splits intro!: effect_intros simp: writes_def g)
qed

lemma effect_pass:
  assumes "good ks cached tr0 store" "set ss \<subseteq> ks"
  shows "effect (pass env cfg userData ss store) (\<lambda>r tr. writes ks cached tr0 tr
    \<and> (case r of Some (Inr s) \<Rightarrow> good ks cached (tr0 @ tr) s | _ \<Rightarrow> True))"
  unfolding pass_def
proof (rule effect_bind, rule effect_conseq[OF effect_fetchInto[OF assms]], elim conjE)
  fix r tr1 assume w1: "writes ks cached tr0 tr1" and g1: "case r of None \<Rightarrow> True | Some s \<Rightarrow> good ks cached (tr0 @ tr1) s"
  show "effect (case r of
       None \<Rightarrow> return None
     | Some store' \<Rightarrow> do {
         w \<leftarrow> write_store env userData store';
         return (Some (case w of Inl err \<Rightarrow> Inl err | Inr _ \<Rightarrow> Inr store'))
       }) (\<lambda>r tr. writes ks cached tr0 (tr1 @ tr) \<and> (case r of Some (Inr s) \<Rightarrow> good ks cached (tr0 @ tr1 @ tr) s | _ \<Rightarrow> True))"
  proof (cases r)
    case (Some s)
    then have g: "good ks cached (tr0 @ tr1) s" using g1 by simp
    have g': "good ks cached (tr0 @ tr1 @ tr) s" for tr using g by (rule good_mono) auto
    show ?thesis unfolding Some option.case
      by (rule effect_bind, rule effect_conseq[OF effect_write_store[OF g]])
        (auto simp: writes_append[OF w1] g' split: sum.split)
  qed (simp add: w1)
qed

lemma effect_refresh:
  assumes "good ks cached tr0 store" "set missing \<subseteq> ks" "set existing \<subseteq> ks"
  shows "effect (refresh env cfg userData (store, missing, existing)) (\<lambda>r tr. writes ks cached tr0 tr)"
  unfolding refresh_def prod.case
proof (rule effect_bind, rule effect_conseq[OF effect_pass[OF assms(1,2)]], elim conjE, rule effect_case_option)
  fix r :: "FindStore result option" and tr1 assume "writes ks cached tr0 tr1"
  then show "effect (return None) (\<lambda>r tr. writes ks cached tr0 (tr1 @ tr))" by simp
next
  fix r and p :: "FindStore result" and tr1 assume w1: "writes ks cached tr0 tr1" and r: "r = Some p"
    and g: "case r of Some (Inr s) \<Rightarrow> good ks cached (tr0 @ tr1) s | _ \<Rightarrow> True"
  show "effect (case p of
           Inl err \<Rightarrow> return (Some (Inl err))
         | Inr store' \<Rightarrow>
             if existing = [] then return (Some (Inr ()))
             else do {
               r' \<leftarrow> pass env cfg userData existing store';
               return (map_option (\<lambda>p. case p of Inl err \<Rightarrow> Inl err | Inr _ \<Rightarrow> Inr ()) r')
             }) (\<lambda>r tr. writes ks cached tr0 (tr1 @ tr))"
  proof (cases p)
    case (Inr s)
    then have "good ks cached (tr0 @ tr1) s" using g r by simp
    note p = effect_pass[OF this assms(3), of env cfg userData]
    show ?thesis unfolding Inr sum.case
      by (intro effect_if effect_bind effect_conseq[OF p]) (auto simp: w1 writes_append[OF w1])
  qed (simp add: w1)
qed

text \<open>The cache a run starts from.\<close>

fun cache_of :: "'x enricher_env \<Rightarrow> redis_read \<Rightarrow> FindStore" where
  "cache_of env (Value enc) = (case enr_decrypt env enc of Inl _ \<Rightarrow> Map.empty | Inr store \<Rightarrow> store)"
| "cache_of env _ = Map.empty"

definition stores_sound :: "'x enricher_env \<Rightarrow> enricher_event list \<Rightarrow> bool" where
  "stores_sound env tr \<longleftrightarrow> (\<forall>v res. Set_Store v res \<in> set tr \<longrightarrow>
     (\<exists>s cs g. Seal_Store s (Inr v) \<in> set tr \<and> Enr_Count (True, cs, None) \<in> set tr \<and> Store_Get g \<in> set tr
        \<and> slots_of (case cs of None \<Rightarrow> [] | Some c \<Rightarrow> c) \<noteq> []
        \<and> good (set (slots_of (case cs of None \<Rightarrow> [] | Some c \<Rightarrow> c))) (cache_of env g) tr s))"

lemma writes_stores_sound:
  assumes "writes (set (slots_of (case cs of None \<Rightarrow> [] | Some c \<Rightarrow> c))) (cache_of env g) tr0 tr"
    and "slots_of (case cs of None \<Rightarrow> [] | Some c \<Rightarrow> c) \<noteq> []"
    and "tr0 = [Enr_Now now, Enr_Count (True, cs, None), Enr_Login l, Store_Get g]"
  shows "stores_sound env (tr0 @ tr)"
  unfolding stores_sound_def
proof (intro allI impI)
  fix v res assume "Set_Store v res \<in> set (tr0 @ tr)"
  then have "Set_Store v res \<in> set tr" using assms(3) by auto
  then obtain s where "Seal_Store s (Inr v) \<in> set tr" using assms(1) unfolding writes_def by blast
  moreover from this have "good (set (slots_of (case cs of None \<Rightarrow> [] | Some c \<Rightarrow> c))) (cache_of env g) (tr0 @ tr) s"
    using assms(1) unfolding writes_def by blast
  ultimately show "\<exists>s cs g. Seal_Store s (Inr v) \<in> set (tr0 @ tr) \<and> Enr_Count (True, cs, None) \<in> set (tr0 @ tr)
      \<and> Store_Get g \<in> set (tr0 @ tr) \<and> slots_of (case cs of None \<Rightarrow> [] | Some c \<Rightarrow> c) \<noteq> []
      \<and> good (set (slots_of (case cs of None \<Rightarrow> [] | Some c \<Rightarrow> c))) (cache_of env g) (tr0 @ tr) s"
    using assms(2,3) by (intro exI[of _ s] exI[of _ cs] exI[of _ g]) simp
qed

lemma stores_sound_none: "(\<And>v res. Set_Store v res \<notin> set tr) \<Longrightarrow> stores_sound env tr"
  by (simp add: stores_sound_def)

lemma effect_pullCache: "effect (pullCache env) (\<lambda>r tr. \<exists>g. r = cache_of env g \<and> tr = [Store_Get g])"
  unfolding pullCache_def
  by (intro effect_intros) (auto split: redis_read.split sum.split)

text \<open>C16: Every store the enricher writes holds demanded slots only, each with its cached data or with data
  KTMB offered for it in this run, and it still has every demanded slot the cache knew: a failed refresh
  keeps the old data, and a demand that reads as empty never overwrites the store.\<close>

theorem enrich_writes_sound_stores: "effect (enrich env cfg) (\<lambda>r tr. stores_sound env tr)"
  unfolding enrich_def
proof (rule effect_bind, rule effect_invoke, rule effect_bind, rule effect_invoke)
  fix now and c :: count_read
  obtain ex cs er where c: "c = (ex, cs, er)" by (cases c) auto
  show "effect (case c of
       (exist, counts, Some err) \<Rightarrow> return (Some (Inl err))
     | (exist, counts, None) \<Rightarrow>
         if \<not> exist then return (Some (Inr ()))
         else do {
           l \<leftarrow> invoke (enr_login env) Enr_Login;
           case l of
             Inl err \<Rightarrow> return (Some (Inl err))
           | Inr userData \<Rightarrow> do {
               cached \<leftarrow> pullCache env;
               let slots = slots_of (case counts of None \<Rightarrow> [] | Some cs \<Rightarrow> cs);
               if slots = [] then return (Some (Inr ()))
               else refresh env cfg userData (split_demand cached slots (Map.empty, [], []))
             }
         }) (\<lambda>r tr. stores_sound env ([Enr_Now now] @ [Enr_Count c] @ tr))"
  proof (cases "er = None \<and> ex")
    case False
    then show ?thesis by (cases er) (auto simp: c stores_sound_none)
  next
    case True
    let ?ks = "slots_of (case cs of None \<Rightarrow> [] | Some c \<Rightarrow> c)"
    have "effect (refresh env cfg u (split_demand (cache_of env g) ?ks (Map.empty, [], [])))
        (\<lambda>r tr. stores_sound env ([Enr_Now now, Enr_Count (True, cs, None), Enr_Login l, Store_Get g] @ tr))"
      if "?ks \<noteq> []" for u g l
    proof -
      obtain st mi ex where sp: "split_demand (cache_of env g) ?ks (Map.empty, [], []) = (st, mi, ex)" by (metis prod_cases3)
      let ?tr0 = "[Enr_Now now, Enr_Count (True, cs, None), Enr_Login l, Store_Get g]"
      have "good (set ?ks) (cache_of env g) ?tr0 st" "set mi \<subseteq> set ?ks" "set ex \<subseteq> set ?ks"
        using good_split_demand[OF sp] by blast+
      from effect_refresh[OF this, of env cfg u] show ?thesis unfolding sp
        by (rule effect_conseq) (rule writes_stores_sound[OF _ that refl])
    qed
    then show ?thesis
      by (auto simp: c True Let_def stores_sound_none split: sum.split
          intro!: effect_bind effect_invoke effect_conseq[OF effect_pullCache])
  qed
qed

end
