(* ===== verification/Prober_Store.thy ===== *)
theory Prober_Store
  imports Prober_Fleet Enricher
begin

text \<open>
  lib/prober/store.go: the session and trip data the spawner maintains for the prober Jobs. The
  redis commands, the shared login, the sealing and the session fingerprint (SHA-256) are
  parameters; a lookup of one slot is the enricher's. \<open>Ensure\<close> runs its goroutines in target order.
\<close>

record store_config =
  UserDataKey :: string
  StoreKey :: string
  LoginKey :: string

record 'x store_env =
  cache_get :: "string \<Rightarrow> 'x \<Rightarrow> redis_read \<times> 'x"
  cache_set_pair :: "string \<Rightarrow> string \<Rightarrow> 'x \<Rightarrow> unit result \<times> 'x"
  death_fingerprints :: "'x \<Rightarrow> string list result \<times> 'x"
  remove_fingerprints :: "string list \<Rightarrow> 'x \<Rightarrow> unit result \<times> 'x"
  delete_session :: "string \<Rightarrow> 'x \<Rightarrow> bool result \<times> 'x"
  open_text :: "string \<Rightarrow> string result"
  open_store :: "string \<Rightarrow> FindStore result"
  seal_text :: "string \<Rightarrow> 'x \<Rightarrow> string result \<times> 'x"
  seal_store :: "FindStore \<Rightarrow> 'x \<Rightarrow> string result \<times> 'x"
  fingerprint :: "string \<Rightarrow> string"
  shared_login :: "'x \<Rightarrow> string result \<times> 'x"
  finder :: "'x find_env"

datatype store_event =
    Cache_Get string redis_read
  | Cache_Set_Pair string string "unit result"
  | Fingerprints "string list result"
  | Remove_Fingerprints "string list" "unit result"
  | Delete_Session string "bool result"
  | Seal_Text string "string result"
  | Seal_Finds FindStore "string result"
  | Shared_Login "string result"
  | Find_Slot find_event

text \<open>The script of \<open>CompareAndDeleteSession\<close> on the keys of a store.\<close>

definition session_script :: "string \<Rightarrow> string \<Rightarrow> string \<Rightarrow> string \<Rightarrow> (string \<rightharpoonup> string) \<Rightarrow> int \<times> (string \<rightharpoonup> string)" where
  "session_script loginKey userDataKey signalKey expected st =
     (if st loginKey = Some expected then (1, st(loginKey := None, userDataKey := None, signalKey := None)) else (0, st))"

section \<open>Recovering a dead session\<close>

definition RecoverSession :: "'x store_env \<Rightarrow> store_config \<Rightarrow> ('x, store_event, unit result) proc" where
  "RecoverSession env cfg = do {
     f \<leftarrow> invoke (death_fingerprints env) Fingerprints;
     case f of
       Inl err \<Rightarrow> return (Inl (Wrapped ''consume dead session signal'' err))
     | Inr fingerprints \<Rightarrow>
         if fingerprints = [] then return (Inr ())
         else do {
           g \<leftarrow> invoke (cache_get env (LoginKey cfg)) (Cache_Get (LoginKey cfg));
           case g of
             Nil_Reply \<Rightarrow> return (Inr ())
           | Read_Failed err \<Rightarrow> return (Inl (Wrapped ''read signalled KTMB session'' err))
           | Value encrypted \<Rightarrow>
               (case open_text env encrypted of
                  Inl err \<Rightarrow> return (Inl (Wrapped ''decrypt signalled KTMB session'' err))
                | Inr current \<Rightarrow>
                    if fingerprint env current \<notin> set fingerprints
                    then do {
                      r \<leftarrow> invoke (remove_fingerprints env fingerprints) (Remove_Fingerprints fingerprints);
                      return (case r of
                          Inl err \<Rightarrow> Inl (Wrapped ''remove stale dead-session signals'' err)
                        | Inr _ \<Rightarrow> Inr ())
                    }
                    else do {
                      d \<leftarrow> invoke (delete_session env encrypted) (Delete_Session encrypted);
                      return (case d of
                          Inl err \<Rightarrow> Inl (Wrapped ''invalidate dead KTMB session'' err)
                        | Inr _ \<Rightarrow> Inr ())
                    })
         }
   }"

fun changes_session :: "store_event \<Rightarrow> bool" where
  "changes_session (Delete_Session e r) = True"
| "changes_session (Remove_Fingerprints fs r) = True"
| "changes_session _ = False"

definition recovers_signalled :: "'x store_env \<Rightarrow> store_config \<Rightarrow> store_event list \<Rightarrow> bool" where
  "recovers_signalled env cfg tr \<longleftrightarrow> \<not> list_ex changes_session tr \<or>
     (\<exists>fs v cur ev. tr = [Fingerprints (Inr fs), Cache_Get (LoginKey cfg) (Value v), ev] \<and> open_text env v = Inr cur
        \<and> (if fingerprint env cur \<in> set fs then (\<exists>r. ev = Delete_Session v r) else (\<exists>r. ev = Remove_Fingerprints fs r)))"

text \<open>The spawner deletes the cached session only when a Job signalled the death of exactly the session
  it just read, and then asks to delete that very value; otherwise it drops only the signals it read.\<close>

theorem RecoverSession_signalled:
  "effect (RecoverSession env cfg) (\<lambda>r tr. recovers_signalled env cfg tr)"
  unfolding RecoverSession_def
  by (intro effect_intros) (auto simp: recovers_signalled_def split: redis_read.split sum.split)

lemma session_script_other:
  "st loginKey \<noteq> Some expected \<Longrightarrow> snd (session_script loginKey userDataKey signalKey expected st) = st"
  by (simp add: session_script_def)

section \<open>Loading and ensuring the store\<close>

definition redis_nil :: error where
  "redis_nil = External ''redis: nil''"

text \<open>A read in which a missing key is an error like any other.\<close>

definition must_get :: "'x store_env \<Rightarrow> string \<Rightarrow> ('x, store_event, string result) proc" where
  "must_get env key = do {
     g \<leftarrow> invoke (cache_get env key) (Cache_Get key);
     return (case g of Value v \<Rightarrow> Inr v | Nil_Reply \<Rightarrow> Inl redis_nil | Read_Failed err \<Rightarrow> Inl err)
   }"

definition Load :: "'x store_env \<Rightarrow> store_config \<Rightarrow> ('x, store_event, (string \<times> FindStore) result) proc" where
  "Load env cfg = do {
     u \<leftarrow> must_get env (UserDataKey cfg);
     case u of
       Inl err \<Rightarrow> return (Inl (Wrapped ''read cached userData'' err))
     | Inr userDataEncrypted \<Rightarrow> (case open_text env userDataEncrypted of
           Inl err \<Rightarrow> return (Inl (Wrapped ''decrypt cached userData'' err))
         | Inr userData \<Rightarrow> do {
             s \<leftarrow> must_get env (StoreKey cfg);
             case s of
               Inl err \<Rightarrow> return (Inl (Wrapped ''read cached trip store'' err))
             | Inr storeEncrypted \<Rightarrow> (case open_store env storeEncrypted of
                   Inl err \<Rightarrow> return (Inl (Wrapped ''decrypt cached trip store'' err))
                 | Inr store \<Rightarrow> return (Inr (userData, store)))
           })
   }"

definition slot_of :: "Target \<Rightarrow> slot" where
  "slot_of t = (Direction t, Date t, Time t)"

text \<open>\<open>FindContext\<close> on a target; \<open>None\<close> is the panic on a date of fewer than three fragments.\<close>

definition find_target :: "'x store_env \<Rightarrow> string \<Rightarrow> Target \<Rightarrow> ('x, store_event, FindRes result option) proc" where
  "find_target env userData t =
     (case ZincToHeliumDate (Date t) of
        None \<Rightarrow> return None
      | Some d \<Rightarrow> do {
          r \<leftarrow> lifted Find_Slot (FindContext (finder env) userData (Direction t) d (Time t));
          return (Some r)
        })"

fun seed :: "'x store_env \<Rightarrow> string \<Rightarrow> FindStore \<Rightarrow> Target list \<Rightarrow> FindStore \<Rightarrow> ('x, store_event, FindStore option) proc" where
  "seed env userData cached [] store = return (Some store)"
| "seed env userData cached (t # ts) store =
     (if completeFind (findSlot cached (slot_of t))
      then seed env userData cached ts (setSlot store (slot_of t) (findSlot cached (slot_of t)))
      else do {
        r \<leftarrow> find_target env userData t;
        case r of
          None \<Rightarrow> return None
        | Some f \<Rightarrow> seed env userData cached ts
            (case f of Inl _ \<Rightarrow> store | Inr fr \<Rightarrow> if completeFind fr then setSlot store (slot_of t) fr else store)
      })"

definition save :: "'x store_env \<Rightarrow> string \<Rightarrow> FindStore \<Rightarrow> ('x, store_event, unit result) proc" where
  "save env userData store = do {
     u \<leftarrow> invoke (seal_text env userData) (Seal_Text userData);
     case u of
       Inl err \<Rightarrow> return (Inl (Wrapped ''encrypt userData'' err))
     | Inr ud \<Rightarrow> do {
         s \<leftarrow> invoke (seal_store env store) (Seal_Finds store);
         case s of
           Inl err \<Rightarrow> return (Inl (Wrapped ''encrypt trip store'' err))
         | Inr st \<Rightarrow> do {
             w \<leftarrow> invoke (cache_set_pair env ud st) (Cache_Set_Pair ud st);
             return (case w of Inl err \<Rightarrow> Inl (Wrapped ''write prober cache'' err) | Inr _ \<Rightarrow> Inr ())
           }
       }
   }"

definition Ensure :: "'x store_env \<Rightarrow> store_config \<Rightarrow> Target list \<Rightarrow> ('x, store_event, unit result option) proc" where
  "Ensure env cfg targets = do {
     l \<leftarrow> invoke (shared_login env) Shared_Login;
     case l of
       Inl err \<Rightarrow> return (Some (Inl (Wrapped ''ensure shared KTMB session'' err)))
     | Inr userData \<Rightarrow> do {
         g \<leftarrow> invoke (cache_get env (StoreKey cfg)) (Cache_Get (StoreKey cfg));
         case g of
           Read_Failed err \<Rightarrow> return (Some (Inl (Wrapped ''read existing trip store'' err)))
         | Nil_Reply \<Rightarrow> do {
             s \<leftarrow> seed env userData Map.empty targets Map.empty;
             case s of None \<Rightarrow> return None | Some store \<Rightarrow> do { r \<leftarrow> save env userData store; return (Some r) }
           }
         | Value encrypted \<Rightarrow> do {
             s \<leftarrow> seed env userData (case open_store env encrypted of Inl _ \<Rightarrow> Map.empty | Inr existing \<Rightarrow> existing) targets Map.empty;
             case s of None \<Rightarrow> return None | Some store \<Rightarrow> do { r \<leftarrow> save env userData store; return (Some r) }
           }
       }
   }"

definition incomplete :: error where
  "incomplete = Msg ''enricher returned incomplete searchData/tripData''"

definition Refresh :: "'x store_env \<Rightarrow> string \<Rightarrow> Target \<Rightarrow> ('x, store_event, FindRes result option) proc" where
  "Refresh env userData t = do {
     r \<leftarrow> find_target env userData t;
     return (case r of
         None \<Rightarrow> None
       | Some (Inl err) \<Rightarrow> Some (Inl err)
       | Some (Inr found) \<Rightarrow> Some (if completeFind found then Inr found else Inl incomplete))
   }"

section \<open>What the saved store holds\<close>

definition found_for :: "Target \<Rightarrow> FindRes \<Rightarrow> store_event list \<Rightarrow> bool" where
  "found_for t fr tr \<longleftrightarrow> (\<exists>d ftr. ZincToHeliumDate (Date t) = Some d \<and> offered ftr (Direction t) d (Time t) fr
     \<and> Find_Slot ` set ftr \<subseteq> set tr)"

definition seeded :: "Target set \<Rightarrow> FindStore \<Rightarrow> store_event list \<Rightarrow> FindStore \<Rightarrow> bool" where
  "seeded ts cached tr store \<longleftrightarrow> (\<forall>k fr. getSlot store k = Some fr \<longrightarrow> completeFind fr \<and>
     (\<exists>t \<in> ts. k = slot_of t \<and> (fr = findSlot cached k \<or> found_for t fr tr)))"

lemma found_for_mono: "found_for t fr tr \<Longrightarrow> set tr \<subseteq> set tr' \<Longrightarrow> found_for t fr tr'"
  unfolding found_for_def by (meson subset_trans)

lemma seeded_mono: "seeded ts cached tr store \<Longrightarrow> set tr \<subseteq> set tr' \<Longrightarrow> seeded ts cached tr' store"
  unfolding seeded_def by (meson found_for_mono)

lemma seeded_set:
  assumes "seeded ts cached tr store" "t \<in> ts" "completeFind fr" "fr = findSlot cached (slot_of t) \<or> found_for t fr tr"
  shows "seeded ts cached tr (setSlot store (slot_of t) fr)"
  unfolding seeded_def
proof (intro allI impI)
  fix k fr' assume "getSlot (setSlot store (slot_of t) fr) k = Some fr'"
  then have "k = slot_of t \<and> fr' = fr \<or> getSlot store k = Some fr'" by (auto simp: getSlot_setSlot split: if_splits)
  then show "completeFind fr' \<and> (\<exists>t \<in> ts. k = slot_of t \<and> (fr' = findSlot cached k \<or> found_for t fr' tr))"
    using assms unfolding seeded_def by blast
qed

lemma effect_find_target:
  "effect (find_target env userData t) (\<lambda>r tr. (\<forall>fr. r = Some (Inr fr) \<longrightarrow> found_for t fr tr) \<and> (\<forall>ev \<in> set tr. \<exists>f. ev = Find_Slot f))"
  unfolding find_target_def
  by (intro effect_case_option effect_bind effect_conseq[OF effect_lifted[OF FindContext_offered]])
    (auto simp: found_for_def)

lemma effect_seed:
  assumes "set todo \<subseteq> ts" "seeded ts cached tr0 store"
  shows "effect (seed env userData cached todo store) (\<lambda>r tr. (\<forall>s. r = Some s \<longrightarrow> seeded ts cached (tr0 @ tr) s)
    \<and> (\<forall>ev \<in> set tr. \<exists>f. ev = Find_Slot f))"
  using assms
proof (induction todo arbitrary: store tr0)
  case (Cons t todo)
  let ?P = "\<lambda>r tr. (\<forall>s. r = Some s \<longrightarrow> seeded ts cached (tr0 @ tr) s) \<and> (\<forall>ev \<in> set tr. \<exists>f. ev = Find_Slot f)"
  show ?case
  proof (cases "completeFind (findSlot cached (slot_of t))")
    case True
    then have "seeded ts cached tr0 (setSlot store (slot_of t) (findSlot cached (slot_of t)))"
      using Cons.prems by (intro seeded_set) auto
    then show ?thesis using True Cons.IH Cons.prems(1) by simp
  next
    case False
    show ?thesis unfolding seed.simps if_not_P[OF False]
    proof (rule effect_bind, rule effect_conseq[OF effect_find_target], elim conjE)
      fix r tr assume f: "\<forall>fr. r = Some (Inr fr) \<longrightarrow> found_for t fr tr" and ev: "\<forall>ev \<in> set tr. \<exists>f. ev = Find_Slot f"
      have s: "seeded ts cached (tr0 @ tr) store" using Cons.prems(2) by (rule seeded_mono) auto
      have ft: "found_for t fr (tr0 @ tr)" if "r = Some (Inr fr)" for fr
        by (rule found_for_mono[of t fr tr]) (use f that in auto)
      show "effect (case r of None \<Rightarrow> return None
          | Some f \<Rightarrow> seed env userData cached todo
              (case f of Inl _ \<Rightarrow> store | Inr fr \<Rightarrow> if completeFind fr then setSlot store (slot_of t) fr else store))
        (\<lambda>r tr'. ?P r (tr @ tr'))"
      proof (cases r)
        case None
        then show ?thesis using ev by simp
      next
        case (Some f)
        let ?s = "case f of Inl _ \<Rightarrow> store | Inr fr \<Rightarrow> if completeFind fr then setSlot store (slot_of t) fr else store"
        have "seeded ts cached (tr0 @ tr) ?s"
          using s ft Some Cons.prems(1) by (auto split: sum.split intro!: seeded_set)
        from Cons.IH[OF _ this] Cons.prems(1)
        have "effect (seed env userData cached todo ?s) (\<lambda>r tr'. (\<forall>s. r = Some s \<longrightarrow> seeded ts cached ((tr0 @ tr) @ tr') s)
          \<and> (\<forall>ev \<in> set tr'. \<exists>f. ev = Find_Slot f))" by simp
        then show ?thesis unfolding Some option.case by (rule effect_conseq) (use ev in auto)
      qed
    qed
  qed
qed simp

text \<open>What one \<open>Ensure\<close> writes: at most one pair, the session it logged in with and one sound store.\<close>

definition ensured :: "'x store_env \<Rightarrow> Target set \<Rightarrow> store_event list \<Rightarrow> bool" where
  "ensured env ts tr \<longleftrightarrow> length (filter (\<lambda>ev. \<exists>u v r. ev = Cache_Set_Pair u v r) tr) \<le> 1 \<and>
     (\<forall>u v r. Cache_Set_Pair u v r \<in> set tr \<longrightarrow> (\<exists>ud st cached. Shared_Login (Inr ud) \<in> set tr \<and> Seal_Text ud (Inr u) \<in> set tr
        \<and> Seal_Finds st (Inr v) \<in> set tr \<and> seeded ts cached tr st
        \<and> (cached = Map.empty \<or> (\<exists>key enc. Cache_Get key (Value enc) \<in> set tr \<and> open_store env enc = Inr cached))))"

lemma ensured_none:
  assumes "\<And>u v r. Cache_Set_Pair u v r \<notin> set tr" shows "ensured env ts tr"
proof -
  have "filter (\<lambda>ev. \<exists>u v r. ev = Cache_Set_Pair u v r) tr = []" using assms by (auto simp: filter_empty_conv)
  then show ?thesis using assms by (simp add: ensured_def)
qed

definition save_run :: "string \<Rightarrow> FindStore \<Rightarrow> store_event list \<Rightarrow> bool" where
  "save_run userData store tr \<longleftrightarrow> (\<forall>u v r. Cache_Set_Pair u v r \<notin> set tr) \<or>
     (\<exists>u v r. tr = [Seal_Text userData (Inr u), Seal_Finds store (Inr v), Cache_Set_Pair u v r])"

lemma effect_save: "effect (save env userData store) (\<lambda>_ tr. save_run userData store tr)"
  unfolding save_def by (intro effect_intros) (auto simp: save_run_def)


lemma ensured_saved:
  assumes "Shared_Login (Inr ud) \<in> set tr0" "\<And>u v r. Cache_Set_Pair u v r \<notin> set tr0" "seeded ts cached tr0 st"
    and "cached = Map.empty \<or> (\<exists>key enc. Cache_Get key (Value enc) \<in> set tr0 \<and> open_store env enc = Inr cached)"
    and "save_run ud st tr"
  shows "ensured env ts (tr0 @ tr)"
proof (cases "\<forall>u v r. Cache_Set_Pair u v r \<notin> set tr")
  case True
  then show ?thesis using assms(2) by (intro ensured_none) auto
next
  case False
  then obtain u v r where tr: "tr = [Seal_Text ud (Inr u), Seal_Finds st (Inr v), Cache_Set_Pair u v r]"
    using assms(5) by (auto simp: save_run_def)
  have none: "filter (\<lambda>ev. \<exists>u v r. ev = Cache_Set_Pair u v r) tr0 = []" using assms(2) by (auto simp: filter_empty_conv)
  have "seeded ts cached (tr0 @ tr) st" using assms(3) by (rule seeded_mono) auto
  moreover have "cached = Map.empty \<or> (\<exists>key enc. Cache_Get key (Value enc) \<in> set (tr0 @ tr) \<and> open_store env enc = Inr cached)"
    using assms(4) by auto
  ultimately have w: "\<exists>ud st cached. Shared_Login (Inr ud) \<in> set (tr0 @ tr) \<and> Seal_Text ud (Inr u) \<in> set (tr0 @ tr)
      \<and> Seal_Finds st (Inr v) \<in> set (tr0 @ tr) \<and> seeded ts cached (tr0 @ tr) st
      \<and> (cached = Map.empty \<or> (\<exists>key enc. Cache_Get key (Value enc) \<in> set (tr0 @ tr) \<and> open_store env enc = Inr cached))"
    by (intro exI[of _ ud] exI[of _ st] exI[of _ cached]) (use assms(1) tr in simp)
  show ?thesis unfolding ensured_def
  proof (intro conjI allI impI)
    show "length (filter (\<lambda>ev. \<exists>u v r. ev = Cache_Set_Pair u v r) (tr0 @ tr)) \<le> 1" using none by (simp add: tr)
    fix u' v' r' assume "Cache_Set_Pair u' v' r' \<in> set (tr0 @ tr)"
    then have "u' = u \<and> v' = v" using assms(2) tr by auto
    then show "\<exists>ud st cached. Shared_Login (Inr ud) \<in> set (tr0 @ tr) \<and> Seal_Text ud (Inr u') \<in> set (tr0 @ tr)
      \<and> Seal_Finds st (Inr v') \<in> set (tr0 @ tr) \<and> seeded ts cached (tr0 @ tr) st
      \<and> (cached = Map.empty \<or> (\<exists>key enc. Cache_Get key (Value enc) \<in> set (tr0 @ tr) \<and> open_store env enc = Inr cached))"
      using w by simp
  qed
qed

lemma effect_seed_save:
  assumes "Shared_Login (Inr ud) \<in> set tr0" "\<And>u v r. Cache_Set_Pair u v r \<notin> set tr0"
    and "cached = Map.empty \<or> (\<exists>key enc. Cache_Get key (Value enc) \<in> set tr0 \<and> open_store env enc = Inr cached)"
  shows "effect (do { s \<leftarrow> seed env ud cached targets Map.empty;
      case s of None \<Rightarrow> return None | Some store \<Rightarrow> do { r \<leftarrow> save env ud store; return (Some r) } })
    (\<lambda>r tr. ensured env (set targets) (tr0 @ tr))"
proof (rule effect_bind, rule effect_conseq[OF effect_seed[of _ "set targets" cached tr0]])
  show "seeded (set targets) cached tr0 Map.empty" by (simp add: seeded_def)
next
  fix s tr assume s: "(\<forall>st. s = Some st \<longrightarrow> seeded (set targets) cached (tr0 @ tr) st) \<and> (\<forall>ev \<in> set tr. \<exists>f. ev = Find_Slot f)"
  then have n: "Cache_Set_Pair u v r \<notin> set (tr0 @ tr)" for u v r using assms(2) by auto
  show "effect (case s of None \<Rightarrow> return None | Some store \<Rightarrow> do { r \<leftarrow> save env ud store; return (Some r) })
    (\<lambda>r tr'. ensured env (set targets) (tr0 @ tr @ tr'))"
  proof (cases s)
    case None
    then show ?thesis using ensured_none[OF n] by simp
  next
    case (Some st)
    have "ensured env (set targets) ((tr0 @ tr) @ tr')" if "save_run ud st tr'" for tr'
    proof (rule ensured_saved[OF _ n _ _ that])
      show "seeded (set targets) cached (tr0 @ tr) st" using s Some by blast
      show "cached = Map.empty \<or> (\<exists>key enc. Cache_Get key (Value enc) \<in> set (tr0 @ tr) \<and> open_store env enc = Inr cached)"
        using assms(3) by auto
    qed (use assms(1) in auto)
    then show ?thesis unfolding Some option.case
      by (intro effect_bind effect_conseq[OF effect_save]) simp
  qed
qed simp

text \<open>Ensure saves the session and the store together, once, and every slot of the store it saves
  belongs to a target, is complete, and has the data of the store it read or data KTMB offered in
  this run for that target's direction, day and time.\<close>

theorem Ensure_saves_seeded: "effect (Ensure env cfg targets) (\<lambda>_ tr. ensured env (set targets) tr)"
  unfolding Ensure_def
proof (rule effect_bind, rule effect_invoke, rule effect_case_sum)
  fix l :: "string result" and e assume "l = Inl e"
  then show "effect (return (Some (Inl (Wrapped ''ensure shared KTMB session'' e))))
    (\<lambda>_ tr. ensured env (set targets) ([Shared_Login l] @ tr))" by (simp add: ensured_none)
next
  fix l :: "string result" and ud assume l: "l = Inr ud"
  show "effect (do {
         g \<leftarrow> invoke (cache_get env (StoreKey cfg)) (Cache_Get (StoreKey cfg));
         case g of
           Read_Failed err \<Rightarrow> return (Some (Inl (Wrapped ''read existing trip store'' err)))
         | Nil_Reply \<Rightarrow> do {
             s \<leftarrow> seed env ud Map.empty targets Map.empty;
             case s of None \<Rightarrow> return None | Some store \<Rightarrow> do { r \<leftarrow> save env ud store; return (Some r) }
           }
         | Value encrypted \<Rightarrow> do {
             s \<leftarrow> seed env ud (case open_store env encrypted of Inl _ \<Rightarrow> Map.empty | Inr existing \<Rightarrow> existing) targets Map.empty;
             case s of None \<Rightarrow> return None | Some store \<Rightarrow> do { r \<leftarrow> save env ud store; return (Some r) }
           }
       }) (\<lambda>_ tr. ensured env (set targets) ([Shared_Login l] @ tr))"
  proof (rule effect_bind, rule effect_invoke)
    fix g
    have "effect (do { s \<leftarrow> seed env ud c targets Map.empty;
        case s of None \<Rightarrow> return None | Some store \<Rightarrow> do { r \<leftarrow> save env ud store; return (Some r) } })
      (\<lambda>r tr. ensured env (set targets) ([Shared_Login l, Cache_Get (StoreKey cfg) g] @ tr))"
      if "c = Map.empty \<or> (\<exists>enc. g = Value enc \<and> open_store env enc = Inr c)" for c
      by (rule effect_seed_save) (use that l in auto)
    then show "effect (case g of
           Value encrypted \<Rightarrow> do {
             s \<leftarrow> seed env ud (case open_store env encrypted of Inl _ \<Rightarrow> Map.empty | Inr existing \<Rightarrow> existing) targets Map.empty;
             case s of None \<Rightarrow> return None | Some store \<Rightarrow> do { r \<leftarrow> save env ud store; return (Some r) }
           }
         | Nil_Reply \<Rightarrow> do {
             s \<leftarrow> seed env ud Map.empty targets Map.empty;
             case s of None \<Rightarrow> return None | Some store \<Rightarrow> do { r \<leftarrow> save env ud store; return (Some r) }
           }
         | Read_Failed err \<Rightarrow> return (Some (Inl (Wrapped ''read existing trip store'' err))))
      (\<lambda>_ tr. ensured env (set targets) ([Shared_Login l] @ [Cache_Get (StoreKey cfg) g] @ tr))"
      by (auto simp: ensured_none split: redis_read.split sum.split)
  qed
qed

end
