(* ===== verification/Reserve_Dto.thy ===== *)
theory Reserve_Dto
  imports Tin_Prelude
begin

text \<open>\<open>ReserveDto\<close> of lib/reserver/reserver.go: a KTMB hold handed to the buyer, or kept for release.\<close>

record ReserveDto =
  dto_UserData :: string
  dto_BookingData :: string
  dto_PassengerData :: string
  dto_Direction :: string
  dto_Date :: string
  dto_Time :: string

end
