(* ===== verification/Prober_Runner.thy ===== *)
theory Prober_Runner
  imports Prober_Store Reserve_Dto
begin

text \<open>
  lib/prober/runner.go: one prober Job. Each slot is probed by reserving it until its demand is
  met or the Job's time is over; a hold is handed to the buyer's queue, or cancelled, or recorded
  for a later release; holds recorded by earlier Jobs are released first. KTMB, redis, the clock,
  the context and the sealing are parameters. The probing loop runs on fuel; the goroutines of the
  slots share nothing but the context, and the model runs them one after the other.
\<close>

record runner_config = prober_config +
  PaceMs :: int
  DryRun :: bool
  ErrorLimit :: int
  ErrorBackoffMs :: int
  ReleaseDrainLimit :: int
  ReleaseDrainBudgetMs :: int
  ReleaseTerminalPatterns :: "string list"
  SoldOutPatterns :: "string list"
  StaleDataPatterns :: "string list"
  SessionPatterns :: "string list"
  RateLimitPatterns :: "string list"

text \<open>\<open>rn_done\<close> says whether the context is done, \<open>rn_sleep\<close> whether a timer of that positive length fired
  before it was, \<open>rn_wait\<close> whether a timer for that instant fired before the context's end or deadline.\<close>

record 'x runner_env =
  rn_now :: "'x \<Rightarrow> instant \<times> 'x"
  rn_done :: "'x \<Rightarrow> bool \<times> 'x"
  rn_sleep :: "duration \<Rightarrow> 'x \<Rightarrow> bool \<times> 'x"
  rn_wait :: "instant \<Rightarrow> instant \<Rightarrow> 'x \<Rightarrow> unit result \<times> 'x"
  rn_location :: location
  rn_reserve :: "string \<Rightarrow> string \<Rightarrow> string \<Rightarrow> 'x \<Rightarrow> ReserveRes GenericRes result \<times> 'x"
  rn_cancel :: "string \<Rightarrow> string \<Rightarrow> 'x \<Rightarrow> unit GenericRes result \<times> 'x"
  rn_load :: "'x \<Rightarrow> (string \<times> FindStore) result \<times> 'x"
  rn_refresh :: "string \<Rightarrow> Target \<Rightarrow> 'x \<Rightarrow> FindRes result \<times> 'x"
  rn_seal :: "ReserveDto \<Rightarrow> 'x \<Rightarrow> string result \<times> 'x"
  rn_open :: "string \<Rightarrow> ReserveDto result"
  rn_enqueue :: "string \<Rightarrow> 'x \<Rightarrow> unit result \<times> 'x"
  rn_persist :: "string \<Rightarrow> 'x \<Rightarrow> unit result \<times> 'x"
  rn_list :: "int \<Rightarrow> 'x \<Rightarrow> string list result \<times> 'x"
  rn_remove :: "string \<Rightarrow> 'x \<Rightarrow> unit result \<times> 'x"
  rn_signal :: "string \<Rightarrow> 'x \<Rightarrow> unit result \<times> 'x"
  rn_fingerprint :: "string \<Rightarrow> string"
  rn_cancel_epoch :: "'x \<Rightarrow> unit \<times> 'x"
  rn_expired :: "'x \<Rightarrow> bool \<times> 'x"
  rn_write_tally :: "JobTally \<Rightarrow> 'x \<Rightarrow> unit result \<times> 'x"

datatype run_event =
    Now instant
  | Ctx_Done bool
  | Slept duration bool
  | Waited instant "unit result"
  | Reserve string string "ReserveRes GenericRes result"
  | Cancel string string "unit GenericRes result"
  | Loaded "(string \<times> FindStore) result"
  | Refreshed Target "FindRes result"
  | Seal_Dto ReserveDto "string result"
  | Enqueue string "unit result"
  | Persist string "unit result"
  | List_Releases int "string list result"
  | Remove_Release string "unit result"
  | Signal_Dead string "unit result"
  | Cancel_Epoch
  | Budget_Over bool
  | Write_Tally JobTally "unit result"

type_synonym ('x, 'a) run = "('x, run_event, 'a) proc"

section \<open>Waiting\<close>

definition exponential :: "duration \<Rightarrow> int \<Rightarrow> duration" where
  "exponential base attempt = base * 2 ^ nat (min attempt 6 - 1)"

definition sleepContext :: "'x runner_env \<Rightarrow> duration \<Rightarrow> ('x, bool) run" where
  "sleepContext env d =
     (if d \<le> 0 then do { stop \<leftarrow> invoke (rn_done env) Ctx_Done; return (\<not> stop) }
      else invoke (rn_sleep env d) (Slept d))"

definition inMaintenance :: "location \<Rightarrow> instant \<Rightarrow> bool" where
  "inMaintenance loc now \<longleftrightarrow> hour_of loc now = 23 \<or>
     hour_of loc now = 0 \<and> (minute_of loc now < 14 \<or> minute_of loc now = 14 \<and> second_of loc now \<le> 55)"

text \<open>Today's 00:14:59, or tomorrow's when that is not after now.\<close>

definition maintenance_end :: "location \<Rightarrow> instant \<Rightarrow> instant" where
  "maintenance_end loc now =
     (if date (fst (civil loc now)) (fst (snd (civil loc now))) (snd (snd (civil loc now))) 0 14 59 0 loc > now
      then date (fst (civil loc now)) (fst (snd (civil loc now))) (snd (snd (civil loc now))) 0 14 59 0 loc
      else date (fst (civil loc now)) (fst (snd (civil loc now))) (snd (snd (civil loc now))) 0 14 59 0 loc + 24 * hour)"

text \<open>The context of the wait has the deadline \<open>probeUntil\<close>.\<close>

definition waitForMaintenance :: "'x runner_env \<Rightarrow> instant \<Rightarrow> ('x, unit result) run" where
  "waitForMaintenance env deadline = do {
     now \<leftarrow> invoke (rn_now env) Now;
     if \<not> inMaintenance (rn_location env) now then return (Inr ())
     else invoke (rn_wait env deadline (maintenance_end (rn_location env) now)) (Waited (maintenance_end (rn_location env) now))
   }"

section \<open>What becomes of a hold\<close>

definition cancel_rejected :: "string list \<Rightarrow> error" where
  "cancel_rejected ms = Msg (''KTMB cancel rejected: '' @ fmt_strings ms)"

text \<open>\<open>(releaseFailed, err)\<close>; \<open>None\<close> is the nil error.\<close>

definition compensateHold :: "'x runner_env \<Rightarrow> runner_config \<Rightarrow> ReserveDto \<Rightarrow> error \<Rightarrow> ('x, bool \<times> error option) run" where
  "compensateHold env cfg dto cause = do {
     response \<leftarrow> invoke (rn_cancel env (dto_UserData dto) (dto_BookingData dto)) (Cancel (dto_UserData dto) (dto_BookingData dto));
     if (case response of Inl _ \<Rightarrow> False | Inr r \<Rightarrow> Status r)
     then return (False, if DryRun cfg then None else Some cause)
     else do {
       let cancelErr = (case response of Inl err \<Rightarrow> err | Inr r \<Rightarrow> cancel_rejected (Messages r));
       e \<leftarrow> invoke (rn_seal env dto) (Seal_Dto dto);
       case e of
         Inl encryptErr \<Rightarrow> return (True, Some (Joined cause (Joined cancelErr (Wrapped ''encrypt durable release'' encryptErr))))
       | Inr encrypted \<Rightarrow> do {
           p \<leftarrow> invoke (rn_persist env encrypted) (Persist encrypted);
           case p of
             Inl persistErr \<Rightarrow> return (True, Some (Joined cause (Joined cancelErr (Wrapped ''persist durable release'' persistErr))))
           | Inr _ \<Rightarrow> return (True, Some (Joined cause (Joined cancelErr (Msg ''hold queued for durable release retry''))))
         }
     }
   }"

definition dto_of :: "string \<Rightarrow> string \<Rightarrow> Target \<Rightarrow> ReserveDto" where
  "dto_of userData bookingData target = \<lparr>dto_UserData = userData, dto_BookingData = bookingData, dto_PassengerData = [],
     dto_Direction = Direction target, dto_Date = Date target, dto_Time = Time target\<rparr>"

definition acceptHold :: "'x runner_env \<Rightarrow> runner_config \<Rightarrow> string \<Rightarrow> string \<Rightarrow> Target \<Rightarrow> ('x, bool \<times> error option) run" where
  "acceptHold env cfg userData bookingData target =
     (if DryRun cfg then compensateHold env cfg (dto_of userData bookingData target) (Msg ''dry-run hold must be released'')
      else do {
        e \<leftarrow> invoke (rn_seal env (dto_of userData bookingData target)) (Seal_Dto (dto_of userData bookingData target));
        case e of
          Inl err \<Rightarrow> compensateHold env cfg (dto_of userData bookingData target) (Wrapped ''encrypt hold DTO'' err)
        | Inr encrypted \<Rightarrow> do {
            q \<leftarrow> invoke (rn_enqueue env encrypted) (Enqueue encrypted);
            case q of
              Inl err \<Rightarrow> compensateHold env cfg (dto_of userData bookingData target) (Wrapped ''enqueue hold DTO'' err)
            | Inr _ \<Rightarrow> return (False, None)
          }
      })"

section \<open>Probing one slot\<close>

record probe_state =
  tally :: SlotTally
  find_data :: FindRes
  errorsSeen :: int
  was_refreshed :: bool

datatype probe_next = Stop SlotTally | Again probe_state

definition markSessionDead :: "'x runner_env \<Rightarrow> string \<Rightarrow> ('x, unit) run" where
  "markSessionDead env userData = do {
     invoke (rn_cancel_epoch env) (\<lambda>_. Cancel_Epoch);
     _ \<leftarrow> invoke (rn_signal env (rn_fingerprint env userData)) (Signal_Dead (rn_fingerprint env userData));
     return ()
   }"

definition refreshSlot :: "'x runner_env \<Rightarrow> string \<Rightarrow> Target \<Rightarrow> ('x, FindRes result) run" where
  "refreshSlot env userData target = do {
     r \<leftarrow> invoke (rn_refresh env userData target) (Refreshed target);
     return (case r of
         Inl err \<Rightarrow> Inl err
       | Inr f \<Rightarrow> if completeFind f then Inr f else Inl (Msg ''enrichment returned incomplete searchData/tripData''))
   }"

definition error_limit :: "runner_config \<Rightarrow> int" where
  "error_limit cfg = (if ErrorLimit cfg \<le> 0 then 5 else ErrorLimit cfg)"

definition base_backoff :: "runner_config \<Rightarrow> duration" where
  "base_backoff cfg = (if ErrorBackoffMs cfg * millisecond \<le> 0 then 100 * millisecond else ErrorBackoffMs cfg * millisecond)"

text \<open>The four reactions a response can get; each takes the state with the poll already counted.\<close>

definition on_session_dead :: "'x runner_env \<Rightarrow> string \<Rightarrow> probe_state \<Rightarrow> ('x, probe_next) run" where
  "on_session_dead env userData st = do {
     markSessionDead env userData;
     return (Stop ((tally st)\<lparr>SessionDead := SessionDead (tally st) + 1\<rparr>))
   }"

definition on_stale :: "'x runner_env \<Rightarrow> string \<Rightarrow> Target \<Rightarrow> probe_state \<Rightarrow> ('x, probe_next) run" where
  "on_stale env userData target st =
     (if was_refreshed st
      then return (Stop ((tally st)\<lparr>Stale := Stale (tally st) + 1, Errors := Errors (tally st) + 1\<rparr>))
      else do {
        r \<leftarrow> refreshSlot env userData target;
        return (case r of
            Inl err \<Rightarrow> Stop ((tally st)\<lparr>Stale := Stale (tally st) + 1, Errors := Errors (tally st) + 1\<rparr>)
          | Inr f \<Rightarrow> Again (st\<lparr>tally := (tally st)\<lparr>Stale := Stale (tally st) + 1\<rparr>, find_data := f, was_refreshed := True\<rparr>))
      })"

definition on_rate_limit :: "probe_state \<Rightarrow> ('x, probe_next) run" where
  "on_rate_limit st = return (Again (st\<lparr>tally := (tally st)\<lparr>RateLimited := RateLimited (tally st) + 1\<rparr>\<rparr>))"

definition on_sold_out :: "'x runner_env \<Rightarrow> runner_config \<Rightarrow> probe_state \<Rightarrow> ('x, probe_next) run" where
  "on_sold_out env cfg st = do {
     slept \<leftarrow> sleepContext env (PaceMs cfg * millisecond);
     return ((if slept then Again (st\<lparr>tally := (tally st)\<lparr>SoldOut := SoldOut (tally st) + 1\<rparr>\<rparr>)
        else Stop ((tally st)\<lparr>SoldOut := SoldOut (tally st) + 1\<rparr>)))
   }"

definition on_error :: "'x runner_env \<Rightarrow> runner_config \<Rightarrow> probe_state \<Rightarrow> ('x, probe_next) run" where
  "on_error env cfg st =
     (if errorsSeen st + 1 \<ge> error_limit cfg
      then return (Stop ((tally st)\<lparr>Errors := Errors (tally st) + 1\<rparr>))
      else do {
        slept \<leftarrow> sleepContext env (exponential (base_backoff cfg) (errorsSeen st + 1));
        return (if slept then Again (st\<lparr>tally := (tally st)\<lparr>Errors := Errors (tally st) + 1\<rparr>, errorsSeen := errorsSeen st + 1\<rparr>)
          else Stop ((tally st)\<lparr>Errors := Errors (tally st) + 1\<rparr>))
      })"

definition on_success :: "'x runner_env \<Rightarrow> runner_config \<Rightarrow> string \<Rightarrow> Target \<Rightarrow> string \<Rightarrow> probe_state \<Rightarrow> ('x, probe_next) run" where
  "on_success env cfg userData target bookingData st =
     (if bookingData = [] then return (Stop ((tally st)\<lparr>Errors := Errors (tally st) + 1\<rparr>))
      else do {
        a \<leftarrow> acceptHold env cfg userData bookingData target;
        return (case a of
            (releaseFailed, Some err) \<Rightarrow> Stop ((tally st)\<lparr>Holds := Holds (tally st) + 1, Errors := Errors (tally st) + 1,
              ReleaseFailed := ReleaseFailed (tally st) + (if releaseFailed then 1 else 0)\<rparr>)
          | (releaseFailed, None) \<Rightarrow> Again (st\<lparr>tally := (tally st)\<lparr>Holds := Holds (tally st) + 1\<rparr>, errorsSeen := 0\<rparr>))
      })"

text \<open>The classification of a response. An HTTP error has its own order of cases and its status codes.\<close>

definition on_response :: "'x runner_env \<Rightarrow> runner_config \<Rightarrow> string \<Rightarrow> Target \<Rightarrow> ReserveRes GenericRes result
    \<Rightarrow> probe_state \<Rightarrow> ('x, probe_next) run" where
  "on_response env cfg userData target response st =
     (case response of
        Inl err \<Rightarrow> (case as_http_status err of
            None \<Rightarrow> on_error env cfg st
          | Some (code, body) \<Rightarrow>
              if code = 401 \<or> code = 403 \<or> Matches [body] (SessionPatterns cfg) then on_session_dead env userData st
              else if Matches [body] (StaleDataPatterns cfg) then on_stale env userData target st
              else if code = 429 \<or> Matches [body] (RateLimitPatterns cfg) then on_rate_limit st
              else if Matches [body] (SoldOutPatterns cfg) then on_sold_out env cfg st
              else on_error env cfg st)
      | Inr r \<Rightarrow>
          if Status r then on_success env cfg userData target (reserve_BookingData (Data r)) st
          else if Matches (Messages r) (SessionPatterns cfg) then on_session_dead env userData st
          else if Matches (Messages r) (StaleDataPatterns cfg) then on_stale env userData target st
          else if Matches (Messages r) (RateLimitPatterns cfg) then on_rate_limit st
          else if Matches (Messages r) (SoldOutPatterns cfg) then on_sold_out env cfg st
          else on_error env cfg st)"

text \<open>The guards in front of a poll: \<open>True\<close> when the slot may still be probed.\<close>

definition may_poll :: "'x runner_env \<Rightarrow> instant \<Rightarrow> ('x, bool) run" where
  "may_poll env probeUntil = do {
     now \<leftarrow> invoke (rn_now env) Now;
     if \<not> now < probeUntil then return False
     else do {
       m \<leftarrow> waitForMaintenance env probeUntil;
       case m of
         Inl _ \<Rightarrow> return False
       | Inr _ \<Rightarrow> do {
           now2 \<leftarrow> invoke (rn_now env) Now;
           if \<not> now2 < probeUntil then return False
           else do { stop \<leftarrow> invoke (rn_done env) Ctx_Done; return (\<not> stop) }
         }
     }
   }"

definition poll :: "'x runner_env \<Rightarrow> runner_config \<Rightarrow> string \<Rightarrow> Target \<Rightarrow> probe_state \<Rightarrow> ('x, probe_next) run" where
  "poll env cfg userData target st = do {
     response \<leftarrow> invoke (rn_reserve env userData (SearchData (find_data st)) (TripData (find_data st)))
       (Reserve (SearchData (find_data st)) (TripData (find_data st)));
     on_response env cfg userData target response (st\<lparr>tally := (tally st)\<lparr>Polls := Polls (tally st) + 1\<rparr>\<rparr>)
   }"

fun probe_loop :: "'x runner_env \<Rightarrow> runner_config \<Rightarrow> string \<Rightarrow> Target \<Rightarrow> instant \<Rightarrow> nat \<Rightarrow> probe_state \<Rightarrow> ('x, SlotTally option) run" where
  "probe_loop env cfg userData target probeUntil 0 st = return None"
| "probe_loop env cfg userData target probeUntil (Suc n) st =
     (if \<not> Holds (tally st) < Needed target then return (Some (tally st))
      else do {
        go \<leftarrow> may_poll env probeUntil;
        if \<not> go then return (Some (tally st))
        else do {
          next \<leftarrow> poll env cfg userData target st;
          case next of
            Stop t \<Rightarrow> return (Some t)
          | Again st' \<Rightarrow> probe_loop env cfg userData target probeUntil n st'
        }
      })"

definition probeSlot :: "'x runner_env \<Rightarrow> runner_config \<Rightarrow> string \<Rightarrow> FindStore \<Rightarrow> Target \<Rightarrow> instant \<Rightarrow> nat \<Rightarrow> ('x, SlotTally option) run" where
  "probeSlot env cfg userData store target probeUntil fuel =
     (if completeFind (findSlot store (slot_of target))
      then probe_loop env cfg userData target probeUntil fuel
        \<lparr>tally = slot_zero (Key target), find_data = findSlot store (slot_of target), errorsSeen = 0, was_refreshed = False\<rparr>
      else do {
        r \<leftarrow> refreshSlot env userData target;
        case r of
          Inl err \<Rightarrow> return (Some ((slot_zero (Key target))\<lparr>Errors := 1, Skipped := 1\<rparr>))
        | Inr f \<Rightarrow> probe_loop env cfg userData target probeUntil fuel
            \<lparr>tally = slot_zero (Key target), find_data = f, errorsSeen = 0, was_refreshed = False\<rparr>
      })"

section \<open>Releasing recorded holds\<close>

definition drain_limit :: "runner_config \<Rightarrow> int" where
  "drain_limit cfg = (if ReleaseDrainLimit cfg \<le> 0 then 10 else ReleaseDrainLimit cfg)"

text \<open>What the messages of a refused cancellation say about the session.\<close>

definition session_rejected :: "runner_config \<Rightarrow> unit GenericRes result \<Rightarrow> bool" where
  "session_rejected cfg response =
     (case response of
        Inl err \<Rightarrow> (case as_http_status err of
            None \<Rightarrow> False
          | Some (code, body) \<Rightarrow> code = 401 \<or> code = 403 \<or> Matches [body] (SessionPatterns cfg))
      | Inr r \<Rightarrow> Matches (Messages r) (SessionPatterns cfg))"

fun drain :: "'x runner_env \<Rightarrow> runner_config \<Rightarrow> string \<Rightarrow> int \<Rightarrow> string list \<Rightarrow> ('x, unit result) run" where
  "drain env cfg currentUserData index [] = return (Inr ())"
| "drain env cfg currentUserData index (encrypted # values) =
     (if index \<ge> drain_limit cfg then return (Inr ())
      else do {
        over \<leftarrow> invoke (rn_expired env) Budget_Over;
        if over then return (Inr ())
        else case rn_open env encrypted of
          Inl decryptErr \<Rightarrow>
            on_ok (invoke (rn_remove env encrypted) (Remove_Release encrypted)) (\<lambda>_. drain env cfg currentUserData (index + 1) values)
        | Inr dto \<Rightarrow> do {
            response \<leftarrow> invoke (rn_cancel env (if currentUserData \<noteq> [] then currentUserData else dto_UserData dto) (dto_BookingData dto))
              (Cancel (if currentUserData \<noteq> [] then currentUserData else dto_UserData dto) (dto_BookingData dto));
            if (case response of Inl _ \<Rightarrow> False | Inr r \<Rightarrow> Status r)
            then on_ok (invoke (rn_remove env encrypted) (Remove_Release encrypted)) (\<lambda>_. drain env cfg currentUserData (index + 1) values)
            else if session_rejected cfg response
            then do {
              _ \<leftarrow> invoke (rn_signal env (rn_fingerprint env (if currentUserData \<noteq> [] then currentUserData else dto_UserData dto)))
                (Signal_Dead (rn_fingerprint env (if currentUserData \<noteq> [] then currentUserData else dto_UserData dto)));
              return (Inr ())
            }
            else if (case response of Inl _ \<Rightarrow> False | Inr r \<Rightarrow> Matches (Messages r) (ReleaseTerminalPatterns cfg))
            then on_ok (invoke (rn_remove env encrypted) (Remove_Release encrypted)) (\<lambda>_. drain env cfg currentUserData (index + 1) values)
            else drain env cfg currentUserData (index + 1) values
          }
      })"

definition drainReleases :: "'x runner_env \<Rightarrow> runner_config \<Rightarrow> string \<Rightarrow> ('x, unit result) run" where
  "drainReleases env cfg currentUserData =
     on_ok (invoke (rn_list env (drain_limit cfg)) (List_Releases (drain_limit cfg))) (\<lambda>values.
       drain env cfg currentUserData 0 values)"

section \<open>The Job\<close>

fun probe_all :: "'x runner_env \<Rightarrow> runner_config \<Rightarrow> string \<Rightarrow> FindStore \<Rightarrow> instant \<Rightarrow> nat \<Rightarrow> Target list \<Rightarrow> ('x, SlotTally list option) run" where
  "probe_all env cfg userData store probeUntil fuel [] = return (Some [])"
| "probe_all env cfg userData store probeUntil fuel (t # ts) = do {
     a \<leftarrow> probeSlot env cfg userData store t probeUntil fuel;
     b \<leftarrow> probe_all env cfg userData store probeUntil fuel ts;
     return (case (a, b) of (Some x, Some xs) \<Rightarrow> Some (x # xs) | _ \<Rightarrow> None)
   }"

definition Run :: "'x runner_env \<Rightarrow> runner_config \<Rightarrow> Target list \<Rightarrow> int \<Rightarrow> string \<Rightarrow> instant \<Rightarrow> nat \<Rightarrow> ('x, unit result option) run" where
  "Run env cfg targets epoch job probeUntil fuel = do {
     l \<leftarrow> invoke (rn_load env) Loaded;
     _ \<leftarrow> drainReleases env cfg (case l of Inl _ \<Rightarrow> [] | Inr (userData, _) \<Rightarrow> userData);
     case l of
       Inl err \<Rightarrow> do {
         let t = SumTallies epoch job (map (\<lambda>t. (slot_zero (Key t))\<lparr>Errors := 1, Skipped := 1\<rparr>) targets);
         _ \<leftarrow> invoke (rn_write_tally env t) (Write_Tally t);
         return (Some (Inl (Wrapped ''prober is a cache-only session consumer'' err)))
       }
     | Inr (userData, store) \<Rightarrow> do {
         ts \<leftarrow> probe_all env cfg userData store probeUntil fuel targets;
         case ts of
           None \<Rightarrow> return None
         | Some tallies \<Rightarrow> do {
             w \<leftarrow> invoke (rn_write_tally env (SumTallies epoch job tallies)) (Write_Tally (SumTallies epoch job tallies));
             return (Some (case w of Inl err \<Rightarrow> Inl (Wrapped ''write prober tally'' err) | Inr _ \<Rightarrow> Inr ()))
           }
       }
   }"

definition ParseTargets :: "(string \<Rightarrow> Target list result) \<Rightarrow> string \<Rightarrow> Target list result" where
  "ParseTargets unmarshal input =
     (case unmarshal input of
        Inl err \<Rightarrow> Inl (Wrapped ''parse prober targets'' err)
      | Inr targets \<Rightarrow>
          if \<exists>t \<in> set targets. Direction t = [] \<or> Date t = [] \<or> Time t = [] \<or> Needed t \<le> 0
          then Inl (Msg ''each prober target requires dir, date, time and needed > 0'')
          else Inr targets)"

section \<open>Every poll is accounted for, every hold is settled\<close>

fun is_reserve :: "run_event \<Rightarrow> bool" where
  "is_reserve (Reserve sd td r) = True"
| "is_reserve _ = False"

fun is_enqueue :: "run_event \<Rightarrow> bool" where
  "is_enqueue (Enqueue e r) = True"
| "is_enqueue _ = False"

text \<open>The booking data of a hold KTMB granted.\<close>

fun hold_of :: "ReserveRes GenericRes result \<Rightarrow> string option" where
  "hold_of (Inl e) = None"
| "hold_of (Inr r) = (if Status r \<and> reserve_BookingData (Data r) \<noteq> [] then Some (reserve_BookingData (Data r)) else None)"

fun is_hold :: "run_event \<Rightarrow> bool" where
  "is_hold (Reserve sd td r) = (hold_of r \<noteq> None)"
| "is_hold _ = False"

definition quiet :: "bool \<Rightarrow> run_event list \<Rightarrow> bool" where
  "quiet dry tr \<longleftrightarrow> \<not> list_ex is_reserve tr \<and> (dry \<longrightarrow> \<not> list_ex is_enqueue tr)"

lemma quiet_simps [simp]:
  "quiet dry []" "quiet dry (ev # tr) \<longleftrightarrow> \<not> is_reserve ev \<and> (dry \<longrightarrow> \<not> is_enqueue ev) \<and> quiet dry tr"
  "quiet dry (tr @ tr') \<longleftrightarrow> quiet dry tr \<and> quiet dry tr'"
  by (auto simp: quiet_def)

text \<open>A hold is settled when its DTO reached the buyer's queue or the release list, or KTMB cancelled it.\<close>

definition hold_settled :: "string \<Rightarrow> run_event list \<Rightarrow> bool" where
  "hold_settled b tr \<longleftrightarrow>
     (\<exists>dto enc. dto_BookingData dto = b \<and> Seal_Dto dto (Inr enc) \<in> set tr \<and> (Enqueue enc (Inr ()) \<in> set tr \<or> Persist enc (Inr ()) \<in> set tr))
   \<or> (\<exists>ud r. Cancel ud b (Inr r) \<in> set tr \<and> Status r)"

lemma hold_settled_mono: "hold_settled b tr \<Longrightarrow> set tr \<subseteq> set tr' \<Longrightarrow> hold_settled b tr'"
  unfolding hold_settled_def by blast

lemma effect_compensateHold:
  "effect (compensateHold env cfg dto cause) (\<lambda>a tr. quiet dry tr \<and> (\<not> fst a \<longrightarrow> hold_settled (dto_BookingData dto) tr)
     \<and> (fst a \<longrightarrow> snd a \<noteq> None))"
  unfolding compensateHold_def Let_def
  by (intro effect_intros) (auto simp: hold_settled_def split: sum.splits)

lemma effect_acceptHold:
  "effect (acceptHold env cfg ud bd target) (\<lambda>a tr. quiet (DryRun cfg) tr \<and> (\<not> fst a \<longrightarrow> hold_settled bd tr)
     \<and> (fst a \<longrightarrow> snd a \<noteq> None))"
  unfolding acceptHold_def
  by (intro effect_intros effect_conseq[OF effect_compensateHold[where dry = "DryRun cfg"]])
    (auto simp: dto_of_def intro: hold_settled_mono, auto simp: hold_settled_def)

definition outcomes :: "SlotTally \<Rightarrow> int" where
  "outcomes t = Holds t + SoldOut t + Stale t + RateLimited t + SessionDead t"

fun tally_of :: "probe_next \<Rightarrow> SlotTally" where
  "tally_of (Stop t) = t"
| "tally_of (Again st) = tally st"

definition counted :: "bool \<Rightarrow> ReserveRes GenericRes result \<Rightarrow> SlotTally \<Rightarrow> run_event list \<Rightarrow> SlotTally \<Rightarrow> bool" where
  "counted dry response t tr t' \<longleftrightarrow> quiet dry tr \<and> Polls t' = Polls t
     \<and> Holds t' = Holds t + (if hold_of response = None then 0 else 1)
     \<and> (outcomes t' = outcomes t + 1 \<and> Errors t \<le> Errors t' \<or> outcomes t' = outcomes t \<and> Errors t' = Errors t + 1)
     \<and> ReleaseFailed t \<le> ReleaseFailed t'
     \<and> (\<forall>b. hold_of response = Some b \<longrightarrow> hold_settled b tr \<or> ReleaseFailed t < ReleaseFailed t')"

lemma quiet_sleepContext: "effect (sleepContext env d) (\<lambda>_ tr. quiet dry tr)"
  unfolding sleepContext_def by (intro effect_intros) auto

lemma quiet_refreshSlot: "effect (refreshSlot env ud target) (\<lambda>_ tr. quiet dry tr)"
  unfolding refreshSlot_def by (intro effect_intros) auto

lemma quiet_markSessionDead: "effect (markSessionDead env ud) (\<lambda>_ tr. quiet dry tr)"
  unfolding markSessionDead_def by (intro effect_intros) auto

lemma counted_reactions:
  assumes "hold_of response = None"
  shows "effect (on_session_dead env ud st) (\<lambda>n tr. counted dry response (tally st) tr (tally_of n))"
    and "effect (on_stale env ud target st) (\<lambda>n tr. counted dry response (tally st) tr (tally_of n))"
    and "effect (on_rate_limit st) (\<lambda>n tr. counted dry response (tally st) tr (tally_of n))"
    and "effect (on_sold_out env cfg st) (\<lambda>n tr. counted dry response (tally st) tr (tally_of n))"
    and "effect (on_error env cfg st) (\<lambda>n tr. counted dry response (tally st) tr (tally_of n))"
  unfolding on_session_dead_def on_stale_def on_rate_limit_def on_sold_out_def on_error_def
  by (intro effect_if effect_bind effect_return effect_conseq[OF quiet_sleepContext[where dry = dry]]
        effect_conseq[OF quiet_refreshSlot[where dry = dry]] effect_conseq[OF quiet_markSessionDead[where dry = dry]];
      auto simp: counted_def outcomes_def assms split: sum.split)+

lemma counted_success:
  assumes "Status r"
  shows "effect (on_success env cfg ud target (reserve_BookingData (Data r)) st)
     (\<lambda>n tr. counted (DryRun cfg) (Inr r) (tally st) tr (tally_of n))"
  unfolding on_success_def
proof (rule effect_if)
  assume "reserve_BookingData (Data r) = []"
  then show "effect (return (Stop ((tally st)\<lparr>Errors := Errors (tally st) + 1\<rparr>)))
     (\<lambda>n tr. counted (DryRun cfg) (Inr r) (tally st) tr (tally_of n))"
    by (simp add: counted_def outcomes_def)
next
  assume b: "reserve_BookingData (Data r) \<noteq> []"
  show "effect (do { a \<leftarrow> acceptHold env cfg ud (reserve_BookingData (Data r)) target;
        return (case a of
            (releaseFailed, Some err) \<Rightarrow> Stop ((tally st)\<lparr>Holds := Holds (tally st) + 1, Errors := Errors (tally st) + 1,
              ReleaseFailed := ReleaseFailed (tally st) + (if releaseFailed then 1 else 0)\<rparr>)
          | (releaseFailed, None) \<Rightarrow> Again (st\<lparr>tally := (tally st)\<lparr>Holds := Holds (tally st) + 1\<rparr>, errorsSeen := 0\<rparr>))
      }) (\<lambda>n tr. counted (DryRun cfg) (Inr r) (tally st) tr (tally_of n))"
    by (intro effect_bind effect_conseq[OF effect_acceptHold] effect_return)
      (use b assms in \<open>auto simp: counted_def outcomes_def split: prod.split option.split\<close>)
qed

lemma counted_response:
  "effect (on_response env cfg ud target response st) (\<lambda>n tr. counted (DryRun cfg) response (tally st) tr (tally_of n))"
proof (cases response)
  case (Inl err)
  then have "hold_of response = None" by simp
  note c = counted_reactions[OF this]
  show ?thesis unfolding on_response_def
    by (simp add: Inl c[unfolded Inl] split: option.split)
next
  case (Inr r)
  show ?thesis
  proof (cases "Status r")
    case True
    then show ?thesis by (simp add: on_response_def Inr counted_success)
  next
    case False
    then have "hold_of response = None" by (simp add: Inr)
    note c = counted_reactions[OF this]
    show ?thesis unfolding on_response_def by (simp add: Inr False c[unfolded Inr])
  qed
qed


definition slot_ok :: "int \<Rightarrow> bool \<Rightarrow> run_event list \<Rightarrow> SlotTally \<Rightarrow> bool" where
  "slot_ok needed dry tr t \<longleftrightarrow>
     Polls t = int (length (filter is_reserve tr)) \<and> Holds t = int (length (filter is_hold tr))
   \<and> outcomes t \<le> Polls t \<and> Polls t \<le> outcomes t + Errors t \<and> Holds t \<le> max 0 needed
   \<and> 0 \<le> ReleaseFailed t \<and> (dry \<longrightarrow> \<not> list_ex is_enqueue tr)
   \<and> (\<forall>sd td r b. Reserve sd td r \<in> set tr \<longrightarrow> hold_of r = Some b \<longrightarrow> hold_settled b tr \<or> 0 < ReleaseFailed t)"

lemma quiet_no_hold: "quiet dry tr \<Longrightarrow> filter is_reserve tr = [] \<and> filter is_hold tr = []"
proof -
  have "is_hold ev \<Longrightarrow> is_reserve ev" for ev by (cases ev) auto
  then show "quiet dry tr \<Longrightarrow> filter is_reserve tr = [] \<and> filter is_hold tr = []"
    by (auto simp: quiet_def filter_empty_conv list_ex_iff)
qed

lemma quiet_no_reserve: "quiet dry tr \<Longrightarrow> Reserve sd td r \<notin> set tr"
  by (auto simp: quiet_def list_ex_iff)

lemma slot_ok_quiet:
  assumes "slot_ok needed dry tr0 t" "quiet dry tr"
  shows "slot_ok needed dry (tr0 @ tr) t"
proof -
  have "hold_settled b (tr0 @ tr) \<or> 0 < ReleaseFailed t" if "Reserve sd td r \<in> set (tr0 @ tr)" "hold_of r = Some b" for sd td r b
  proof -
    have "Reserve sd td r \<in> set tr0" using that(1) quiet_no_reserve[OF assms(2)] by auto
    then have "hold_settled b tr0 \<or> 0 < ReleaseFailed t" using assms(1) that(2) unfolding slot_ok_def by blast
    then show ?thesis using hold_settled_mono[of b tr0 "tr0 @ tr"] by auto
  qed
  then show ?thesis using assms quiet_no_hold[OF assms(2)] unfolding slot_ok_def by (auto simp: quiet_def)
qed

lemma slot_ok_poll:
  assumes "slot_ok needed dry tr0 t" "Holds t < needed" "counted dry r (t\<lparr>Polls := Polls t + 1\<rparr>) tr t'"
  shows "slot_ok needed dry (tr0 @ Reserve sd td r # tr) t'"
proof -
  note q = assms(3)[unfolded counted_def, THEN conjunct1]
  have n: "filter is_reserve (tr0 @ Reserve sd td r # tr) = filter is_reserve tr0 @ [Reserve sd td r]"
    "filter is_hold (tr0 @ Reserve sd td r # tr) = filter is_hold tr0 @ (if hold_of r = None then [] else [Reserve sd td r])"
    using quiet_no_hold[OF q] by auto
  have h: "hold_settled b (tr0 @ Reserve sd td r # tr) \<or> 0 < ReleaseFailed t'"
    if m: "Reserve sd' td' r' \<in> set (tr0 @ Reserve sd td r # tr)" and b: "hold_of r' = Some b" for sd' td' r' b
  proof -
    consider "Reserve sd' td' r' \<in> set tr0" | "r' = r" using m quiet_no_reserve[OF q] by auto
    then show ?thesis
    proof cases
      case 1
      then have "hold_settled b tr0 \<or> 0 < ReleaseFailed t" using assms(1) b unfolding slot_ok_def by blast
      then show ?thesis using assms(3) hold_settled_mono[of b tr0 "tr0 @ Reserve sd td r # tr"] by (auto simp: counted_def)
    next
      case 2
      then show ?thesis using assms(1,3) b hold_settled_mono[of b tr "tr0 @ Reserve sd td r # tr"] by (fastforce simp: counted_def slot_ok_def)
    qed
  qed
  have e: "dry \<longrightarrow> \<not> list_ex is_enqueue (tr0 @ Reserve sd td r # tr)"
    using assms(1) q by (auto simp: slot_ok_def quiet_def)
  show ?thesis
    using assms(1-3) h e unfolding slot_ok_def n
    by (auto simp: counted_def outcomes_def split: if_splits)
qed

lemma quiet_may_poll: "effect (may_poll env until) (\<lambda>_ tr. quiet dry tr)"
  unfolding may_poll_def waitForMaintenance_def
  by (intro effect_intros) (auto split: sum.split intro!: effect_intros)

lemma slot_ok_probe_loop:
  assumes "slot_ok (Needed target) (DryRun cfg) tr0 (tally st)"
  shows "effect (probe_loop env cfg ud target until n st)
    (\<lambda>r tr. \<forall>t. r = Some t \<longrightarrow> slot_ok (Needed target) (DryRun cfg) (tr0 @ tr) t)"
  using assms
proof (induction n arbitrary: st tr0)
  case (Suc n)
  show ?case unfolding probe_loop.simps
  proof (rule effect_if)
    assume "\<not> Holds (tally st) < Needed target"
    then show "effect (return (Some (tally st))) (\<lambda>r tr. \<forall>t. r = Some t \<longrightarrow> slot_ok (Needed target) (DryRun cfg) (tr0 @ tr) t)"
      using Suc.prems by simp
  next
    assume "\<not> \<not> Holds (tally st) < Needed target"
    then have less: "Holds (tally st) < Needed target" by simp
    show "effect (do { go \<leftarrow> may_poll env until;
        if \<not> go then return (Some (tally st))
        else do { next \<leftarrow> poll env cfg ud target st;
          case next of Stop t \<Rightarrow> return (Some t) | Again st' \<Rightarrow> probe_loop env cfg ud target until n st' } })
      (\<lambda>r tr. \<forall>t. r = Some t \<longrightarrow> slot_ok (Needed target) (DryRun cfg) (tr0 @ tr) t)"
    proof (rule effect_bind, rule effect_conseq[OF quiet_may_poll[where dry = "DryRun cfg"]], rule effect_if)
      fix go tr1 assume "quiet (DryRun cfg) tr1"
      then show "effect (return (Some (tally st))) (\<lambda>r tr. \<forall>t. r = Some t \<longrightarrow> slot_ok (Needed target) (DryRun cfg) (tr0 @ tr1 @ tr) t)"
        using slot_ok_quiet[OF Suc.prems] by simp
    next
      fix go tr1 assume q: "quiet (DryRun cfg) tr1"
      show "effect (do { next \<leftarrow> poll env cfg ud target st;
          case next of Stop t \<Rightarrow> return (Some t) | Again st' \<Rightarrow> probe_loop env cfg ud target until n st' })
        (\<lambda>r tr. \<forall>t. r = Some t \<longrightarrow> slot_ok (Needed target) (DryRun cfg) (tr0 @ tr1 @ tr) t)"
        unfolding poll_def bind_assoc
      proof (rule effect_bind, rule effect_invoke, rule effect_bind, rule effect_conseq[OF counted_response])
        fix r nx tr2
        let ?ev = "Reserve (SearchData (find_data st)) (TripData (find_data st)) r"
        assume "counted (DryRun cfg) r (tally (st\<lparr>tally := (tally st)\<lparr>Polls := Polls (tally st) + 1\<rparr>\<rparr>)) tr2 (tally_of nx)"
        then have ok: "slot_ok (Needed target) (DryRun cfg) (tr0 @ tr1 @ ?ev # tr2) (tally_of nx)"
          using slot_ok_poll[OF slot_ok_quiet[OF Suc.prems q] less, of r tr2 "tally_of nx"] by simp
        show "effect (case nx of Stop t \<Rightarrow> return (Some t) | Again st' \<Rightarrow> probe_loop env cfg ud target until n st')
          (\<lambda>r tr. \<forall>t. r = Some t \<longrightarrow> slot_ok (Needed target) (DryRun cfg) (tr0 @ tr1 @ [?ev] @ tr2 @ tr) t)"
          using ok Suc.IH by (cases nx) (auto dest: Suc.IH)
      qed
    qed
  qed
qed simp

text \<open>C17: The tally a slot ends with is exact: as many polls as Reserve requests, as many holds as KTMB
  granted, never more than the demand; every poll counted under one outcome, or an error, or both; every
  granted hold was queued for the buyer, recorded for release or cancelled, or the tally reports a failed
  release; and a dry run queues nothing for the buyer.\<close>

theorem probeSlot_accounts:
  "effect (probeSlot env cfg userData store target probeUntil fuel)
     (\<lambda>r tr. case r of None \<Rightarrow> True | Some t \<Rightarrow> slot_ok (Needed target) (DryRun cfg) tr t)"
proof -
  have z: "slot_ok (Needed target) (DryRun cfg) [] (slot_zero (Key target))"
    by (simp add: slot_ok_def slot_zero_def outcomes_def)
  have loop: "effect (probe_loop env cfg userData target probeUntil fuel
      \<lparr>tally = slot_zero (Key target), find_data = f, errorsSeen = 0, was_refreshed = False\<rparr>)
      (\<lambda>r tr. case r of None \<Rightarrow> True | Some t \<Rightarrow> slot_ok (Needed target) (DryRun cfg) (tr0 @ tr) t)"
    if "quiet (DryRun cfg) tr0" for f tr0
    by (rule effect_conseq[OF slot_ok_probe_loop[of target cfg tr0]])
      (use slot_ok_quiet[OF z that] in \<open>auto split: option.split\<close>)
  show ?thesis unfolding probeSlot_def
  proof (intro effect_if effect_bind effect_conseq[OF quiet_refreshSlot[where dry = "DryRun cfg"]] effect_case_sum)
    show "effect (probe_loop env cfg userData target probeUntil fuel
        \<lparr>tally = slot_zero (Key target), find_data = findSlot store (slot_of target), errorsSeen = 0, was_refreshed = False\<rparr>)
      (\<lambda>r tr. case r of None \<Rightarrow> True | Some t \<Rightarrow> slot_ok (Needed target) (DryRun cfg) tr t)"
      by (rule loop[OF quiet_simps(1), unfolded append_Nil])
  next
    fix tr e assume "quiet (DryRun cfg) tr"
    then show "effect (return (Some ((slot_zero (Key target))\<lparr>Errors := 1, Skipped := 1\<rparr>)))
      (\<lambda>r tr'. case r of None \<Rightarrow> True | Some t \<Rightarrow> slot_ok (Needed target) (DryRun cfg) (tr @ tr') t)"
      using quiet_no_hold[of "DryRun cfg" tr] quiet_no_reserve[of "DryRun cfg" tr]
      by (auto simp: slot_ok_def slot_zero_def outcomes_def quiet_def)
  qed (rule loop)
qed

section \<open>Maintenance\<close>

text \<open>Inside KTMB's maintenance window the prober waits for a 00:14:59 that lies ahead, at most an
  hour and a quarter away.\<close>

theorem maintenance_end_ahead:
  assumes "inMaintenance loc now"
  shows "now < maintenance_end loc now \<and> maintenance_end loc now - now \<le> 75 * minute
    \<and> hour_of loc (maintenance_end loc now) = 0 \<and> minute_of loc (maintenance_end loc now) = 14
    \<and> second_of loc (maintenance_end loc now) = 59"
proof -
  let ?s = "local_seconds loc now"
  let ?m = "((?s div 86400) * 86400 + 899 - loc) * nanos_per_second"
  have m: "date (fst (civil loc now)) (fst (snd (civil loc now))) (snd (snd (civil loc now))) 0 14 59 0 loc = ?m"
    by (simp add: date_of_day)
  have s: "?s = now div nanos_per_second + loc" by (simp add: local_seconds_def)
  have n: "now div nanos_per_second * nanos_per_second \<le> now" "now < now div nanos_per_second * nanos_per_second + nanos_per_second"
    using div_mult_mod_eq[of now nanos_per_second] pos_mod_bound[of nanos_per_second now] pos_mod_sign[of nanos_per_second now]
    by linarith+
  have d: "?s = ?s div 86400 * 86400 + ?s mod 86400" "0 \<le> ?s mod 86400" "?s mod 86400 < 86400" by simp_all
  have "82800 \<le> ?s mod 86400 \<or> ?s mod 86400 \<le> 895"
  proof -
    let ?r = "?s mod 86400"
    have r: "?r = 3600 * (?r div 3600) + ?s mod 3600" "?s mod 3600 = 60 * (?s mod 3600 div 60) + ?s mod 60"
      using mult_div_mod_eq[of 3600 ?r] mult_div_mod_eq[of 60 "?s mod 3600"] by (simp_all add: mod_mod_cancel)
    have b: "0 \<le> ?s mod 3600" "?s mod 60 < 60" by simp_all
    show ?thesis
    proof (cases "?r div 3600 = 23")
      case True
      then show ?thesis using r(1) b(1) by linarith
    next
      case False
      then have h: "?r div 3600 = 0" "?s mod 3600 div 60 < 14 \<or> ?s mod 3600 div 60 = 14 \<and> ?s mod 60 \<le> 55"
        using assms by (simp_all add: inMaintenance_def hour_of_def minute_of_def second_of_def)
      from h(2) have "?s mod 3600 \<le> 895" using r(2) b(2) by (elim disjE) linarith+
      then show ?thesis using r(1) h(1) by linarith
    qed
  qed
  have mq: "?m = now div nanos_per_second * nanos_per_second + (899 - ?s mod 86400) * nanos_per_second"
  proof -
    have "?s div 86400 * 86400 + 899 - loc = now div nanos_per_second + (899 - ?s mod 86400)" using d(1) s by linarith
    then show ?thesis by (simp only: distrib_right)
  qed
  from \<open>82800 \<le> ?s mod 86400 \<or> ?s mod 86400 \<le> 895\<close> have e: "\<exists>k. maintenance_end loc now = ((?s div 86400 + k) * 86400 + 899 - loc) * nanos_per_second
      \<and> now < maintenance_end loc now \<and> maintenance_end loc now - now \<le> 75 * minute"
  proof
    assume late: "82800 \<le> ?s mod 86400"
    then have l: "?m \<le> now" "now - ?m \<le> (86400 - 899) * nanos_per_second" "now \<le> ?m + 24 * hour - 1"
      using mq n d(3) by (simp_all add: hour_def minute_def second_def)
    have "now - ?m \<ge> (82800 - 899) * nanos_per_second" using mq n(1) late by simp
    then show ?thesis using l
      by (intro exI[of _ 1]) (simp add: maintenance_end_def m hour_def minute_def second_def algebra_simps)
  next
    assume early: "?s mod 86400 \<le> 895"
    then have "now < ?m" "?m - now \<le> 899 * nanos_per_second" using mq n d(2) early by simp_all
    then show ?thesis
      by (intro exI[of _ 0]) (simp add: maintenance_end_def m minute_def second_def)
  qed
  then obtain k where k: "maintenance_end loc now = ((?s div 86400 + k) * 86400 + 899 - loc) * nanos_per_second" by blast
  define x where "x = ?s div 86400 + k"
  have l: "local_seconds loc (maintenance_end loc now) = 899 + x * 86400"
    unfolding k local_seconds_def x_def by simp
  have "(899 + x * 86400) mod 3600 = 899" for x :: int
    using mod_mult_self1[of 899 "x * 24" 3600] by (simp add: mult.assoc)
  moreover have "(899 + x * 86400) mod 60 = 59" for x :: int
    using mod_mult_self1[of 899 "x * 1440" 60] by (simp add: mult.assoc)
  ultimately show ?thesis using e by (simp add: hour_of_def minute_of_def second_of_def l)
qed


theorem maintenance_end_ahead_witness:
  "maintenance_end 28800 (55800 * nanos_per_second) - 55800 * nanos_per_second \<le> 75 * minute"
proof -
  have "inMaintenance 28800 (55800 * nanos_per_second)" by (simp add: inMaintenance_def hour_of_def local_seconds_def)
  from maintenance_end_ahead[OF this] show ?thesis by blast
qed

section \<open>Releases\<close>

text \<open>What entitles the drain to forget a recorded hold.\<close>

definition release_over :: "'x runner_env \<Rightarrow> runner_config \<Rightarrow> string \<Rightarrow> run_event list \<Rightarrow> bool" where
  "release_over env cfg enc tr \<longleftrightarrow> (\<exists>e. rn_open env enc = Inl e) \<or>
     (\<exists>dto ud r. rn_open env enc = Inr dto \<and> Cancel ud (dto_BookingData dto) (Inr r) \<in> set tr
        \<and> (Status r \<or> Matches (Messages r) (ReleaseTerminalPatterns cfg)))"

fun is_cancel :: "run_event \<Rightarrow> bool" where
  "is_cancel (Cancel ud b r) = True"
| "is_cancel _ = False"

definition drain_ok :: "'x runner_env \<Rightarrow> runner_config \<Rightarrow> string list \<Rightarrow> int \<Rightarrow> run_event list \<Rightarrow> bool" where
  "drain_ok env cfg listed n tr \<longleftrightarrow> int (length (filter is_cancel tr)) \<le> max 0 n
     \<and> (\<forall>enc r. Remove_Release enc r \<in> set tr \<longrightarrow> enc \<in> set listed \<and> release_over env cfg enc tr)"

lemma release_over_mono: "release_over env cfg enc tr \<Longrightarrow> set tr \<subseteq> set tr' \<Longrightarrow> release_over env cfg enc tr'"
  unfolding release_over_def by blast

inductive entitles :: "'x runner_env \<Rightarrow> runner_config \<Rightarrow> string \<Rightarrow> run_event list \<Rightarrow> bool" for env cfg where
  unreadable: "rn_open env enc = Inl e \<Longrightarrow> entitles env cfg enc []"
| answered: "rn_open env enc = Inr dto \<Longrightarrow> Status r \<or> Matches (Messages r) (ReleaseTerminalPatterns cfg)
    \<Longrightarrow> entitles env cfg enc [Cancel ud (dto_BookingData dto) (Inr r)]"

inductive drain_run :: "'x runner_env \<Rightarrow> runner_config \<Rightarrow> string list \<Rightarrow> int \<Rightarrow> run_event list \<Rightarrow> bool" for env cfg where
  drain_end: "drain_run env cfg values n []"
| drain_over: "drain_run env cfg values n [Budget_Over b]"
| drain_removed: "0 < n \<Longrightarrow> entitles env cfg enc pre \<Longrightarrow> drain_run env cfg values (n - 1) tr
    \<Longrightarrow> drain_run env cfg (enc # values) n (Budget_Over b # pre @ Remove_Release enc (Inr ()) # tr)"
| drain_stuck: "0 < n \<Longrightarrow> entitles env cfg enc pre \<Longrightarrow> drain_run env cfg (enc # values) n (Budget_Over b # pre @ [Remove_Release enc (Inl e)])"
| drain_pending: "0 < n \<Longrightarrow> drain_run env cfg values (n - 1) tr \<Longrightarrow> drain_run env cfg (enc # values) n (Budget_Over b # Cancel ud bd r # tr)"
| drain_dead: "0 < n \<Longrightarrow> drain_run env cfg (enc # values) n [Budget_Over b, Cancel ud bd r, Signal_Dead f s]"

lemma entitles_cancels: "entitles env cfg enc pre \<Longrightarrow> length (filter is_cancel pre) \<le> 1 \<and> Remove_Release x r \<notin> set pre"
  by (induction rule: entitles.induct) auto

lemma entitles_over: "entitles env cfg enc pre \<Longrightarrow> set pre \<subseteq> set tr \<Longrightarrow> release_over env cfg enc tr"
  by (induction rule: entitles.induct) (auto simp: release_over_def)

lemma drain_run_ok: "drain_run env cfg values n tr \<Longrightarrow> drain_ok env cfg values n tr"
proof (induction rule: drain_run.induct)
  case (drain_removed n enc pre vs tr b)
  let ?tr = "Budget_Over b # pre @ Remove_Release enc (Inr ()) # tr"
  have "release_over env cfg enc ?tr" using drain_removed.hyps(2) by (rule entitles_over) auto
  moreover have "release_over env cfg x ?tr" if "release_over env cfg x tr" for x
    using that by (rule release_over_mono) auto
  moreover have "int (length (filter is_cancel pre)) \<le> 1" "\<And>x r. Remove_Release x r \<notin> set pre"
    using entitles_cancels[OF drain_removed.hyps(2)] by auto
  ultimately show ?case
    using drain_removed.hyps(1) drain_removed.IH by (auto simp: drain_ok_def)
next
  case (drain_stuck n enc pre vs b e)
  let ?tr = "Budget_Over b # pre @ [Remove_Release enc (Inl e)]"
  have "release_over env cfg enc ?tr" using drain_stuck(2) by (rule entitles_over) auto
  moreover have "int (length (filter is_cancel pre)) \<le> 1" "\<And>x r. Remove_Release x r \<notin> set pre"
    using entitles_cancels[OF drain_stuck(2)] by auto
  ultimately show ?case using drain_stuck(1) by (auto simp: drain_ok_def)
next
  case (drain_pending n vs tr enc b ud bd r)
  have "release_over env cfg x (Budget_Over b # Cancel ud bd r # tr)" if "release_over env cfg x tr" for x
    using that by (rule release_over_mono) auto
  then show ?case using drain_pending by (auto simp: drain_ok_def)
qed (auto simp: drain_ok_def)

text \<open>A drain's handling of one hold KTMB was asked to cancel, and how it goes on (\<open>k\<close>).\<close>

abbreviation after_cancel :: "'x runner_env \<Rightarrow> runner_config \<Rightarrow> string \<Rightarrow> string \<Rightarrow> unit GenericRes result \<Rightarrow> ('x, unit result) run \<Rightarrow> ('x, unit result) run" where
  "after_cancel env cfg enc ud response k \<equiv>
     (if (case response of Inl _ \<Rightarrow> False | Inr r \<Rightarrow> Status r)
      then on_ok (invoke (rn_remove env enc) (Remove_Release enc)) (\<lambda>_. k)
      else if session_rejected cfg response
      then State_Monad.bind (invoke (rn_signal env (rn_fingerprint env ud)) (Signal_Dead (rn_fingerprint env ud))) (\<lambda>_. return (Inr ()))
      else if (case response of Inl _ \<Rightarrow> False | Inr r \<Rightarrow> Matches (Messages r) (ReleaseTerminalPatterns cfg))
      then on_ok (invoke (rn_remove env enc) (Remove_Release enc)) (\<lambda>_. k)
      else k)"

lemma effect_remove:
  assumes "effect k (\<lambda>_ tr. drain_run env cfg vs (n - 1) tr)" "entitles env cfg enc pre" "0 < n"
  shows "effect (on_ok (invoke (rn_remove env enc) (Remove_Release enc)) (\<lambda>_. k))
    (\<lambda>_ tr. drain_run env cfg (enc # vs) n ((Budget_Over b # pre) @ tr))"
  by (intro effect_on_ok effect_invoke)
    (use assms in \<open>auto split: sum.split intro: drain_stuck intro!: effect_conseq[OF assms(1)] drain_removed\<close>)

lemma effect_after_cancel:
  assumes "effect k (\<lambda>_ tr. drain_run env cfg vs (n - 1) tr)" "rn_open env enc = Inr dto" "0 < n"
  shows "effect (after_cancel env cfg enc ud response k)
    (\<lambda>_ tr. drain_run env cfg (enc # vs) n ([Budget_Over b] @ [Cancel ud (dto_BookingData dto) response] @ tr))"
proof -
  have rm: "effect (on_ok (invoke (rn_remove env enc) (Remove_Release enc)) (\<lambda>_. k))
      (\<lambda>_ tr. drain_run env cfg (enc # vs) n ([Budget_Over b] @ [Cancel ud (dto_BookingData dto) response] @ tr))"
    if "response = Inr r" "Status r \<or> Matches (Messages r) (ReleaseTerminalPatterns cfg)" for r
    using effect_remove[OF assms(1) answered[OF assms(2) that(2), of ud] assms(3), of b] that(1) by simp
  show ?thesis
  proof (intro effect_if effect_bind effect_invoke effect_return)
    assume "case response of Inl _ \<Rightarrow> False | Inr r \<Rightarrow> Status r"
    then show "effect (on_ok (invoke (rn_remove env enc) (Remove_Release enc)) (\<lambda>_. k))
      (\<lambda>_ tr. drain_run env cfg (enc # vs) n ([Budget_Over b] @ [Cancel ud (dto_BookingData dto) response] @ tr))"
      using rm by (auto split: sum.splits)
  next
    assume "case response of Inl _ \<Rightarrow> False | Inr r \<Rightarrow> Matches (Messages r) (ReleaseTerminalPatterns cfg)"
    then show "effect (on_ok (invoke (rn_remove env enc) (Remove_Release enc)) (\<lambda>_. k))
      (\<lambda>_ tr. drain_run env cfg (enc # vs) n ([Budget_Over b] @ [Cancel ud (dto_BookingData dto) response] @ tr))"
      using rm by (auto split: sum.splits)
  qed (use drain_dead[OF assms(3)] drain_pending[OF assms(3)] in \<open>auto intro!: effect_conseq[OF assms(1)]\<close>)
qed

lemma effect_drain:
  "effect (drain env cfg ud index values) (\<lambda>_ tr. drain_run env cfg values (drain_limit cfg - index) tr)"
proof (induction "values" arbitrary: index)
  case (Cons enc vs)
  have IH: "effect (drain env cfg ud (index + 1) vs) (\<lambda>_ tr. drain_run env cfg vs (drain_limit cfg - index - 1) tr)"
    using Cons.IH[of "index + 1"] by (simp add: diff_diff_eq)
  let ?u = "\<lambda>dto. if ud \<noteq> [] then ud else dto_UserData dto"
  let ?n = "drain_limit cfg - index"
  show ?case
  proof (cases "0 < ?n")
    case n: True
    have "effect (case rn_open env enc of
          Inl decryptErr \<Rightarrow> on_ok (invoke (rn_remove env enc) (Remove_Release enc)) (\<lambda>_. drain env cfg ud (index + 1) vs)
        | Inr dto \<Rightarrow> State_Monad.bind (invoke (rn_cancel env (?u dto) (dto_BookingData dto)) (Cancel (?u dto) (dto_BookingData dto)))
            (\<lambda>response. after_cancel env cfg enc (?u dto) response (drain env cfg ud (index + 1) vs)))
        (\<lambda>_ tr. drain_run env cfg (enc # vs) ?n ([Budget_Over b] @ tr))" for b
    proof (rule effect_case_sum)
      fix e assume "rn_open env enc = Inl e"
      from effect_remove[OF IH unreadable[OF this] n, of b] show "effect (on_ok (invoke (rn_remove env enc) (Remove_Release enc)) (\<lambda>_. drain env cfg ud (index + 1) vs))
        (\<lambda>_ tr. drain_run env cfg (enc # vs) ?n ([Budget_Over b] @ tr))" by simp
    qed (intro effect_bind effect_invoke effect_after_cancel[OF IH _ n])
    then show ?thesis using n
      by (auto intro!: effect_bind effect_invoke effect_if intro: drain_over)
  qed (simp add: drain_end)
qed (simp add: drain_end)

definition drains_listed :: "'x runner_env \<Rightarrow> runner_config \<Rightarrow> run_event list \<Rightarrow> bool" where
  "drains_listed env cfg tr \<longleftrightarrow> (\<exists>r rest. tr = List_Releases (drain_limit cfg) r # rest
     \<and> drain_ok env cfg (case r of Inl _ \<Rightarrow> [] | Inr values \<Rightarrow> values) (drain_limit cfg) rest)"

text \<open>C18: A drain forgets only holds it listed, each one only when its entry cannot be opened, or KTMB
  confirmed the cancellation of that booking or answered that it is over; and it asks KTMB to cancel at
  most as many as the configured limit.\<close>

theorem drainReleases_entitled: "effect (drainReleases env cfg ud) (\<lambda>_ tr. drains_listed env cfg tr)"
  unfolding drainReleases_def
  by (intro effect_on_ok effect_invoke)
    (auto simp: drains_listed_def drain_ok_def[of _ _ "[]"] split: sum.split
      intro!: effect_conseq[OF effect_drain[where index = 0, simplified]] drain_run_ok)

section \<open>The Job ends\<close>

text \<open>A procedure after which the clock shows at least \<open>d\<close> more.\<close>

definition takes :: "('x \<Rightarrow> int) \<Rightarrow> duration \<Rightarrow> ('x, 'e, 'a) proc \<Rightarrow> bool" where
  "takes clock d p \<longleftrightarrow> (\<forall>w. clock (ext w) + d \<le> clock (ext (snd (run_state p w))))"

lemma takes_return [simp]: "takes clock d (return a) \<longleftrightarrow> d \<le> 0"
  by (simp add: takes_def)

lemma takes_invoke: "(\<And>x. clock x + d \<le> clock (snd (f x))) \<Longrightarrow> takes clock d (invoke f ev)"
  by (simp add: takes_def)

lemma takes_bind: "takes clock d p \<Longrightarrow> (\<And>a. takes clock 0 (f a)) \<Longrightarrow> takes clock d (p \<bind> f)"
  by (auto simp: takes_def split: prod.split) (metis add.right_neutral order_trans snd_conv)

lemma takes_run: "takes clock d p \<Longrightarrow> run_state p w = (a, w') \<Longrightarrow> clock (ext w) + d \<le> clock (ext w')"
  by (auto simp: takes_def dest: spec[of _ w])

text \<open>Time does not run backwards over a call of the Job, and a Reserve request takes some time.\<close>

record 'x clock_laws =
  reading :: "'x \<Rightarrow> instant"
  at_least :: duration

definition clocked :: "'x clock_laws \<Rightarrow> 'x runner_env \<Rightarrow> bool" where
  "clocked c env \<longleftrightarrow> 0 < at_least c
     \<and> (\<forall>x. fst (rn_now env x) = reading c x \<and> reading c x \<le> reading c (snd (rn_now env x)))
     \<and> (\<forall>x. reading c x \<le> reading c (snd (rn_done env x)))
     \<and> (\<forall>d x. reading c x \<le> reading c (snd (rn_sleep env d x)))
     \<and> (\<forall>d t x. reading c x \<le> reading c (snd (rn_wait env d t x)))
     \<and> (\<forall>u s t x. reading c x + at_least c \<le> reading c (snd (rn_reserve env u s t x)))
     \<and> (\<forall>u b x. reading c x \<le> reading c (snd (rn_cancel env u b x)))
     \<and> (\<forall>u t x. reading c x \<le> reading c (snd (rn_refresh env u t x)))
     \<and> (\<forall>d x. reading c x \<le> reading c (snd (rn_seal env d x)))
     \<and> (\<forall>e x. reading c x \<le> reading c (snd (rn_enqueue env e x)))
     \<and> (\<forall>e x. reading c x \<le> reading c (snd (rn_persist env e x)))
     \<and> (\<forall>f x. reading c x \<le> reading c (snd (rn_signal env f x)))
     \<and> (\<forall>x. reading c x \<le> reading c (snd (rn_cancel_epoch env x)))"

lemma takes_if: "takes c d p \<Longrightarrow> takes c d q \<Longrightarrow> takes c d (if b then p else q)"
  by simp

lemma takes_case_sum: "(\<And>e. takes c d (f e)) \<Longrightarrow> (\<And>a. takes c d (g a)) \<Longrightarrow> takes c d (case r of Inl e \<Rightarrow> f e | Inr a \<Rightarrow> g a)"
  by (cases r) auto

lemmas takes_intros = takes_if takes_case_sum takes_bind takes_invoke

lemma takes_acceptHold:
  assumes ok: "clocked c env"
  shows "takes (reading c) 0 (acceptHold env cfg ud b target)"
  unfolding acceptHold_def compensateHold_def Let_def
  by (intro takes_intros) (use ok in \<open>auto simp: clocked_def\<close>)

lemma takes_response: 
  assumes "clocked c env"
  shows "takes (reading c) 0 (on_response env cfg ud target response st)"
proof -
  have "takes (reading c) 0 (on_session_dead env ud st)" "takes (reading c) 0 (on_stale env ud target st)" 
    "takes (reading c) 0 (on_rate_limit st)" "takes (reading c) 0 (on_sold_out env cfg st)" 
    "takes (reading c) 0 (on_error env cfg st)" "takes (reading c) 0 (on_success env cfg ud target b st)" for b
    unfolding on_session_dead_def on_stale_def on_rate_limit_def on_sold_out_def on_error_def on_success_def
      markSessionDead_def refreshSlot_def sleepContext_def
    by ((intro takes_intros takes_acceptHold[OF assms])?; use assms in \<open>simp add: clocked_def\<close>)+
  then show ?thesis unfolding on_response_def by (auto split: sum.split option.split)
qed


lemma takes_poll:
  assumes "clocked c env"
  shows "takes (reading c) (at_least c) (poll env cfg ud target st)"
  unfolding poll_def
  by (intro takes_bind takes_invoke takes_response[OF assms]) (use assms in \<open>simp add: clocked_def\<close>)

lemma takes_may_poll:
  assumes "clocked c env"
  shows "takes (reading c) 0 (may_poll env probeUntil)"
  unfolding may_poll_def waitForMaintenance_def
  by (intro takes_intros takes_return[THEN iffD2]) (use assms in \<open>simp_all add: clocked_def\<close>)

lemma may_poll_over:
  assumes "clocked c env" "probeUntil \<le> reading c (ext w)"
  shows "fst (run_state (may_poll env probeUntil) w) = False"
  using assms by (simp add: may_poll_def clocked_def)

lemma probe_loop_ends:
  assumes "clocked c env" "probeUntil \<le> reading c (ext w) + int n * at_least c"
  shows "fst (run_state (probe_loop env cfg ud target probeUntil (Suc n) st) w) \<noteq> None"
  using assms(2)
proof (induction n arbitrary: st w)
  case 0
  then show ?case using may_poll_over[OF assms(1), of probeUntil w]
    by (auto split: prod.split)
next
  case (Suc n)
  obtain go w1 where 1: "run_state (may_poll env probeUntil) w = (go, w1)" by fastforce
  obtain nx w2 where 2: "run_state (poll env cfg ud target st) w1 = (nx, w2)" by fastforce
  have "reading c (ext w) + at_least c \<le> reading c (ext w2)"
    using takes_run[OF takes_may_poll[OF assms(1)] 1] takes_run[OF takes_poll[OF assms(1)] 2] by simp
  then have "probeUntil \<le> reading c (ext w2) + int n * at_least c"
    using Suc.prems by (simp add: algebra_simps)
  from Suc.IH[OF this] show ?case
    by (subst probe_loop.simps) (simp add: 1 2 split: probe_next.split)
qed

text \<open>C19: When the clock does not run backwards and every Reserve request takes some time, the probing of a
  slot ends: fuel for one poll more than fit into the time left always gives a tally.\<close>

theorem probeSlot_ends:
  assumes "clocked c env" "probeUntil \<le> reading c x + int n * at_least c"
  shows "outcome (probeSlot env cfg userData store target probeUntil (Suc n)) x \<noteq> None"
proof -
  obtain r w where r: "run_state (refreshSlot env userData target) (fresh_world x) = (r, w)" by fastforce
  have "takes (reading c) 0 (refreshSlot env userData target)"
    unfolding refreshSlot_def by (intro takes_bind takes_invoke) (use assms(1) in \<open>simp_all add: clocked_def\<close>)
  from takes_run[OF this r] have "reading c x \<le> reading c (ext w)" by (simp add: fresh_world_def)
  then have w: "probeUntil \<le> reading c (ext w) + int n * at_least c" using assms(2) by simp
  have x: "probeUntil \<le> reading c (ext (fresh_world x)) + int n * at_least c" using assms(2) by (simp add: fresh_world_def)
  show ?thesis
    using probe_loop_ends[OF assms(1) x] probe_loop_ends[OF assms(1) w] 
    by (auto simp: probeSlot_def outcome_def r simp del: probe_loop.simps split: sum.split)
qed

text \<open>A world whose only state is the clock: KTMB fails each request after a second.\<close>

definition busy :: "int runner_env" where
  "busy = \<lparr>rn_now = \<lambda>x. (x, x), rn_done = \<lambda>x. (False, x), rn_sleep = \<lambda>d x. (True, x + max 0 d), rn_wait = \<lambda>d t x. (Inr (), max x t),
     rn_location = 28800, rn_reserve = \<lambda>u s t x. (Inl (Msg ''timeout''), x + second), rn_cancel = \<lambda>u b x. (Inl (Msg ''timeout''), x),
     rn_load = \<lambda>x. (Inl (Msg ''down''), x), rn_refresh = \<lambda>u t x. (Inl (Msg ''down''), x), rn_seal = \<lambda>d x. (Inl (Msg ''down''), x),
     rn_open = \<lambda>e. Inl (Msg ''down''), rn_enqueue = \<lambda>e x. (Inr (), x), rn_persist = \<lambda>e x. (Inr (), x), rn_list = \<lambda>n x. (Inr [], x),
     rn_remove = \<lambda>e x. (Inr (), x), rn_signal = \<lambda>f x. (Inr (), x), rn_fingerprint = \<lambda>s. s, rn_cancel_epoch = \<lambda>x. ((), x),
     rn_expired = \<lambda>x. (False, x), rn_write_tally = \<lambda>t x. (Inr (), x)\<rparr>"

lemma clocked_busy: "clocked \<lparr>reading = \<lambda>x. x, at_least = second\<rparr> busy"
  by (simp add: clocked_def busy_def second_def)

theorem probeSlot_ends_witness:
  "\<forall>cfg userData store target. outcome (probeSlot busy cfg userData store target (10 * second) 11) 0 \<noteq> None"
proof (intro allI)
  fix cfg userData store target
  have "10 * second \<le> reading \<lparr>reading = \<lambda>x. x, at_least = second\<rparr> 0 + int 10 * at_least \<lparr>reading = \<lambda>x. x, at_least = second\<rparr>"
    by simp
  from probeSlot_ends[OF clocked_busy this] show "outcome (probeSlot busy cfg userData store target (10 * second) 11) 0 \<noteq> None" by simp
qed

end
