(* ===== verification/Retry.thy ===== *)
theory Retry
  imports Go_Time
begin

text \<open>
  retryBackoff of lib/buyer/client.go: an operation is tried at least once and at most \<open>retries\<close> times, with
  a doubling pause before each further try. The pause is a parameter; the delays are below the
  overflow of an int64 for the configured numbers of tries. \<open>supervise\<close> is the loop that Start of the buyer, the terminator, the
  CDC and the reserver's syncers share: a round that fails is repeated after a doubling pause, and
  the service gives up after \<open>BackoffLimit\<close> failures in a row. It runs on fuel, one unit a round; it has no result
  when the fuel is out or a round panics.
\<close>

definition baseDelay :: duration where
  "baseDelay = second"

fun retry_loop :: "(duration \<Rightarrow> ('x, 'e, unit) proc) \<Rightarrow> (int \<Rightarrow> ('x, 'e, unit result) proc) \<Rightarrow> int \<Rightarrow> nat \<Rightarrow> unit result
    \<Rightarrow> ('x, 'e, unit result) proc" where
  "retry_loop pause attempt_op attempt 0 lastErr = return lastErr"
| "retry_loop pause attempt_op attempt (Suc n) lastErr = do {
     (if attempt > 0 then pause (2 ^ nat (attempt - 1) * baseDelay) else return ());
     r \<leftarrow> attempt_op attempt;
     case r of
       Inr _ \<Rightarrow> return (Inr ())
     | Inl e \<Rightarrow> retry_loop pause attempt_op (attempt + 1) n (Inl e)
   }"

definition retryBackoff :: "(duration \<Rightarrow> ('x, 'e, unit) proc) \<Rightarrow> int \<Rightarrow> (int \<Rightarrow> ('x, 'e, unit result) proc) \<Rightarrow> ('x, 'e, unit result) proc" where
  "retryBackoff pause retries attempt_op = retry_loop pause attempt_op 0 (nat (if retries < 1 then 1 else retries)) (Inr ())"

text \<open>
  What a retried operation relies on: a pause logs only pauses, and a try logs the events of a try
  and succeeds as the log says. In return, the retry as a whole logs only pauses and tries, succeeds
  exactly when one of them did, and only the last one can have.
\<close>

locale retried =
  fixes pause :: "duration \<Rightarrow> ('x, 'e, unit) proc"
    and attempt_op :: "int \<Rightarrow> ('x, 'e, unit result) proc"
    and is_pause :: "'e \<Rightarrow> bool"
    and tried :: "'e \<Rightarrow> unit result \<Rightarrow> bool"
  assumes pause_effect: "effect (pause d) (\<lambda>_ tr. list_all is_pause tr)"
    and try_effect: "effect (attempt_op n) (\<lambda>r tr. \<exists>ev. tr = [ev] \<and> tried ev r)"
    and pause_not_tried: "is_pause ev \<Longrightarrow> \<not> tried ev r"
begin

inductive retry_run :: "nat \<Rightarrow> unit result \<Rightarrow> 'e list \<Rightarrow> bool" where
  retry_success: "list_all is_pause ps \<Longrightarrow> tried ev (Inr ()) \<Longrightarrow> retry_run (Suc n) (Inr ()) (ps @ [ev])"
| retry_last: "list_all is_pause ps \<Longrightarrow> tried ev (Inl e) \<Longrightarrow> retry_run (Suc 0) (Inl e) (ps @ [ev])"
| retry_again: "list_all is_pause ps \<Longrightarrow> tried ev (Inl e) \<Longrightarrow> retry_run (Suc n) r tr \<Longrightarrow> retry_run (Suc (Suc n)) r (ps @ ev # tr)"

lemma effect_try:
  assumes "\<And>ps ev e. list_all is_pause ps \<Longrightarrow> tried ev (Inl e) \<Longrightarrow> effect (k e) (\<lambda>r tr. retry_run (Suc n) r (ps @ ev # tr))"
    and "effect p (\<lambda>_ tr. list_all is_pause tr)"
  shows "effect (do { p; r \<leftarrow> attempt_op a; case r of Inr _ \<Rightarrow> return (Inr ()) | Inl e \<Rightarrow> k e }) (retry_run (Suc n))"
proof (rule effect_bind, rule effect_conseq[OF assms(2)], rule effect_bind, rule effect_conseq[OF try_effect], elim exE conjE)
  fix ps r tr ev assume "list_all is_pause ps" "tr = [ev]" "tried ev r"
  then show "effect (case r of Inr _ \<Rightarrow> return (Inr ()) | Inl e \<Rightarrow> k e) (\<lambda>b tr'. retry_run (Suc n) b (ps @ tr @ tr'))"
    using assms(1) retry_success by (auto split: sum.split)
qed

lemma effect_retry_loop: "effect (retry_loop pause attempt_op a (Suc n) le) (retry_run (Suc n))"
proof (induction n arbitrary: a le)
  case 0
  show ?case unfolding retry_loop.simps
    by (rule effect_try) (auto intro: retry_last pause_effect)
next
  case (Suc n)
  show ?case
  proof (subst retry_loop.simps, rule effect_try)
    fix ps ev e assume "list_all is_pause ps" "tried ev (Inl e)"
    then show "effect (retry_loop pause attempt_op (a + 1) (Suc n) (Inl e)) (\<lambda>r tr. retry_run (Suc (Suc n)) r (ps @ ev # tr))"
      by (intro effect_conseq[OF Suc.IH] retry_again)
  qed (auto intro: pause_effect)
qed

lemma effect_retryBackoff: "effect (retryBackoff pause retries attempt_op) (retry_run (nat (max 1 retries)))"
proof -
  have "nat (if retries < 1 then 1 else retries) = Suc (nat (max 1 retries) - 1)" "nat (max 1 retries) = Suc (nat (max 1 retries) - 1)" by auto
  then show ?thesis unfolding retryBackoff_def using effect_retry_loop by metis
qed

lemma retry_run_last:
  "retry_run n r tr \<Longrightarrow> \<exists>pre ev. tr = pre @ [ev] \<and> tried ev r \<and> (\<forall>e \<in> set pre. is_pause e \<or> (\<exists>err. tried e (Inl err)))"
proof (induction rule: retry_run.induct)
  case (retry_again ps ev e n r tr)
  then obtain pre ev' where "tr = pre @ [ev']" "tried ev' r" "\<forall>e \<in> set pre. is_pause e \<or> (\<exists>err. tried e (Inl err))" by blast
  then show ?case using retry_again.hyps by (intro exI[of _ "ps @ ev # pre"] exI[of _ ev']) (auto simp: list_all_iff)
qed (auto simp: list_all_iff)

lemma retry_run_events: "retry_run n r tr \<Longrightarrow> list_all (\<lambda>ev. is_pause ev \<or> (\<exists>r. tried ev r)) tr"
  by (induction rule: retry_run.induct) (auto simp: list_all_iff)

lemma pauses_no_try: "list_all is_pause ps \<Longrightarrow> filter (\<lambda>ev. \<exists>r. tried ev r) ps = []"
  by (auto simp: list_all_iff filter_empty_conv dest: pause_not_tried)

lemma retry_run_count: "retry_run n r tr \<Longrightarrow> length (filter (\<lambda>ev. \<exists>r. tried ev r) tr) \<le> n"
  by (induction rule: retry_run.induct) (auto simp: pauses_no_try)

lemma effect_retry:
  "effect (retryBackoff pause retries attempt_op) (\<lambda>r tr. list_all (\<lambda>ev. is_pause ev \<or> (\<exists>r. tried ev r)) tr
     \<and> (\<exists>ev \<in> set tr. tried ev r) \<and> length (filter (\<lambda>ev. \<exists>r. tried ev r) tr) \<le> nat (max 1 retries))"
  by (rule effect_conseq[OF effect_retryBackoff]) (use retry_run_last retry_run_events retry_run_count in fastforce)

end


section \<open>Supervising a loop\<close>

fun supervise :: "(duration \<Rightarrow> ('x, 'e, unit) proc) \<Rightarrow> ('x, 'e, (bool \<times> error option) option) proc \<Rightarrow> int \<Rightarrow> nat \<Rightarrow> int
    \<Rightarrow> ('x, 'e, unit result option) proc" where
  "supervise pause loop maxCounter 0 errorCounter = return None"
| "supervise pause loop maxCounter (Suc n) errorCounter = do {
     r \<leftarrow> loop;
     case r of
       None \<Rightarrow> return None
     | Some round \<Rightarrow> (case snd round of
           Some e \<Rightarrow>
             if errorCounter \<ge> maxCounter then return (Some (Inl e))
             else do {
               pause (2 ^ nat errorCounter * baseDelay);
               if fst round then return (Some (Inr ())) else supervise pause loop maxCounter n (errorCounter + 1)
             }
         | None \<Rightarrow> if fst round then return (Some (Inr ())) else supervise pause loop maxCounter n 0)
   }"

text \<open>Giving up means that the last rounds, one more than the limit, all failed.\<close>

definition gave_up :: "int \<Rightarrow> int \<Rightarrow> (bool \<times> error option) list \<Rightarrow> bool" where
  "gave_up maxCounter errorCounter rounds \<longleftrightarrow> (\<exists>pre suf. rounds = pre @ suf \<and> list_all (\<lambda>r. snd r \<noteq> None) suf
     \<and> (int (length suf) = max 0 maxCounter + 1 \<or> pre = [] \<and> int (length suf) = max 0 (maxCounter - errorCounter) + 1))"

definition supervised :: "('e \<Rightarrow> (bool \<times> error option) option) \<Rightarrow> int \<Rightarrow> int \<Rightarrow> unit result option \<Rightarrow> 'e list \<Rightarrow> bool" where
  "supervised round maxCounter errorCounter r tr \<longleftrightarrow>
     (\<forall>e. r = Some (Inl e) \<longrightarrow> gave_up maxCounter errorCounter (List.map_filter round tr)
        \<and> snd (last (List.map_filter round tr)) = Some e)
   \<and> (r = Some (Inr ()) \<longrightarrow> List.map_filter round tr \<noteq> [] \<and> fst (last (List.map_filter round tr)))"

lemma gave_up_suffix:
  "list_all (\<lambda>r. snd r \<noteq> None) suf \<Longrightarrow> int (length suf) = max 0 m + 1 \<Longrightarrow> gave_up m c (pre @ suf)"
  "list_all (\<lambda>r. snd r \<noteq> None) suf \<Longrightarrow> int (length suf) = max 0 (m - c) + 1 \<Longrightarrow> gave_up m c suf"
  unfolding gave_up_def by blast+

lemma gave_up_again:
  assumes "gave_up m (c + 1) rs" "0 \<le> c" "c < m"
  shows "gave_up m c ((b, Some e) # rs)"
proof -
  from assms(1) obtain pre suf where p: "rs = pre @ suf" "list_all (\<lambda>r. snd r \<noteq> None) suf"
    "int (length suf) = max 0 m + 1 \<or> pre = [] \<and> int (length suf) = max 0 (m - (c + 1)) + 1"
    unfolding gave_up_def by blast
  show ?thesis
  proof (cases "int (length suf) = max 0 m + 1")
    case True
    show ?thesis using gave_up_suffix(1)[OF p(2) True, of c "(b, Some e) # pre"] p(1) by simp
  next
    case False
    then have "int (length ((b, Some e) # suf)) = max 0 (m - c) + 1" "rs = suf" using p assms(2,3) by auto
    then show ?thesis using gave_up_suffix(2)[of "(b, Some e) # suf" m c] p(2) by simp
  qed
qed

lemma gave_up_anew:
  assumes "gave_up m 0 rs" shows "gave_up m c (x # rs)"
proof -
  from assms obtain pre suf where p: "rs = pre @ suf" "list_all (\<lambda>r. snd r \<noteq> None) suf" "int (length suf) = max 0 m + 1"
    unfolding gave_up_def by auto
  then show ?thesis using gave_up_suffix(1)[of suf m c "x # pre"] by simp
qed

lemma gave_up_not_Nil: "gave_up m c rs \<Longrightarrow> rs \<noteq> []"
  by (auto simp: gave_up_def)

lemma effect_supervise:
  fixes round :: "'e \<Rightarrow> (bool \<times> error option) option"
  assumes "\<And>d. effect (pause d) (\<lambda>_ tr. List.map_filter round tr = [])"
    and "effect loop (\<lambda>r tr. List.map_filter round tr = (case r of None \<Rightarrow> [] | Some b \<Rightarrow> [b]))"
    and "0 \<le> errorCounter"
  shows "effect (supervise pause loop maxCounter fuel errorCounter) (supervised round maxCounter errorCounter)"
  using assms(3)
proof (induction fuel arbitrary: errorCounter)
  case (Suc n)
  show ?case unfolding supervise.simps
  proof (rule effect_bind, rule effect_conseq[OF assms(2)], rule effect_case_option, simp add: supervised_def, rule effect_case_option)
    fix r tr b assume r: "List.map_filter round tr = (case r of None \<Rightarrow> [] | Some b \<Rightarrow> [b])" "r = Some b" "snd b = None"
    show "effect (if fst b then return (Some (Inr ())) else supervise pause loop maxCounter n 0)
      (\<lambda>r tr'. supervised round maxCounter errorCounter r (tr @ tr'))"
      by (rule effect_if, simp add: supervised_def r)
        (rule effect_conseq[OF Suc.IH], auto simp: supervised_def r dest: gave_up_not_Nil intro: gave_up_anew)
  next
    fix r tr b e assume "List.map_filter round tr = (case r of None \<Rightarrow> [] | Some b \<Rightarrow> [b])" "r = Some b" "snd b = Some e"
    then obtain sh where r: "List.map_filter round tr = [(sh, Some e)]" and b: "b = (sh, Some e)" by (cases b) auto
    have again: "gave_up maxCounter errorCounter ((sh, Some e) # rs)" if "gave_up maxCounter (errorCounter + 1) rs" "errorCounter < maxCounter" for rs
      using gave_up_again that Suc.prems by blast
    show "effect (if errorCounter \<ge> maxCounter then return (Some (Inl e))
         else do { pause (2 ^ nat errorCounter * baseDelay);
           if fst b then return (Some (Inr ())) else supervise pause loop maxCounter n (errorCounter + 1) })
      (\<lambda>r tr'. supervised round maxCounter errorCounter r (tr @ tr'))"
    proof (rule effect_if)
      assume "errorCounter \<ge> maxCounter"
      then have "gave_up maxCounter errorCounter [(sh, Some e)]" by (intro gave_up_suffix(2)) auto
      then show "effect (return (Some (Inl e))) (\<lambda>r tr'. supervised round maxCounter errorCounter r (tr @ tr'))"
        by (simp add: supervised_def r)
    next
      assume c: "\<not> errorCounter \<ge> maxCounter"
      show "effect (do { pause (2 ^ nat errorCounter * baseDelay);
           if fst b then return (Some (Inr ())) else supervise pause loop maxCounter n (errorCounter + 1) })
        (\<lambda>r tr'. supervised round maxCounter errorCounter r (tr @ tr'))"
      proof (rule effect_bind, rule effect_conseq[OF assms(1)], rule effect_if)
        fix ps :: "'e list" assume "List.map_filter round ps = []" "fst b"
        then show "effect (return (Some (Inr ()))) (\<lambda>r tr'. supervised round maxCounter errorCounter r (tr @ ps @ tr'))"
          by (simp add: supervised_def r b)
      next
        fix ps :: "'e list" assume p: "List.map_filter round ps = []"
        show "effect (supervise pause loop maxCounter n (errorCounter + 1)) (\<lambda>r tr'. supervised round maxCounter errorCounter r (tr @ ps @ tr'))"
          by (rule effect_conseq[OF Suc.IH]) 
            (use Suc.prems c again in \<open>auto simp: supervised_def r p dest: gave_up_not_Nil\<close>)
      qed
    qed
  qed
qed (simp add: supervised_def)

lemma effect_supervise_closed:
  assumes "\<And>d. effect (pause d) (\<lambda>_. Q)" "effect round (\<lambda>_. Q)" "Q []" "\<And>tr tr'. Q tr \<Longrightarrow> Q tr' \<Longrightarrow> Q (tr @ tr')"
  shows "effect (supervise pause round limit n c) (\<lambda>_. Q)"
proof (induction n arbitrary: c)
  case (Suc n)
  have p: "effect (pause d) (\<lambda>_. Q)" for d using assms(1) .
  show ?case unfolding supervise.simps
    by (rule effect_bind, rule effect_conseq[OF assms(2)],
        intro effect_case_option effect_return effect_if effect_bind effect_conseq[OF p] effect_conseq[OF Suc.IH])
      (simp_all add: assms(3,4))
qed (simp add: assms(3))

fun round_of :: "duration + (bool \<times> error option) option \<Rightarrow> (bool \<times> error option) option" where
  "round_of (Inl d) = None"
| "round_of (Inr r) = r"

text \<open>A supervised service, its rounds and pauses taken as single events, gives up with an error only
  after one more failed rounds in a row than its backoff limit, and with the error of the last of them; it ends
  without an error only after a round that asks it to exit.\<close>

theorem supervise_gives_up:
  "effect (supervise (\<lambda>d. invoke (rest d) (\<lambda>_. Inl d)) (invoke service Inr) maxCounter fuel 0)
     (\<lambda>r tr. (\<forall>e. r = Some (Inl e) \<longrightarrow> (\<exists>pre suf. List.map_filter round_of tr = pre @ suf
          \<and> int (length suf) = max 0 maxCounter + 1 \<and> list_all (\<lambda>b. snd b \<noteq> None) suf \<and> snd (last suf) = Some e))
        \<and> (r = Some (Inr ()) \<longrightarrow> fst (last (List.map_filter round_of tr))))"
proof (rule effect_conseq[OF effect_supervise[where round = round_of]])
  fix r tr assume s: "supervised round_of maxCounter 0 r tr"
  have "\<exists>pre suf. List.map_filter round_of tr = pre @ suf \<and> int (length suf) = max 0 maxCounter + 1
      \<and> list_all (\<lambda>b. snd b \<noteq> None) suf \<and> snd (last suf) = Some e" if "r = Some (Inl e)" for e
  proof -
    from s that have "gave_up maxCounter 0 (List.map_filter round_of tr)" and l: "snd (last (List.map_filter round_of tr)) = Some e"
      by (auto simp: supervised_def)
    then obtain pre suf where p: "List.map_filter round_of tr = pre @ suf" "list_all (\<lambda>b. snd b \<noteq> None) suf"
      "int (length suf) = max 0 maxCounter + 1 \<or> pre = [] \<and> int (length suf) = max 0 (maxCounter - 0) + 1"
      unfolding gave_up_def by blast
    from p(3) have "suf \<noteq> []" by auto
    moreover have "int (length suf) = max 0 maxCounter + 1" using p(3) by auto
    ultimately show ?thesis using p l by auto
  qed
  then show "(\<forall>e. r = Some (Inl e) \<longrightarrow> (\<exists>pre suf. List.map_filter round_of tr = pre @ suf
      \<and> int (length suf) = max 0 maxCounter + 1 \<and> list_all (\<lambda>b. snd b \<noteq> None) suf \<and> snd (last suf) = Some e))
    \<and> (r = Some (Inr ()) \<longrightarrow> fst (last (List.map_filter round_of tr)))"
    using s by (auto simp: supervised_def)
qed (auto intro!: effect_invoke split: option.split)

definition failing_service :: "(unit, duration + (bool \<times> error option) option, unit result option) proc" where
  "failing_service = supervise (\<lambda>d. invoke (\<lambda>x. ((), x)) (\<lambda>_. Inl d)) (invoke (\<lambda>x. (Some (False, Some Decode_Error), x)) Inr) 1 5 0"

lemma failing_service_fails: "outcome failing_service () = Some (Inl Decode_Error)"
  by (simp add: failing_service_def outcome_def numeral_eq_Suc)

theorem supervise_gives_up_witness:
  "outcome failing_service () = Some (Inl Decode_Error)
 \<and> (\<exists>pre suf. List.map_filter round_of (trace failing_service ()) = pre @ suf
      \<and> int (length suf) = 2 \<and> list_all (\<lambda>b. snd b \<noteq> None) suf \<and> snd (last suf) = Some Decode_Error)"
  using effect_trace[OF supervise_gives_up[of "\<lambda>_ x. ((), x)" "\<lambda>x. (Some (False, Some Decode_Error), x)" 1 5], of "()"]
  failing_service_fails by (simp add: failing_service_def)

end
