(* ===== verification/Purchase.thy ===== *)
theory Purchase
  imports Ktmb_Api Retry
begin

text \<open>
  lib/buyer/buyer.go and errors.go: buying one ticket on a reservation. The calls to KTMB are the
  fields of an environment; each pause between them is logged. The three typed errors of the package
  and every other error are one datatype, since the callers tell them apart by type.
\<close>

record Passenger =
  buyer_FullName :: string
  buyer_Gender :: string
  buyer_PassportExpiry :: string
  buyer_PassportNumber :: string

record PurchaseResult =
  PDF :: string
  BookingNo :: string
  TicketNo :: string
  KtmbAmount :: float32
  KtmbCurrency :: string

datatype buy_error =
    ConflictError "string list"
  | RevertError "string list"
  | PurchasedError string string error
  | Other_Error error

record Buyer =
  contactNumber :: string
  sleepBuffer :: int
  conflictPatterns :: "string list"
  revertPatterns :: "string list"

record 'x purchase_env =
  book_start :: "string \<Rightarrow> string \<Rightarrow> 'x \<Rightarrow> BookStartRes GenericRes result \<times> 'x"
  set_passenger :: "string \<Rightarrow> string \<Rightarrow> PassengerReq list \<Rightarrow> 'x \<Rightarrow> SetPassengerRes GenericRes result \<times> 'x"
  pay :: "string \<Rightarrow> string \<Rightarrow> string \<Rightarrow> float32 \<Rightarrow> 'x \<Rightarrow> PaymentRes GenericRes result \<times> 'x"
  complete :: "string \<Rightarrow> string \<Rightarrow> 'x \<Rightarrow> CompleteRes GenericRes result \<times> 'x"
  print_ticket :: "string \<Rightarrow> string \<Rightarrow> string \<Rightarrow> 'x \<Rightarrow> string result \<times> 'x"
  cancel_hold :: "string \<Rightarrow> string \<Rightarrow> 'x \<Rightarrow> unit GenericRes result \<times> 'x"
  rest :: "duration \<Rightarrow> 'x \<Rightarrow> unit \<times> 'x"

datatype purchase_event =
    Book_Start string string "BookStartRes GenericRes result"
  | Set_Passenger string string "PassengerReq list" "SetPassengerRes GenericRes result"
  | Pay string string string float32 "PaymentRes GenericRes result"
  | Complete_Purchase string string "CompleteRes GenericRes result"
  | Print_Pdf string string string "string result"
  | Cancel_Hold string string "unit GenericRes result"
  | Rest duration

definition matchesConflict :: "string list \<Rightarrow> string list \<Rightarrow> bool" where
  "matchesConflict patterns messages \<longleftrightarrow>
     list_ex (\<lambda>m. list_ex (\<lambda>p. p \<noteq> [] \<and> contains (to_lower m) (to_lower p)) patterns) messages"

fun currencyOrDefault :: "string list \<Rightarrow> string" where
  "currencyOrDefault [] = ''MYR''"
| "currencyOrDefault (v # vs) = (if to_upper (trim_space v) \<noteq> [] then to_upper (trim_space v) else currencyOrDefault vs)"

text \<open>\<open>(bookingNo, ticketNo, err)\<close>.\<close>

fun ticketIdsOf :: "CompleteRes \<Rightarrow> string \<times> string \<times> error option" where
  "ticketIdsOf c =
     (case complete_Trips (Booking c) of
        [] \<Rightarrow> (complete_BookingNo (Booking c), [], Some (Msg ''complete response carries no trips/tickets''))
      | trip # _ \<Rightarrow> (case complete_Tickets trip of
            [] \<Rightarrow> (complete_BookingNo (Booking c), [], Some (Msg ''complete response carries no trips/tickets''))
          | ticket # _ \<Rightarrow> (complete_BookingNo (Booking c), complete_TicketNo ticket, None)))"

declare ticketIdsOf.simps [simp del]

definition adult :: "Buyer \<Rightarrow> Passenger \<Rightarrow> string \<Rightarrow> PassengerReq" where
  "adult c p pd = \<lparr>ContactNo = contactNumber c, FullName = buyer_FullName p, Gender = buyer_Gender p,
     IsAddFavorite = False, IsBuyInsurance = False, IsSelf = False, PassengerData = pd,
     PassportExpiryDate = buyer_PassportExpiry p, PassportNo = buyer_PassportNumber p, PnrData = [], PnrNo = [],
     TicketTypeID = ''Adult'', PassengerTickets = [\<lparr>PromoCode = []\<rparr>]\<rparr>"

definition pause_buy :: "'x purchase_env \<Rightarrow> Buyer \<Rightarrow> ('x, purchase_event, unit) proc" where
  "pause_buy env c = invoke (rest env (sleepBuffer c * second)) (\<lambda>_. Rest (sleepBuffer c * second))"

text \<open>Each step of Buy, in the order of the code; a step ends the purchase with an error or hands on
  what the next one needs.\<close>

definition print_step :: "'x purchase_env \<Rightarrow> Buyer \<Rightarrow> SetPassengerRes \<Rightarrow> CompleteRes
    \<Rightarrow> ('x, purchase_event, buy_error + PurchaseResult) proc" where
  "print_step env c passenger completed =
     (case ticketIdsOf completed of
        (bookingNo, ticketNo, Some idErr) \<Rightarrow> return (Inl (PurchasedError bookingNo ticketNo idErr))
      | (bookingNo, ticketNo, None) \<Rightarrow> do {
          ticket \<leftarrow> invoke (print_ticket env (complete_UserData completed) bookingNo ticketNo)
            (Print_Pdf (complete_UserData completed) bookingNo ticketNo);
          return (case ticket of
              Inl err \<Rightarrow> Inl (PurchasedError bookingNo ticketNo err)
            | Inr pdf \<Rightarrow> Inr \<lparr>PDF = pdf, BookingNo = bookingNo, TicketNo = ticketNo,
                KtmbAmount = passenger_PaymentAmount passenger,
                KtmbCurrency = currencyOrDefault [passenger_CurrencyCode passenger,
                  payment_CurrencyCode (complete_Payment (Booking completed)), booking_CurrencyCode (Booking completed)]\<rparr>)
        })"

definition complete_step :: "'x purchase_env \<Rightarrow> Buyer \<Rightarrow> SetPassengerRes \<Rightarrow> PaymentRes
    \<Rightarrow> ('x, purchase_event, buy_error + PurchaseResult) proc" where
  "complete_step env c passenger payment = do {
     r \<leftarrow> invoke (complete env (passenger_UserData passenger) (payment_BookingData payment))
       (Complete_Purchase (passenger_UserData passenger) (payment_BookingData payment));
     case r of
       Inl err \<Rightarrow> return (Inl (Other_Error err))
     | Inr done \<Rightarrow>
         if \<not> Status done then return (Inl (Other_Error (Msg (''failed to complete: '' @ fmt_strings (Messages done)))))
         else do { pause_buy env c; print_step env c passenger (Data done) }
   }"

definition pay_step :: "'x purchase_env \<Rightarrow> Buyer \<Rightarrow> SetPassengerRes \<Rightarrow> ('x, purchase_event, buy_error + PurchaseResult) proc" where
  "pay_step env c passenger = do {
     r \<leftarrow> invoke (pay env (passenger_UserData passenger) (passenger_BookingData passenger) ''KtmbEWallet'' (passenger_PaymentAmount passenger))
       (Pay (passenger_UserData passenger) (passenger_BookingData passenger) ''KtmbEWallet'' (passenger_PaymentAmount passenger));
     case r of
       Inl err \<Rightarrow> return (Inl (Other_Error err))
     | Inr paid \<Rightarrow>
         if \<not> Status paid then return (Inl
           (if matchesConflict (revertPatterns c) (Messages paid) then RevertError (Messages paid)
            else Other_Error (Msg (''failed to pay: '' @ fmt_strings (Messages paid)))))
         else do { pause_buy env c; complete_step env c passenger (Data paid) }
   }"

definition passenger_step :: "'x purchase_env \<Rightarrow> Buyer \<Rightarrow> Passenger \<Rightarrow> BookStartRes \<Rightarrow> string
    \<Rightarrow> ('x, purchase_event, buy_error + PurchaseResult) proc" where
  "passenger_step env c p start pd = do {
     r \<leftarrow> invoke (set_passenger env (start_UserData start) (start_BookingData start) [adult c p pd])
       (Set_Passenger (start_UserData start) (start_BookingData start) [adult c p pd]);
     case r of
       Inl err \<Rightarrow> return (Inl (Other_Error err))
     | Inr passenger \<Rightarrow>
         if \<not> Status passenger then return (Inl
           (if matchesConflict (conflictPatterns c) (Messages passenger) then ConflictError (Messages passenger)
            else Other_Error (Msg (''failed to set passenger: '' @ fmt_strings (Messages passenger)))))
         else do { pause_buy env c; pay_step env c (Data passenger) }
   }"

definition Buy :: "'x purchase_env \<Rightarrow> Buyer \<Rightarrow> string \<Rightarrow> string \<Rightarrow> Passenger \<Rightarrow> ('x, purchase_event, buy_error + PurchaseResult) proc" where
  "Buy env c userData bookingData p = do {
     r \<leftarrow> invoke (book_start env userData bookingData) (Book_Start userData bookingData);
     case r of
       Inl err \<Rightarrow> return (Inl (Other_Error err))
     | Inr start \<Rightarrow>
         if \<not> Status start then return (Inl (Other_Error (Msg (''failed to start booking process: '' @ fmt_strings (Messages start)))))
         else do {
           pause_buy env c;
           case start_Passengers (Data start) of
             [] \<Rightarrow> return (Inl (Other_Error (Msg (''book start response carries no passengers: '' @ fmt_strings (Messages start)))))
           | first # _ \<Rightarrow> passenger_step env c p (Data start) (res_PassengerData first)
         }
   }"

definition Release :: "'x purchase_env \<Rightarrow> string \<Rightarrow> string \<Rightarrow> ('x, purchase_event, unit GenericRes result) proc" where
  "Release env userData bookingData = invoke (cancel_hold env userData bookingData) (Cancel_Hold userData bookingData)"

section \<open>What a purchase leaves\<close>

text \<open>The tickets KTMB confirmed, with the numbers the confirmation carries.\<close>

fun capture :: "purchase_event \<Rightarrow> (string \<times> string) option" where
  "capture (Complete_Purchase ud bd (Inr r)) =
     (if Status r then Some (fst (ticketIdsOf (Data r)), fst (snd (ticketIdsOf (Data r)))) else None)"
| "capture ev = None"

fun is_release :: "purchase_event \<Rightarrow> bool" where
  "is_release (Cancel_Hold ud bd r) = True"
| "is_release ev = False"

fun ids_bought :: "buy_error + PurchaseResult \<Rightarrow> (string \<times> string) list" where
  "ids_bought (Inr pr) = [(BookingNo pr, TicketNo pr)]"
| "ids_bought (Inl (PurchasedError no tn cause)) = [(no, tn)]"
| "ids_bought (Inl e) = []"

text \<open>What each outcome of a purchase rests on.\<close>

fun founded :: "Buyer \<Rightarrow> buy_error + PurchaseResult \<Rightarrow> purchase_event list \<Rightarrow> bool" where
  "founded c (Inl (RevertError ms)) tr \<longleftrightarrow>
     (\<exists>u b k a r. Pay u b k a (Inr r) \<in> set tr \<and> \<not> Status r \<and> Messages r = ms) \<and> matchesConflict (revertPatterns c) ms"
| "founded c (Inl (ConflictError ms)) tr \<longleftrightarrow>
     (\<exists>u b ps r. Set_Passenger u b ps (Inr r) \<in> set tr \<and> \<not> Status r \<and> Messages r = ms) \<and> matchesConflict (conflictPatterns c) ms"
| "founded c (Inr pr) tr \<longleftrightarrow> (\<exists>u. Print_Pdf u (BookingNo pr) (TicketNo pr) (Inr (PDF pr)) \<in> set tr)
     \<and> (\<exists>u b k r. Pay u b k (KtmbAmount pr) (Inr r) \<in> set tr \<and> Status r)"
| "founded c (Inl e) tr \<longleftrightarrow> True"

definition purchased :: "Buyer \<Rightarrow> buy_error + PurchaseResult \<Rightarrow> purchase_event list \<Rightarrow> bool" where
  "purchased c r tr \<longleftrightarrow> List.map_filter capture tr = ids_bought r \<and> \<not> list_ex is_release tr \<and> founded c r tr"

lemma effect_pause_buy: "effect (pause_buy env c) (\<lambda>_ tr. tr = [Rest (sleepBuffer c * second)])"
  by (simp add: pause_buy_def effect_invoke)


text \<open>The events before a confirmation: nothing bought, nothing released.\<close>

definition unbought :: "purchase_event list \<Rightarrow> bool" where
  "unbought tr \<longleftrightarrow> List.map_filter capture tr = [] \<and> \<not> list_ex is_release tr"

lemma unbought_simps [simp]:
  "unbought [] " "unbought (ev # tr) \<longleftrightarrow> capture ev = None \<and> \<not> is_release ev \<and> unbought tr"
  "unbought (tr @ tr') \<longleftrightarrow> unbought tr \<and> unbought tr'"
  by (auto simp: unbought_def split: option.splits)

lemma purchased_unbought: "unbought tr \<Longrightarrow> ids_bought (Inl e) = [] \<Longrightarrow> founded c (Inl e) tr \<Longrightarrow> purchased c (Inl e) tr"
  by (simp add: purchased_def unbought_def)

lemma print_step_purchased:
  assumes "unbought pre" "\<exists>u b k r. Pay u b k (passenger_PaymentAmount passenger) (Inr r) \<in> set pre \<and> Status r"
    "capture ev = Some (fst (ticketIdsOf completed), fst (snd (ticketIdsOf completed)))" "\<not> is_release ev"
  shows "effect (print_step env c passenger completed) (\<lambda>r tr. purchased c r (pre @ ev # Rest d # tr))"
proof -
  obtain no tn err where ids: "ticketIdsOf completed = (no, tn, err)" by (cases "ticketIdsOf completed")
  show ?thesis unfolding print_step_def ids prod.case
    by (intro effect_case_option effect_bind effect_invoke effect_return)
      (use assms in \<open>auto simp: purchased_def unbought_def ids split: sum.split\<close>)
qed

lemma complete_step_purchased:
  assumes "unbought pre" "\<exists>u b k r. Pay u b k (passenger_PaymentAmount passenger) (Inr r) \<in> set pre \<and> Status r"
  shows "effect (complete_step env c passenger payment) (\<lambda>r tr. purchased c r (pre @ tr))"
  unfolding complete_step_def
proof (rule effect_bind, rule effect_invoke, rule effect_case_sum, simp add: purchased_unbought assms(1), rule effect_if)
  fix r :: "CompleteRes GenericRes result" and a assume "r = Inr a" "\<not> Status a"
  then show "effect (return (Inl (Other_Error (Msg (''failed to complete: '' @ fmt_strings (Messages a))))))
    (\<lambda>b tr'. purchased c b (pre @ [Complete_Purchase (passenger_UserData passenger) (payment_BookingData payment) r] @ tr'))"
    by (simp add: purchased_unbought assms(1))
next
  fix r :: "CompleteRes GenericRes result" and a assume r: "r = Inr a" "\<not> \<not> Status a"
  show "effect (pause_buy env c \<bind> (\<lambda>_. print_step env c passenger (Data a)))
    (\<lambda>b tr'. purchased c b (pre @ [Complete_Purchase (passenger_UserData passenger) (payment_BookingData payment) r] @ tr'))"
    by (rule effect_bind, rule effect_conseq[OF effect_pause_buy])
      (use print_step_purchased[OF assms, of "Complete_Purchase (passenger_UserData passenger) (payment_BookingData payment) r" "Data a"] r in simp)
qed

lemma pay_step_purchased:
  assumes "unbought pre"
  shows "effect (pay_step env c passenger) (\<lambda>r tr. purchased c r (pre @ tr))"
  unfolding pay_step_def
proof (rule effect_bind, rule effect_invoke, rule effect_case_sum, simp add: purchased_unbought assms, rule effect_if)
  let ?ev = "Pay (passenger_UserData passenger) (passenger_BookingData passenger) ''KtmbEWallet'' (passenger_PaymentAmount passenger)"
  fix r :: "PaymentRes GenericRes result" and a assume "r = Inr a" "\<not> Status a"
  then show "effect (return (Inl (if matchesConflict (revertPatterns c) (Messages a) then RevertError (Messages a)
        else Other_Error (Msg (''failed to pay: '' @ fmt_strings (Messages a))))))
    (\<lambda>b tr'. purchased c b (pre @ [?ev r] @ tr'))"
    using assms by (auto intro!: purchased_unbought, blast?)
next
  let ?ev = "Pay (passenger_UserData passenger) (passenger_BookingData passenger) ''KtmbEWallet'' (passenger_PaymentAmount passenger)"
  fix r :: "PaymentRes GenericRes result" and a assume r: "r = Inr a" "\<not> \<not> Status a"
  show "effect (pause_buy env c \<bind> (\<lambda>_. complete_step env c passenger (Data a))) (\<lambda>b tr'. purchased c b (pre @ [?ev r] @ tr'))"
    by (rule effect_bind, rule effect_conseq[OF effect_pause_buy], 
        rule effect_conseq[OF complete_step_purchased[of "pre @ [?ev r, Rest (sleepBuffer c * second)]"]])
      (use assms r in auto)
qed

lemma passenger_step_purchased:
  assumes "unbought pre"
  shows "effect (passenger_step env c p start pd) (\<lambda>r tr. purchased c r (pre @ tr))"
  unfolding passenger_step_def
proof (rule effect_bind, rule effect_invoke, rule effect_case_sum, simp add: purchased_unbought assms, rule effect_if)
  let ?ev = "Set_Passenger (start_UserData start) (start_BookingData start) [adult c p pd]"
  fix r :: "SetPassengerRes GenericRes result" and a assume "r = Inr a" "\<not> Status a"
  then show "effect (return (Inl (if matchesConflict (conflictPatterns c) (Messages a) then ConflictError (Messages a)
        else Other_Error (Msg (''failed to set passenger: '' @ fmt_strings (Messages a))))))
    (\<lambda>b tr'. purchased c b (pre @ [?ev r] @ tr'))"
    using assms by (auto intro!: purchased_unbought, blast?)
next
  let ?ev = "Set_Passenger (start_UserData start) (start_BookingData start) [adult c p pd]"
  fix r :: "SetPassengerRes GenericRes result" and a assume r: "r = Inr a" "\<not> \<not> Status a"
  show "effect (pause_buy env c \<bind> (\<lambda>_. pay_step env c (Data a))) (\<lambda>b tr'. purchased c b (pre @ [?ev r] @ tr'))"
    by (rule effect_bind, rule effect_conseq[OF effect_pause_buy], 
        rule effect_conseq[OF pay_step_purchased[of "pre @ [?ev r, Rest (sleepBuffer c * second)]"]])
      (use assms r in auto)
qed

lemma Buy_purchased: "effect (Buy env c userData bookingData p) (purchased c)"
  unfolding Buy_def
proof (rule effect_bind, rule effect_invoke, rule effect_case_sum, simp add: purchased_unbought, rule effect_if, simp add: purchased_unbought)
  fix r :: "BookStartRes GenericRes result" and a assume r: "r = Inr a" "\<not> \<not> Status a"
  let ?pre = "[Book_Start userData bookingData r, Rest (sleepBuffer c * second)]"
  have "effect (passenger_step env c p (Data a) (res_PassengerData first)) (\<lambda>r tr. purchased c r (?pre @ tr))" for first
    by (rule passenger_step_purchased) simp
  then show "effect (pause_buy env c \<bind> (\<lambda>_. case start_Passengers (Data a) of
        [] \<Rightarrow> return (Inl (Other_Error (Msg (''book start response carries no passengers: '' @ fmt_strings (Messages a)))))
      | first # _ \<Rightarrow> passenger_step env c p (Data a) (res_PassengerData first)))
    (\<lambda>b tr'. purchased c b ([Book_Start userData bookingData r] @ tr'))"
    by (intro effect_bind effect_conseq[OF effect_pause_buy] effect_case_list) (simp_all add: purchased_unbought)
qed

end
