(* ===== verification/Buyer_Client.thy ===== *)
theory Buyer_Client
  imports Reserve_Dto Purchase Recoverer
begin

text \<open>
  lib/buyer/client.go: the buyer's service. For each reservation on its queue it asks zinc for a booking
  to buy for, buys on KTMB, and reports the ticket, or parks the booking for the recoverer, or gives the
  booking back. zinc, redis and sealing are parameters; the form of an in-memory PDF cannot fail to be
  built, and the amount in it is the decimal text of the float32 kept here. The result of \<open>buy\<close> is
  \<open>None\<close> where the code dereferences a nil passenger field or splits a date of fewer than three
  fragments, and panics.
\<close>

record buyer_config =
  CompleteRetries :: int
  ParkRetries :: int
  BackoffLimit :: int

record 'x buyer_env =
  purchase :: "'x purchase_env"
  zinc_reserve :: "string \<Rightarrow> string \<Rightarrow> string \<Rightarrow> 'x \<Rightarrow> zinc_booking reply \<times> 'x"
  zinc_buying :: "uuid \<Rightarrow> 'x \<Rightarrow> unit reply \<times> 'x"
  zinc_report :: "uuid \<Rightarrow> string \<Rightarrow> string \<Rightarrow> float32 \<Rightarrow> string \<Rightarrow> pdf \<Rightarrow> 'x \<Rightarrow> unit reply \<times> 'x"
  zinc_revert :: "uuid \<Rightarrow> 'x \<Rightarrow> unit reply \<times> 'x"
  zinc_recovering :: "uuid \<Rightarrow> 'x \<Rightarrow> unit reply \<times> 'x"
  uuid_text :: "uuid \<Rightarrow> string"
  seal_recover :: "RecoverDto \<Rightarrow> 'x \<Rightarrow> string result \<times> 'x"
  push_recover :: "string \<Rightarrow> 'x \<Rightarrow> unit result \<times> 'x"
  nap :: "duration \<Rightarrow> 'x \<Rightarrow> unit \<times> 'x"
  pop_reservation :: "'x \<Rightarrow> popped \<times> 'x"
  open_reservation :: "string \<Rightarrow> ReserveDto result"
  configure :: "'x \<Rightarrow> unit result \<times> 'x"

datatype buyer_event =
    At_Ktmb purchase_event
  | Reserved string string string "zinc_booking reply"
  | Mark_Buying uuid "unit reply"
  | Report_Complete uuid string string float32 string pdf "unit reply"
  | Post_Revert uuid "unit reply"
  | Post_Recovering uuid "unit reply"
  | Seal_Recover RecoverDto "string result"
  | Push_Recover string "unit result"
  | Nap duration
  | Pop_Reservation popped
  | Configured "unit result"

type_synonym ('x, 'a) buying = "('x, buyer_event, 'a) proc"

section \<open>Retried calls\<close>

definition napping :: "'x buyer_env \<Rightarrow> duration \<Rightarrow> ('x, unit) buying" where
  "napping env d = invoke (nap env d) (\<lambda>_. Nap d)"

definition completeOnce :: "'x buyer_env \<Rightarrow> uuid \<Rightarrow> PurchaseResult \<Rightarrow> int \<Rightarrow> ('x, unit result) buying" where
  "completeOnce env i pr attempt = do {
     r \<leftarrow> invoke (zinc_report env i (PurchaseResult.BookingNo pr) (PurchaseResult.TicketNo pr) (KtmbAmount pr) (KtmbCurrency pr) (PDF pr))
       (Report_Complete i (PurchaseResult.BookingNo pr) (PurchaseResult.TicketNo pr) (KtmbAmount pr) (KtmbCurrency pr) (PDF pr));
     return (case r of
         Inl err \<Rightarrow> Inl err
       | Inr resp \<Rightarrow> if StatusCode resp \<noteq> 200 then Inl (Status_Error ''failed to mark booking as complete'' (StatusCode resp)) else Inr ())
   }"

definition completeWithZinc :: "'x buyer_env \<Rightarrow> buyer_config \<Rightarrow> uuid \<Rightarrow> PurchaseResult \<Rightarrow> ('x, unit result) buying" where
  "completeWithZinc env cfg i pr = retryBackoff (napping env) (CompleteRetries cfg) (completeOnce env i pr)"

definition recovering_once :: "'x buyer_env \<Rightarrow> uuid \<Rightarrow> int \<Rightarrow> ('x, unit result) buying" where
  "recovering_once env i attempt = do {
     r \<leftarrow> invoke (zinc_recovering env i) (Post_Recovering i);
     return (case r of
         Inl err \<Rightarrow> Inl err
       | Inr resp \<Rightarrow> if StatusCode resp = 200 then Inr () else Inl (Status_Error ''transition to recovering'' (StatusCode resp)))
   }"

definition transitionRecovering :: "'x buyer_env \<Rightarrow> buyer_config \<Rightarrow> uuid \<Rightarrow> ('x, unit result) buying" where
  "transitionRecovering env cfg i = retryBackoff (napping env) (ParkRetries cfg) (recovering_once env i)"

definition push_once :: "'x buyer_env \<Rightarrow> string \<Rightarrow> int \<Rightarrow> ('x, unit result) buying" where
  "push_once env enc attempt = invoke (push_recover env enc) (Push_Recover enc)"

definition pushRecover :: "'x buyer_env \<Rightarrow> buyer_config \<Rightarrow> string \<Rightarrow> ('x, unit result) buying" where
  "pushRecover env cfg enc = retryBackoff (napping env) (ParkRetries cfg) (push_once env enc)"

section \<open>Giving back, parking, buying\<close>

definition release :: "'x buyer_env \<Rightarrow> string \<Rightarrow> string \<Rightarrow> ('x, unit GenericRes result) buying" where
  "release env userData bookingData = lifted At_Ktmb (Release (purchase env) userData bookingData)"

definition revert :: "'x buyer_env \<Rightarrow> uuid \<Rightarrow> string \<Rightarrow> string \<Rightarrow> ('x, unit result) buying" where
  "revert env i userData bookingData =
     on_ok (invoke (zinc_revert env i) (Post_Revert i)) (\<lambda>resp.
       if StatusCode resp \<noteq> 200 then return (Inl (Status_Error ''failed to revert booking'' (StatusCode resp)))
       else do { _ \<leftarrow> release env userData bookingData; return (Inr ()) })"

definition recover_dto :: "'x buyer_env \<Rightarrow> uuid \<Rightarrow> string \<Rightarrow> string \<Rightarrow> string \<Rightarrow> Passenger \<Rightarrow> string \<Rightarrow> string \<Rightarrow> RecoverDto" where
  "recover_dto env i direction day t p bookingNo ticketNo = \<lparr>dto_BookingId = uuid_text env i, dto_Direction = direction,
     dto_Date = day, dto_Time = t, dto_FullName = buyer_FullName p, dto_Gender = buyer_Gender p,
     dto_PassportExpiry = buyer_PassportExpiry p, dto_PassportNumber = buyer_PassportNumber p,
     dto_BookingNo = bookingNo, dto_TicketNo = ticketNo, dto_Attempts = 0\<rparr>"

definition park :: "'x buyer_env \<Rightarrow> buyer_config \<Rightarrow> uuid \<Rightarrow> RecoverDto \<Rightarrow> string \<Rightarrow> string \<Rightarrow> bool \<Rightarrow> ('x, unit result) buying" where
  "park env cfg i dto userData bookingData doRelease =
     on_ok (invoke (seal_recover env dto) (Seal_Recover dto)) (\<lambda>enc.
     on_ok (pushRecover env cfg enc) (\<lambda>_. do {
       _ \<leftarrow> transitionRecovering env cfg i;
       if doRelease then do { _ \<leftarrow> release env userData bookingData; return (Inr ()) }
       else return (Inr ())
     }))"

definition passenger_of :: "passenger \<Rightarrow> Passenger option" where
  "passenger_of p =
     (case (passenger.FullName p, passenger.Gender p, PassportExpiry p, PassportNumber p) of
        (Some n, Some g, Some e, Some no) \<Rightarrow>
          map_option (\<lambda>d. \<lparr>buyer_FullName = n, buyer_Gender = g, buyer_PassportExpiry = d @ ''T00:00:00'', buyer_PassportNumber = no\<rparr>)
            (ZincToHeliumDate e)
      | _ \<Rightarrow> None)"

text \<open>What becomes of the outcome of a purchase.\<close>

definition settle :: "'x buyer_env \<Rightarrow> buyer_config \<Rightarrow> uuid \<Rightarrow> (string \<Rightarrow> string \<Rightarrow> RecoverDto) \<Rightarrow> string \<Rightarrow> string
    \<Rightarrow> buy_error + PurchaseResult \<Rightarrow> ('x, unit result) buying" where
  "settle env cfg i dto userData bookingData bought =
     (case bought of
        Inl err \<Rightarrow> (case err of
            RevertError ms \<Rightarrow> revert env i userData bookingData
          | ConflictError ms \<Rightarrow> park env cfg i (dto [] []) userData bookingData True
          | PurchasedError bookingNo ticketNo cause \<Rightarrow> park env cfg i (dto bookingNo ticketNo) userData bookingData False
          | Other_Error e \<Rightarrow> return (Inl e))
      | Inr pr \<Rightarrow> do {
          r \<leftarrow> completeWithZinc env cfg i pr;
          case r of
            Inl e \<Rightarrow> park env cfg i (dto (PurchaseResult.BookingNo pr) (PurchaseResult.TicketNo pr)) userData bookingData False
          | Inr _ \<Rightarrow> return (Inr ())
        })"

definition buy_for :: "'x buyer_env \<Rightarrow> buyer_config \<Rightarrow> Buyer \<Rightarrow> zinc_booking \<Rightarrow> string \<Rightarrow> string \<Rightarrow> string \<Rightarrow> string \<Rightarrow> string
    \<Rightarrow> ('x, unit result option) buying" where
  "buy_for env cfg c data direction day t userData bookingData = do {
     r \<leftarrow> invoke (zinc_buying env (zb_Id data)) (Mark_Buying (zb_Id data));
     case r of
       Inl err \<Rightarrow> return (Some (Inl err))
     | Inr marked \<Rightarrow>
         if StatusCode marked \<noteq> 200 then return (Some (Inl (Msg ''failed to get mark booking as buying'')))
         else if Body marked = Unreadable then return (Some (Inl Read_Error))
         else (case passenger_of (zb_Passenger data) of
             None \<Rightarrow> return None
           | Some p \<Rightarrow> do {
               bought \<leftarrow> lifted At_Ktmb (Buy (purchase env) c userData bookingData p);
               s \<leftarrow> settle env cfg (zb_Id data) (recover_dto env (zb_Id data) direction day t p) userData bookingData bought;
               return (Some s)
             })
   }"

definition buy :: "'x buyer_env \<Rightarrow> buyer_config \<Rightarrow> Buyer \<Rightarrow> string \<Rightarrow> string \<Rightarrow> string \<Rightarrow> string \<Rightarrow> string
    \<Rightarrow> ('x, unit result option) buying" where
  "buy env cfg c direction day t userData bookingData = do {
     r \<leftarrow> invoke (zinc_reserve env direction day t) (Reserved direction day t);
     case r of
       Inl err \<Rightarrow> return (Some (Inl err))
     | Inr resp \<Rightarrow>
         if StatusCode resp = 404 then do {
           e \<leftarrow> release env userData bookingData;
           return (Some (case e of Inl err \<Rightarrow> Inl err | Inr _ \<Rightarrow> Inr ()))
         }
         else (case Body resp of
             Unreadable \<Rightarrow> return (Some (Inl Read_Error))
           | Garbled \<Rightarrow> return (Some (Inl Decode_Error))
           | Decoded data \<Rightarrow> buy_for env cfg c data direction day t userData bookingData)
   }"

text \<open>One round of the service. A popped item whose handling fails is gone from the queue.\<close>

definition loop :: "'x buyer_env \<Rightarrow> buyer_config \<Rightarrow> Buyer \<Rightarrow> ('x, (bool \<times> error option) option) buying" where
  "loop env cfg c = do {
     shutdown \<leftarrow> invoke (configure env) Configured;
     case shutdown of
       Inl err \<Rightarrow> return (Some (True, Some err))
     | Inr _ \<Rightarrow> do {
         m \<leftarrow> invoke (pop_reservation env) Pop_Reservation;
         case m of
           Pop_Error err \<Rightarrow> return (Some (False, Some err))
         | Pop_Empty \<Rightarrow> return (Some (False, None))
         | Pop_Item item \<Rightarrow> (case item of
               Bad_Envelope \<Rightarrow> return (Some (False, Some Decode_Error))
             | Bad_Message \<Rightarrow> return (Some (False, Some Decode_Error))
             | Sealed output \<Rightarrow> (case open_reservation env output of
                   Inl e \<Rightarrow> return (Some (False, Some e))
                 | Inr dto \<Rightarrow> do {
                     r \<leftarrow> buy env cfg c (ReserveDto.dto_Direction dto) (ReserveDto.dto_Date dto) (ReserveDto.dto_Time dto)
                       (dto_UserData dto) (dto_BookingData dto);
                     return (map_option (\<lambda>r. (False, case r of Inl e \<Rightarrow> Some e | Inr _ \<Rightarrow> None)) r)
                   }))
       }
   }"


definition Start :: "'x buyer_env \<Rightarrow> buyer_config \<Rightarrow> Buyer \<Rightarrow> nat \<Rightarrow> ('x, unit result option) buying" where
  "Start env cfg c fuel = supervise (napping env) (loop env cfg c) (BackoffLimit cfg) fuel 0"


section \<open>The retried calls keep their contract\<close>

fun is_nap :: "buyer_event \<Rightarrow> bool" where
  "is_nap (Nap d) = True"
| "is_nap ev = False"

definition reporting :: "uuid \<Rightarrow> PurchaseResult \<Rightarrow> buyer_event \<Rightarrow> unit result \<Rightarrow> bool" where
  "reporting i pr ev r \<longleftrightarrow> (\<exists>rep. ev = Report_Complete i (PurchaseResult.BookingNo pr) (PurchaseResult.TicketNo pr) (KtmbAmount pr) (KtmbCurrency pr) (PDF pr) rep
     \<and> (r = Inr () \<longleftrightarrow> accepted rep))"

definition moving :: "uuid \<Rightarrow> buyer_event \<Rightarrow> unit result \<Rightarrow> bool" where
  "moving i ev r \<longleftrightarrow> (\<exists>rep. ev = Post_Recovering i rep \<and> (r = Inr () \<longleftrightarrow> accepted rep))"

definition pushing :: "string \<Rightarrow> buyer_event \<Rightarrow> unit result \<Rightarrow> bool" where
  "pushing enc ev r \<longleftrightarrow> ev = Push_Recover enc r"

lemma effect_napping: "effect (napping env d) (\<lambda>_ tr. list_all is_nap tr)"
  by (simp add: napping_def effect_invoke)

interpretation report_retry: retried "napping env" "completeOnce env i pr" is_nap "reporting i pr" for env i pr
proof
  fix n show "effect (completeOnce env i pr n) (\<lambda>r tr. \<exists>ev. tr = [ev] \<and> reporting i pr ev r)"
    unfolding completeOnce_def by (intro effect_bind effect_invoke effect_return) (auto simp: reporting_def accepted_def split: sum.split)
next
  fix ev r show "is_nap ev \<Longrightarrow> \<not> reporting i pr ev r" by (cases ev) (auto simp: reporting_def)
qed (rule effect_napping)

interpretation move_retry: retried "napping env" "recovering_once env i" is_nap "moving i" for env i
proof
  fix n show "effect (recovering_once env i n) (\<lambda>r tr. \<exists>ev. tr = [ev] \<and> moving i ev r)"
    unfolding recovering_once_def by (intro effect_bind effect_invoke effect_return) (auto simp: moving_def accepted_def split: sum.split)
next
  fix ev r show "is_nap ev \<Longrightarrow> \<not> moving i ev r" by (cases ev) (auto simp: moving_def)
qed (rule effect_napping)

interpretation push_retry: retried "napping env" "push_once env enc" is_nap "pushing enc" for env enc
proof
  fix n show "effect (push_once env enc n) (\<lambda>r tr. \<exists>ev. tr = [ev] \<and> pushing enc ev r)"
    unfolding push_once_def by (intro effect_invoke) (auto simp: pushing_def)
next
  fix ev r show "is_nap ev \<Longrightarrow> \<not> pushing enc ev r" by (cases ev) (auto simp: pushing_def)
qed (rule effect_napping)

section \<open>What becomes of a ticket\<close>

text \<open>The tickets KTMB confirmed in a run.\<close>

fun captured :: "buyer_event \<Rightarrow> (string \<times> string) option" where
  "captured (At_Ktmb e) = capture e"
| "captured ev = None"

fun released :: "buyer_event \<Rightarrow> bool" where
  "released (At_Ktmb e) = is_release e"
| "released ev = False"

definition reported :: "uuid \<Rightarrow> string \<Rightarrow> string \<Rightarrow> buyer_event list \<Rightarrow> bool" where
  "reported i no tn tr \<longleftrightarrow> (\<exists>a cur pdf rep. Report_Complete i no tn a cur pdf rep \<in> set tr \<and> accepted rep)"

definition recorded :: "'x buyer_env \<Rightarrow> uuid \<Rightarrow> string \<Rightarrow> string \<Rightarrow> buyer_event list \<Rightarrow> bool" where
  "recorded env i no tn tr \<longleftrightarrow> (\<exists>dto enc. Seal_Recover dto (Inr enc) \<in> set tr \<and> Push_Recover enc (Inr ()) \<in> set tr
     \<and> dto_BookingId dto = uuid_text env i \<and> dto_BookingNo dto = no \<and> dto_TicketNo dto = tn)"

definition record_failed :: "error \<Rightarrow> buyer_event list \<Rightarrow> bool" where
  "record_failed e tr \<longleftrightarrow> (\<exists>dto. Seal_Recover dto (Inl e) \<in> set tr) \<or> (\<exists>enc. Push_Recover enc (Inl e) \<in> set tr)"

lemma recorded_mono: "recorded env i no tn tr \<Longrightarrow> set tr \<subseteq> set tr' \<Longrightarrow> recorded env i no tn tr'"
  unfolding recorded_def by blast

lemma reported_mono: "reported i no tn tr \<Longrightarrow> set tr \<subseteq> set tr' \<Longrightarrow> reported i no tn tr'"
  unfolding reported_def by blast

lemma record_failed_mono: "record_failed e tr \<Longrightarrow> set tr \<subseteq> set tr' \<Longrightarrow> record_failed e tr'"
  unfolding record_failed_def by blast

text \<open>Events that neither buy nor release.\<close>

definition idle :: "buyer_event list \<Rightarrow> bool" where
  "idle tr \<longleftrightarrow> list_all (\<lambda>ev. \<forall>e. ev \<noteq> At_Ktmb e) tr"

lemma idle_simps [simp]:
  "idle []" "idle (ev # tr) \<longleftrightarrow> (\<forall>e. ev \<noteq> At_Ktmb e) \<and> idle tr" "idle (tr @ tr') \<longleftrightarrow> idle tr \<and> idle tr'"
  by (auto simp: idle_def)

lemma idle_captured: "idle tr \<Longrightarrow> List.map_filter captured tr = [] \<and> \<not> list_ex released tr"
proof (induction tr)
  case (Cons ev tr)
  then show ?case by (cases ev) auto
qed simp

lemma effect_release: "effect (release env ud bd) (\<lambda>_ tr. \<exists>r. tr = [At_Ktmb (Cancel_Hold ud bd r)])"
  unfolding release_def by (rule effect_conseq[OF effect_lifted[of _ "\<lambda>_ tr. \<exists>r. tr = [Cancel_Hold ud bd r]"]])
    (auto simp: Release_def intro: effect_invoke)

lemma effect_completeWithZinc:
  "effect (completeWithZinc env cfg i pr) (\<lambda>r tr. idle tr \<and> (r = Inr () \<longrightarrow> reported i (PurchaseResult.BookingNo pr) (PurchaseResult.TicketNo pr) tr))"
proof -
  have "idle tr" if "list_all (\<lambda>ev. is_nap ev \<or> (\<exists>r. reporting i pr ev r)) tr" for tr
    using that by (induction tr) (auto simp: reporting_def)
  then show ?thesis unfolding completeWithZinc_def
    by (intro effect_conseq[OF report_retry.effect_retry]) (auto simp: reporting_def reported_def)
qed

lemma effect_transitionRecovering: "effect (transitionRecovering env cfg i) (\<lambda>r tr. idle tr)"
proof -
  have "idle tr" if "list_all (\<lambda>ev. is_nap ev \<or> (\<exists>r. moving i ev r)) tr" for tr
    using that by (induction tr) (auto simp: moving_def)
  then show ?thesis unfolding transitionRecovering_def by (intro effect_conseq[OF move_retry.effect_retry]) auto
qed

lemma effect_pushRecover: "effect (pushRecover env cfg enc) (\<lambda>r tr. idle tr \<and> Push_Recover enc r \<in> set tr)"
proof -
  have "idle tr" if "list_all (\<lambda>ev. is_nap ev \<or> (\<exists>r. pushing enc ev r)) tr" for tr
    using that by (induction tr) (auto simp: pushing_def)
  then show ?thesis unfolding pushRecover_def
    by (intro effect_conseq[OF push_retry.effect_retry]) (auto simp: pushing_def)
qed

text \<open>A parking: the record first, then at most one release, of this reservation and only when asked for.\<close>

definition parked :: "'x buyer_env \<Rightarrow> uuid \<Rightarrow> RecoverDto \<Rightarrow> string \<Rightarrow> string \<Rightarrow> bool \<Rightarrow> unit result \<Rightarrow> buyer_event list \<Rightarrow> bool" where
  "parked env i dto ud bd doRelease r tr \<longleftrightarrow>
     (r = Inr () \<longrightarrow> (\<exists>enc pre post. tr = pre @ post \<and> idle pre \<and> Seal_Recover dto (Inr enc) \<in> set pre \<and> Push_Recover enc (Inr ()) \<in> set pre
        \<and> (if doRelease then \<exists>x. post = [At_Ktmb (Cancel_Hold ud bd x)] else post = [])))
   \<and> (\<forall>e. r = Inl e \<longrightarrow> idle tr \<and> record_failed e tr)"

lemma effect_parking: "effect (park env cfg i dto ud bd rel) (parked env i dto ud bd rel)"
  unfolding park_def
proof (rule effect_on_ok_invoke)
  fix e show "parked env i dto ud bd rel (Inl e) [Seal_Recover dto (Inl e)]"
    by (auto simp: parked_def record_failed_def)
next
  fix enc
  show "effect (on_ok (pushRecover env cfg enc) (\<lambda>_. do {
       _ \<leftarrow> transitionRecovering env cfg i;
       if rel then do { _ \<leftarrow> release env ud bd; return (Inr ()) } else return (Inr ()) }))
     (\<lambda>b tr'. parked env i dto ud bd rel b (Seal_Recover dto (Inr enc) # tr'))"
  proof (rule effect_on_ok_cases[OF effect_pushRecover])
    fix tr e assume "idle tr \<and> Push_Recover enc (Inl e) \<in> set tr"
    then show "parked env i dto ud bd rel (Inl e) (Seal_Recover dto (Inr enc) # tr)"
      by (auto simp: parked_def record_failed_def)
  next
    fix a :: unit and tr assume "idle tr \<and> Push_Recover enc (Inr a) \<in> set tr"
    then have tr: "idle tr" "Push_Recover enc (Inr ()) \<in> set tr" by auto
    show "effect (do { _ \<leftarrow> transitionRecovering env cfg i;
         if rel then do { _ \<leftarrow> release env ud bd; return (Inr ()) } else return (Inr ()) })
       (\<lambda>b tr'. parked env i dto ud bd rel b (Seal_Recover dto (Inr enc) # (tr @ tr')))"
    proof (rule effect_bind, rule effect_conseq[OF effect_transitionRecovering])
      fix tr2 assume tr2: "idle tr2"
      have p: "parked env i dto ud bd rel (Inr ()) (Seal_Recover dto (Inr enc) # tr @ tr2 @ post)"
        if "if rel then \<exists>x. post = [At_Ktmb (Cancel_Hold ud bd x)] else post = []" for post
      proof -
        let ?tr = "Seal_Recover dto (Inr enc) # tr @ tr2"
        have "\<exists>enc pre post'. ?tr @ post = pre @ post' \<and> idle pre \<and> Seal_Recover dto (Inr enc) \<in> set pre \<and> Push_Recover enc (Inr ()) \<in> set pre
            \<and> (if rel then \<exists>x. post' = [At_Ktmb (Cancel_Hold ud bd x)] else post' = [])"
          by (rule exI[of _ enc], rule exI[of _ ?tr], rule exI[of _ post]) (use that tr tr2 in auto)
        then show ?thesis by (simp add: parked_def)
      qed
      show "effect (if rel then do { _ \<leftarrow> release env ud bd; return (Inr ()) } else return (Inr ()))
         (\<lambda>b tr'. parked env i dto ud bd rel b (Seal_Recover dto (Inr enc) # tr @ tr2 @ tr'))"
        using p by (intro effect_if effect_bind effect_conseq[OF effect_release] effect_return) auto
    qed
  qed
qed

section \<open>A ticket is never lost, a reservation never given up wrongly\<close>

definition ticket_kept :: "'x buyer_env \<Rightarrow> unit result option \<Rightarrow> buyer_event list \<Rightarrow> bool" where
  "ticket_kept env r tr \<longleftrightarrow> (\<forall>no tn. (no, tn) \<in> set (List.map_filter captured tr) \<longrightarrow> \<not> list_ex released tr \<and>
     (case r of
        None \<Rightarrow> False
      | Some s \<Rightarrow> (case s of
            Inr _ \<Rightarrow> \<exists>i. reported i no tn tr \<or> recorded env i no tn tr
          | Inl e \<Rightarrow> record_failed e tr)))"

definition refused_payment :: "Buyer \<Rightarrow> buyer_event list \<Rightarrow> bool" where
  "refused_payment c tr \<longleftrightarrow> (\<exists>u b k a r. At_Ktmb (Pay u b k a (Inr r)) \<in> set tr \<and> \<not> Status r \<and> matchesConflict (revertPatterns c) (Messages r))"

definition refused_passenger :: "Buyer \<Rightarrow> buyer_event list \<Rightarrow> bool" where
  "refused_passenger c tr \<longleftrightarrow> (\<exists>u b ps r. At_Ktmb (Set_Passenger u b ps (Inr r)) \<in> set tr \<and> \<not> Status r \<and> matchesConflict (conflictPatterns c) (Messages r))"

definition no_booking :: "buyer_event list \<Rightarrow> bool" where
  "no_booking tr \<longleftrightarrow> (\<exists>dir day t resp. Reserved dir day t (Inr resp) \<in> set tr \<and> StatusCode resp = 404)"

definition given_back :: "buyer_event list \<Rightarrow> bool" where
  "given_back tr \<longleftrightarrow> (\<exists>i rep. Post_Revert i rep \<in> set tr \<and> accepted rep)"

definition release_justified :: "'x buyer_env \<Rightarrow> Buyer \<Rightarrow> string \<Rightarrow> string \<Rightarrow> buyer_event list \<Rightarrow> bool" where
  "release_justified env c ud bd tr \<longleftrightarrow> (\<forall>u b x. At_Ktmb (Cancel_Hold u b x) \<in> set tr \<longrightarrow>
     u = ud \<and> b = bd \<and> List.map_filter captured tr = []
     \<and> (no_booking tr \<or> refused_payment c tr \<and> given_back tr \<or> refused_passenger c tr \<and> (\<exists>i. recorded env i [] [] tr)))"

definition sound_buy :: "'x buyer_env \<Rightarrow> Buyer \<Rightarrow> string \<Rightarrow> string \<Rightarrow> unit result option \<Rightarrow> buyer_event list \<Rightarrow> bool" where
  "sound_buy env c ud bd r tr \<longleftrightarrow> ticket_kept env r tr \<and> release_justified env c ud bd tr"

lemma refusals_mono:
  "refused_payment c tr \<Longrightarrow> set tr \<subseteq> set tr' \<Longrightarrow> refused_payment c tr'"
  "refused_passenger c tr \<Longrightarrow> set tr \<subseteq> set tr' \<Longrightarrow> refused_passenger c tr'"
  "no_booking tr \<Longrightarrow> set tr \<subseteq> set tr' \<Longrightarrow> no_booking tr'"
  "given_back tr \<Longrightarrow> set tr \<subseteq> set tr' \<Longrightarrow> given_back tr'"
  unfolding refused_payment_def refused_passenger_def no_booking_def given_back_def by blast+

lemma not_release: "\<not> list_ex is_release ktr \<Longrightarrow> Cancel_Hold u b x \<notin> set ktr"
  by (auto simp: list_ex_iff)

lemma captured_ktmb: "List.map_filter captured (map At_Ktmb ktr) = List.map_filter capture ktr"
  by (induction ktr) (auto split: option.split)

lemma released_iff: "list_ex released tr \<longleftrightarrow> (\<exists>u b x. At_Ktmb (Cancel_Hold u b x) \<in> set tr)"
proof -
  have "released ev \<longleftrightarrow> (\<exists>u b x. ev = At_Ktmb (Cancel_Hold u b x))" for ev
    by (cases ev rule: released.cases; simp) (metis is_release.elims(2) is_release.simps(1))
  then show ?thesis by (auto simp: list_ex_iff)
qed

lemma released_ktmb: "list_ex released (map At_Ktmb ktr) = list_ex is_release ktr"
  by (induction ktr) auto

lemma nothing_sound:
  "List.map_filter captured tr = [] \<Longrightarrow> \<not> list_ex released tr \<Longrightarrow> sound_buy env c ud bd r tr"
  by (auto simp: sound_buy_def ticket_kept_def release_justified_def released_iff)

lemma idle_sound: "idle tr \<Longrightarrow> sound_buy env c ud bd r tr"
  by (intro nothing_sound) (auto dest: idle_captured)

lemma sound_before:
  assumes "idle pre" "sound_buy env c ud bd r tr" shows "sound_buy env c ud bd r (pre @ tr)"
proof -
  have c: "List.map_filter captured (pre @ tr) = List.map_filter captured tr" "list_ex released (pre @ tr) = list_ex released tr"
    using idle_captured[OF assms(1)] by auto
  have m: "set tr \<subseteq> set (pre @ tr)" by simp
  have "ticket_kept env r (pre @ tr)" unfolding ticket_kept_def c
  proof (intro allI impI)
    fix no tn assume "(no, tn) \<in> set (List.map_filter captured tr)"
    then have old: "\<not> list_ex released tr" "case r of None \<Rightarrow> False | Some s \<Rightarrow> (case s of
        Inr _ \<Rightarrow> \<exists>i. reported i no tn tr \<or> recorded env i no tn tr | Inl e \<Rightarrow> record_failed e tr)"
      using assms(2) unfolding sound_buy_def ticket_kept_def by blast+
    from old(2) show "\<not> list_ex released tr \<and> (case r of None \<Rightarrow> False | Some s \<Rightarrow> (case s of
        Inr _ \<Rightarrow> \<exists>i. reported i no tn (pre @ tr) \<or> recorded env i no tn (pre @ tr) | Inl e \<Rightarrow> record_failed e (pre @ tr)))"
      using old(1) recorded_mono[OF _ m] reported_mono[OF _ m] record_failed_mono[OF _ m]
      by (cases r) (simp_all split: sum.splits, blast)
  qed
  moreover have "release_justified env c ud bd (pre @ tr)" unfolding release_justified_def c
  proof (intro allI impI)
    fix u b x assume "At_Ktmb (Cancel_Hold u b x) \<in> set (pre @ tr)"
    then have "At_Ktmb (Cancel_Hold u b x) \<in> set tr" using idle_captured[OF assms(1)] by (auto simp: released_iff)
    then have "u = ud \<and> b = bd \<and> List.map_filter captured tr = []
      \<and> (no_booking tr \<or> refused_payment c tr \<and> given_back tr \<or> refused_passenger c tr \<and> (\<exists>i. recorded env i [] [] tr))"
      using assms(2) unfolding sound_buy_def release_justified_def by blast
    then show "u = ud \<and> b = bd \<and> List.map_filter captured tr = []
      \<and> (no_booking (pre @ tr) \<or> refused_payment c (pre @ tr) \<and> given_back (pre @ tr) \<or> refused_passenger c (pre @ tr) \<and> (\<exists>i. recorded env i [] [] (pre @ tr)))"
      using refusals_mono[OF _ m] recorded_mono[OF _ m] by blast
  qed
  ultimately show ?thesis by (simp add: sound_buy_def)
qed

lemma parked_sound_ticket:
  assumes "parked env i (recover_dto env i dir day t p no tn) ud bd False r tr" "List.map_filter capture ktr = [(no, tn)]" "\<not> list_ex is_release ktr"
  shows "sound_buy env c ud bd (Some r) (map At_Ktmb ktr @ tr)"
proof (cases r)
  case (Inl e)
  then have "idle tr" "record_failed e tr" using assms(1) by (auto simp: parked_def)
  then show ?thesis using idle_captured[of tr] assms(2,3) record_failed_mono[of e tr "map At_Ktmb ktr @ tr"]
    by (auto simp: sound_buy_def ticket_kept_def release_justified_def Inl captured_ktmb released_ktmb released_iff not_release)
next
  case (Inr u)
  then have "r = Inr ()" by simp
  then obtain enc where i: "idle tr" and e: "Seal_Recover (recover_dto env i dir day t p no tn) (Inr enc) \<in> set tr" "Push_Recover enc (Inr ()) \<in> set tr"
    using assms(1) by (auto simp: parked_def)
  then have "recorded env i no tn (map At_Ktmb ktr @ tr)"
    unfolding recorded_def by (intro exI[of _ "recover_dto env i dir day t p no tn"] exI[of _ enc]) (simp add: recover_dto_def)
  then show ?thesis using idle_captured[OF i] assms(2,3)
    by (auto simp: sound_buy_def ticket_kept_def release_justified_def Inr captured_ktmb released_ktmb released_iff not_release)
qed

lemma parked_sound_conflict:
  assumes "parked env i (recover_dto env i dir day t p [] []) ud bd True r tr" "List.map_filter capture ktr = []" "\<not> list_ex is_release ktr"
    "refused_passenger c (map At_Ktmb ktr)"
  shows "sound_buy env c ud bd (Some r) (map At_Ktmb ktr @ tr)"
proof (cases r)
  case (Inl e)
  then have "idle tr" using assms(1) by (auto simp: parked_def)
  then show ?thesis using idle_captured[of tr] assms(2,3) by (intro nothing_sound) (auto simp: captured_ktmb released_ktmb)
next
  case (Inr u)
  then obtain enc pre x where tr: "tr = pre @ [At_Ktmb (Cancel_Hold ud bd x)]" "idle pre"
    and e: "Seal_Recover (recover_dto env i dir day t p [] []) (Inr enc) \<in> set tr" "Push_Recover enc (Inr ()) \<in> set tr"
    using assms(1) by (auto simp: parked_def)
  have "recorded env i [] [] (map At_Ktmb ktr @ tr)"
    unfolding recorded_def using e by (intro exI[of _ "recover_dto env i dir day t p [] []"] exI[of _ enc]) (simp add: recover_dto_def)
  moreover have "refused_passenger c (map At_Ktmb ktr @ tr)" by (rule refusals_mono(2)[OF assms(4)]) simp
  moreover have "List.map_filter captured (map At_Ktmb ktr @ tr) = []" using tr idle_captured[of pre] assms(2) by (simp add: captured_ktmb)
  moreover have "u = ud \<and> b = bd" if "At_Ktmb (Cancel_Hold u b y) \<in> set (map At_Ktmb ktr @ tr)" for u b y
    using that tr idle_captured[of pre] assms(3) released_ktmb[of ktr] by (auto simp: released_iff)
  ultimately show ?thesis by (auto simp: sound_buy_def ticket_kept_def release_justified_def)
qed

lemma effect_revert:
  "effect (revert env i ud bd) (\<lambda>r tr. \<exists>rep post. tr = Post_Revert i rep # post \<and> (post = [] \<or> accepted rep \<and> (\<exists>x. post = [At_Ktmb (Cancel_Hold ud bd x)])))"
  unfolding revert_def
  by (intro effect_on_ok_invoke effect_if effect_bind effect_conseq[OF effect_release] effect_return) (auto simp: accepted_def)

lemma settle_reverted:
  assumes "purchased c (Inl (RevertError ms)) ktr"
  shows "effect (revert env i ud bd) (\<lambda>r tr. sound_buy env c ud bd (Some r) (map At_Ktmb ktr @ tr))"
proof (rule effect_conseq[OF effect_revert], elim exE conjE)
  have k: "List.map_filter capture ktr = []" "\<not> list_ex is_release ktr" "founded c (Inl (RevertError ms)) ktr"
    using assms by (auto simp: purchased_def)
  have "refused_payment c (map At_Ktmb ktr)" using k(3) by (fastforce simp: refused_payment_def)
  then have p: "refused_payment c (map At_Ktmb ktr @ tr)" for tr by (rule refusals_mono(1)) simp
  fix r tr rep post assume tr: "tr = Post_Revert i rep # post" "post = [] \<or> accepted rep \<and> (\<exists>x. post = [At_Ktmb (Cancel_Hold ud bd x)])"
  from tr(2) show "sound_buy env c ud bd (Some r) (map At_Ktmb ktr @ tr)"
  proof (elim disjE conjE exE)
    assume "post = []"
    then show ?thesis using k tr(1) by (intro nothing_sound) (auto simp: captured_ktmb released_ktmb)
  next
    fix x assume a: "accepted rep" "post = [At_Ktmb (Cancel_Hold ud bd x)]"
    have "given_back (map At_Ktmb ktr @ tr)" using a(1) tr(1) by (auto simp: given_back_def)
    then show ?thesis using p[of tr] k tr(1) a(2) released_ktmb[of ktr]
      by (auto simp: sound_buy_def ticket_kept_def release_justified_def captured_ktmb released_iff)
  qed
qed

lemma parked_later: "idle tr \<Longrightarrow> parked env i dto ud bd False r tr' \<Longrightarrow> parked env i dto ud bd False r (tr @ tr')"
  using record_failed_mono[of _ tr' "tr @ tr'"] by (auto simp: parked_def)

lemma settle_bought:
  assumes "purchased c (Inr pr) ktr"
  shows "effect (settle env cfg i (recover_dto env i dir day t p) ud bd (Inr pr)) (\<lambda>r tr. sound_buy env c ud bd (Some r) (map At_Ktmb ktr @ tr))"
  unfolding settle_def sum.case
proof (rule effect_bind, rule effect_conseq[OF effect_completeWithZinc], rule effect_case_sum)
  let ?no = "PurchaseResult.BookingNo pr" and ?tn = "PurchaseResult.TicketNo pr"
  have k: "List.map_filter capture ktr = ids_bought (Inr pr)" "\<not> list_ex is_release ktr"
    using assms by (auto simp: purchased_def)
  {
    fix r tr e assume "idle tr \<and> (r = Inr () \<longrightarrow> reported i ?no ?tn tr)" "r = Inl e"
    then have i: "idle tr" by simp
    show "effect (park env cfg i (recover_dto env i dir day t p ?no ?tn) ud bd False)
       (\<lambda>b tr'. sound_buy env c ud bd (Some b) (map At_Ktmb ktr @ tr @ tr'))"
      using k parked_later[OF i] by (intro effect_conseq[OF effect_parking] parked_sound_ticket[of env i dir day t p ?no ?tn]) auto
  }
  fix r tr and u :: unit assume "idle tr \<and> (r = Inr () \<longrightarrow> reported i ?no ?tn tr)" "r = Inr u"
  then have i: "idle tr" "reported i ?no ?tn (map At_Ktmb ktr @ tr)" by (auto intro: reported_mono)
  then show "effect (return (Inr ())) (\<lambda>b tr'. sound_buy env c ud bd (Some b) (map At_Ktmb ktr @ tr @ tr'))"
    using k idle_captured[of tr] by (auto simp: sound_buy_def ticket_kept_def release_justified_def captured_ktmb released_ktmb released_iff not_release)
qed

lemma effect_settle:
  assumes "purchased c bought ktr"
  shows "effect (settle env cfg i (recover_dto env i dir day t p) ud bd bought) (\<lambda>r tr. sound_buy env c ud bd (Some r) (map At_Ktmb ktr @ tr))"
proof -
  have k: "List.map_filter capture ktr = ids_bought bought" "\<not> list_ex is_release ktr" "founded c bought ktr"
    using assms by (auto simp: purchased_def)
  consider (rev) ms where "bought = Inl (RevertError ms)" | (conflict) ms where "bought = Inl (ConflictError ms)"
    | (bought) pr where "bought = Inr pr" | (stuck) no tn cause where "bought = Inl (PurchasedError no tn cause)"
    | (other) e where "bought = Inl (Other_Error e)"
    by (cases bought) (metis buy_error.exhaust)+
  then show ?thesis
  proof cases
    case b: (rev ms)
    show ?thesis unfolding settle_def b sum.case buy_error.case by (rule settle_reverted) (use assms b in simp)
  next
    case b: (conflict ms)
    have "refused_passenger c (map At_Ktmb ktr)" using k(3) b by (fastforce simp: refused_passenger_def)
    then show ?thesis unfolding settle_def b sum.case buy_error.case
      using k b by (intro effect_conseq[OF effect_parking] parked_sound_conflict) auto
  next
    case b: (bought pr)
    show ?thesis unfolding b by (rule settle_bought) (use assms b in simp)
  next
    case b: (stuck no tn cause)
    show ?thesis unfolding settle_def b sum.case buy_error.case
      using k b by (intro effect_conseq[OF effect_parking] parked_sound_ticket) auto
  next
    case b: (other e)
    show ?thesis unfolding settle_def b sum.case buy_error.case
      using k b by (simp add: nothing_sound captured_ktmb released_ktmb)
  qed
qed

lemma effect_buy: "effect (buy env cfg c dir day t ud bd) (sound_buy env c ud bd)"
proof -
  have for_booking: "effect (buy_for env cfg c data dir day t ud bd) (\<lambda>r tr. sound_buy env c ud bd r (pre @ tr))" if pre: "idle pre" for data pre
    unfolding buy_for_def
  proof (intro effect_bind effect_invoke effect_case_sum effect_if effect_case_option)
    fix r :: "unit reply" and a p assume "r = Inr a" "passenger_of (zb_Passenger data) = Some p"
    show "effect (lifted At_Ktmb (Buy (purchase env) c ud bd p)) (\<lambda>bought tr. effect (do {
          s \<leftarrow> settle env cfg (zb_Id data) (recover_dto env (zb_Id data) dir day t p) ud bd bought; return (Some s) })
        (\<lambda>b tr'. sound_buy env c ud bd b (pre @ [Mark_Buying (zb_Id data) r] @ tr @ tr')))"
    proof (rule effect_conseq[OF effect_lifted[OF Buy_purchased]], elim exE conjE)
      fix bought tr ktr assume tr: "tr = map At_Ktmb ktr" "purchased c bought ktr"
      show "effect (do { s \<leftarrow> settle env cfg (zb_Id data) (recover_dto env (zb_Id data) dir day t p) ud bd bought; return (Some s) })
          (\<lambda>b tr'. sound_buy env c ud bd b (pre @ [Mark_Buying (zb_Id data) r] @ tr @ tr'))"
        by (rule effect_bind, rule effect_conseq[OF effect_settle[OF tr(2)]])
          (use pre tr(1) sound_before[of "pre @ [Mark_Buying (zb_Id data) r]"] in auto)
    qed
  qed (use pre in \<open>auto intro: idle_sound\<close>)
  show ?thesis unfolding buy_def
  proof (intro effect_bind effect_invoke effect_case_sum effect_if effect_case_body effect_conseq[OF effect_release] effect_return)
    fix r :: "zinc_booking reply" and a and e :: "unit GenericRes result" and tr assume r: "r = Inr a" "StatusCode a = 404" "\<exists>x. tr = [At_Ktmb (Cancel_Hold ud bd x)]"
    then have "no_booking ([Reserved dir day t r] @ tr @ [])" by (auto simp: no_booking_def)
    then show "sound_buy env c ud bd (Some (case e of Inl err \<Rightarrow> Inl err | Inr _ \<Rightarrow> Inr ())) ([Reserved dir day t r] @ tr @ [])"
      using r by (auto simp: sound_buy_def ticket_kept_def release_justified_def)
  next
    fix r :: "zinc_booking reply" and data
    show "effect (buy_for env cfg c data dir day t ud bd) (\<lambda>b tr'. sound_buy env c ud bd b ([Reserved dir day t r] @ tr'))"
      by (rule for_booking) simp
  qed (auto intro: idle_sound)
qed

text \<open>C20: When KTMB confirmed a ticket, the buyer does not give the reservation back, and the run returns nil
  only after zinc took the ticket's numbers or they are on the recover queue, and an error only after sealing or
  pushing that record failed; it does not panic.\<close>

theorem buy_keeps_ticket:
  "effect (buy env cfg c direction day t userData bookingData) (\<lambda>r tr. ticket_kept env r tr)"
  by (rule effect_conseq[OF effect_buy]) (simp add: sound_buy_def)

text \<open>C21: The buyer gives a reservation back only when no ticket was confirmed in the run, and only because
  zinc has no booking for it, or KTMB refused the payment as transient and zinc took the booking back, or KTMB
  refused the passenger as a duplicate and the booking is recorded for recovery.\<close>

theorem buy_releases_justified:
  "effect (buy env cfg c direction day t userData bookingData) (\<lambda>r tr. release_justified env c userData bookingData tr)"
  by (rule effect_conseq[OF effect_buy]) (simp add: sound_buy_def)

end
