(* ===== verification/Withdrawer.thy ===== *)
theory Withdrawer
  imports Recoverer_Queue Retry
begin

text \<open>
  lib/withdrawer/client.go: the nightly approve sweep behind its two switches, and the reconcile sweep.
  The HTTP client of zinc, its request editors and encoding/json are parameters. An id is a uuid with its
  text; of a withdrawal the program reads the id only.
\<close>

record withdrawal =
  wd_Id :: uuid

text \<open>A raw answer: the status, and the body as far as it could be read, with the error of reading.\<close>

record raw_response =
  raw_Status :: int
  raw_Body :: string
  raw_Error :: "error option"

record 'x withdrawer_env =
  wd_server :: string
  wd_uuid_text :: "uuid \<Rightarrow> string"
  wd_request :: "string \<Rightarrow> unit result"
  wd_edit :: "'x \<Rightarrow> unit result \<times> 'x"
  wd_get :: "string \<Rightarrow> 'x \<Rightarrow> raw_response result \<times> 'x"
  wd_post :: "string \<Rightarrow> 'x \<Rightarrow> raw_response result \<times> 'x"
  wd_list :: "string \<Rightarrow> int \<Rightarrow> int \<Rightarrow> 'x \<Rightarrow> raw_response result \<times> 'x"
  decode_withdrawals :: "string \<Rightarrow> withdrawal list result"
  decode_problem :: "string \<Rightarrow> (string \<times> string) result"
  decode_settings :: "string \<Rightarrow> bool result"

record withdrawer_config =
  ApproveEnable :: bool
  PageLimit :: int

datatype withdrawer_event =
    Edited "unit result"
  | Got string "raw_response result"
  | Posted string "raw_response result"
  | Listed string int int "raw_response result"

type_synonym ('x, 'a) withdrawing = "('x, withdrawer_event, 'a) proc"

section \<open>Listing\<close>

fun dedupe_from :: "uuid set \<Rightarrow> withdrawal list \<Rightarrow> withdrawal list" where
  "dedupe_from seen [] = []"
| "dedupe_from seen (w # ws) =
     (if wd_Id w \<in> seen then dedupe_from seen ws else w # dedupe_from (insert (wd_Id w) seen) ws)"

definition dedupeById :: "withdrawal list \<Rightarrow> withdrawal list" where
  "dedupeById ws = dedupe_from {} ws"

definition maxListPages :: nat where
  "maxListPages = 50"

definition page_limit :: "withdrawer_config \<Rightarrow> int" where
  "page_limit cfg = (if int32 (PageLimit cfg) \<le> 0 then 100 else int32 (PageLimit cfg))"

text \<open>The loop over the pages, with the number of pages left, the offset and the withdrawals so far.\<close>

fun list_pages :: "'x withdrawer_env \<Rightarrow> int \<Rightarrow> string \<Rightarrow> nat \<Rightarrow> int \<Rightarrow> withdrawal list \<Rightarrow> ('x, withdrawal list result) withdrawing" where
  "list_pages env limit status 0 skip all = return (Inr all)"
| "list_pages env limit status (Suc n) skip all =
     on_ok (invoke (wd_list env status limit skip) (Listed status limit skip)) (\<lambda>resp.
       if raw_Status resp \<noteq> 200 then return (Inl (Status_Error (''failed to list '' @ status @ '' withdrawals'') (raw_Status resp)))
       else (case raw_Error resp of
           Some readErr \<Rightarrow> return (Inl readErr)
         | None \<Rightarrow> (case decode_withdrawals env (raw_Body resp) of
               Inl err \<Rightarrow> return (Inl err)
             | Inr items \<Rightarrow>
                 if int32 (int (length items)) < limit then return (Inr (all @ items))
                 else list_pages env limit status n (int32 (skip + limit)) (all @ items))))"

definition listByStatus :: "'x withdrawer_env \<Rightarrow> withdrawer_config \<Rightarrow> string \<Rightarrow> ('x, withdrawal list result) withdrawing" where
  "listByStatus env cfg status = list_pages env (page_limit cfg) status maxListPages 0 []"

section \<open>One withdrawal\<close>

definition errNotApprovable :: error where
  "errNotApprovable = Msg ''withdrawal is not in an approvable state''"

definition errNotReconcilable :: error where
  "errNotReconcilable = Msg ''withdrawal is not in a reconcilable state''"

definition isInvalidWithdrawalOperation :: "'x withdrawer_env \<Rightarrow> int \<Rightarrow> string \<Rightarrow> bool" where
  "isInvalidWithdrawalOperation env status body \<longleftrightarrow> 400 \<le> status \<and> status < 500 \<and>
     (case decode_problem env body of
        Inl _ \<Rightarrow> False
      | Inr (typ, title) \<Rightarrow> has_suffix typ ''/invalid_withdrawal_operation'' \<or> equal_fold title ''Invalid Withdrawal Operation'')"

definition trim_slash :: "string \<Rightarrow> string" where
  "trim_slash s = (if has_suffix s ''/'' then butlast s else s)"

definition action_url :: "'x withdrawer_env \<Rightarrow> string \<Rightarrow> string \<Rightarrow> string" where
  "action_url env i action = trim_slash (wd_server env) @ ''/api/v1.0/Withdrawal/'' @ i @ ''/'' @ action"

definition postWithdrawalAction :: "'x withdrawer_env \<Rightarrow> string \<Rightarrow> string \<Rightarrow> error \<Rightarrow> ('x, unit result) withdrawing" where
  "postWithdrawalAction env i action benign =
     (case wd_request env (action_url env i action) of
        Inl err \<Rightarrow> return (Inl err)
      | Inr _ \<Rightarrow>
          on_ok (invoke (wd_edit env) Edited) (\<lambda>_.
          on_ok (invoke (wd_post env (action_url env i action)) (Posted (action_url env i action))) (\<lambda>resp.
            if raw_Status resp < 200 \<or> raw_Status resp \<ge> 300
            then if isInvalidWithdrawalOperation env (raw_Status resp) (raw_Body resp)
              then return (Inl (Wrapped (''withdrawal '' @ i) benign))
              else return (Inl (Status_Error (''failed to '' @ action @ '' withdrawal '' @ i) (raw_Status resp)))
            else return (Inr ()))))"

definition approve :: "'x withdrawer_env \<Rightarrow> string \<Rightarrow> ('x, unit result) withdrawing" where
  "approve env i = postWithdrawalAction env i ''approve'' errNotApprovable"

definition reconcile :: "'x withdrawer_env \<Rightarrow> string \<Rightarrow> ('x, unit result) withdrawing" where
  "reconcile env i = postWithdrawalAction env i ''reconcile'' errNotReconcilable"

section \<open>The sweeps\<close>

record sweepSummary =
  total :: nat
  succeeded :: nat
  skipped :: nat
  failed :: nat

definition tally :: "error \<Rightarrow> unit result \<Rightarrow> sweepSummary \<Rightarrow> sweepSummary" where
  "tally benign r s =
     (case r of
        Inr _ \<Rightarrow> s\<lparr>succeeded := succeeded s + 1\<rparr>
      | Inl err \<Rightarrow> if errors_is err benign then s\<lparr>skipped := skipped s + 1\<rparr> else s\<lparr>failed := failed s + 1\<rparr>)"

fun sweep_all :: "'x withdrawer_env \<Rightarrow> (string \<Rightarrow> ('x, unit result) withdrawing) \<Rightarrow> error \<Rightarrow> withdrawal list \<Rightarrow> sweepSummary
    \<Rightarrow> ('x, sweepSummary) withdrawing" where
  "sweep_all env act benign [] s = return s"
| "sweep_all env act benign (w # ws) s = do {
     r \<leftarrow> act (wd_uuid_text env (wd_Id w));
     sweep_all env act benign ws (tally benign r s)
   }"

definition no_summary :: "nat \<Rightarrow> sweepSummary" where
  "no_summary n = \<lparr>total = n, succeeded = 0, skipped = 0, failed = 0\<rparr>"

definition sweep_listed :: "'x withdrawer_env \<Rightarrow> (string \<Rightarrow> ('x, unit result) withdrawing) \<Rightarrow> error \<Rightarrow> withdrawal list
    \<Rightarrow> ('x, sweepSummary result) withdrawing" where
  "sweep_listed env act benign ws =
     (if ws = [] then return (Inr (no_summary 0))
      else do { s \<leftarrow> sweep_all env act benign ws (no_summary (length ws)); return (Inr s) })"

definition sweep :: "'x withdrawer_env \<Rightarrow> withdrawer_config \<Rightarrow> ('x, sweepSummary result) withdrawing" where
  "sweep env cfg =
     on_ok (listByStatus env cfg ''Pending'') (\<lambda>pending.
     on_ok (listByStatus env cfg ''Processing'') (\<lambda>processing.
     sweep_listed env (approve env) errNotApprovable (dedupeById (pending @ processing))))"

definition reconcileSweep :: "'x withdrawer_env \<Rightarrow> withdrawer_config \<Rightarrow> ('x, sweepSummary result) withdrawing" where
  "reconcileSweep env cfg =
     on_ok (listByStatus env cfg ''Processing'') (\<lambda>processing.
     sweep_listed env (reconcile env) errNotReconcilable (dedupeById processing))"

section \<open>The two switches\<close>

datatype gateDecision = gateRun | gateSkipConfig | gateSkipDisabled | gateSkipNotFound | gateSkipFetchError

record settingsResult =
  enabled :: bool
  notFound :: bool
  settings_err :: "error option"

definition sweepGate :: "bool \<Rightarrow> settingsResult \<Rightarrow> gateDecision" where
  "sweepGate configEnable s =
     (if \<not> configEnable then gateSkipConfig
      else if settings_err s \<noteq> None then gateSkipFetchError
      else if notFound s then gateSkipNotFound
      else if \<not> enabled s then gateSkipDisabled
      else gateRun)"

definition settings_failed :: "error \<Rightarrow> settingsResult" where
  "settings_failed err = \<lparr>enabled = False, notFound = False, settings_err = Some err\<rparr>"

definition settings_url :: "'x withdrawer_env \<Rightarrow> string" where
  "settings_url env = trim_slash (wd_server env) @ ''/api/v1.0/Withdrawal/settings/current''"

definition read_settings :: "'x withdrawer_env \<Rightarrow> raw_response \<Rightarrow> settingsResult" where
  "read_settings env resp =
     (if raw_Status resp = 404 then \<lparr>enabled = False, notFound = True, settings_err = None\<rparr>
      else if raw_Status resp \<noteq> 200 then settings_failed (Status_Error ''failed to fetch withdrawal settings'' (raw_Status resp))
      else case raw_Error resp of
          Some readErr \<Rightarrow> settings_failed readErr
        | None \<Rightarrow> (case decode_settings env (raw_Body resp) of
              Inl err \<Rightarrow> settings_failed (Wrapped ''failed to decode withdrawal settings'' err)
            | Inr sweepEnabled \<Rightarrow> \<lparr>enabled = sweepEnabled, notFound = False, settings_err = None\<rparr>))"

definition fetchSweepSettings :: "'x withdrawer_env \<Rightarrow> ('x, settingsResult) withdrawing" where
  "fetchSweepSettings env =
     (case wd_request env (settings_url env) of
        Inl err \<Rightarrow> return (settings_failed err)
      | Inr _ \<Rightarrow> do {
          r \<leftarrow> on_ok (invoke (wd_edit env) Edited) (\<lambda>_. invoke (wd_get env (settings_url env)) (Got (settings_url env)));
          return (case r of Inl err \<Rightarrow> settings_failed err | Inr resp \<Rightarrow> read_settings env resp)
        })"

definition approveSweepDecision :: "'x withdrawer_env \<Rightarrow> withdrawer_config \<Rightarrow> ('x, gateDecision) withdrawing" where
  "approveSweepDecision env cfg =
     (if \<not> ApproveEnable cfg then return gateSkipConfig
      else do { s \<leftarrow> fetchSweepSettings env; return (sweepGate True s) })"

text \<open>What Start does on a tick of each cron. The result of a sweep is only logged.\<close>

definition approve_tick :: "'x withdrawer_env \<Rightarrow> withdrawer_config \<Rightarrow> ('x, sweepSummary result option) withdrawing" where
  "approve_tick env cfg = do {
     decision \<leftarrow> approveSweepDecision env cfg;
     if decision = gateRun then do { r \<leftarrow> sweep env cfg; return (Some r) } else return None
   }"

definition reconcile_tick :: "'x withdrawer_env \<Rightarrow> withdrawer_config \<Rightarrow> ('x, sweepSummary result) withdrawing" where
  "reconcile_tick env cfg = reconcileSweep env cfg"

section \<open>What a sweep does\<close>

fun posted_url :: "withdrawer_event \<Rightarrow> string option" where
  "posted_url (Posted u r) = Some u"
| "posted_url ev = None"

fun done_url :: "withdrawer_event \<Rightarrow> string option" where
  "done_url (Posted u (Inr resp)) = (if 200 \<le> raw_Status resp \<and> raw_Status resp < 300 then Some u else None)"
| "done_url ev = None"

lemma dedupe_from_distinct:
  "distinct (map wd_Id (dedupe_from seen ws)) \<and> wd_Id ` set (dedupe_from seen ws) = wd_Id ` set ws - seen"
proof (induction ws arbitrary: seen)
  case (Cons w ws)
  then show ?case by (auto simp: image_iff)
qed simp

lemma dedupeById_ids: "distinct (map wd_Id (dedupeById ws)) \<and> wd_Id ` set (dedupeById ws) = wd_Id ` set ws"
  using dedupe_from_distinct[of "{}" ws] by (simp add: dedupeById_def)


text \<open>The withdrawals the pages of a run decoded to, in order.\<close>

fun page_of :: "'x withdrawer_env \<Rightarrow> withdrawer_event \<Rightarrow> withdrawal list option" where
  "page_of env (Listed st limit skip (Inr resp)) = (case decode_withdrawals env (raw_Body resp) of Inl e \<Rightarrow> None | Inr items \<Rightarrow> Some items)"
| "page_of env ev = None"

definition listed_in :: "'x withdrawer_env \<Rightarrow> withdrawer_event list \<Rightarrow> withdrawal list" where
  "listed_in env tr = concat (List.map_filter (page_of env) tr)"

lemma listed_in_simps [simp]:
  "listed_in env [] = []" "listed_in env (tr @ tr') = listed_in env tr @ listed_in env tr'"
  "listed_in env (ev # tr) = (case page_of env ev of None \<Rightarrow> [] | Some ws \<Rightarrow> ws) @ listed_in env tr"
  by (auto simp: listed_in_def split: option.split)

fun is_listing :: "withdrawer_event \<Rightarrow> bool" where
  "is_listing (Listed st limit skip r) = True"
| "is_listing ev = False"

lemma listing_no_post: "list_all is_listing tr \<Longrightarrow> List.map_filter posted_url tr = [] \<and> List.map_filter done_url tr = []"
proof (induction tr)
  case (Cons ev tr)
  then show ?case by (cases ev) auto
qed simp

lemma effect_list_pages:
  "effect (list_pages env limit status n skip acc) (\<lambda>r tr. list_all is_listing tr \<and> length tr \<le> n \<and> (\<forall>ws. r = Inr ws \<longrightarrow> ws = acc @ listed_in env tr))"
proof (induction n arbitrary: skip acc)
  case (Suc n)
  show ?case unfolding list_pages.simps
    by (intro effect_on_ok_invoke effect_if effect_case_option effect_case_sum effect_return effect_conseq[OF Suc.IH]) auto
qed simp

lemma effect_listByStatus:
  "effect (listByStatus env cfg status) (\<lambda>r tr. list_all is_listing tr \<and> length tr \<le> 50 \<and> (\<forall>ws. r = Inr ws \<longrightarrow> ws = listed_in env tr))"
  unfolding listByStatus_def by (rule effect_conseq[OF effect_list_pages]) (simp add: maxListPages_def)

text \<open>zinc's refusal of an operation the state of the withdrawal does not allow.\<close>

fun refused :: "'x withdrawer_env \<Rightarrow> withdrawer_event \<Rightarrow> bool" where
  "refused env (Posted u (Inr resp)) = isInvalidWithdrawalOperation env (raw_Status resp) (raw_Body resp)"
| "refused env ev = False"

definition acted :: "'x withdrawer_env \<Rightarrow> error \<Rightarrow> string \<Rightarrow> unit result \<Rightarrow> withdrawer_event list \<Rightarrow> bool" where
  "acted env benign url r tr \<longleftrightarrow> listed_in env tr = [] \<and> List.map_filter posted_url tr \<in> {[], [url]}
     \<and> List.map_filter done_url tr = (if r = Inr () then [url] else [])
     \<and> length (filter (refused env) tr) \<le> (case r of Inr _ \<Rightarrow> 0 | Inl e \<Rightarrow> if errors_is e benign then 1 else 0)"

lemma effect_action: "effect (postWithdrawalAction env i action benign) (acted env benign (action_url env i action))"
  unfolding postWithdrawalAction_def
  by (intro effect_on_ok_invoke effect_if effect_case_sum effect_return)
    (auto simp: acted_def isInvalidWithdrawalOperation_def)

text \<open>The summary of a sweep accounts for every withdrawal, and its posts are one a withdrawal at most.\<close>

definition accounts :: "'x withdrawer_env \<Rightarrow> (withdrawal \<Rightarrow> string) \<Rightarrow> withdrawal list \<Rightarrow> sweepSummary \<Rightarrow> withdrawer_event list \<Rightarrow> bool" where
  "accounts env url ws s tr \<longleftrightarrow> total s = length ws \<and> succeeded s + skipped s + failed s = length ws
     \<and> subseq (List.map_filter posted_url tr) (map url ws) \<and> succeeded s = length (List.map_filter done_url tr)
     \<and> length (filter (refused env) tr) \<le> skipped s"

lemma effect_sweep_all:
  assumes "\<And>w. effect (act (wd_uuid_text env (wd_Id w))) (acted env benign (url w))"
  shows "effect (sweep_all env act benign ws s) (\<lambda>s' tr. total s' = total s \<and> listed_in env tr = []
     \<and> succeeded s' + skipped s' + failed s' = succeeded s + skipped s + failed s + length ws
     \<and> subseq (List.map_filter posted_url tr) (map url ws) \<and> succeeded s' = succeeded s + length (List.map_filter done_url tr)
     \<and> skipped s + length (filter (refused env) tr) \<le> skipped s')"
proof (induction ws arbitrary: s)
  case (Cons w ws)
  show ?case unfolding sweep_all.simps
  proof (rule effect_bind, rule effect_conseq[OF assms], rule effect_conseq[OF Cons.IH])
    fix r tr s' tr'
    assume a: "acted env benign (url w) r tr"
      and ih: "total s' = total (tally benign r s) \<and> listed_in env tr' = []
        \<and> succeeded s' + skipped s' + failed s' = succeeded (tally benign r s) + skipped (tally benign r s) + failed (tally benign r s) + length ws
        \<and> subseq (List.map_filter posted_url tr') (map url ws) \<and> succeeded s' = succeeded (tally benign r s) + length (List.map_filter done_url tr')
        \<and> skipped (tally benign r s) + length (filter (refused env) tr') \<le> skipped s'"
    have t: "total (tally benign r s) = total s"
      "succeeded (tally benign r s) + skipped (tally benign r s) + failed (tally benign r s) = succeeded s + skipped s + failed s + 1"
      "succeeded (tally benign r s) = succeeded s + (if r = Inr () then 1 else 0)"
      "skipped (tally benign r s) = skipped s + (case r of Inr _ \<Rightarrow> 0 | Inl e \<Rightarrow> if errors_is e benign then 1 else 0)"
      by (auto simp: tally_def split: sum.split)
    have "subseq (List.map_filter posted_url tr @ List.map_filter posted_url tr') ([url w] @ map url ws)"
      using a ih by (intro list_emb_append_mono) (auto simp: acted_def)
    then show "total s' = total s \<and> listed_in env (tr @ tr') = []
      \<and> succeeded s' + skipped s' + failed s' = succeeded s + skipped s + failed s + length (w # ws)
      \<and> subseq (List.map_filter posted_url (tr @ tr')) (map url (w # ws)) \<and> succeeded s' = succeeded s + length (List.map_filter done_url (tr @ tr'))
      \<and> skipped s + length (filter (refused env) (tr @ tr')) \<le> skipped s'"
      using a ih t by (auto simp: acted_def split: if_splits)
  qed
qed simp

lemma effect_sweep_listed:
  assumes "\<And>w. effect (act (wd_uuid_text env (wd_Id w))) (acted env benign (url w))"
  shows "effect (sweep_listed env act benign ws) (\<lambda>r tr. listed_in env tr = [] \<and> (\<exists>s. r = Inr s \<and> accounts env url ws s tr))"
  unfolding sweep_listed_def
  by (intro effect_if effect_bind effect_conseq[OF effect_sweep_all[where act = act and url = url, OF assms]] effect_return)
    (auto simp: accounts_def no_summary_def)

definition swept :: "'x withdrawer_env \<Rightarrow> string \<Rightarrow> sweepSummary result \<Rightarrow> withdrawer_event list \<Rightarrow> bool" where
  "swept env action r tr \<longleftrightarrow>
     (case r of
        Inl e \<Rightarrow> List.map_filter posted_url tr = []
      | Inr s \<Rightarrow> accounts env (\<lambda>w. action_url env (wd_uuid_text env (wd_Id w)) action) (dedupeById (listed_in env tr)) s tr)"

lemma accounts_after:
  assumes "list_all is_listing pre" "accounts env url ws s tr" shows "accounts env url ws s (pre @ tr)"
proof -
  have "filter (refused env) pre = []" using assms(1)
  proof (induction pre)
    case (Cons ev pre)
    then show ?case by (cases ev) auto
  qed simp
  then show ?thesis using assms listing_no_post[of pre] by (simp add: accounts_def)
qed

lemma effect_sweep: "effect (sweep env cfg) (swept env ''approve'')"
  unfolding sweep_def
proof (rule effect_on_ok_cases[OF effect_listByStatus], simp add: swept_def listing_no_post, rule effect_on_ok_cases[OF effect_listByStatus])
  fix ws :: "withdrawal list" and tr e tr2 assume "list_all is_listing tr \<and> length tr \<le> 50 \<and> (\<forall>w. Inr ws = Inr w \<longrightarrow> w = listed_in env tr)"
    "list_all is_listing tr2 \<and> length tr2 \<le> 50 \<and> (\<forall>w. (Inl e :: withdrawal list result) = Inr w \<longrightarrow> w = listed_in env tr2)"
  then show "swept env ''approve'' (Inl e) (tr @ tr2)" by (simp add: swept_def listing_no_post)
next
  fix ws tr ws2 tr2 assume l: "list_all is_listing tr \<and> length tr \<le> 50 \<and> (\<forall>w. Inr ws = Inr w \<longrightarrow> w = listed_in env tr)"
    "list_all is_listing tr2 \<and> length tr2 \<le> 50 \<and> (\<forall>w. Inr ws2 = Inr w \<longrightarrow> w = listed_in env tr2)"
  have act: "effect (approve env (wd_uuid_text env (wd_Id w))) (acted env errNotApprovable (action_url env (wd_uuid_text env (wd_Id w)) ''approve''))" for w
    unfolding approve_def by (rule effect_action)
  show "effect (sweep_listed env (approve env) errNotApprovable (dedupeById (ws @ ws2))) (\<lambda>b tr'. swept env ''approve'' b (tr @ tr2 @ tr'))"
    by (rule effect_conseq[OF effect_sweep_listed[where act = "approve env" and url = "\<lambda>w. action_url env (wd_uuid_text env (wd_Id w)) ''approve''", OF act]])
      (use l accounts_after[of "tr @ tr2"] in \<open>auto simp: swept_def\<close>)
qed

lemma effect_reconcileSweep: "effect (reconcileSweep env cfg) (swept env ''reconcile'')"
  unfolding reconcileSweep_def
proof (rule effect_on_ok_cases[OF effect_listByStatus], simp add: swept_def listing_no_post)
  fix ws tr assume l: "list_all is_listing tr \<and> length tr \<le> 50 \<and> (\<forall>w. Inr ws = Inr w \<longrightarrow> w = listed_in env tr)"
  have act: "effect (reconcile env (wd_uuid_text env (wd_Id w))) (acted env errNotReconcilable (action_url env (wd_uuid_text env (wd_Id w)) ''reconcile''))" for w
    unfolding reconcile_def by (rule effect_action)
  show "effect (sweep_listed env (reconcile env) errNotReconcilable (dedupeById ws)) (\<lambda>b tr'. swept env ''reconcile'' b (tr @ tr'))"
    by (rule effect_conseq[OF effect_sweep_listed[where act = "reconcile env" and url = "\<lambda>w. action_url env (wd_uuid_text env (wd_Id w)) ''reconcile''", OF act]]) (use l accounts_after[of tr] in \<open>auto simp: swept_def\<close>)
qed

text \<open>C22: A sweep posts its action at most once for each withdrawal zinc listed, and for no other, in the
  order of the lists without repetitions; its summary accounts for every one of them, counts as succeeded
  exactly the posts zinc took, and every refusal of an operation that no longer applies as skipped. A sweep
  that could not list posts nothing.\<close>

theorem sweeps_account:
  "effect (sweep env cfg) (swept env ''approve'') \<and> effect (reconcileSweep env cfg) (swept env ''reconcile'')
 \<and> (\<forall>ws. distinct (map wd_Id (dedupeById ws)) \<and> wd_Id ` set (dedupeById ws) = wd_Id ` set ws)"
  using effect_sweep effect_reconcileSweep dedupeById_ids by blast

section \<open>The switches fail closed\<close>

definition switched_on :: "'x withdrawer_env \<Rightarrow> withdrawer_config \<Rightarrow> withdrawer_event list \<Rightarrow> bool" where
  "switched_on env cfg tr \<longleftrightarrow> ApproveEnable cfg \<and> (\<exists>resp. Got (settings_url env) (Inr resp) \<in> set tr \<and> raw_Status resp = 200
     \<and> raw_Error resp = None \<and> decode_settings env (raw_Body resp) = Inr True)"

lemma effect_decision:
  "effect (approveSweepDecision env cfg) (\<lambda>d tr. \<not> list_ex (\<lambda>ev. is_listing ev \<or> posted_url ev \<noteq> None) tr \<and> (d = gateRun \<longrightarrow> switched_on env cfg tr))"
  unfolding approveSweepDecision_def fetchSweepSettings_def
  by (intro effect_if effect_return effect_bind effect_case_sum effect_on_ok_invoke effect_invoke)
    (auto simp: sweepGate_def settings_failed_def read_settings_def switched_on_def split: sum.splits option.splits if_splits)

text \<open>C23: An approve tick lists or posts something only when the deploy enables approving and zinc answered, in
  this very tick, 200 with settings that read as enabled; everything else, unreadable settings included, skips it.\<close>

theorem approve_tick_fails_closed:
  "effect (approve_tick env cfg) (\<lambda>r tr. list_ex (\<lambda>ev. is_listing ev \<or> posted_url ev \<noteq> None) tr \<longrightarrow> switched_on env cfg tr)"
  unfolding approve_tick_def
proof (rule effect_bind, rule effect_conseq[OF effect_decision], rule effect_if)
  fix d tr assume d: "\<not> list_ex (\<lambda>ev. is_listing ev \<or> posted_url ev \<noteq> None) tr \<and> (d = gateRun \<longrightarrow> switched_on env cfg tr)" "d = gateRun"
  then have "switched_on env cfg (tr @ tr')" for tr' by (auto simp: switched_on_def)
  then show "effect (do { r \<leftarrow> sweep env cfg; return (Some r) })
    (\<lambda>b tr'. list_ex (\<lambda>ev. is_listing ev \<or> posted_url ev \<noteq> None) (tr @ tr') \<longrightarrow> switched_on env cfg (tr @ tr'))"
    by (intro effect_bind effect_conseq[OF effect_sweep]) simp
qed simp

definition enabled_zinc :: "unit withdrawer_env" where
  "enabled_zinc = \<lparr>wd_server = ''z'', wd_uuid_text = (\<lambda>_. ''u''), wd_request = (\<lambda>_. Inr ()), wd_edit = (\<lambda>x. (Inr (), x)),
     wd_get = (\<lambda>_ x. (Inr \<lparr>raw_Status = 200, raw_Body = [], raw_Error = None\<rparr>, x)),
     wd_post = (\<lambda>_ x. (Inr \<lparr>raw_Status = 200, raw_Body = [], raw_Error = None\<rparr>, x)),
     wd_list = (\<lambda>st l k x. (Inr \<lparr>raw_Status = 200, raw_Body = [], raw_Error = None\<rparr>, x)),
     decode_withdrawals = (\<lambda>_. Inr [\<lparr>wd_Id = 7\<rparr>]), decode_problem = (\<lambda>_. Inl Decode_Error), decode_settings = (\<lambda>_. Inr True)\<rparr>"

lemmas list_pages_50 = list_pages.simps(2)[where n = 49, simplified]

lemma enabled_zinc_tick:
  "list_ex (\<lambda>ev. is_listing ev \<or> posted_url ev \<noteq> None) (trace (approve_tick enabled_zinc \<lparr>ApproveEnable = True, PageLimit = 10\<rparr>) ())"
  by (simp add: trace_def fresh_world_def approve_tick_def approveSweepDecision_def fetchSweepSettings_def read_settings_def sweepGate_def
      enabled_zinc_def sweep_def listByStatus_def list_pages_50 maxListPages_def page_limit_def dedupeById_def sweep_listed_def
      approve_def postWithdrawalAction_def no_summary_def int32_small)

theorem approve_tick_fails_closed_witness:
  "list_ex (\<lambda>ev. is_listing ev \<or> posted_url ev \<noteq> None) (trace (approve_tick enabled_zinc \<lparr>ApproveEnable = True, PageLimit = 10\<rparr>) ())
 \<and> switched_on enabled_zinc \<lparr>ApproveEnable = True, PageLimit = 10\<rparr> (trace (approve_tick enabled_zinc \<lparr>ApproveEnable = True, PageLimit = 10\<rparr>) ())"
  using effect_trace[OF approve_tick_fails_closed[of enabled_zinc "\<lparr>ApproveEnable = True, PageLimit = 10\<rparr>"], of "()"] enabled_zinc_tick by blast

end
