(* ===== verification/Terminator.thy ===== *)
theory Terminator
  imports Ktmb_Api Retry Recoverer
begin

text \<open>
  lib/terminator: refunding the ticket of a terminated booking on KTMB and reporting the refund to zinc.
  KTMB, the session, zinc, redis and telemetry are parameters. The search through the pages of the ticket
  list trusts the page count of each answer, so it runs on fuel.
\<close>

record BookingTermination =
  term_Id :: uuid
  term_BookingNo :: string
  term_TicketNo :: string

record 'x terminator_env =
  tm_login :: "'x \<Rightarrow> string result \<times> 'x"
  tm_list :: "string \<Rightarrow> int \<Rightarrow> 'x \<Rightarrow> TicketListRes GenericRes result \<times> 'x"
  tm_policy :: "string \<Rightarrow> string \<Rightarrow> string \<Rightarrow> 'x \<Rightarrow> RefundPolicyRes GenericRes result \<times> 'x"
  tm_refund :: "string \<Rightarrow> string \<Rightarrow> string \<Rightarrow> 'x \<Rightarrow> unit GenericRes result \<times> 'x"
  tm_report :: "(uuid \<Rightarrow> float32 \<Rightarrow> string \<Rightarrow> 'x \<Rightarrow> unit reply \<times> 'x) option"
  tm_configure :: "'x \<Rightarrow> unit result \<times> 'x"
  tm_pop :: "'x \<Rightarrow> (string option) result \<times> 'x"
  tm_decode :: "string \<Rightarrow> BookingTermination result"
  tm_sleep :: "duration \<Rightarrow> 'x \<Rightarrow> unit \<times> 'x"

datatype terminator_event =
    Term_Login "string result"
  | List_Page int "TicketListRes GenericRes result"
  | Get_Policy string string "RefundPolicyRes GenericRes result"
  | Refund string string "unit GenericRes result"
  | Report_Refund uuid float32 string "unit reply"
  | Term_Configured "unit result"
  | Term_Popped "(string option) result"
  | Term_Slept duration

type_synonym ('x, 'a) terminating = "('x, terminator_event, 'a) proc"

section \<open>Finding the ticket\<close>

definition ticket_data_in :: "TicketListBookingRes list \<Rightarrow> string \<Rightarrow> string \<Rightarrow> (string \<times> string) option" where
  "ticket_data_in bookings bookingNo ticketNo =
     (case concat (map (\<lambda>b. if list_booking_BookingNo b = bookingNo
         then map (\<lambda>t. (list_booking_BookingData b, list_ticket_TicketData t))
           (filter (\<lambda>t. list_ticket_TicketNo t = ticketNo) (concat (map list_trip_Tickets (list_booking_Trips b))))
         else []) bookings) of
        [] \<Rightarrow> None
      | found # _ \<Rightarrow> Some found)"

fun find :: "'x terminator_env \<Rightarrow> string \<Rightarrow> string \<Rightarrow> string \<Rightarrow> nat \<Rightarrow> int \<Rightarrow> ('x, (string \<times> string) result option) terminating" where
  "find env userData bookingNo ticketNo 0 page = return None"
| "find env userData bookingNo ticketNo (Suc n) page = do {
     r \<leftarrow> invoke (tm_list env userData page) (List_Page page);
     case r of
       Inl err \<Rightarrow> return (Some (Inl err))
     | Inr first \<Rightarrow>
         if \<not> Status first then return (Some (Inl (Msg (''failed to list tickets: '' @ fmt_strings (Messages first)))))
         else (case ticket_data_in (list_Bookings (Data first)) bookingNo ticketNo of
             Some found \<Rightarrow> return (Some (Inr found))
           | None \<Rightarrow>
               if list_TotalPage (Data first) > page then find env userData bookingNo ticketNo n (page + 1)
               else return (Some (Inl (Msg ''ticket not found''))))
   }"

section \<open>The policy\<close>

definition policy_tickets :: "RefundPolicyRes \<Rightarrow> RefundPolicyTripTicketRes list" where
  "policy_tickets policy = concat (map policy_trip_Tickets (policy_Trips policy))"

fun normalizeCurrency :: "string list \<Rightarrow> string" where
  "normalizeCurrency [] = ''MYR''"
| "normalizeCurrency (c # cs) = (if to_upper (trim_space c) \<noteq> [] then to_upper (trim_space c) else normalizeCurrency cs)"

text \<open>The last ticket with the number, as the loop keeps it.\<close>

definition matched_ticket :: "RefundPolicyRes \<Rightarrow> string \<Rightarrow> RefundPolicyTripTicketRes option" where
  "matched_ticket policy ticketNo = List.find (\<lambda>t. policy_ticket_TicketNo t = ticketNo) (rev (policy_tickets policy))"

definition refundAmount :: "RefundPolicyRes \<Rightarrow> string \<Rightarrow> (float32 \<times> string) option" where
  "refundAmount policy ticketNo =
     (let matched = matched_ticket policy ticketNo; ticketCount = length (policy_tickets policy) in
      case matched of
        Some t \<Rightarrow>
          if positive (policy_ticket_RefundAmount t)
          then Some (policy_ticket_RefundAmount t, normalizeCurrency [policy_ticket_CurrencyCode t, policy_CurrencyCode policy])
          else if positive (policy_TotalRefundAmount policy) \<and> (ticketCount = 0 \<or> ticketCount = 1)
          then Some (policy_TotalRefundAmount policy, normalizeCurrency [policy_CurrencyCode policy])
          else None
      | None \<Rightarrow>
          if positive (policy_TotalRefundAmount policy) \<and> ticketCount = 0
          then Some (policy_TotalRefundAmount policy, normalizeCurrency [policy_CurrencyCode policy])
          else None)"

definition refundTicket :: "RefundPolicyRes \<Rightarrow> string \<Rightarrow> RefundPolicyTripTicketRes result" where
  "refundTicket policy ticketNo =
     (case List.find (\<lambda>t. policy_ticket_TicketNo t = ticketNo) (policy_tickets policy) of
        Some t \<Rightarrow> if policy_ticket_TicketData t = [] then Inl (Msg ''refund policy ticket has no ticket data'') else Inr t
      | None \<Rightarrow> (case policy_tickets policy of
            [sole] \<Rightarrow> if policy_ticket_TicketNo sole = [] \<and> policy_ticket_TicketData sole \<noteq> [] then Inr sole
              else Inl (Msg ''refund policy does not contain ticket'')
          | _ \<Rightarrow> Inl (Msg ''refund policy does not contain ticket'')))"

section \<open>Terminating\<close>

definition reportRefund :: "'x terminator_env \<Rightarrow> uuid \<Rightarrow> float32 \<Rightarrow> string \<Rightarrow> ('x, unit result) terminating" where
  "reportRefund env i amount currency =
     (case tm_report env of
        None \<Rightarrow> return (Inl (Msg ''zinc refund reporter is not configured''))
      | Some report \<Rightarrow>
          on_ok (invoke (report i amount currency) (Report_Refund i amount currency)) (\<lambda>resp.
            return (if StatusCode resp < 200 \<or> StatusCode resp \<ge> 300 then Inl (Status_Error ''status'' (StatusCode resp)) else Inr ())))"

definition refund_found :: "'x terminator_env \<Rightarrow> BookingTermination \<Rightarrow> string \<Rightarrow> string \<Rightarrow> string \<Rightarrow> ('x, unit result) terminating" where
  "refund_found env t cred bookingData ticketData =
     on_ok (invoke (tm_policy env cred bookingData ticketData) (Get_Policy bookingData ticketData)) (\<lambda>policy.
       if \<not> Status policy then return (Inl (Msg (''failed to get refund policy: '' @ fmt_strings (Messages policy))))
       else (case refundTicket (Data policy) (term_TicketNo t) of
           Inl err \<Rightarrow> return (Inl err)
         | Inr ticket \<Rightarrow>
             on_ok (invoke (tm_refund env cred (policy_BookingData (Data policy)) (policy_ticket_TicketData ticket))
                 (Refund (policy_BookingData (Data policy)) (policy_ticket_TicketData ticket))) (\<lambda>r.
               if \<not> Status r then return (Inl (Msg (''failed to refund ticket: '' @ fmt_strings (Messages r))))
               else (case refundAmount (Data policy) (term_TicketNo t) of
                   None \<Rightarrow> return (Inr ())
                 | Some (amount, currency) \<Rightarrow> do { _ \<leftarrow> reportRefund env (term_Id t) amount currency; return (Inr ()) }))))"

definition Terminate :: "'x terminator_env \<Rightarrow> BookingTermination \<Rightarrow> nat \<Rightarrow> ('x, unit result option) terminating" where
  "Terminate env t fuel = do {
     l \<leftarrow> invoke (tm_login env) Term_Login;
     case l of
       Inl err \<Rightarrow> return (Some (Inl err))
     | Inr cred \<Rightarrow> do {
         f \<leftarrow> find env cred (term_BookingNo t) (term_TicketNo t) fuel 1;
         case f of
           None \<Rightarrow> return None
         | Some r \<Rightarrow> (case r of
               Inl err \<Rightarrow> return (Some (Inl err))
             | Inr (bookingData, ticketData) \<Rightarrow> do { s \<leftarrow> refund_found env t cred bookingData ticketData; return (Some s) })
       }
   }"

text \<open>One round of the service; an item that cannot be popped or read is an error of the round.\<close>

definition terminator_loop :: "'x terminator_env \<Rightarrow> nat \<Rightarrow> ('x, (bool \<times> error option) option) terminating" where
  "terminator_loop env fuel = do {
     shutdown \<leftarrow> invoke (tm_configure env) Term_Configured;
     case shutdown of
       Inl err \<Rightarrow> return (Some (True, Some err))
     | Inr _ \<Rightarrow> do {
         m \<leftarrow> invoke (tm_pop env) Term_Popped;
         case m of
           Inl err \<Rightarrow> return (Some (False, Some err))
         | Inr v \<Rightarrow> (case v of
               None \<Rightarrow> return (Some (False, Some Decode_Error))
             | Some message \<Rightarrow> (case tm_decode env message of
                   Inl e \<Rightarrow> return (Some (False, Some e))
                 | Inr t \<Rightarrow> do {
                     r \<leftarrow> Terminate env t fuel;
                     return (map_option (\<lambda>r. (False, case r of Inl e \<Rightarrow> Some e | Inr _ \<Rightarrow> None)) r)
                   }))
       }
   }"

definition terminator_Start :: "'x terminator_env \<Rightarrow> int \<Rightarrow> nat \<Rightarrow> nat \<Rightarrow> ('x, unit result option) terminating" where
  "terminator_Start env backoffLimit fuel rounds =
     supervise (\<lambda>d. invoke (tm_sleep env d) (\<lambda>_. Term_Slept d)) (terminator_loop env fuel) backoffLimit rounds 0"

section \<open>The right ticket is refunded, the right amount reported\<close>

definition found_in :: "string \<Rightarrow> string \<Rightarrow> string \<Rightarrow> string \<Rightarrow> terminator_event list \<Rightarrow> bool" where
  "found_in bookingNo ticketNo bd td tr \<longleftrightarrow> (\<exists>p res b trip t. List_Page p (Inr res) \<in> set tr \<and> Status res
     \<and> b \<in> set (list_Bookings (Data res)) \<and> list_booking_BookingNo b = bookingNo \<and> list_booking_BookingData b = bd
     \<and> trip \<in> set (list_booking_Trips b) \<and> t \<in> set (list_trip_Tickets trip) \<and> list_ticket_TicketNo t = ticketNo \<and> list_ticket_TicketData t = td)"

lemma ticket_data_in_found:
  assumes "ticket_data_in bookings bookingNo ticketNo = Some (bd, td)"
  shows "\<exists>b trip t. b \<in> set bookings \<and> list_booking_BookingNo b = bookingNo \<and> list_booking_BookingData b = bd
     \<and> trip \<in> set (list_booking_Trips b) \<and> t \<in> set (list_trip_Tickets trip) \<and> list_ticket_TicketNo t = ticketNo \<and> list_ticket_TicketData t = td"
proof -
  let ?all = "concat (map (\<lambda>b. if list_booking_BookingNo b = bookingNo
         then map (\<lambda>t. (list_booking_BookingData b, list_ticket_TicketData t))
           (filter (\<lambda>t. list_ticket_TicketNo t = ticketNo) (concat (map list_trip_Tickets (list_booking_Trips b))))
         else []) bookings)"
  have "(bd, td) \<in> set ?all" using assms unfolding ticket_data_in_def by (cases ?all) auto
  then show ?thesis by (force split: if_splits)
qed

lemma effect_find:
  "effect (find env cred bookingNo ticketNo n page) (\<lambda>r tr. (\<forall>ev \<in> set tr. \<exists>p r. ev = List_Page p r)
     \<and> (\<forall>bd td. r = Some (Inr (bd, td)) \<longrightarrow> found_in bookingNo ticketNo bd td tr))"
proof (induction n arbitrary: page)
  case (Suc n)
  show ?case unfolding find.simps
  proof (intro effect_bind effect_invoke effect_case_sum effect_if effect_case_option effect_return)
    fix r :: "TicketListRes GenericRes result" and res found
    assume "r = Inr res" "\<not> \<not> Status res" "ticket_data_in (list_Bookings (Data res)) bookingNo ticketNo = Some found"
    then show "(\<forall>ev \<in> set ([List_Page page r] @ []). \<exists>p r. ev = List_Page p r)
      \<and> (\<forall>bd td. Some (Inr found) = Some (Inr (bd, td)) \<longrightarrow> found_in bookingNo ticketNo bd td ([List_Page page r] @ []))"
      using ticket_data_in_found[of "list_Bookings (Data res)" bookingNo ticketNo] by (fastforce simp: found_in_def)
  next
    fix r :: "TicketListRes GenericRes result"
    show "effect (find env cred bookingNo ticketNo n (page + 1)) (\<lambda>a tr. (\<forall>ev \<in> set ([List_Page page r] @ tr). \<exists>p r. ev = List_Page p r)
      \<and> (\<forall>bd td. a = Some (Inr (bd, td)) \<longrightarrow> found_in bookingNo ticketNo bd td ([List_Page page r] @ tr)))"
      by (rule effect_conseq[OF Suc.IH]) (auto simp: found_in_def, blast)
  qed auto
qed simp

text \<open>Which ticket of a policy may be refunded for a number, and which amount reported.\<close>

definition refundable :: "RefundPolicyRes \<Rightarrow> string \<Rightarrow> string \<Rightarrow> bool" where
  "refundable policy ticketNo td \<longleftrightarrow> td \<noteq> [] \<and> (\<exists>t \<in> set (policy_tickets policy). policy_ticket_TicketData t = td
     \<and> (policy_ticket_TicketNo t = ticketNo \<or> policy_tickets policy = [t] \<and> policy_ticket_TicketNo t = []))"

definition exact_amount :: "RefundPolicyRes \<Rightarrow> string \<Rightarrow> float32 \<Rightarrow> bool" where
  "exact_amount policy ticketNo a \<longleftrightarrow> positive a \<and>
     ((\<exists>t \<in> set (policy_tickets policy). policy_ticket_TicketNo t = ticketNo \<and> policy_ticket_RefundAmount t = a)
      \<or> a = policy_TotalRefundAmount policy \<and> (\<forall>t \<in> set (policy_tickets policy). policy_ticket_TicketNo t = ticketNo)
          \<and> length (policy_tickets policy) \<le> 1)"

lemma find_in_set: "List.find P xs = Some x \<Longrightarrow> x \<in> set xs \<and> P x"
  by (induction xs) (auto split: if_splits)

lemma refundTicket_refundable: "refundTicket policy no = Inr t \<Longrightarrow> refundable policy no (policy_ticket_TicketData t)"
  by (auto simp: refundTicket_def refundable_def dest: find_in_set split: option.splits list.splits if_splits)

lemma refundAmount_exact: "refundAmount policy no = Some (a, cur) \<Longrightarrow> exact_amount policy no a"
proof -
  assume r: "refundAmount policy no = Some (a, cur)"
  show ?thesis
  proof (cases "matched_ticket policy no")
    case None
    then show ?thesis using r by (auto simp: refundAmount_def exact_amount_def split: if_splits)
  next
    case (Some t)
    then have t: "t \<in> set (policy_tickets policy)" "policy_ticket_TicketNo t = no"
      using find_in_set[of _ "rev (policy_tickets policy)" t] by (auto simp: matched_ticket_def)
    then show ?thesis using r Some
      by (auto simp: refundAmount_def exact_amount_def Let_def length_Suc_conv split: if_splits)
  qed
qed

definition refund_sound :: "BookingTermination \<Rightarrow> terminator_event list \<Rightarrow> bool" where
  "refund_sound t tr \<longleftrightarrow> length (filter (\<lambda>ev. \<exists>bd td r. ev = Refund bd td r) tr) \<le> 1
     \<and> (\<forall>bd td r. Refund bd td r \<in> set tr \<longrightarrow> (\<exists>bd0 td0 policy. Get_Policy bd0 td0 (Inr policy) \<in> set tr \<and> Status policy
          \<and> found_in (term_BookingNo t) (term_TicketNo t) bd0 td0 tr
          \<and> bd = policy_BookingData (Data policy) \<and> refundable (Data policy) (term_TicketNo t) td))
     \<and> (\<forall>i a cur rep. Report_Refund i a cur rep \<in> set tr \<longrightarrow> i = term_Id t
          \<and> (\<exists>bd td r. Refund bd td (Inr r) \<in> set tr \<and> Status r)
          \<and> (\<exists>bd0 td0 policy. Get_Policy bd0 td0 (Inr policy) \<in> set tr \<and> exact_amount (Data policy) (term_TicketNo t) a))"


lemma exactly_refund: "effect (refund_found env t cred bd0 td0) (\<lambda>r tr.
    length (filter (\<lambda>ev. \<exists>bd td r. ev = Refund bd td r) tr) \<le> 1
  \<and> (\<forall>bd td r. Refund bd td r \<in> set tr \<longrightarrow> (\<exists>policy. Get_Policy bd0 td0 (Inr policy) \<in> set tr \<and> Status policy
        \<and> bd = policy_BookingData (Data policy) \<and> refundable (Data policy) (term_TicketNo t) td))
  \<and> (\<forall>i a cur rep. Report_Refund i a cur rep \<in> set tr \<longrightarrow> i = term_Id t
        \<and> (\<exists>bd td r. Refund bd td (Inr r) \<in> set tr \<and> Status r)
        \<and> (\<exists>policy. Get_Policy bd0 td0 (Inr policy) \<in> set tr \<and> exact_amount (Data policy) (term_TicketNo t) a)))"
  (is "effect _ ?P")
  unfolding refund_found_def
proof (intro effect_on_ok_invoke effect_if effect_case_sum effect_return)
  fix policy :: "RefundPolicyRes GenericRes" and ticket :: RefundPolicyTripTicketRes and r :: "unit GenericRes"
  let ?policy = "Get_Policy bd0 td0 (Inr policy)" and ?refund = "Refund (policy_BookingData (Data policy)) (policy_ticket_TicketData ticket)"
  assume p: "\<not> \<not> Status policy" "refundTicket (Data policy) (term_TicketNo t) = Inr ticket" "\<not> \<not> Status r"
  note td = refundTicket_refundable[OF p(2)]
  have rep: "effect (reportRefund env (term_Id t) a cur) (\<lambda>_ tr. tr = [] \<or> (\<exists>rep. tr = [Report_Refund (term_Id t) a cur rep]))" for a cur
    unfolding reportRefund_def by (intro effect_case_option effect_on_ok_invoke effect_return) auto
  have "effect (do { _ \<leftarrow> reportRefund env (term_Id t) a cur; return (Inr ()) }) (\<lambda>b tr'. ?P b (?policy # ?refund (Inr r) # tr'))"
    if "refundAmount (Data policy) (term_TicketNo t) = Some (a, cur)" for a cur
    by (rule effect_bind, rule effect_conseq[OF rep], elim disjE exE)
      (use p td refundAmount_exact[OF that] in auto)
  then show "effect (case refundAmount (Data policy) (term_TicketNo t) of None \<Rightarrow> return (Inr ())
      | Some (amount, currency) \<Rightarrow> do { _ \<leftarrow> reportRefund env (term_Id t) amount currency; return (Inr ()) })
    (\<lambda>b tr'. ?P b (?policy # ?refund (Inr r) # tr'))"
    using p td by (auto split: option.split)
qed (auto dest: refundTicket_refundable)

text \<open>C24: Terminating a booking asks KTMB for at most one refund, of the ticket data that the policy obtained for
  the booking and ticket number found in the account's list gives for that number, or of the policy's sole unnumbered
  ticket; zinc is told an amount only after KTMB confirmed the refund, for this booking, and the amount is that
  ticket's own or the total of a policy with no other ticket.\<close>

theorem Terminate_refunds_exactly: "effect (Terminate env t fuel) (\<lambda>_ tr. refund_sound t tr)"
  unfolding Terminate_def
proof (intro effect_bind effect_invoke effect_case_sum effect_return)
  fix l :: "string result" and cred assume "l = Inr cred"
  show "effect (find env cred (term_BookingNo t) (term_TicketNo t) fuel 1) (\<lambda>f tr. effect (case f of None \<Rightarrow> return None
      | Some r \<Rightarrow> (case r of Inl err \<Rightarrow> return (Some (Inl err))
        | Inr (bookingData, ticketData) \<Rightarrow> do { s \<leftarrow> refund_found env t cred bookingData ticketData; return (Some s) }))
      (\<lambda>_ tr'. refund_sound t ([Term_Login l] @ tr @ tr')))"
  proof (rule effect_conseq[OF effect_find])
    fix f :: "(string \<times> string) result option" and tr assume f: "(\<forall>ev \<in> set tr. \<exists>p r. ev = List_Page p r) \<and> (\<forall>bd td. f = Some (Inr (bd, td)) \<longrightarrow> found_in (term_BookingNo t) (term_TicketNo t) bd td tr)"
    then have no: "Refund bd td r \<notin> set tr" "Report_Refund i a cur rep \<notin> set tr" "filter (\<lambda>ev. \<exists>bd td r. ev = Refund bd td r) tr = []" for bd td r i a cur rep
      by (fastforce simp: filter_empty_conv)+
    have "effect (refund_found env t cred bd td) (\<lambda>b tr'. refund_sound t ([Term_Login l] @ tr @ tr'))" if "f = Some (Inr (bd, td))" for bd td
    proof (rule effect_conseq[OF exactly_refund])
      have "found_in (term_BookingNo t) (term_TicketNo t) bd td tr" using f that by blast
      then have fd: "found_in (term_BookingNo t) (term_TicketNo t) bd td ([Term_Login l] @ tr @ tr')" for tr'
        by (auto simp: found_in_def) blast+
      fix b tr'
      assume "length (filter (\<lambda>ev. \<exists>bd td r. ev = Refund bd td r) tr') \<le> 1
        \<and> (\<forall>bda tda r. Refund bda tda r \<in> set tr' \<longrightarrow> (\<exists>policy. Get_Policy bd td (Inr policy) \<in> set tr' \<and> Status policy
             \<and> bda = policy_BookingData (Data policy) \<and> refundable (Data policy) (term_TicketNo t) tda))
        \<and> (\<forall>i a cur rep. Report_Refund i a cur rep \<in> set tr' \<longrightarrow> i = term_Id t
             \<and> (\<exists>bd td r. Refund bd td (Inr r) \<in> set tr' \<and> Status r)
             \<and> (\<exists>policy. Get_Policy bd td (Inr policy) \<in> set tr' \<and> exact_amount (Data policy) (term_TicketNo t) a))"
      then show "refund_sound t ([Term_Login l] @ tr @ tr')"
        unfolding refund_sound_def using fd no by (fastforce)
    qed
    then show "effect (case f of None \<Rightarrow> return None
      | Some r \<Rightarrow> (case r of Inl err \<Rightarrow> return (Some (Inl err))
        | Inr (bookingData, ticketData) \<Rightarrow> do { s \<leftarrow> refund_found env t cred bookingData ticketData; return (Some s) }))
      (\<lambda>_ tr'. refund_sound t ([Term_Login l] @ tr @ tr'))"
      using no by (auto simp: refund_sound_def split: option.split sum.split intro!: effect_bind)
  qed
qed (simp_all add: refund_sound_def)


section \<open>The search ends\<close>

lemma find_some:
  assumes "\<And>p x r. fst (tm_list env cred p x) = Inr r \<Longrightarrow> list_TotalPage (Data r) \<le> int n"
  shows "int n < int m + page \<Longrightarrow> 0 < m \<Longrightarrow> fst (run_state (find env cred bookingNo ticketNo m page) w) \<noteq> None"
proof (induction m arbitrary: page w)
  case (Suc m)
  note IH = Suc.IH
  show ?case
  proof (cases "fst (tm_list env cred page (ext w))")
    case (Inr res)
    have "list_TotalPage (Data res) \<le> int n" using assms[OF Inr] .
    then have "0 < m \<and> int n < int m + (page + 1)" if "list_TotalPage (Data res) > page" using that Suc.prems(1) by auto
    then show ?thesis using Inr IH by (auto split: option.split)
  qed simp
qed simp

text \<open>When every page KTMB serves announces at most \<open>n\<close> pages, the search for a ticket ends within \<open>n\<close> pages.\<close>

theorem find_ends:
  assumes "\<And>p y r. fst (tm_list env cred p y) = Inr r \<Longrightarrow> list_TotalPage (Data r) \<le> int n" "0 < n"
  shows "outcome (find env cred bookingNo ticketNo n 1) x \<noteq> None"
  unfolding outcome_def using find_some[where env = env and m = n and page = 1, OF assms(1)] assms(2) by simp

definition empty_account :: "unit terminator_env" where
  "empty_account = \<lparr>tm_login = \<lambda>x. (Inr [], x),
     tm_list = \<lambda>ud p x. (Inr \<lparr>Status = True, Messages = [], Data = \<lparr>list_Bookings = [], list_IsAcceptPdpa = True, list_Page = p,
        list_RefundPassword = JNull, list_ShareBookingEmail = JNull, list_ShareReceiptEmail = JNull, list_TotalCount = 0, list_TotalPage = 3\<rparr>\<rparr>, x),
     tm_policy = \<lambda>ud bd td x. (Inl Read_Error, x), tm_refund = \<lambda>ud bd td x. (Inl Read_Error, x), tm_report = None,
     tm_configure = \<lambda>x. (Inr (), x), tm_pop = \<lambda>x. (Inr None, x), tm_decode = \<lambda>s. Inl Decode_Error, tm_sleep = \<lambda>d x. ((), x)\<rparr>"

theorem find_ends_witness: "outcome (find empty_account [] ''B1'' ''T1'' 3 1) () \<noteq> None"
  by (rule find_ends) (auto simp: empty_account_def)

end
