(* ===== verification/Ktmb_Cost.thy ===== *)
theory Ktmb_Cost
  imports Terminator Recoverer_Queue
begin

text \<open>
  lib/ktmbcost/client.go: the backfill of the amounts KTMB charged or refunded. zinc, KTMB, the session,
  the pauses and encoding/json are parameters; a decoded JSON object is the list of its entries in the
  order Go iterates over the map.
\<close>

record cost_item =
  ci_Id :: uuid
  ci_BookingNo :: string
  ci_TicketNo :: string

record cost_options =
  opt_DryRun :: bool
  opt_Refund :: bool
  opt_Status :: int
  opt_Max :: int
  opt_PageSize :: int
  opt_SleepBuffer :: duration

record Summary =
  Fetched :: nat
  Attempted :: nat
  Updated :: nat
  Failed :: nat
  Dry_Runs :: nat

record 'x cost_env =
  kc_list_cost :: "int \<Rightarrow> int \<Rightarrow> int \<Rightarrow> 'x \<Rightarrow> cost_item list reply \<times> 'x"
  kc_list_refund :: "int \<Rightarrow> 'x \<Rightarrow> cost_item list reply \<times> 'x"
  kc_post_cost :: "uuid \<Rightarrow> float32 \<Rightarrow> string \<Rightarrow> 'x \<Rightarrow> unit reply \<times> 'x"
  kc_post_refund :: "uuid \<Rightarrow> float32 \<Rightarrow> string \<Rightarrow> 'x \<Rightarrow> unit reply \<times> 'x"
  kc_get_ticket :: "string \<Rightarrow> string \<Rightarrow> string \<Rightarrow> 'x \<Rightarrow> GetTicketRes GenericRes result \<times> 'x"
  kc_get_raw :: "string \<Rightarrow> string \<Rightarrow> string \<Rightarrow> 'x \<Rightarrow> string GenericRes result \<times> 'x"
  kc_policy :: "string \<Rightarrow> string \<Rightarrow> string \<Rightarrow> 'x \<Rightarrow> RefundPolicyRes GenericRes result \<times> 'x"
  kc_login :: "'x \<Rightarrow> string result \<times> 'x"
  kc_invalidate :: "string \<Rightarrow> 'x \<Rightarrow> unit result \<times> 'x"
  kc_sleep :: "duration \<Rightarrow> 'x \<Rightarrow> unit result \<times> 'x"
  kc_json :: "string \<Rightarrow> json option"
  kc_typed :: "string \<Rightarrow> GetTicketRes result"
  kc_float :: "string \<Rightarrow> float32 option"

datatype cost_event =
    List_Cost int int int "cost_item list reply"
  | List_Refund int "cost_item list reply"
  | Post_Cost uuid float32 string "unit reply"
  | Post_Refund uuid float32 string "unit reply"
  | Got_Ticket string string "GetTicketRes GenericRes result"
  | Got_Raw string string "string GenericRes result"
  | Got_Policy string string "RefundPolicyRes GenericRes result"
  | Cost_Login "string result"
  | Cost_Invalidate string "unit result"
  | Cost_Slept duration "unit result"

type_synonym ('x, 'a) costing = "('x, cost_event, 'a) proc"

definition errInvalidSession :: error where
  "errInvalidSession = Msg ''KTMB session is invalid''"

definition errRefundAmountUnavailable :: error where
  "errRefundAmountUnavailable = Msg ''KTMB exposes no exact refunded amount''"

section \<open>Amounts\<close>

fun cost_currency :: "string list \<Rightarrow> string" where
  "cost_currency [] = ''MYR''"
| "cost_currency (c # cs) = (let c' = to_upper (trim_space c) in if c' \<noteq> [] then c' else cost_currency cs)"

definition isInvalidSession :: "string list \<Rightarrow> bool" where
  "isInvalidSession messages \<longleftrightarrow> list_ex (\<lambda>m. contains (to_lower m) ''please login to continue'') messages"

fun bookingFrom :: "GetTicketBookingRes list \<Rightarrow> string \<Rightarrow> GetTicketBookingRes result" where
  "bookingFrom [] bookingNo = Inl (Msg ''KTMB ticket response does not contain booking'')"
| "bookingFrom (b # bs) bookingNo = (if get_booking_BookingNo b = bookingNo then Inr b else bookingFrom bs bookingNo)"

definition ticketDataFrom :: "GetTicketBookingRes \<Rightarrow> string \<Rightarrow> string result" where
  "ticketDataFrom booking ticketNo =
     (case List.find (\<lambda>t. get_ticket_TicketNo t = ticketNo \<and> get_ticket_TicketData t \<noteq> [])
         (concat (map get_trip_Tickets (get_booking_Trips booking))) of
        Some t \<Rightarrow> Inr (get_ticket_TicketData t)
      | None \<Rightarrow> Inl (Msg ''KTMB ticket response does not contain ticket data''))"

text \<open>The two loops over the tickets of a policy, with the last match and the number of tickets.\<close>

fun count_tickets :: "RefundPolicyTripTicketRes list \<Rightarrow> string \<Rightarrow> RefundPolicyTripTicketRes option \<times> nat \<Rightarrow> RefundPolicyTripTicketRes option \<times> nat" where
  "count_tickets [] ticketNo acc = acc"
| "count_tickets (t # ts) ticketNo (matched, n) =
     count_tickets ts ticketNo (if policy_ticket_TicketNo t = ticketNo then Some t else matched, n + 1)"

fun count_trips :: "RefundPolicyTripRes list \<Rightarrow> string \<Rightarrow> RefundPolicyTripTicketRes option \<times> nat \<Rightarrow> RefundPolicyTripTicketRes option \<times> nat" where
  "count_trips [] ticketNo acc = acc"
| "count_trips (trip # trips) ticketNo acc = count_trips trips ticketNo (count_tickets (policy_trip_Tickets trip) ticketNo acc)"

definition refundFromPolicy :: "RefundPolicyRes \<Rightarrow> string \<Rightarrow> (float32 \<times> string) option" where
  "refundFromPolicy policy ticketNo =
     (case count_trips (policy_Trips policy) ticketNo (None, 0) of (matched, ticketCount) \<Rightarrow>
        case matched of
          Some t \<Rightarrow>
            if positive (policy_ticket_RefundAmount t)
            then Some (policy_ticket_RefundAmount t, cost_currency [policy_ticket_CurrencyCode t, policy_CurrencyCode policy])
            else if positive (policy_TotalRefundAmount policy) \<and> (ticketCount = 0 \<or> ticketCount = 1 \<and> matched \<noteq> None)
            then Some (policy_TotalRefundAmount policy, cost_currency [policy_CurrencyCode policy])
            else None
        | None \<Rightarrow>
            if positive (policy_TotalRefundAmount policy) \<and> (ticketCount = 0 \<or> ticketCount = 1 \<and> matched \<noteq> None)
            then Some (policy_TotalRefundAmount policy, cost_currency [policy_CurrencyCode policy])
            else None)"

section \<open>The raw answer\<close>

definition stringField :: "(string \<times> json) list \<Rightarrow> string \<Rightarrow> string" where
  "stringField value key = (case map_of value key of Some (JString s) \<Rightarrow> s | _ \<Rightarrow> [])"

definition numberField :: "(string \<Rightarrow> float32 option) \<Rightarrow> (string \<times> json) list \<Rightarrow> string \<Rightarrow> float32 option" where
  "numberField pf value key = (case map_of value key of Some (JNumber s) \<Rightarrow> pf s | _ \<Rightarrow> None)"

definition exact_currency :: "(string \<times> json) list \<Rightarrow> string" where
  "exact_currency value = cost_currency [stringField value ''refundCurrency'', stringField value ''currencyCode'']"

fun exact_in_keys :: "(string \<Rightarrow> float32 option) \<Rightarrow> (string \<times> json) list \<Rightarrow> string list \<Rightarrow> (float32 \<times> string) option" where
  "exact_in_keys pf value [] = None"
| "exact_in_keys pf value (key # keys) =
     (case numberField pf value key of
        Some amount \<Rightarrow> if positive amount then Some (amount, exact_currency value) else exact_in_keys pf value keys
      | None \<Rightarrow> exact_in_keys pf value keys)"

definition exactRefundInMap :: "(string \<Rightarrow> float32 option) \<Rightarrow> (string \<times> json) list \<Rightarrow> (float32 \<times> string) option" where
  "exactRefundInMap pf value = exact_in_keys pf value [''refundAmount'', ''refundedAmount'', ''totalRefundAmount'']"

text \<open>Three walks over the tree: the number of ticket nodes with whether the ticket is among them, the amount
  of the ticket's own node, and the first amount anywhere.\<close>

fun ticketNodeStats :: "json \<Rightarrow> string \<Rightarrow> nat \<times> bool"
  and stats_fields :: "(string \<times> json) list \<Rightarrow> string \<Rightarrow> nat \<times> bool"
  and stats_items :: "json list \<Rightarrow> string \<Rightarrow> nat \<times> bool" where
  "ticketNodeStats (JObject value) ticketNo =
     (case stats_fields value ticketNo of (n, f) \<Rightarrow>
        if map_of value ''ticketNo'' \<noteq> None then (n + 1, stringField value ''ticketNo'' = ticketNo \<or> f) else (n, f))"
| "ticketNodeStats (JArray value) ticketNo = stats_items value ticketNo"
| "ticketNodeStats _ ticketNo = (0, False)"
| "stats_fields [] ticketNo = (0, False)"
| "stats_fields ((k, child) # rest) ticketNo =
     (case (ticketNodeStats child ticketNo, stats_fields rest ticketNo) of ((n, f), (m, g)) \<Rightarrow> (n + m, f \<or> g))"
| "stats_items [] ticketNo = (0, False)"
| "stats_items (child # rest) ticketNo =
     (case (ticketNodeStats child ticketNo, stats_items rest ticketNo) of ((n, f), (m, g)) \<Rightarrow> (n + m, f \<or> g))"

fun refundInTicketNode :: "(string \<Rightarrow> float32 option) \<Rightarrow> json \<Rightarrow> string \<Rightarrow> (float32 \<times> string) option"
  and refund_in_fields :: "(string \<Rightarrow> float32 option) \<Rightarrow> (string \<times> json) list \<Rightarrow> string \<Rightarrow> (float32 \<times> string) option"
  and refund_in_items :: "(string \<Rightarrow> float32 option) \<Rightarrow> json list \<Rightarrow> string \<Rightarrow> (float32 \<times> string) option" where
  "refundInTicketNode pf (JObject value) ticketNo =
     (case (if stringField value ''ticketNo'' = ticketNo then exactRefundInMap pf value else None) of
        Some r \<Rightarrow> Some r
      | None \<Rightarrow> refund_in_fields pf value ticketNo)"
| "refundInTicketNode pf (JArray value) ticketNo = refund_in_items pf value ticketNo"
| "refundInTicketNode pf _ ticketNo = None"
| "refund_in_fields pf [] ticketNo = None"
| "refund_in_fields pf ((k, child) # rest) ticketNo =
     (case refundInTicketNode pf child ticketNo of Some r \<Rightarrow> Some r | None \<Rightarrow> refund_in_fields pf rest ticketNo)"
| "refund_in_items pf [] ticketNo = None"
| "refund_in_items pf (child # rest) ticketNo =
     (case refundInTicketNode pf child ticketNo of Some r \<Rightarrow> Some r | None \<Rightarrow> refund_in_items pf rest ticketNo)"

fun exactRefundInNode :: "(string \<Rightarrow> float32 option) \<Rightarrow> json \<Rightarrow> (float32 \<times> string) option"
  and exact_in_fields :: "(string \<Rightarrow> float32 option) \<Rightarrow> (string \<times> json) list \<Rightarrow> (float32 \<times> string) option"
  and exact_in_items :: "(string \<Rightarrow> float32 option) \<Rightarrow> json list \<Rightarrow> (float32 \<times> string) option" where
  "exactRefundInNode pf (JObject value) =
     (case exactRefundInMap pf value of Some r \<Rightarrow> Some r | None \<Rightarrow> exact_in_fields pf value)"
| "exactRefundInNode pf (JArray value) = exact_in_items pf value"
| "exactRefundInNode pf _ = None"
| "exact_in_fields pf [] = None"
| "exact_in_fields pf ((k, child) # rest) = (case exactRefundInNode pf child of Some r \<Rightarrow> Some r | None \<Rightarrow> exact_in_fields pf rest)"
| "exact_in_items pf [] = None"
| "exact_in_items pf (child # rest) = (case exactRefundInNode pf child of Some r \<Rightarrow> Some r | None \<Rightarrow> exact_in_items pf rest)"

text \<open>The source walks the decoded JSON three times, each time through every object in an order Go picks anew; here all
  walks take the order of the entries in the list.\<close>

definition refundFromRaw :: "(string \<Rightarrow> json option) \<Rightarrow> (string \<Rightarrow> float32 option) \<Rightarrow> string \<Rightarrow> string \<Rightarrow> (float32 \<times> string) option" where
  "refundFromRaw decode pf raw ticketNo =
     (case decode raw of
        None \<Rightarrow> None
      | Some root \<Rightarrow> (case refundInTicketNode pf root ticketNo of
            Some r \<Rightarrow> Some r
          | None \<Rightarrow> (case ticketNodeStats root ticketNo of (ticketCount, targetPresent) \<Rightarrow>
              if ticketCount > 1 \<or> (ticketCount > 0 \<and> \<not> targetPresent) then None else exactRefundInNode pf root)))"


section \<open>One booking\<close>

definition invalid_session :: "string list \<Rightarrow> error" where
  "invalid_session messages = Wrapped (join_with '', '' messages) errInvalidSession"

definition posted :: "string \<Rightarrow> unit reply \<Rightarrow> unit result" where
  "posted what r =
     (case r of
        Inl err \<Rightarrow> Inl (Wrapped what err)
      | Inr resp \<Rightarrow> if StatusCode resp < 200 \<or> StatusCode resp \<ge> 300 then Inl (Status_Error what (StatusCode resp)) else Inr ())"

definition process_cost :: "'x cost_env \<Rightarrow> cost_options \<Rightarrow> string \<Rightarrow> cost_item \<Rightarrow> ('x, unit result) costing" where
  "process_cost env opt userData item = do {
     r \<leftarrow> invoke (kc_get_ticket env userData (ci_BookingNo item) (ci_TicketNo item)) (Got_Ticket (ci_BookingNo item) (ci_TicketNo item));
     case r of
       Inl err \<Rightarrow> return (Inl (Wrapped ''get KTMB ticket'' err))
     | Inr ticket \<Rightarrow>
         if \<not> Status ticket
         then return (Inl (if isInvalidSession (Messages ticket) then invalid_session (Messages ticket)
           else Msg (''get KTMB ticket: '' @ join_with '', '' (Messages ticket))))
         else (case bookingFrom (get_Bookings (Data ticket)) (ci_BookingNo item) of
             Inl err \<Rightarrow> return (Inl err)
           | Inr booking \<Rightarrow>
               if \<not> positive (get_booking_TotalAmount booking) then return (Inl (Msg ''KTMB ticket response has no usable purchase amount''))
               else if opt_DryRun opt then return (Inr ())
               else do {
                 p \<leftarrow> invoke (kc_post_cost env (ci_Id item) (get_booking_TotalAmount booking) (cost_currency [get_booking_CurrencyCode booking]))
                   (Post_Cost (ci_Id item) (get_booking_TotalAmount booking) (cost_currency [get_booking_CurrencyCode booking]));
                 return (posted ''post KTMB actual cost'' p)
               })
   }"

text \<open>Asking for the policy: an error, or the amount to use in place of the raw one.\<close>

definition probe_policy :: "'x cost_env \<Rightarrow> string \<Rightarrow> cost_item \<Rightarrow> string \<Rightarrow> string \<Rightarrow> (float32 \<times> string) option
    \<Rightarrow> ('x, (float32 \<times> string) option result) costing" where
  "probe_policy env userData item bookingData ticketData raw = do {
     r \<leftarrow> invoke (kc_policy env userData bookingData ticketData) (Got_Policy bookingData ticketData);
     return (case r of
         Inl err \<Rightarrow> Inr raw
       | Inr policy \<Rightarrow>
           if \<not> Status policy
           then if isInvalidSession (Messages policy) then Inl (invalid_session (Messages policy)) else Inr raw
           else (case refundFromPolicy (Data policy) (ci_TicketNo item) of Some a \<Rightarrow> Inr (Some a) | None \<Rightarrow> Inr raw))
   }"

text \<open>The exact refund of a ticket, with the currency code of its booking when the booking was found.\<close>

definition resolve_refund :: "'x cost_env \<Rightarrow> string \<Rightarrow> cost_item \<Rightarrow> string \<Rightarrow> GetTicketRes
    \<Rightarrow> ('x, ((float32 \<times> string) option \<times> string) result) costing" where
  "resolve_refund env userData item rawData typed =
     (let raw = refundFromRaw (kc_json env) (kc_float env) rawData (ci_TicketNo item) in
      case bookingFrom (get_Bookings typed) (ci_BookingNo item) of
        Inl bookingErr \<Rightarrow>
          return (if raw = None then Inl (Wrapped ''cannot probe refund policy'' errRefundAmountUnavailable) else Inr (raw, []))
      | Inr booking \<Rightarrow> (case ticketDataFrom booking (ci_TicketNo item) of
            Inl ticketErr \<Rightarrow>
              return (if raw = None then Inl (Wrapped ''cannot probe refund policy'' errRefundAmountUnavailable)
                else Inr (raw, get_booking_CurrencyCode booking))
          | Inr ticketData \<Rightarrow> do {
              r \<leftarrow> probe_policy env userData item (get_booking_BookingData booking) ticketData raw;
              return (case r of Inl err \<Rightarrow> Inl err | Inr a \<Rightarrow> Inr (a, get_booking_CurrencyCode booking))
            }))"

definition processRefund :: "'x cost_env \<Rightarrow> cost_options \<Rightarrow> string \<Rightarrow> cost_item \<Rightarrow> ('x, unit result) costing" where
  "processRefund env opt userData item = do {
     g \<leftarrow> invoke (kc_get_raw env userData (ci_BookingNo item) (ci_TicketNo item)) (Got_Raw (ci_BookingNo item) (ci_TicketNo item));
     case g of
       Inl err \<Rightarrow> return (Inl (Wrapped ''get raw KTMB ticket'' err))
     | Inr rawTicket \<Rightarrow>
         if \<not> Status rawTicket
         then return (Inl (if isInvalidSession (Messages rawTicket) then invalid_session (Messages rawTicket)
           else Msg (''get raw KTMB ticket: '' @ join_with '', '' (Messages rawTicket))))
         else (case kc_typed env (Data rawTicket) of
             Inl err \<Rightarrow> return (Inl (Wrapped ''decode raw KTMB ticket data'' err))
           | Inr typed \<Rightarrow> on_ok (resolve_refund env userData item (Data rawTicket) typed) (\<lambda>found.
               case found of
                 (None, code) \<Rightarrow> return (Inl (Wrapped ''leaving zinc record missing'' errRefundAmountUnavailable))
               | (Some (amount, currency), code) \<Rightarrow>
                   if opt_DryRun opt then return (Inr ())
                   else do {
                     p \<leftarrow> invoke (kc_post_refund env (ci_Id item) amount (cost_currency [currency, code]))
                       (Post_Refund (ci_Id item) amount (cost_currency [currency, code]));
                     return (posted ''post KTMB refund'' p)
                   }))
   }"

definition process :: "'x cost_env \<Rightarrow> cost_options \<Rightarrow> string \<Rightarrow> cost_item \<Rightarrow> ('x, unit result) costing" where
  "process env opt userData item = (if opt_Refund opt then processRefund env opt userData item else process_cost env opt userData item)"

text \<open>The session to go on with, and the result.\<close>

definition processWithSessionRetry :: "'x cost_env \<Rightarrow> cost_options \<Rightarrow> string \<Rightarrow> cost_item \<Rightarrow> ('x, string \<times> unit result) costing" where
  "processWithSessionRetry env opt userData item = do {
     r \<leftarrow> process env opt userData item;
     case r of
       Inr _ \<Rightarrow> return (userData, r)
     | Inl err \<Rightarrow>
         if \<not> errors_is err errInvalidSession then return (userData, r)
         else do {
           i \<leftarrow> invoke (kc_invalidate env userData) (Cost_Invalidate userData);
           case i of
             Inl _ \<Rightarrow> return (userData, Inl (Wrapped ''invalidate cached session'' err))
           | Inr _ \<Rightarrow> do {
               l \<leftarrow> invoke (kc_login env) Cost_Login;
               case l of
                 Inl _ \<Rightarrow> return (userData, Inl (Wrapped ''refresh session'' err))
               | Inr refreshed \<Rightarrow> do { r' \<leftarrow> process env opt refreshed item; return (refreshed, r') }
             }
         }
   }"

section \<open>The work list\<close>

definition read_items :: "string \<Rightarrow> cost_item list reply \<Rightarrow> cost_item list result" where
  "read_items what r =
     (case r of
        Inl err \<Rightarrow> Inl (Wrapped what err)
      | Inr resp \<Rightarrow>
          if Body resp = Unreadable then Inl (Wrapped what Read_Error)
          else if StatusCode resp \<noteq> 200 then Inl (Status_Error what (StatusCode resp))
          else (case Body resp of Decoded page \<Rightarrow> Inr page | _ \<Rightarrow> Inl (Wrapped what Decode_Error)))"

fun add_new :: "uuid set \<Rightarrow> cost_item list \<Rightarrow> cost_item list \<Rightarrow> uuid set \<times> cost_item list" where
  "add_new seen [] work = (seen, work)"
| "add_new seen (item # items) work =
     (if ci_Id item \<in> seen then add_new seen items work
      else add_new (insert (ci_Id item) seen) items (work @ [item]))"

text \<open>Every page that does not end the loop has an item, so the fuel \<open>Max\<close> is enough.\<close>

fun list_cost_loop :: "'x cost_env \<Rightarrow> cost_options \<Rightarrow> nat \<Rightarrow> int \<Rightarrow> uuid set \<Rightarrow> cost_item list \<Rightarrow> ('x, cost_item list result) costing" where
  "list_cost_loop env opt 0 scanned seen work = return (Inr work)"
| "list_cost_loop env opt (Suc n) scanned seen work =
     (if \<not> scanned < opt_Max opt then return (Inr work)
      else do {
        let limit = min (opt_PageSize opt) (opt_Max opt - scanned);
        r \<leftarrow> invoke (kc_list_cost env (int32 limit) (int32 scanned) (opt_Status opt)) (List_Cost (int32 limit) (int32 scanned) (opt_Status opt));
        case read_items ''list bookings missing KTMB cost'' r of
          Inl err \<Rightarrow> return (Inl err)
        | Inr page0 \<Rightarrow>
            if page0 = [] then return (Inr work)
            else (let page = take (nat limit) page0;
                      acc = add_new seen page work
                  in if int (length page) < limit then return (Inr (snd acc))
                     else list_cost_loop env opt n (scanned + int (length page)) (fst acc) (snd acc))
      })"

definition listMissingRefunds :: "'x cost_env \<Rightarrow> cost_options \<Rightarrow> ('x, cost_item list result) costing" where
  "listMissingRefunds env opt = do {
     r \<leftarrow> invoke (kc_list_refund env (int32 (opt_Max opt))) (List_Refund (int32 (opt_Max opt)));
     return (case read_items ''list bookings missing KTMB refund'' r of Inl err \<Rightarrow> Inl err | Inr work \<Rightarrow> Inr (take (nat (opt_Max opt)) work))
   }"

definition listMissing :: "'x cost_env \<Rightarrow> cost_options \<Rightarrow> ('x, cost_item list result) costing" where
  "listMissing env opt =
     (if opt_Refund opt then listMissingRefunds env opt else list_cost_loop env opt (nat (opt_Max opt)) 0 {} [])"

section \<open>The run\<close>

definition no_work :: Summary where
  "no_work = \<lparr>Fetched = 0, Attempted = 0, Updated = 0, Failed = 0, Dry_Runs = 0\<rparr>"

fun run_items :: "'x cost_env \<Rightarrow> cost_options \<Rightarrow> bool \<Rightarrow> string \<Rightarrow> cost_item list \<Rightarrow> Summary \<Rightarrow> ('x, Summary \<times> error option) costing" where
  "run_items env opt first userData [] s = return (s, None)"
| "run_items env opt first userData (item # items) s = do {
     w \<leftarrow> (if \<not> first \<and> opt_SleepBuffer opt > 0 then invoke (kc_sleep env (opt_SleepBuffer opt)) (Cost_Slept (opt_SleepBuffer opt)) else return (Inr ()));
     case w of
       Inl err \<Rightarrow> return (s, Some err)
     | Inr _ \<Rightarrow> do {
         (userData', r) \<leftarrow> processWithSessionRetry env opt userData item;
         run_items env opt False userData' items
           (case r of
              Inl _ \<Rightarrow> s\<lparr>Attempted := Attempted s + 1, Failed := Failed s + 1\<rparr>
            | Inr _ \<Rightarrow> if opt_DryRun opt then s\<lparr>Attempted := Attempted s + 1, Dry_Runs := Dry_Runs s + 1\<rparr>
                else s\<lparr>Attempted := Attempted s + 1, Updated := Updated s + 1\<rparr>)
       }
   }"

definition cost_Run :: "'x cost_env \<Rightarrow> cost_options \<Rightarrow> ('x, Summary \<times> error option) costing" where
  "cost_Run env opt0 =
     (let opt = (if opt_Status opt0 = 0 then opt0\<lparr>opt_Status := 2\<rparr> else opt0) in
      if opt_Max opt0 \<le> 0 then return (no_work, Some (Msg ''max must be greater than zero''))
      else if opt_PageSize opt0 \<le> 0 then return (no_work, Some (Msg ''page size must be greater than zero''))
      else if opt_Status opt \<noteq> 2 \<and> opt_Status opt \<noteq> 5 then return (no_work, Some (Msg ''status must be completed or terminated''))
      else do {
        l \<leftarrow> listMissing env opt;
        case l of
          Inl err \<Rightarrow> return (no_work, Some err)
        | Inr work \<Rightarrow>
            if work = [] then return (no_work, None)
            else do {
              u \<leftarrow> invoke (kc_login env) Cost_Login;
              case u of
                Inl err \<Rightarrow> return (no_work\<lparr>Fetched := length work\<rparr>, Some (Wrapped ''obtain KTMB session'' err))
              | Inr userData \<Rightarrow> run_items env opt True userData work (no_work\<lparr>Fetched := length work\<rparr>)
            }
      })"

section \<open>The two readings of a refund policy agree\<close>

lemma cost_currency_eq: "cost_currency cs = normalizeCurrency cs"
  by (induction cs) (auto simp: Let_def)

lemma find_append: "List.find P (xs @ ys) = (case List.find P xs of Some x \<Rightarrow> Some x | None \<Rightarrow> List.find P ys)"
  by (induction xs) auto

lemma count_tickets_eq:
  "count_tickets ts ticketNo (m, n) =
     (case List.find (\<lambda>t. policy_ticket_TicketNo t = ticketNo) (rev ts) of Some t \<Rightarrow> Some t | None \<Rightarrow> m, n + length ts)"
proof (induction ts arbitrary: m n)
  case (Cons t ts)
  then show ?case by (auto simp: find_append split: option.splits)
qed simp

lemma count_trips_eq:
  "count_trips trips ticketNo (m, n) =
     (case List.find (\<lambda>t. policy_ticket_TicketNo t = ticketNo) (rev (concat (map policy_trip_Tickets trips))) of Some t \<Rightarrow> Some t | None \<Rightarrow> m,
      n + length (concat (map policy_trip_Tickets trips)))"
proof (induction trips arbitrary: m n)
  case (Cons trip trips)
  then show ?case by (auto simp: find_append count_tickets_eq split: option.splits)
qed simp

text \<open>The backfill reads the refund out of a policy exactly as the terminator does when it reports it.\<close>

theorem refundFromPolicy_agrees: "refundFromPolicy policy ticketNo = refundAmount policy ticketNo"
  by (auto simp: refundFromPolicy_def refundAmount_def count_trips_eq matched_ticket_def policy_tickets_def Let_def
      cost_currency_eq simp del: normalizeCurrency.simps cost_currency.simps split: option.split)

lemma refundAmount_positive: "refundAmount policy ticketNo = Some (a, c) \<Longrightarrow> positive a"
  by (auto simp: refundAmount_def Let_def split: option.splits if_splits)

section \<open>Only exact amounts are posted, each booking at most once\<close>

definition cost_exact :: "cost_item \<Rightarrow> float32 \<Rightarrow> cost_event list \<Rightarrow> bool" where
  "cost_exact item a tr \<longleftrightarrow> positive a \<and> (\<exists>res b. Got_Ticket (ci_BookingNo item) (ci_TicketNo item) (Inr res) \<in> set tr \<and> Status res
     \<and> b \<in> set (get_Bookings (Data res)) \<and> get_booking_BookingNo b = ci_BookingNo item \<and> get_booking_TotalAmount b = a)"

text \<open>The policy KTMB gave for exactly this ticket: asked with the booking data of the booking with the item's
  number, and with the ticket data of a ticket of it with the item's ticket number, both from a raw
  answer of the run to a question about that booking and ticket.\<close>

definition own_policy :: "'x cost_env \<Rightarrow> cost_item \<Rightarrow> RefundPolicyRes \<Rightarrow> cost_event list \<Rightarrow> bool" where
  "own_policy env item policy tr \<longleftrightarrow>
     (\<exists>raw typed b t res. Got_Raw (ci_BookingNo item) (ci_TicketNo item) (Inr raw) \<in> set tr \<and> Status raw
       \<and> kc_typed env (Data raw) = Inr typed \<and> b \<in> set (get_Bookings typed) \<and> get_booking_BookingNo b = ci_BookingNo item
       \<and> t \<in> set (concat (map get_trip_Tickets (get_booking_Trips b))) \<and> get_ticket_TicketNo t = ci_TicketNo item
       \<and> Got_Policy (get_booking_BookingData b) (get_ticket_TicketData t) (Inr res) \<in> set tr \<and> Status res \<and> policy = Data res)"

definition refund_exact :: "'x cost_env \<Rightarrow> cost_item \<Rightarrow> float32 \<Rightarrow> cost_event list \<Rightarrow> bool" where
  "refund_exact env item a tr \<longleftrightarrow> positive a \<and>
     ((\<exists>res c. Got_Raw (ci_BookingNo item) (ci_TicketNo item) (Inr res) \<in> set tr \<and> Status res
         \<and> refundFromRaw (kc_json env) (kc_float env) (Data res) (ci_TicketNo item) = Some (a, c))
      \<or> (\<exists>policy c. own_policy env item policy tr \<and> refundAmount policy (ci_TicketNo item) = Some (a, c)))"

fun post_id :: "cost_event \<Rightarrow> uuid option" where
  "post_id (Post_Cost i a c r) = Some i"
| "post_id (Post_Refund i a c r) = Some i"
| "post_id ev = None"

definition taken :: "unit reply \<Rightarrow> bool" where
  "taken r \<longleftrightarrow> (\<exists>resp. r = Inr resp \<and> 200 \<le> StatusCode resp \<and> StatusCode resp < 300)"

fun accepted_id :: "cost_event \<Rightarrow> uuid option" where
  "accepted_id (Post_Cost i a c r) = (if taken r then Some i else None)"
| "accepted_id (Post_Refund i a c r) = (if taken r then Some i else None)"
| "accepted_id ev = None"

lemma posted_ok: "posted what r = Inr () \<longleftrightarrow> taken r"
  by (auto simp: posted_def taken_def split: sum.splits)

text \<open>What a pass over one booking may have done.\<close>

definition exact_posts :: "'x cost_env \<Rightarrow> cost_options \<Rightarrow> cost_item \<Rightarrow> cost_event list \<Rightarrow> bool" where
  "exact_posts env opt item tr \<longleftrightarrow>
     (\<forall>i a c r. Post_Cost i a c r \<in> set tr \<longrightarrow> i = ci_Id item \<and> \<not> opt_DryRun opt \<and> \<not> opt_Refund opt \<and> cost_exact item a tr)
   \<and> (\<forall>i a c r. Post_Refund i a c r \<in> set tr \<longrightarrow> i = ci_Id item \<and> \<not> opt_DryRun opt \<and> opt_Refund opt \<and> refund_exact env item a tr)"

definition one_post :: "cost_options \<Rightarrow> cost_item \<Rightarrow> unit result \<Rightarrow> cost_event list \<Rightarrow> bool" where
  "one_post opt item r tr \<longleftrightarrow> List.map_filter accepted_id tr = (if r = Inr () \<and> \<not> opt_DryRun opt then [ci_Id item] else [])"

lemma bookingFrom_found: "bookingFrom bs no = Inr b \<Longrightarrow> b \<in> set bs \<and> get_booking_BookingNo b = no"
  by (induction bs) (auto split: if_splits)

lemma exact_in_keys_positive: "exact_in_keys pf value keys = Some (a, c) \<Longrightarrow> positive a"
  by (induction keys) (auto split: option.splits if_splits)

lemma exactRefundInMap_positive: "exactRefundInMap pf value = Some (a, c) \<Longrightarrow> positive a"
  unfolding exactRefundInMap_def by (rule exact_in_keys_positive)

lemma refundInTicketNode_positive:
  "refundInTicketNode pf node no = Some (a, c) \<Longrightarrow> positive a"
  "refund_in_fields pf fs no = Some (a, c) \<Longrightarrow> positive a"
  "refund_in_items pf xs no = Some (a, c) \<Longrightarrow> positive a"
  by (induction pf node no and pf fs no and pf xs no rule: refundInTicketNode_refund_in_fields_refund_in_items.induct)
    (auto split: option.splits if_splits dest: exactRefundInMap_positive)

lemma exactRefundInNode_positive:
  "exactRefundInNode pf node = Some (a, c) \<Longrightarrow> positive a"
  "exact_in_fields pf fs = Some (a, c) \<Longrightarrow> positive a"
  "exact_in_items pf xs = Some (a, c) \<Longrightarrow> positive a"
  by (induction pf node and pf fs and pf xs rule: exactRefundInNode_exact_in_fields_exact_in_items.induct)
    (auto split: option.splits if_splits dest: exactRefundInMap_positive)

lemma refundFromRaw_positive: "refundFromRaw decode pf raw no = Some (a, c) \<Longrightarrow> positive a"
  by (auto simp: refundFromRaw_def split: option.splits prod.splits if_splits
      dest: refundInTicketNode_positive exactRefundInNode_positive)

lemma effect_process_cost:
  assumes "\<not> opt_Refund opt"
  shows "effect (process_cost env opt userData item) (\<lambda>r tr. exact_posts env opt item tr \<and> one_post opt item r tr)"
  unfolding process_cost_def
  by (intro effect_bind effect_invoke effect_case_sum effect_if effect_return)
    (auto simp: exact_posts_def one_post_def cost_exact_def posted_ok assms dest!: bookingFrom_found)

definition resolved :: "'x cost_env \<Rightarrow> cost_item \<Rightarrow> string \<Rightarrow> GetTicketRes \<Rightarrow> ((float32 \<times> string) option \<times> string) result \<Rightarrow> cost_event list \<Rightarrow> bool" where
  "resolved env item rawData typed r tr \<longleftrightarrow> (\<forall>ev \<in> set tr. post_id ev = None)
     \<and> (\<forall>a c code. r = Inr (Some (a, c), code) \<longrightarrow> refundFromRaw (kc_json env) (kc_float env) rawData (ci_TicketNo item) = Some (a, c)
         \<or> (\<exists>b t res. b \<in> set (get_Bookings typed) \<and> get_booking_BookingNo b = ci_BookingNo item
              \<and> t \<in> set (concat (map get_trip_Tickets (get_booking_Trips b))) \<and> get_ticket_TicketNo t = ci_TicketNo item
              \<and> Got_Policy (get_booking_BookingData b) (get_ticket_TicketData t) (Inr res) \<in> set tr \<and> Status res
              \<and> refundAmount (Data res) (ci_TicketNo item) = Some (a, c)))"

lemma find_holds: "List.find P xs = Some x \<Longrightarrow> x \<in> set xs \<and> P x"
  by (induction xs) (auto split: if_splits)

lemma ticketDataFrom_found:
  "ticketDataFrom b no = Inr td \<Longrightarrow>
     \<exists>t \<in> set (concat (map get_trip_Tickets (get_booking_Trips b))). get_ticket_TicketNo t = no \<and> get_ticket_TicketData t = td"
  unfolding ticketDataFrom_def by (auto simp del: set_concat split: option.splits dest!: find_holds)

lemma effect_resolve_refund: "effect (resolve_refund env userData item rawData typed) (resolved env item rawData typed)"
  unfolding resolve_refund_def
proof (intro effect_Let effect_case_sum effect_return, goal_cases)
  case (3 raw booking ticketData)
  have b: "booking \<in> set (get_Bookings typed)" "get_booking_BookingNo booking = ci_BookingNo item"
    using bookingFrom_found 3 by blast+
  obtain t where t: "t \<in> set (concat (map get_trip_Tickets (get_booking_Trips booking)))" "get_ticket_TicketNo t = ci_TicketNo item"
    "ticketData = get_ticket_TicketData t"
    using ticketDataFrom_found 3 by blast
  show ?case
    unfolding probe_policy_def
    by (intro effect_bind effect_invoke effect_return)
      (use b t 3 in \<open>auto simp: resolved_def refundFromPolicy_agrees split: sum.splits option.splits if_splits\<close>)
qed (auto simp: resolved_def)

lemma no_posts: "\<forall>ev \<in> set tr. post_id ev = None \<Longrightarrow> List.map_filter accepted_id tr = []"
proof (induction tr)
  case (Cons ev tr)
  then show ?case by (cases ev) auto
qed simp

lemma refund_exactI:
  assumes "resolved env item rawData typed (Inr (Some (a, c), code)) tr" "rawData = Data raw" "Status raw" "kc_typed env (Data raw) = Inr typed"
  shows "refund_exact env item a (Got_Raw (ci_BookingNo item) (ci_TicketNo item) (Inr raw) # tr @ tr')"
  using assms(1) refundFromRaw_positive refundAmount_positive assms(2-)
  unfolding resolved_def refund_exact_def own_policy_def by fastforce

lemma effect_processRefund:
  assumes "opt_Refund opt"
  shows "effect (processRefund env opt userData item) (\<lambda>r tr. exact_posts env opt item tr \<and> one_post opt item r tr)"
  unfolding processRefund_def
proof (intro effect_bind effect_invoke effect_case_sum effect_if effect_return)
  fix g :: "string GenericRes result" and raw typed
  assume g: "g = Inr raw" "\<not> \<not> Status raw" and typed: "kc_typed env (Data raw) = Inr typed"
  let ?ev = "Got_Raw (ci_BookingNo item) (ci_TicketNo item) g"
  have quiet: "exact_posts env opt item (?ev # tr) \<and> one_post opt item (Inl e) (?ev # tr)"
    "opt_DryRun opt \<Longrightarrow> exact_posts env opt item (?ev # tr) \<and> one_post opt item (Inr ()) (?ev # tr)"
    if "\<forall>ev \<in> set tr. post_id ev = None" for tr and e :: error
    using that no_posts[of tr] by (force simp: exact_posts_def one_post_def)+
  show "effect (on_ok (resolve_refund env userData item (Data raw) typed) (\<lambda>found.
          case found of
            (None, code) \<Rightarrow> return (Inl (Wrapped ''leaving zinc record missing'' errRefundAmountUnavailable))
          | (Some (amount, currency), code) \<Rightarrow>
              if opt_DryRun opt then return (Inr ())
              else do {
                p \<leftarrow> invoke (kc_post_refund env (ci_Id item) amount (cost_currency [currency, code]))
                  (Post_Refund (ci_Id item) amount (cost_currency [currency, code]));
                return (posted ''post KTMB refund'' p)
              }))
        (\<lambda>r tr. exact_posts env opt item ([?ev] @ tr) \<and> one_post opt item r ([?ev] @ tr))"
  proof (rule effect_on_ok_cases[OF effect_resolve_refund], goal_cases)
    case (1 e tr)
    then show ?case using quiet(1)[of tr] by (simp add: resolved_def)
  next
    case (2 found tr)
    show ?case
    proof (intro effect_case_prod effect_case_option effect_if effect_bind effect_invoke effect_return, goal_cases)
      case 1
      then show ?case using quiet(1)[of tr] 2 by (simp add: resolved_def)
    next
      case 2
      then show ?case using quiet(2)[of tr] \<open>resolved env item (Data raw) typed (Inr found) tr\<close> by (simp add: resolved_def)
    next
      case (3 f code ac a c p)
      have np: "\<forall>ev \<in> set tr. post_id ev = None" using 2 by (simp add: resolved_def)
      have "refund_exact env item a (?ev # tr @ ev # tr')" for ev tr'
        using refund_exactI[of env item "Data raw" typed a c code tr raw] 2 3 g typed by simp
      then show ?case using np assms 3 no_posts[OF np] by (force simp: exact_posts_def one_post_def posted_ok)
    qed
  qed
qed (auto simp: exact_posts_def one_post_def)

lemma effect_process:
  "effect (process env opt userData item) (\<lambda>r tr. exact_posts env opt item tr \<and> one_post opt item r tr)"
  unfolding process_def by (rule effect_if) (simp_all add: effect_processRefund effect_process_cost)

lemma own_policy_mono: "own_policy env item policy tr \<Longrightarrow> set tr \<subseteq> set tr' \<Longrightarrow> own_policy env item policy tr'"
  unfolding own_policy_def by blast

lemma exact_mono:
  assumes "set tr \<subseteq> set tr'"
  shows "cost_exact item a tr \<Longrightarrow> cost_exact item a tr'" "refund_exact env item a tr \<Longrightarrow> refund_exact env item a tr'"
  using assms own_policy_mono[OF _ assms] unfolding cost_exact_def refund_exact_def by blast+

lemma exact_posts_append:
  assumes "exact_posts env opt item tr" "exact_posts env opt item tr'"
  shows "exact_posts env opt item (tr @ tr')"
proof -
  have "set tr \<subseteq> set (tr @ tr')" "set tr' \<subseteq> set (tr @ tr')" by auto
  from exact_mono[OF this(1)] exact_mono[OF this(2)] show ?thesis
    using assms unfolding exact_posts_def by (metis Un_iff set_append)
qed

lemma exact_posts_quiet: "\<forall>ev \<in> set tr. post_id ev = None \<Longrightarrow> exact_posts env opt item tr"
  by (force simp: exact_posts_def)

lemma effect_session_retry:
  "effect (processWithSessionRetry env opt userData item) (\<lambda>(u, r) tr. exact_posts env opt item tr \<and> one_post opt item r tr)"
  unfolding processWithSessionRetry_def
proof (rule effect_bind, rule effect_conseq[OF effect_process])
  fix r :: "unit result" and tr assume p: "exact_posts env opt item tr \<and> one_post opt item r tr"
  have more: "exact_posts env opt item (tr @ evs)" if "\<forall>ev \<in> set evs. post_id ev = None" for evs
    using p exact_posts_append exact_posts_quiet[OF that] by blast
  have none: "List.map_filter accepted_id tr = []" if "r = Inl e" for e
    using p that by (simp add: one_post_def)
  show "effect (case r of
       Inr _ \<Rightarrow> return (userData, r)
     | Inl err \<Rightarrow>
         if \<not> errors_is err errInvalidSession then return (userData, r)
         else do {
           i \<leftarrow> invoke (kc_invalidate env userData) (Cost_Invalidate userData);
           case i of
             Inl _ \<Rightarrow> return (userData, Inl (Wrapped ''invalidate cached session'' err))
           | Inr _ \<Rightarrow> do {
               l \<leftarrow> invoke (kc_login env) Cost_Login;
               case l of
                 Inl _ \<Rightarrow> return (userData, Inl (Wrapped ''refresh session'' err))
               | Inr refreshed \<Rightarrow> do { r' \<leftarrow> process env opt refreshed item; return (refreshed, r') }
             }
         }) (\<lambda>ur tr'. (case ur of (u, r) \<Rightarrow> \<lambda>tr. exact_posts env opt item tr \<and> one_post opt item r tr) (tr @ tr'))"
  proof (intro effect_case_sum effect_if effect_bind effect_invoke effect_return effect_conseq[OF effect_process], goal_cases)
    case (4 e i u l refreshed r' tr2)
    have "exact_posts env opt item ((tr @ [Cost_Invalidate userData i, Cost_Login l]) @ tr2)"
      using more[of "[Cost_Invalidate userData i, Cost_Login l]"] 4 by (intro exact_posts_append[of env opt item _ tr2]) auto
    then show ?case using none[OF \<open>r = Inl e\<close>] 4 by (simp add: one_post_def)
  qed (use p more[of "[x, y]" for x y] more[of "[x]" for x] none in \<open>auto simp: one_post_def\<close>)
qed

section \<open>The work list\<close>

definition listed_item :: "cost_item \<Rightarrow> cost_event list \<Rightarrow> bool" where
  "listed_item item tr \<longleftrightarrow> (\<exists>resp page. StatusCode resp = 200 \<and> Body resp = Decoded page \<and> item \<in> set page
     \<and> ((\<exists>l k st. List_Cost l k st (Inr resp) \<in> set tr) \<or> (\<exists>l. List_Refund l (Inr resp) \<in> set tr)))"

lemma listed_item_mono: "listed_item item tr \<Longrightarrow> set tr \<subseteq> set tr' \<Longrightarrow> listed_item item tr'"
  unfolding listed_item_def by blast

lemma read_items_page: "read_items what r = Inr page \<longleftrightarrow> (\<exists>resp. r = Inr resp \<and> StatusCode resp = 200 \<and> Body resp = Decoded page)"
  by (auto simp: read_items_def split: sum.splits body.splits)

lemma add_new_spec:
  assumes "seen = ci_Id ` set work" "distinct (map ci_Id work)" "add_new seen items work = (seen', work')"
  shows "seen' = ci_Id ` set work' \<and> distinct (map ci_Id work') \<and> length work' \<le> length work + length items
    \<and> set work' \<subseteq> set work \<union> set items"
  using assms
proof (induction items arbitrary: seen work)
  case (Cons item items)
  show ?case
  proof (cases "ci_Id item \<in> seen")
    case True
    then show ?thesis using Cons.IH[of seen work] Cons.prems by auto
  next
    case False
    then show ?thesis using Cons.IH[of "insert (ci_Id item) seen" "work @ [item]"] Cons.prems by auto
  qed
qed simp

definition good_work :: "cost_options \<Rightarrow> cost_item list \<Rightarrow> cost_event list \<Rightarrow> bool" where
  "good_work opt work tr \<longleftrightarrow> (\<forall>item \<in> set work. listed_item item tr) \<and> int (length work) \<le> opt_Max opt
     \<and> (\<not> opt_Refund opt \<longrightarrow> distinct (map ci_Id work))"

definition found_work :: "cost_options \<Rightarrow> int \<Rightarrow> uuid set \<Rightarrow> cost_item list \<Rightarrow> cost_event list \<Rightarrow> bool" where
  "found_work opt scanned seen work tr \<longleftrightarrow> seen = ci_Id ` set work \<and> distinct (map ci_Id work) \<and> int (length work) \<le> scanned
     \<and> scanned \<le> opt_Max opt \<and> (\<forall>item \<in> set work. listed_item item tr)"

lemma found_good: "found_work opt scanned seen work tr \<Longrightarrow> good_work opt work tr"
  by (auto simp: found_work_def good_work_def)

lemma found_work_page:
  assumes "found_work opt scanned seen work pre" "read_items what r = Inr page0" "0 < opt_PageSize opt" "scanned < opt_Max opt"
    "page = take (nat (min (opt_PageSize opt) (opt_Max opt - scanned))) page0" "add_new seen page work = (seen', work')"
  shows "found_work opt (scanned + int (length page)) seen' work' (pre @ [List_Cost l k st r])"
proof -
  have new: "\<forall>item \<in> set page. listed_item item (pre @ [List_Cost l k st r])"
  proof
    fix item assume "item \<in> set page"
    then have "item \<in> set page0" using assms by (auto dest: in_set_takeD)
    moreover obtain resp where "r = Inr resp" "StatusCode resp = 200" "Body resp = Decoded page0"
      using assms(2) by (auto simp: read_items_page)
    ultimately show "listed_item item (pre @ [List_Cost l k st r])" unfolding listed_item_def by (metis in_set_conv_decomp)
  qed
  have "\<forall>item \<in> set work. listed_item item (pre @ [List_Cost l k st r])"
    using assms(1) listed_item_mono unfolding found_work_def by (metis Un_upper1 set_append)
  then show ?thesis using add_new_spec[OF _ _ assms(6)] new assms unfolding found_work_def by auto
qed

lemma effect_list_cost_loop:
  assumes "found_work opt scanned seen work pre" "0 < opt_PageSize opt"
  shows "effect (list_cost_loop env opt n scanned seen work) (\<lambda>r tr. (\<forall>ev \<in> set tr. post_id ev = None) \<and> (\<forall>w. r = Inr w \<longrightarrow> good_work opt w (pre @ tr)))"
  using assms
proof (induction n arbitrary: scanned seen work pre)
  case 0
  then show ?case by (simp add: found_good)
next
  case (Suc n)
  have later: "good_work opt work (pre @ tr)" for tr
    using found_good[OF Suc.prems(1)] listed_item_mono[of _ pre "pre @ tr"] by (auto simp: good_work_def)
  show ?case unfolding list_cost_loop.simps
  proof (intro effect_if effect_Let effect_bind effect_invoke effect_case_sum effect_return, goal_cases)
    case (4 limit r page0 page acc)
    have "found_work opt (scanned + int (length page)) (fst acc) (snd acc) (pre @ [List_Cost (int32 limit) (int32 scanned) (opt_Status opt) r])"
      by (rule found_work_page[OF Suc.prems(1) 4(3) Suc.prems(2)]) (use 4 in auto)
    then show ?case by (auto dest: found_good)
  next
    case (5 limit r page0 page acc)
    have "found_work opt (scanned + int (length page)) (fst acc) (snd acc) (pre @ [List_Cost (int32 limit) (int32 scanned) (opt_Status opt) r])"
      by (rule found_work_page[OF Suc.prems(1) 5(3) Suc.prems(2)]) (use 5 in auto)
    from Suc.IH[OF this Suc.prems(2)] show ?case by (rule effect_conseq) auto
  qed (use later later[of "[]"] in auto)
qed

lemma effect_listMissing:
  assumes "0 < opt_Max opt" "0 < opt_PageSize opt"
  shows "effect (listMissing env opt) (\<lambda>r tr. (\<forall>ev \<in> set tr. post_id ev = None) \<and> (\<forall>w. r = Inr w \<longrightarrow> good_work opt w tr))"
  unfolding listMissing_def
proof (rule effect_if)
  assume "opt_Refund opt"
  then show "effect (listMissingRefunds env opt) (\<lambda>r tr. (\<forall>ev \<in> set tr. post_id ev = None) \<and> (\<forall>w. r = Inr w \<longrightarrow> good_work opt w tr))"
    unfolding listMissingRefunds_def using assms
    by (intro effect_bind effect_invoke effect_return)
      (auto simp: good_work_def read_items_page listed_item_def split: sum.splits dest!: in_set_takeD)
next
  show "effect (list_cost_loop env opt (nat (opt_Max opt)) 0 {} []) (\<lambda>r tr. (\<forall>ev \<in> set tr. post_id ev = None) \<and> (\<forall>w. r = Inr w \<longrightarrow> good_work opt w tr))"
    using effect_list_cost_loop[of opt 0 "{}" "[]" "[]" env "nat (opt_Max opt)"] assms by (simp add: found_work_def)
qed

section \<open>A run accounts for its work list\<close>

definition run_posts :: "'x cost_env \<Rightarrow> cost_options \<Rightarrow> cost_item list \<Rightarrow> cost_event list \<Rightarrow> bool" where
  "run_posts env opt items tr \<longleftrightarrow>
     (\<forall>i a c r. Post_Cost i a c r \<in> set tr \<longrightarrow> \<not> opt_DryRun opt \<and> \<not> opt_Refund opt \<and> (\<exists>item \<in> set items. ci_Id item = i \<and> cost_exact item a tr))
   \<and> (\<forall>i a c r. Post_Refund i a c r \<in> set tr \<longrightarrow> \<not> opt_DryRun opt \<and> opt_Refund opt \<and> (\<exists>item \<in> set items. ci_Id item = i \<and> refund_exact env item a tr))"

lemma run_posts_mono:
  assumes "run_posts env opt items tr" "set items \<subseteq> set items'" "set tr \<subseteq> set tr'" "\<forall>ev \<in> set tr' - set tr. post_id ev = None"
  shows "run_posts env opt items' tr'"
proof -
  have "Post_Cost i a c r \<in> set tr' \<Longrightarrow> Post_Cost i a c r \<in> set tr" "Post_Refund i a c r \<in> set tr' \<Longrightarrow> Post_Refund i a c r \<in> set tr" for i a c r
    using assms(4) by force+
  then show ?thesis using assms(1,2) exact_mono[OF assms(3)] unfolding run_posts_def by (meson subsetD)
qed

lemma run_posts_append:
  assumes "run_posts env opt items tr" "run_posts env opt items tr'"
  shows "run_posts env opt items (tr @ tr')"
proof -
  have "set tr \<subseteq> set (tr @ tr')" "set tr' \<subseteq> set (tr @ tr')" by auto
  from exact_mono[OF this(1)] exact_mono[OF this(2)] show ?thesis
    using assms unfolding run_posts_def by (metis Un_iff set_append)
qed

lemma run_posts_item: "exact_posts env opt item tr \<Longrightarrow> run_posts env opt [item] tr"
  unfolding exact_posts_def run_posts_def by auto

definition counted :: "cost_options \<Rightarrow> Summary \<Rightarrow> error option \<Rightarrow> cost_event list \<Rightarrow> Summary \<Rightarrow> cost_item list \<Rightarrow> bool" where
  "counted opt s' err tr s items \<longleftrightarrow> Fetched s' = Fetched s \<and> Attempted s' \<le> Attempted s + length items
     \<and> (err = None \<longrightarrow> Attempted s' = Attempted s + length items)
     \<and> Attempted s' + Updated s + Failed s + Dry_Runs s = Attempted s + Updated s' + Failed s' + Dry_Runs s'
     \<and> Updated s' = Updated s + length (List.map_filter accepted_id tr)
     \<and> subseq (List.map_filter accepted_id tr) (map ci_Id items)"

lemma distinct_subseq: "subseq xs ys \<Longrightarrow> distinct ys \<Longrightarrow> distinct xs"
  by (auto simp: subseq_conv_nths intro: distinct_nthsI)

lemma effect_run_items:
  "effect (run_items env opt first userData items s) (\<lambda>(s', err) tr. counted opt s' err tr s items \<and> run_posts env opt items tr)"
proof (induction items arbitrary: first userData s)
  case Nil
  then show ?case by (simp add: counted_def run_posts_def)
next
  case (Cons item items)
  define slept where "slept = (\<lambda>(w :: unit result) (tr :: cost_event list). \<forall>ev \<in> set tr. post_id ev = None)"
  have wait: "effect (if \<not> first \<and> opt_SleepBuffer opt > 0 then invoke (kc_sleep env (opt_SleepBuffer opt)) (Cost_Slept (opt_SleepBuffer opt)) else return (Inr ())) slept"
    by (intro effect_if effect_invoke effect_return) (auto simp: slept_def)
  show ?case unfolding run_items.simps
  proof (rule effect_bind, rule effect_conseq[OF wait], intro effect_case_sum effect_return, goal_cases)
    case (1 w tr e)
    then show ?case using no_posts[of tr] by (force simp: slept_def counted_def run_posts_def)
  next
    case (2 w tr u)
    show ?case
    proof (rule effect_bind, rule effect_conseq[OF effect_session_retry], rule effect_case_prod, rule effect_conseq[OF Cons.IH], goal_cases)
      case (1 ur tr1 u' r se tr2)
      have q: "List.map_filter accepted_id tr = []" "\<forall>ev \<in> set tr. post_id ev = None" using 2 no_posts by (auto simp: slept_def)
      have "run_posts env opt (item # items) (tr1 @ tr2)"
        using 1 run_posts_item run_posts_mono[of env opt "[item]" tr1 "item # items" tr1] run_posts_mono[of env opt items tr2 "item # items" tr2]
        by (intro run_posts_append) (auto split: prod.splits)
      from run_posts_mono[OF this, of "item # items" "tr @ tr1 @ tr2"] q have "run_posts env opt (item # items) (tr @ tr1 @ tr2)" by auto
      moreover have "counted opt (fst se) (snd se) (tr @ tr1 @ tr2) s (item # items)"
        using 1 q by (auto simp: counted_def one_post_def split: prod.splits sum.splits if_splits)
      ultimately show ?case by (auto split: prod.splits)
    qed
  qed
qed

definition run_accounted :: "cost_options \<Rightarrow> Summary \<Rightarrow> error option \<Rightarrow> cost_event list \<Rightarrow> bool" where
  "run_accounted opt s err tr \<longleftrightarrow> Attempted s = Updated s + Failed s + Dry_Runs s \<and> Attempted s \<le> Fetched s
     \<and> int (Fetched s) \<le> max 0 (opt_Max opt) \<and> (err = None \<longrightarrow> Attempted s = Fetched s)
     \<and> Updated s = length (List.map_filter accepted_id tr) \<and> (\<not> opt_Refund opt \<longrightarrow> distinct (List.map_filter accepted_id tr))"

definition run_justified :: "'x cost_env \<Rightarrow> cost_options \<Rightarrow> cost_event list \<Rightarrow> bool" where
  "run_justified env opt tr \<longleftrightarrow>
     (\<forall>i a c r. Post_Cost i a c r \<in> set tr \<longrightarrow> \<not> opt_DryRun opt \<and> \<not> opt_Refund opt
        \<and> (\<exists>item. listed_item item tr \<and> ci_Id item = i \<and> cost_exact item a tr))
   \<and> (\<forall>i a c r. Post_Refund i a c r \<in> set tr \<longrightarrow> \<not> opt_DryRun opt \<and> opt_Refund opt
        \<and> (\<exists>item. listed_item item tr \<and> ci_Id item = i \<and> refund_exact env item a tr))"

lemma run_justified_quiet: "\<forall>ev \<in> set tr. post_id ev = None \<Longrightarrow> run_justified env opt tr"
  by (force simp: run_justified_def)

lemma run_justifiedI:
  assumes "run_posts env opt items tr" "\<forall>item \<in> set items. listed_item item tr"
  shows "run_justified env opt tr"
  using assms unfolding run_justified_def run_posts_def by meson

lemma same_posting:
  assumes "opt_DryRun opt' = opt_DryRun opt" "opt_Refund opt' = opt_Refund opt"
  shows "run_justified env opt' tr = run_justified env opt tr"
  using assms by (simp add: run_justified_def)

lemma effect_Run: "effect (cost_Run env opt0) (\<lambda>(s, err) tr. run_accounted opt0 s err tr \<and> run_justified env opt0 tr)"
  unfolding cost_Run_def
proof (rule effect_Let, intro effect_if effect_return)
  fix opt
  assume o: "opt = (if opt_Status opt0 = 0 then opt0\<lparr>opt_Status := 2\<rparr> else opt0)"
    and pos: "\<not> opt_Max opt0 \<le> 0" "\<not> opt_PageSize opt0 \<le> 0"
  have same: "opt_Max opt = opt_Max opt0" "opt_PageSize opt = opt_PageSize opt0" "opt_DryRun opt = opt_DryRun opt0" "opt_Refund opt = opt_Refund opt0"
    using o by auto
  let ?P = "\<lambda>(s, err) tr. run_accounted opt0 s err tr \<and> run_justified env opt0 tr"
  have quiet: "?P (no_work\<lparr>Fetched := n\<rparr>, err) tr"
    if "\<forall>ev \<in> set tr. post_id ev = None" "int n \<le> opt_Max opt0" "err = None \<longrightarrow> n = 0" for n err tr
    using that no_posts[of tr] run_justified_quiet[of tr] by (auto simp: run_accounted_def no_work_def)
  have list: "effect (listMissing env opt) (\<lambda>r tr. (\<forall>ev \<in> set tr. post_id ev = None) \<and> (\<forall>w. r = Inr w \<longrightarrow> good_work opt w tr))"
    using effect_listMissing[of opt env] pos same by simp
  show "effect (do {
        l \<leftarrow> listMissing env opt;
        case l of
          Inl err \<Rightarrow> return (no_work, Some err)
        | Inr work \<Rightarrow>
            if work = [] then return (no_work, None)
            else do {
              u \<leftarrow> invoke (kc_login env) Cost_Login;
              case u of
                Inl err \<Rightarrow> return (no_work\<lparr>Fetched := length work\<rparr>, Some (Wrapped ''obtain KTMB session'' err))
              | Inr userData \<Rightarrow> run_items env opt True userData work (no_work\<lparr>Fetched := length work\<rparr>)
            }
      }) ?P"
  proof (rule effect_bind, rule effect_conseq[OF list], intro effect_case_sum effect_if effect_bind effect_invoke effect_return, goal_cases)
    case (1 l tr err)
    then show ?case using quiet[of tr 0] pos by (simp add: no_work_def)
  next
    case (2 l tr work)
    then show ?case using quiet[of tr 0] pos by (simp add: no_work_def)
  next
    case (3 l tr work u err)
    then show ?case using quiet[of "tr @ [Cost_Login u]" "length work" "Some (Wrapped ''obtain KTMB session'' err)"] same by (auto simp: good_work_def)
  next
    case (4 l tr work u userData)
    have g: "good_work opt work tr" and q: "\<forall>ev \<in> set tr. post_id ev = None" using 4 by auto
    show ?case
    proof (rule effect_conseq[OF effect_run_items], goal_cases)
      case (1 se tr2)
      have c: "counted opt (fst se) (snd se) tr2 (no_work\<lparr>Fetched := length work\<rparr>) work" "run_posts env opt work tr2"
        using 1 by (auto split: prod.splits)
      let ?tr = "tr @ [Cost_Login u] @ tr2"
      have acc: "List.map_filter accepted_id ?tr = List.map_filter accepted_id tr2"
        using no_posts[OF q] by simp
      have "distinct (List.map_filter accepted_id tr2)" if "\<not> opt_Refund opt"
        using g c(1) that distinct_subseq unfolding good_work_def counted_def by metis
      moreover have "int (length work) \<le> opt_Max opt0" using g same by (simp add: good_work_def)
      ultimately have "run_accounted opt0 (fst se) (snd se) ?tr"
        using c(1) same unfolding run_accounted_def acc by (auto simp: counted_def no_work_def)
      moreover have "run_justified env opt0 ?tr"
      proof -
        have "run_posts env opt work ?tr" by (rule run_posts_mono[OF c(2)]) (use q in auto)
        moreover have "\<forall>item \<in> set work. listed_item item ?tr" using g listed_item_mono by (metis Un_upper1 good_work_def set_append)
        ultimately show ?thesis using run_justifiedI same_posting same by metis
      qed
      ultimately show ?case by (auto split: prod.splits)
    qed
  qed
qed (auto simp: run_accounted_def run_justified_def no_work_def)

text \<open>A run attempts at most what zinc listed and at most the configured maximum, everything it listed
  unless it stopped with an error; every attempt is an update, a failure or a dry run; the updates are
  exactly the posts zinc accepted, and no booking's cost is accepted twice.\<close>

theorem cost_Run_accounts: "effect (cost_Run env opt) (\<lambda>(s, err) tr. run_accounted opt s err tr)"
  by (rule effect_conseq[OF effect_Run]) auto

text \<open>C25: A run posts only positive amounts of bookings zinc listed as missing them: as cost the total of the
  booking with that number in a ticket KTMB returned in the run for it, as refund an amount read from the raw
  answer for that booking and ticket, or from the refund policy KTMB gave for the booking data and ticket data
  found under those two numbers in it; each under its own mode and never in a dry run.\<close>

theorem cost_Run_posts_exact: "effect (cost_Run env opt) (\<lambda>_ tr. run_justified env opt tr)"
  by (rule effect_conseq[OF effect_Run]) auto

end
