(* ===== verification/Differ.thy ===== *)
theory Differ
  imports Count
begin

text \<open>
  lib/reserver/differ.go: the seat counts the pollers publish become changes the reserver acts on. The
  differ remembers the last seat count of every slot; when the demand of a slot rises it forgets it, so
  that the next report counts as new seats. Its two goroutines and the channels between them are a step
  relation; the publications and \<open>json.Unmarshal\<close> are parameters. The maps that \<open>sub\<close> adds
  to the demand it was started with are empty, so the demand itself does not change.
\<close>

record DiffData =
  diff_Count :: int
  diff_Prev :: int
  diff_Delta :: int

record Diff =
  diff_Direction :: string
  diff_Date :: string
  diff_Time :: string
  diff_Data :: DiffData

record Chan =
  chan_Direction :: string
  chan_Date :: string

type_synonym seats = "string \<rightharpoonup> int"
type_synonym seat_memory = "string \<rightharpoonup> (string \<rightharpoonup> seats)"

text \<open>\<open>m[dir][date][key]\<close> of a map to ints: zero where there is no entry.\<close>

definition remembered :: "seat_memory \<Rightarrow> string \<Rightarrow> string \<Rightarrow> string \<Rightarrow> int" where
  "remembered m dir day key =
     (case m dir of None \<Rightarrow> 0 | Some dd \<Rightarrow> (case dd day of None \<Rightarrow> 0 | Some tt \<Rightarrow> (case tt key of None \<Rightarrow> 0 | Some n \<Rightarrow> n)))"

definition need :: "count \<Rightarrow> string \<Rightarrow> string \<Rightarrow> string \<Rightarrow> int" where
  "need c dir day t = (case demand c dir day t of None \<Rightarrow> 0 | Some n \<Rightarrow> n)"

definition trim_suffix :: "string \<Rightarrow> string \<Rightarrow> string" where
  "trim_suffix s suf = (if suffix suf s then take (length s - length suf) s else s)"

definition trim_prefix :: "string \<Rightarrow> string \<Rightarrow> string" where
  "trim_prefix s pre = (if prefix pre s then drop (length pre) s else s)"

section \<open>The operations\<close>

definition getChannels :: "count \<Rightarrow> Chan list" where
  "getChannels c = concat (map (\<lambda>(dir, dates). map (\<lambda>(day, _). \<lparr>chan_Direction = dir, chan_Date = day\<rparr>) dates) c)"

definition toString :: "Chan list \<Rightarrow> string list" where
  "toString cs = map (\<lambda>v. ''ktmb:schedule:'' @ chan_Direction v @ '':'' @ chan_Date v) cs"

definition copyCount :: "count \<Rightarrow> count" where
  "copyCount c = map (\<lambda>(dir, dates). (dir, map (\<lambda>(day, times). (day, map (\<lambda>(t, n). (t, n)) times)) dates)) c"

text \<open>\<open>delete(prev[dir][date], key)\<close> when the entry is there.\<close>

definition forget :: "seat_memory \<Rightarrow> string \<Rightarrow> string \<Rightarrow> string \<Rightarrow> seat_memory" where
  "forget prev dir day key =
     (case prev dir of
        None \<Rightarrow> prev
      | Some dd \<Rightarrow> (case dd day of
            None \<Rightarrow> prev
          | Some tt \<Rightarrow> if tt key \<noteq> None then prev(dir \<mapsto> dd(day \<mapsto> tt(key := None))) else prev))"

fun rearm_times :: "count \<Rightarrow> string \<Rightarrow> string \<Rightarrow> times \<Rightarrow> seat_memory \<times> string list \<Rightarrow> seat_memory \<times> string list" where
  "rearm_times old dir day [] acc = acc"
| "rearm_times old dir day ((t, n) # ts) (prev, rearmed) =
     rearm_times old dir day ts
       (if n \<le> need old dir day t then (prev, rearmed)
        else (forget prev dir day (trim_suffix t '':00''), rearmed @ [dir @ '':'' @ day @ '':'' @ t]))"

fun rearm_dates :: "count \<Rightarrow> string \<Rightarrow> dates \<Rightarrow> seat_memory \<times> string list \<Rightarrow> seat_memory \<times> string list" where
  "rearm_dates old dir [] acc = acc"
| "rearm_dates old dir ((day, ts) # ds) acc = rearm_dates old dir ds (rearm_times old dir day ts acc)"

fun rearm_count :: "count \<Rightarrow> count \<Rightarrow> seat_memory \<times> string list \<Rightarrow> seat_memory \<times> string list" where
  "rearm_count old [] acc = acc"
| "rearm_count old ((dir, ds) # c) acc = rearm_count old c (rearm_dates old dir ds acc)"

definition rearm :: "seat_memory \<Rightarrow> count \<Rightarrow> count \<Rightarrow> seat_memory \<times> string list" where
  "rearm prev old newer = rearm_count old newer (prev, [])"

text \<open>\<open>diff\<close>: the memory of the date becomes the new state; each count that differs is a change.\<close>

definition diff_of :: "seat_memory \<Rightarrow> string \<Rightarrow> string \<Rightarrow> string \<times> int \<Rightarrow> DiffData option" where
  "diff_of prev dir day kv =
     (let pCount = remembered prev dir day (fst kv) in
      if pCount \<noteq> snd kv then Some \<lparr>diff_Count = snd kv, diff_Prev = pCount, diff_Delta = snd kv - pCount\<rparr> else None)"

definition remember :: "seat_memory \<Rightarrow> string \<Rightarrow> string \<Rightarrow> seats \<Rightarrow> seat_memory" where
  "remember prev dir day newState =
     prev(dir \<mapsto> (case prev dir of None \<Rightarrow> Map.empty | Some dd \<Rightarrow> dd)(day \<mapsto> newState))"

definition diff :: "string \<Rightarrow> string \<Rightarrow> seat_memory \<Rightarrow> (string \<times> int) list \<Rightarrow> seat_memory \<times> (string \<times> DiffData) list" where
  "diff dir day prev newState =
     (remember prev dir day (map_of newState),
      List.map_filter (\<lambda>kv. map_option (Pair (fst kv)) (diff_of prev dir day kv)) newState)"

text \<open>One message of \<open>sub\<close>: \<open>None\<close> is the panic on a channel name without a date.\<close>

definition on_message :: "(string \<Rightarrow> (string \<times> int) list result) \<Rightarrow> count \<Rightarrow> seat_memory \<Rightarrow> string \<Rightarrow> string
    \<Rightarrow> (seat_memory \<times> Diff list) result option" where
  "on_message decode relevant prev channel payload =
     (case split_on (CHR '':'') (trim_prefix channel ''ktmb:schedule:'') of
        dir # day # _ \<Rightarrow>
          Some (case decode payload of
              Inl err \<Rightarrow> Inl err
            | Inr rxCount \<Rightarrow>
                let filtered = filter (\<lambda>(k, v). need relevant dir day (k @ '':00'') \<noteq> 0) rxCount;
                    r = diff dir day prev filtered
                in Inr (fst r, map (\<lambda>(k, v). \<lparr>diff_Direction = dir, diff_Date = day, diff_Time = k, diff_Data = v\<rparr>) (snd r)))
      | _ \<Rightarrow> None)"

section \<open>The goroutines\<close>

datatype main_point = First_Count | Next_Count | Handing_Over count
datatype sub_point = Not_Started | Listening | Returned

record differ =
  d_prev :: seat_memory
  d_last :: count
  d_relevant :: count
  d_main :: main_point
  d_sub :: sub_point

definition differ_start :: differ where
  "differ_start = \<lparr>d_prev = Map.empty, d_last = [], d_relevant = [], d_main = First_Count, d_sub = Not_Started\<rparr>"

datatype differ_input = New_Count count | Published string string | Stop_Sub

text \<open>\<open>Start\<close> takes counts and stops the running \<open>sub\<close> over the unbuffered channel \<open>term\<close>, which
  only a listening \<open>sub\<close> receives; \<open>sub\<close> returns at the first message it cannot read.\<close>

inductive differ_step :: "(string \<Rightarrow> (string \<times> int) list result) \<Rightarrow> differ \<Rightarrow> differ_input \<Rightarrow> Diff list \<Rightarrow> differ \<Rightarrow> bool" for decode where
  first: "d_main s = First_Count \<Longrightarrow>
    differ_step decode s (New_Count c) [] (s\<lparr>d_last := copyCount c, d_relevant := c, d_main := Next_Count, d_sub := Listening\<rparr>)"
| receive: "d_main s = Next_Count \<Longrightarrow> differ_step decode s (New_Count c) [] (s\<lparr>d_main := Handing_Over c\<rparr>)"
| hand_over: "d_main s = Handing_Over c \<Longrightarrow> d_sub s = Listening \<Longrightarrow>
    differ_step decode s Stop_Sub []
      (s\<lparr>d_prev := fst (rearm (d_prev s) (d_last s) c), d_last := copyCount c, d_relevant := c, d_main := Next_Count, d_sub := Listening\<rparr>)"
| message: "d_sub s = Listening \<Longrightarrow> on_message decode (d_relevant s) (d_prev s) channel payload = Some (Inr (prev', ds)) \<Longrightarrow>
    differ_step decode s (Published channel payload) ds (s\<lparr>d_prev := prev'\<rparr>)"
| unreadable: "d_sub s = Listening \<Longrightarrow> on_message decode (d_relevant s) (d_prev s) channel payload = Some (Inl err) \<Longrightarrow>
    differ_step decode s (Published channel payload) [] (s\<lparr>d_sub := Returned\<rparr>)"

code_pred (modes: i \<Rightarrow> i \<Rightarrow> i \<Rightarrow> o \<Rightarrow> o \<Rightarrow> bool as step_differ) differ_step .

inductive_cases messageE: "differ_step decode s (Published channel payload) ds s'"
inductive_cases countE: "differ_step decode s (New_Count c) ds s'"
inductive_cases stopE: "differ_step decode s Stop_Sub ds s'"

text \<open>A run of the differ with what it sent to the reserver.\<close>

inductive differ_run :: "(string \<Rightarrow> (string \<times> int) list result) \<Rightarrow> differ \<Rightarrow> differ_input list \<Rightarrow> Diff list \<Rightarrow> differ \<Rightarrow> bool" for decode where
  idle_run: "differ_run decode s [] [] s"
| step_run: "differ_step decode s i ds s' \<Longrightarrow> differ_run decode s' is es s'' \<Longrightarrow> differ_run decode s (i # is) (ds @ es) s''"

section \<open>What a message reports\<close>

lemma remembered_remember:
  "remembered (remember prev dir day tt) dir' day' k =
     (if dir' = dir \<and> day' = day then (case tt k of None \<Rightarrow> 0 | Some n \<Rightarrow> n) else remembered prev dir' day' k)"
  by (auto simp: remembered_def remember_def split: option.splits)

lemma diff_of_Some:
  "diff_of prev dir day (k, v) = Some d \<longleftrightarrow>
     v \<noteq> remembered prev dir day k \<and> d = \<lparr>diff_Count = v, diff_Prev = remembered prev dir day k, diff_Delta = v - remembered prev dir day k\<rparr>"
  by (auto simp: diff_of_def Let_def)

lemma set_of_map_filter: "y \<in> set (List.map_filter f xs) \<longleftrightarrow> (\<exists>x \<in> set xs. f x = Some y)"
  by (force simp: List.map_filter_def)

lemma set_diff:
  "(k, d) \<in> set (snd (diff dir day prev newState)) \<longleftrightarrow> (\<exists>v. (k, v) \<in> set newState \<and> diff_of prev dir day (k, v) = Some d)"
  by (auto simp: diff_def set_of_map_filter)

definition slot_of_diff :: "Diff \<Rightarrow> string \<times> string \<times> string" where
  "slot_of_diff d = (diff_Direction d, diff_Date d, diff_Time d)"

definition demanded :: "count \<Rightarrow> string \<Rightarrow> string \<Rightarrow> string \<Rightarrow> bool" where
  "demanded c dir day k \<longleftrightarrow> need c dir day (k @ '':00'') \<noteq> 0"

definition change :: "int \<Rightarrow> int \<Rightarrow> DiffData" where
  "change before now = \<lparr>diff_Count = now, diff_Prev = before, diff_Delta = now - before\<rparr>"

lemma on_message_reports:
  assumes "on_message decode relevant prev channel payload = Some (Inr (prev', ds))"
    and "split_on (CHR '':'') (trim_prefix channel ''ktmb:schedule:'') = dir # day # rest" "decode payload = Inr rx"
  shows "d \<in> set ds \<longleftrightarrow> (\<exists>k v. (k, v) \<in> set rx \<and> demanded relevant dir day k \<and> v \<noteq> remembered prev dir day k
       \<and> d = \<lparr>diff_Direction = dir, diff_Date = day, diff_Time = k, diff_Data = change (remembered prev dir day k) v\<rparr>)"
    and "prev' = remember prev dir day (map_of (filter (\<lambda>(k, v). demanded relevant dir day k) rx))"
proof -
  let ?f = "filter (\<lambda>(k, v). demanded relevant dir day k) rx"
  have ds: "ds = map (\<lambda>(k, v). \<lparr>diff_Direction = dir, diff_Date = day, diff_Time = k, diff_Data = v\<rparr>) (snd (diff dir day prev ?f))"
    and p: "prev' = fst (diff dir day prev ?f)"
    using assms by (auto simp: on_message_def demanded_def Let_def)
  have "(k, e) \<in> set (snd (diff dir day prev ?f)) \<longleftrightarrow> (\<exists>v. (k, v) \<in> set rx \<and> demanded relevant dir day k \<and> v \<noteq> remembered prev dir day k
      \<and> e = change (remembered prev dir day k) v)" for k e
    by (auto simp: set_diff diff_of_Some change_def)
  then show "d \<in> set ds \<longleftrightarrow> (\<exists>k v. (k, v) \<in> set rx \<and> demanded relevant dir day k \<and> v \<noteq> remembered prev dir day k
       \<and> d = \<lparr>diff_Direction = dir, diff_Date = day, diff_Time = k, diff_Data = change (remembered prev dir day k) v\<rparr>)"
    unfolding ds by (auto simp: image_iff split_beta) (metis fst_conv snd_conv)+
  show "prev' = remember prev dir day (map_of ?f)" by (simp add: p diff_def)
qed

section \<open>A rising demand re-arms its slot\<close>

lemma remembered_forget:
  "remembered (forget prev dir day key) dir' day' k = (if dir' = dir \<and> day' = day \<and> k = key then 0 else remembered prev dir' day' k)"
  by (auto simp: forget_def remembered_def split: option.splits)

lemma trim_suffix_append [simp]: "trim_suffix (k @ suf) suf = k"
  by (simp add: trim_suffix_def suffix_def)

definition dims :: "seat_memory \<Rightarrow> seat_memory \<Rightarrow> bool" where
  "dims m m' \<longleftrightarrow> (\<forall>dir day k. remembered m' dir day k = remembered m dir day k \<or> remembered m' dir day k = 0)"

lemma dims_trans: "dims m m' \<Longrightarrow> dims m' m'' \<Longrightarrow> dims m m''"
  by (metis dims_def)

lemma dims_zero: "dims m m' \<Longrightarrow> remembered m dir day k = 0 \<Longrightarrow> remembered m' dir day k = 0"
  by (metis dims_def)

lemma dims_forget: "dims m (forget m dir day key)"
  by (auto simp: dims_def remembered_forget)

lemma rearm_times_dims: "dims (fst acc) (fst (rearm_times old dir day ts acc))"
proof (induction old dir day ts acc rule: rearm_times.induct)
  case (2 old dir day t n ts prev rearmed)
  then show ?case by (auto intro: dims_trans[OF dims_forget])
qed (simp add: dims_def)

lemma rearm_dates_dims: "dims (fst acc) (fst (rearm_dates old dir ds acc))"
proof (induction old dir ds acc rule: rearm_dates.induct)
  case (2 old dir day ts ds acc)
  then show ?case by (auto intro: dims_trans[OF rearm_times_dims])
qed (simp add: dims_def)

lemma rearm_count_dims: "dims (fst acc) (fst (rearm_count old c acc))"
proof (induction old c acc rule: rearm_count.induct)
  case (2 old dir ds c acc)
  then show ?case by (auto intro: dims_trans[OF rearm_dates_dims])
qed (simp add: dims_def)

lemma rearm_times_forgets:
  "(t, n) \<in> set ts \<Longrightarrow> n > need old dir day t \<Longrightarrow> remembered (fst (rearm_times old dir day ts acc)) dir day (trim_suffix t '':00'') = 0"
proof (induction old dir day ts acc rule: rearm_times.induct)
  case (2 old dir day t' n' ts prev rearmed)
  show ?case
  proof (cases "(t, n) = (t', n')")
    case True
    then have "remembered (forget prev dir day (trim_suffix t '':00'')) dir day (trim_suffix t '':00'') = 0" by (simp add: remembered_forget)
    then show ?thesis using True 2 by (auto intro: dims_zero[OF rearm_times_dims])
  next
    case False
    then show ?thesis using 2 by auto
  qed
qed simp

lemma rearm_dates_forgets:
  "(day, ts) \<in> set ds \<Longrightarrow> (t, n) \<in> set ts \<Longrightarrow> n > need old dir day t
    \<Longrightarrow> remembered (fst (rearm_dates old dir ds acc)) dir day (trim_suffix t '':00'') = 0"
proof (induction old dir ds acc rule: rearm_dates.induct)
  case (2 old dir day' ts' ds acc)
  show ?case
  proof (cases "(day, ts) = (day', ts')")
    case True
    then show ?thesis using 2 rearm_times_forgets[where acc = acc] by (auto intro!: dims_zero[OF rearm_dates_dims])
  next
    case False
    then show ?thesis using 2 by auto
  qed
qed simp

lemma rearm_count_forgets:
  "(dir, ds) \<in> set c \<Longrightarrow> (day, ts) \<in> set ds \<Longrightarrow> (t, n) \<in> set ts \<Longrightarrow> n > need old dir day t
    \<Longrightarrow> remembered (fst (rearm_count old c acc)) dir day (trim_suffix t '':00'') = 0"
proof (induction old c acc rule: rearm_count.induct)
  case (2 old dir' ds' c acc)
  show ?case
  proof (cases "(dir, ds) = (dir', ds')")
    case True
    then show ?thesis using 2 rearm_dates_forgets[where acc = acc] by (auto intro!: dims_zero[OF rearm_count_dims])
  next
    case False
    then show ?thesis using 2 by auto
  qed
qed simp

lemma copyCount_id: "copyCount c = c"
  by (auto simp: copyCount_def map_idI split_beta)

lemma rearm_forgets:
  assumes "need newer dir day (k @ '':00'') > need old dir day (k @ '':00'')" "need newer dir day (k @ '':00'') \<noteq> 0"
  shows "remembered (fst (rearm prev old newer)) dir day k = 0"
proof -
  obtain n where "demand newer dir day (k @ '':00'') = Some n" "n > need old dir day (k @ '':00'')"
    using assms by (auto simp: need_def split: option.splits)
  then obtain ds ts where "map_of newer dir = Some ds" "map_of ds day = Some ts" "map_of ts (k @ '':00'') = Some n"
    by (auto simp: demand_def bind_eq_Some_conv)
  then show ?thesis
    using rearm_count_forgets[of dir ds newer day ts "k @ '':00''" n old "(prev, [])"] \<open>n > _\<close>
    by (auto simp: rearm_def dest!: map_of_SomeD)
qed

lemma rearm_dims: "dims prev (fst (rearm prev old newer))"
  using rearm_count_dims[of "(prev, [])"] by (simp add: rearm_def)

section \<open>The running differ\<close>

text \<open>A publication about another date than the one of a slot.\<close>

fun about :: "string \<Rightarrow> string \<Rightarrow> differ_input \<Rightarrow> bool" where
  "about dir day (Published channel payload) =
     (case split_on (CHR '':'') (trim_prefix channel ''ktmb:schedule:'') of d # e # _ \<Rightarrow> d = dir \<and> e = day | _ \<Rightarrow> False)"
| "about dir day i = False"

fun is_published :: "differ_input \<Rightarrow> bool" where
  "is_published (Published channel payload) = True"
| "is_published i = False"

lemma on_message_elsewhere:
  assumes "on_message decode relevant prev channel payload = Some (Inr (prev', ds))" "\<not> about dir day (Published channel payload)"
  shows "remembered prev' dir day k = remembered prev dir day k"
  using assms by (auto simp: on_message_def Let_def diff_def remembered_remember split: list.splits sum.splits)

lemma published_step:
  assumes "differ_step decode s (Published channel payload) ds s'"
  shows "d_relevant s' = d_relevant s \<and> d_last s' = d_last s"
  using assms by (auto elim!: messageE)

lemma published_elsewhere:
  assumes "differ_run decode s is ds s'" "list_all (\<lambda>i. is_published i \<and> \<not> about dir day i) is"
  shows "d_relevant s' = d_relevant s \<and> remembered (d_prev s') dir day k = remembered (d_prev s) dir day k"
  using assms
proof (induction rule: differ_run.induct)
  case (step_run s i ds s' "is" es s'')
  then obtain channel payload where i: "i = Published channel payload" by (cases i) auto
  have "d_relevant s' = d_relevant s \<and> remembered (d_prev s') dir day k = remembered (d_prev s) dir day k"
    using step_run(1) step_run.prems unfolding i by (elim messageE) (auto simp: on_message_elsewhere)
  then show ?case using step_run by auto
qed simp

text \<open>When the demand of a slot rises, the first report of its date that follows sends the reserver
  all the seats it names for the slot as new, whatever was reported before and whatever is reported of
  other dates in between.\<close>

lemma rearmed_slot_reported:
  assumes "differ_step decode s Stop_Sub [] s1"
    and "need (d_relevant s1) dir day (k @ '':00'') > need (d_last s) dir day (k @ '':00'')" "demanded (d_relevant s1) dir day k"
    and "differ_run decode s1 is es s2" "list_all (\<lambda>i. is_published i \<and> \<not> about dir day i) is"
    and "differ_step decode s2 (Published channel payload) ds s3" "about dir day (Published channel payload)"
    and "decode payload = Inr rx" "(k, v) \<in> set rx" "v \<noteq> 0"
  shows "\<lparr>diff_Direction = dir, diff_Date = day, diff_Time = k, diff_Data = \<lparr>diff_Count = v, diff_Prev = 0, diff_Delta = v\<rparr>\<rparr> \<in> set ds"
proof -
  from assms(1) have "remembered (d_prev s1) dir day k = 0"
    using assms(2,3) by (auto elim!: stopE simp: demanded_def intro!: rearm_forgets)
  with published_elsewhere[OF assms(4,5)] have z: "remembered (d_prev s2) dir day k = 0" "demanded (d_relevant s2) dir day k"
    using assms(3) by simp_all
  from assms(6) obtain prev' where m: "on_message decode (d_relevant s2) (d_prev s2) channel payload = Some (Inr (prev', ds))"
    using assms(7,8) by (auto elim!: messageE simp: on_message_def Let_def split: list.splits)
  obtain r where "split_on (CHR '':'') (trim_prefix channel ''ktmb:schedule:'') = dir # day # r"
    using assms(7) by (auto split: list.splits)
  then show ?thesis using on_message_reports(1)[OF m _ assms(8)] z assms(9,10) by (auto simp: change_def)
qed

text \<open>A report changes the memory of its own date to the demanded seats it names; what it sends are
  exactly the demanded slots whose count differs from the remembered one, each with the difference
  that takes the remembered count to the new one.\<close>

theorem report_sends_changes:
  assumes "differ_step decode s (Published channel payload) ds s'"
    and "split_on (CHR '':'') (trim_prefix channel ''ktmb:schedule:'') = dir # day # r"
    and "decode payload = Inr rx" "distinct (map fst rx)"
  shows "((\<exists>d. d \<in> set ds \<and> slot_of_diff d = (dir, day, k)) \<longleftrightarrow>
           (\<exists>v. (k, v) \<in> set rx \<and> demanded (d_relevant s) dir day k \<and> v \<noteq> remembered (d_prev s) dir day k))
    \<and> (\<forall>d. d \<in> set ds \<and> slot_of_diff d = (dir, day, k) \<longrightarrow> diff_Delta (diff_Data d) \<noteq> 0
         \<and> remembered (d_prev s) dir day k + diff_Delta (diff_Data d) = remembered (d_prev s') dir day k)
    \<and> (\<forall>dir' day'. (dir', day') \<noteq> (dir, day) \<longrightarrow> remembered (d_prev s') dir' day' k = remembered (d_prev s) dir' day' k)"
proof (intro conjI allI impI)
  from assms(1) have m: "on_message decode (d_relevant s) (d_prev s) channel payload = Some (Inr (d_prev s', ds))"
    using assms(2,3) by (auto elim!: messageE simp: on_message_def Let_def)
  note rep = on_message_reports[OF m assms(2,3)]
  have sent: "\<exists>v. (k, v) \<in> set rx \<and> demanded (d_relevant s) dir day k \<and> v \<noteq> remembered (d_prev s) dir day k
      \<and> diff_Data d = change (remembered (d_prev s) dir day k) v" if "d \<in> set ds" "slot_of_diff d = (dir, day, k)" for d
  proof -
    from that(1) obtain k' v where d: "(k', v) \<in> set rx" "demanded (d_relevant s) dir day k'" "v \<noteq> remembered (d_prev s) dir day k'"
      "d = \<lparr>diff_Direction = dir, diff_Date = day, diff_Time = k', diff_Data = change (remembered (d_prev s) dir day k') v\<rparr>"
      using rep(1) by blast
    from that(2) have "k' = k" unfolding d(4) by (simp add: slot_of_diff_def)
    then show ?thesis using d by auto
  qed
  show "(\<exists>d. d \<in> set ds \<and> slot_of_diff d = (dir, day, k)) \<longleftrightarrow>
      (\<exists>v. (k, v) \<in> set rx \<and> demanded (d_relevant s) dir day k \<and> v \<noteq> remembered (d_prev s) dir day k)" (is "?sent = ?changed")
  proof
    assume ?sent
    then show ?changed using sent by blast
  next
    assume ?changed
    then obtain v where "(k, v) \<in> set rx \<and> demanded (d_relevant s) dir day k \<and> v \<noteq> remembered (d_prev s) dir day k" by blast
    then have "\<lparr>diff_Direction = dir, diff_Date = day, diff_Time = k, diff_Data = change (remembered (d_prev s) dir day k) v\<rparr> \<in> set ds"
      using rep(1) by blast
    then show ?sent by (intro exI conjI) (auto simp: slot_of_diff_def)
  qed
  show "remembered (d_prev s') dir' day' k = remembered (d_prev s) dir' day' k" if "(dir', day') \<noteq> (dir, day)" for dir' day'
    using that by (auto simp: rep(2) remembered_remember)
  fix d assume d: "d \<in> set ds \<and> slot_of_diff d = (dir, day, k)"
  then obtain v where v: "(k, v) \<in> set rx" "demanded (d_relevant s) dir day k" "v \<noteq> remembered (d_prev s) dir day k"
    "diff_Data d = change (remembered (d_prev s) dir day k) v"
    using sent by blast
  have "distinct (map fst (filter (\<lambda>(k, v). demanded (d_relevant s) dir day k) rx))"
    using assms(4) by (rule distinct_map_filter)
  then have "map_of (filter (\<lambda>(k, v). demanded (d_relevant s) dir day k) rx) k = Some v"
    using v(1,2) by (auto intro!: map_of_is_SomeI)
  then show "diff_Delta (diff_Data d) \<noteq> 0" "remembered (d_prev s) dir day k + diff_Delta (diff_Data d) = remembered (d_prev s') dir day k"
    using v by (simp_all add: rep(2) remembered_remember change_def)
qed

lemma started_sub:
  "differ_run decode s is ds s' \<Longrightarrow> (d_sub s = Not_Started) = (d_main s = First_Count) \<Longrightarrow> (d_sub s' = Not_Started) = (d_main s' = First_Count)"
proof (induction rule: differ_run.induct)
  case (step_run s i ds s' "is" es s'')
  from step_run(1,4) have "(d_sub s' = Not_Started) = (d_main s' = First_Count)" by (cases rule: differ_step.cases) auto
  then show ?case using step_run by blast
qed

lemma returned_run:
  assumes "differ_run decode s is es s'" "d_sub s = Returned" "d_main s \<noteq> First_Count"
  shows "es = [] \<and> length is \<le> (case d_main s of Handing_Over c \<Rightarrow> 0 | _ \<Rightarrow> 1) \<and> (\<forall>i. i \<in> set is \<longrightarrow> \<not> is_published i)"
  using assms
proof (induction rule: differ_run.induct)
  case (step_run s i ds s' "is" es s'')
  from step_run(1,4,5) obtain c where "i = New_Count c" "ds = []" "s' = s\<lparr>d_main := Handing_Over c\<rparr>" "d_main s = Next_Count"
    by (cases rule: differ_step.cases) auto
  then show ?case using step_run by auto
qed simp

text \<open>C27: One publication that cannot be read ends the differ's work for good: the reserver gets
  nothing more from it, and it takes one more demand snapshot at most, after which every sender of
  snapshots waits forever.\<close>

theorem unreadable_report_wedges:
  assumes "differ_run decode differ_start ins outs s" "differ_step decode s (Published channel payload) ds s1"
    and "decode payload = Inl err" "differ_run decode s1 is es s2"
  shows "ds = [] \<and> es = [] \<and> length is \<le> 1 \<and> (\<forall>i. i \<in> set is \<longrightarrow> \<not> is_published i)"
proof -
  have "(d_sub s = Not_Started) = (d_main s = First_Count)"
    using started_sub[OF assms(1)] by (simp add: differ_start_def)
  moreover have "ds = [] \<and> d_sub s = Listening \<and> s1 = s\<lparr>d_sub := Returned\<rparr>"
    using assms(2,3) by (auto elim!: messageE simp: on_message_def split: list.splits)
  ultimately show ?thesis using returned_run[OF assms(4)] by (auto split: main_point.splits)
qed

section \<open>Examples\<close>

definition ex_count :: "int \<Rightarrow> count" where
  "ex_count n = [(''JToW'', [(''01-02-2026'', [(''08:00:00'', n)])])]"

definition ex_decode :: "string \<Rightarrow> (string \<times> int) list result" where
  "ex_decode payload = (if payload = [] then Inl Decode_Error else Inr [(''08:00'', 3)])"

definition ex_channel :: string where
  "ex_channel = ''ktmb:schedule:JToW:01-02-2026''"

definition ex_memory :: seat_memory where
  "ex_memory = remember Map.empty ''JToW'' ''01-02-2026'' (map_of [(''08:00'', 3)])"

definition ex_listening :: "seat_memory \<Rightarrow> int \<Rightarrow> differ" where
  "ex_listening m n = \<lparr>d_prev = m, d_last = ex_count n, d_relevant = ex_count n, d_main = Next_Count, d_sub = Listening\<rparr>"

lemma ex_first: "differ_step ex_decode differ_start (New_Count (ex_count 1)) [] (ex_listening Map.empty 1)"
  using differ_step.first[of differ_start ex_decode "ex_count 1"] by (simp add: differ_start_def ex_listening_def copyCount_id)

lemma ex_channel_parts: "split_on (CHR '':'') (trim_prefix ex_channel ''ktmb:schedule:'') = [''JToW'', ''01-02-2026'']"
  by (simp add: ex_channel_def trim_prefix_def)

lemma ex_need: "need (ex_count n) ''JToW'' ''01-02-2026'' ''08:00:00'' = n"
  by (simp add: need_def demand_def ex_count_def)

lemma ex_message:
  assumes "remembered m ''JToW'' ''01-02-2026'' ''08:00'' = p" "p \<noteq> 3" "n \<noteq> 0"
  shows "differ_step ex_decode (ex_listening m n) (Published ex_channel ''x'')
     [\<lparr>diff_Direction = ''JToW'', diff_Date = ''01-02-2026'', diff_Time = ''08:00'', diff_Data = change p 3\<rparr>]
     (ex_listening (remember m ''JToW'' ''01-02-2026'' (map_of [(''08:00'', 3)])) n)"
proof -
  have "on_message ex_decode (ex_count n) m ex_channel ''x'' =
      Some (Inr (remember m ''JToW'' ''01-02-2026'' (map_of [(''08:00'', 3)]),
        [\<lparr>diff_Direction = ''JToW'', diff_Date = ''01-02-2026'', diff_Time = ''08:00'', diff_Data = change p 3\<rparr>]))"
    using assms by (simp add: on_message_def ex_channel_parts ex_decode_def ex_need diff_def diff_of_def change_def List.map_filter_def)
  then show ?thesis using differ_step.message[of "ex_listening m n"] by (simp add: ex_listening_def)
qed

lemma ex_hand_over:
  "differ_step ex_decode ((ex_listening m n)\<lparr>d_main := Handing_Over (ex_count n')\<rparr>) Stop_Sub []
     (ex_listening (fst (rearm m (ex_count n) (ex_count n'))) n')"
  using differ_step.hand_over[of "(ex_listening m n)\<lparr>d_main := Handing_Over (ex_count n')\<rparr>" "ex_count n'" ex_decode]
  by (simp add: ex_listening_def copyCount_id)

lemma rearmed_slot_reported_example:
  "\<exists>ds s. differ_step ex_decode (ex_listening (fst (rearm ex_memory (ex_count 1) (ex_count 2))) 2) (Published ex_channel ''x'') ds s
     \<and> \<lparr>diff_Direction = ''JToW'', diff_Date = ''01-02-2026'', diff_Time = ''08:00'',
         diff_Data = \<lparr>diff_Count = 3, diff_Prev = 0, diff_Delta = 3\<rparr>\<rparr> \<in> set ds"
proof -
  have z: "remembered (fst (rearm ex_memory (ex_count 1) (ex_count 2))) ''JToW'' ''01-02-2026'' ''08:00'' = 0"
    by (rule rearm_forgets) (simp_all add: ex_need)
  note step = ex_message[OF z, of 2]
  show ?thesis
  proof (intro exI conjI, rule step, simp, simp)
    show "\<lparr>diff_Direction = ''JToW'', diff_Date = ''01-02-2026'', diff_Time = ''08:00'',
         diff_Data = \<lparr>diff_Count = 3, diff_Prev = 0, diff_Delta = 3\<rparr>\<rparr>
       \<in> set [\<lparr>diff_Direction = ''JToW'', diff_Date = ''01-02-2026'', diff_Time = ''08:00'', diff_Data = change 0 3\<rparr>]"
      by (rule rearmed_slot_reported[OF ex_hand_over[where m = ex_memory and n = 1 and n' = 2] _ _ idle_run _ step, where rx = "[(''08:00'', 3)]"])
        (simp_all add: ex_listening_def ex_need demanded_def ex_channel_parts ex_decode_def)
  qed
qed

theorem report_sends_changes_witness:
  "\<exists>ds s. differ_step ex_decode (ex_listening Map.empty 1) (Published ex_channel ''x'') ds s
     \<and> (\<exists>d. d \<in> set ds \<and> slot_of_diff d = (''JToW'', ''01-02-2026'', ''08:00''))"
proof -
  have step: "differ_step ex_decode (ex_listening Map.empty 1) (Published ex_channel ''x'')
     [\<lparr>diff_Direction = ''JToW'', diff_Date = ''01-02-2026'', diff_Time = ''08:00'', diff_Data = change 0 3\<rparr>]
     (ex_listening (remember Map.empty ''JToW'' ''01-02-2026'' (map_of [(''08:00'', 3)])) 1)"
    by (rule ex_message) (simp_all add: remembered_def)
  show ?thesis
    using report_sends_changes[OF step ex_channel_parts, of "[(''08:00'', 3)]" "''08:00''"] step
    by (auto simp: ex_decode_def demanded_def ex_listening_def ex_need remembered_def)
qed

theorem unreadable_report_wedges_witness:
  "\<exists>s1. differ_run ex_decode differ_start [New_Count (ex_count 1), Published ex_channel []] [] s1
     \<and> (\<forall>is es s2. differ_run ex_decode s1 is es s2 \<longrightarrow> es = [] \<and> length is \<le> 1)"
proof -
  let ?s1 = "(ex_listening Map.empty 1)\<lparr>d_sub := Returned\<rparr>"
  have r: "differ_run ex_decode differ_start [New_Count (ex_count 1)] [] (ex_listening Map.empty 1)"
    using step_run[OF ex_first idle_run] by simp
  have u: "differ_step ex_decode (ex_listening Map.empty 1) (Published ex_channel []) [] ?s1"
    by (rule differ_step.unreadable[of _ _ _ _ Decode_Error]) (simp_all add: ex_listening_def on_message_def ex_channel_parts ex_decode_def)
  have "differ_run ex_decode differ_start [New_Count (ex_count 1), Published ex_channel []] [] ?s1"
    using step_run[OF ex_first step_run[OF u idle_run]] by simp
  moreover have "es = [] \<and> length is \<le> 1" if "differ_run ex_decode ?s1 is es s2" for "is" es s2
    using unreadable_report_wedges[OF r u _ that, of Decode_Error] by (simp add: ex_decode_def)
  ultimately show ?thesis by blast
qed

end
