(* ===== verification/Replicas.thy ===== *)
theory Replicas
  imports Main
begin

text \<open>
  lib/reserver/reserver.go, the replicas of \<open>reserveProcess\<close>: concurrent attempts at one seat that
  stop each other through the buffered channel \<open>term\<close>. A replica that wins puts a token in; one that
  finds a token at the head of its loop takes it, puts it back and ends. The interleavings of the
  goroutines are a step relation; whether an attempt wins is open.
\<close>

datatype replica =
    Waiting \<comment> \<open>in \<open>blockIfMaintenance\<close>\<close>
  | Ready nat \<comment> \<open>at the head of the loop, before attempt \<open>i\<close>\<close>
  | Reserving nat
  | Winning \<comment> \<open>about to emit the token of its success\<close>
  | Relaying \<comment> \<open>about to put back the token it took\<close>
  | Ended

text \<open>\<open>won\<close> and \<open>calls\<close> count, for each replica, the holds it won and the attempts it made.\<close>

record pool =
  tokens :: nat
  replicas :: "replica list"
  won :: "nat list"
  calls :: "nat list"

definition spawned :: "nat \<Rightarrow> pool" where
  "spawned concurrency = \<lparr>tokens = 0, replicas = replicate concurrency Waiting, won = replicate concurrency 0, calls = replicate concurrency 0\<rparr>"

text \<open>The capacity of \<open>term\<close> is the number of replicas; a send at capacity blocks.\<close>

inductive replica_step :: "nat \<Rightarrow> nat \<Rightarrow> pool \<Rightarrow> pool \<Rightarrow> bool" for attempt r where
  gives_up: "r < length (replicas p) \<Longrightarrow> replicas p ! r = Waiting \<Longrightarrow> replica_step attempt r p (p\<lparr>replicas := (replicas p)[r := Ended]\<rparr>)"
| goes: "r < length (replicas p) \<Longrightarrow> replicas p ! r = Waiting \<Longrightarrow> replica_step attempt r p (p\<lparr>replicas := (replicas p)[r := Ready 0]\<rparr>)"
| out: "r < length (replicas p) \<Longrightarrow> replicas p ! r = Ready i \<Longrightarrow> attempt \<le> i
    \<Longrightarrow> replica_step attempt r p (p\<lparr>replicas := (replicas p)[r := Ended]\<rparr>)"
| takes: "r < length (replicas p) \<Longrightarrow> replicas p ! r = Ready i \<Longrightarrow> i < attempt \<Longrightarrow> 0 < tokens p
    \<Longrightarrow> replica_step attempt r p (p\<lparr>tokens := tokens p - 1, replicas := (replicas p)[r := Relaying]\<rparr>)"
| tries: "r < length (replicas p) \<Longrightarrow> replicas p ! r = Ready i \<Longrightarrow> i < attempt \<Longrightarrow> tokens p = 0
    \<Longrightarrow> replica_step attempt r p (p\<lparr>replicas := (replicas p)[r := Reserving i], calls := (calls p)[r := calls p ! r + 1]\<rparr>)"
| fails: "r < length (replicas p) \<Longrightarrow> replicas p ! r = Reserving i \<Longrightarrow> replica_step attempt r p (p\<lparr>replicas := (replicas p)[r := Ready (i + 1)]\<rparr>)"
| wins: "r < length (replicas p) \<Longrightarrow> replicas p ! r = Reserving i
    \<Longrightarrow> replica_step attempt r p (p\<lparr>replicas := (replicas p)[r := Winning], won := (won p)[r := won p ! r + 1]\<rparr>)"
| emits: "r < length (replicas p) \<Longrightarrow> replicas p ! r = Winning \<Longrightarrow> tokens p < length (replicas p)
    \<Longrightarrow> replica_step attempt r p (p\<lparr>tokens := tokens p + 1, replicas := (replicas p)[r := Ended]\<rparr>)"
| relays: "r < length (replicas p) \<Longrightarrow> replicas p ! r = Relaying \<Longrightarrow> tokens p < length (replicas p)
    \<Longrightarrow> replica_step attempt r p (p\<lparr>tokens := tokens p + 1, replicas := (replicas p)[r := Ended]\<rparr>)"

inductive_simps replica_step_iff: "replica_step attempt r p p'"

inductive pool_run :: "nat \<Rightarrow> pool \<Rightarrow> nat list \<Rightarrow> pool \<Rightarrow> bool" for attempt where
  pool_start: "pool_run attempt p [] p"
| pool_step: "pool_run attempt p rs p' \<Longrightarrow> replica_step attempt r p' p'' \<Longrightarrow> pool_run attempt p (rs @ [r]) p''"

section \<open>The invariant\<close>

text \<open>How many attempts a replica may have begun in a state.\<close>

fun begun :: "nat \<Rightarrow> replica \<Rightarrow> nat" where
  "begun attempt Waiting = 0"
| "begun attempt (Ready i) = i"
| "begun attempt (Reserving i) = i + 1"
| "begun attempt _ = attempt"

fun undecided :: "replica \<Rightarrow> bool" where
  "undecided Winning = False"
| "undecided Ended = False"
| "undecided _ = True"

definition count_of :: "(replica \<Rightarrow> bool) \<Rightarrow> replica list \<Rightarrow> nat" where
  "count_of P rs = sum_list (map (\<lambda>s. if P s then 1 else 0) rs)"

definition pool_inv :: "nat \<Rightarrow> nat \<Rightarrow> pool \<Rightarrow> bool" where
  "pool_inv attempt n p \<longleftrightarrow> length (replicas p) = n \<and> length (won p) = n \<and> length (calls p) = n
     \<and> tokens p + count_of (\<lambda>s. s = Winning) (replicas p) + count_of (\<lambda>s. s = Relaying) (replicas p) = sum_list (won p)
     \<and> sum_list (won p) + count_of undecided (replicas p) \<le> n
     \<and> (\<forall>s \<in> set (replicas p). begun attempt s \<le> attempt)"

lemma sum_list_update:
  fixes f :: "'a \<Rightarrow> nat"
  shows "r < length rs \<Longrightarrow> sum_list (map f (rs[r := s])) + f (rs ! r) = sum_list (map f rs) + f s"
proof (induction rs arbitrary: r)
  case (Cons a rs)
  then show ?case by (cases r) auto
qed simp

lemma count_of_update:
  assumes "r < length rs"
  shows "count_of P (rs[r := s]) + (if P (rs ! r) then 1 else 0) = count_of P rs + (if P s then 1 else 0)"
  unfolding count_of_def by (rule sum_list_update[OF assms])

lemma pool_inv_start: "pool_inv attempt n (spawned n)"
  by (auto simp: pool_inv_def spawned_def count_of_def sum_list_replicate)

lemma pool_inv_update:
  fixes ind :: "bool \<Rightarrow> nat"
  defines "ind \<equiv> (\<lambda>b. if b then 1 else 0)"
  assumes inv: "pool_inv attempt n p" and r: "r < length (replicas p)" "replicas p ! r = s"
    and p': "length (calls p') = length (calls p)" "replicas p' = (replicas p)[r := s']" "won p' = (won p)[r := won p ! r + w]"
    and tk: "tokens p' + ind (s' = Winning) + ind (s' = Relaying) = w + tokens p + ind (s = Winning) + ind (s = Relaying)"
    and wn: "w + ind (undecided s') \<le> ind (undecided s)" and cl: "begun attempt s' \<le> attempt"
  shows "pool_inv attempt n p'"
proof -
  note c = count_of_update[OF r(1), of _ s', unfolded r(2)]
  have "r < length (won p)" using inv r by (simp add: pool_inv_def)
  from sum_list_update[OF this, of id "won p ! r + w"] have w: "sum_list (won p') = sum_list (won p) + w" by (simp add: p'(3))
  have "set (replicas p') \<subseteq> insert s' (set (replicas p))" unfolding p'(2) by (rule set_update_subset_insert)
  moreover have "tokens p' + count_of (\<lambda>s. s = Winning) (replicas p') + count_of (\<lambda>s. s = Relaying) (replicas p') = sum_list (won p')"
    using inv tk c[of "\<lambda>s. s = Winning"] c[of "\<lambda>s. s = Relaying"] unfolding pool_inv_def p'(2) w ind_def by linarith
  moreover have "sum_list (won p') + count_of undecided (replicas p') \<le> n"
    using inv wn c[of undecided] unfolding pool_inv_def p'(2) w ind_def by linarith
  ultimately show ?thesis using inv cl p' unfolding pool_inv_def by auto
qed

lemma pool_inv_step:
  assumes "replica_step attempt r p p'" "pool_inv attempt n p"
  shows "pool_inv attempt n p'"
proof -
  have b: "begun attempt (replicas p ! r) \<le> attempt" if "r < length (replicas p)"
    using assms(2) that by (auto simp: pool_inv_def)
  show ?thesis using assms(1)
  proof (cases rule: replica_step.cases)
    case wins
    then show ?thesis using b by (intro pool_inv_update[OF assms(2), where w = 1]) auto
  qed (use b in \<open>auto intro!: pool_inv_update[OF assms(2), where w = 0]\<close>)
qed

lemma pool_inv_run:
  "pool_run attempt p rs p' \<Longrightarrow> pool_inv attempt n p \<Longrightarrow> pool_inv attempt n p'"
  by (induction rule: pool_run.induct) (auto intro: pool_inv_step)

lemma reachable_inv: "pool_run attempt (spawned n) rs p \<Longrightarrow> pool_inv attempt n p"
  using pool_inv_run pool_inv_start by blast

section \<open>What the replicas guarantee\<close>

lemma count_of_member: "s \<in> set rs \<Longrightarrow> P s \<Longrightarrow> 1 \<le> count_of P rs"
  unfolding count_of_def by (induction rs) auto

text \<open>C28: No replica is ever stuck: in every reachable state each replica that has not ended can take a
  step of its own, so no send of a token ever blocks.\<close>

theorem replicas_never_block:
  assumes "pool_run attempt (spawned n) rs p" "r < length (replicas p)" "replicas p ! r \<noteq> Ended"
  shows "\<exists>p'. replica_step attempt r p p'"
proof (cases "replicas p ! r")
  case (Ready i)
  then show ?thesis using assms(2) replica_step.out replica_step.takes replica_step.tries by (metis not_le neq0_conv)
next
  case Winning
  have "sum_list (won p) \<le> n" "length (replicas p) = n" "tokens p + 1 \<le> sum_list (won p)"
    using reachable_inv[OF assms(1)] count_of_member[of Winning "replicas p" "\<lambda>s. s = Winning"] assms(2) Winning nth_mem
    by (force simp: pool_inv_def)+
  then show ?thesis using replica_step.emits[OF assms(2) Winning] by fastforce
next
  case Relaying
  have "sum_list (won p) \<le> n" "length (replicas p) = n" "tokens p + 1 \<le> sum_list (won p)"
    using reachable_inv[OF assms(1)] count_of_member[of Relaying "replicas p" "\<lambda>s. s = Relaying"] assms(2) Relaying nth_mem
    by (force simp: pool_inv_def)+
  then show ?thesis using replica_step.relays[OF assms(2) Relaying] by fastforce
qed (use assms replica_step.goes replica_step.wins in blast)+

text \<open>The steps a replica has left at most.\<close>

fun steps_left :: "nat \<Rightarrow> replica \<Rightarrow> nat" where
  "steps_left attempt Waiting = 2 * attempt + 4"
| "steps_left attempt (Ready i) = 2 * (attempt - i) + 3"
| "steps_left attempt (Reserving i) = 2 * (attempt - i) + 2"
| "steps_left attempt Winning = 1"
| "steps_left attempt Relaying = 1"
| "steps_left attempt Ended = 0"

lemma step_progress:
  assumes "replica_step attempt r p p'" "pool_inv attempt n p"
  shows "sum_list (map (steps_left attempt) (replicas p')) < sum_list (map (steps_left attempt) (replicas p))"
proof -
  obtain s' where s': "r < length (replicas p)" "replicas p' = (replicas p)[r := s']" "steps_left attempt s' < steps_left attempt (replicas p ! r)"
    using assms by (cases rule: replica_step.cases) (fastforce simp: pool_inv_def dest: nth_mem)+
  then show ?thesis using sum_list_update[OF s'(1), of "steps_left attempt" s'] by simp
qed

lemma run_progress:
  assumes "pool_run attempt p rs p'" "pool_inv attempt n p"
  shows "sum_list (map (steps_left attempt) (replicas p')) + length rs \<le> sum_list (map (steps_left attempt) (replicas p))"
  using assms
proof (induction rule: pool_run.induct)
  case (pool_step p rs p' r p'')
  then show ?case using step_progress[OF pool_step(2) pool_inv_run[OF pool_step(1) pool_step.prems]] by simp
qed simp

text \<open>Each replica by itself: what it has called and won, and the steps it has taken.\<close>

definition own_account :: "nat \<Rightarrow> nat list \<Rightarrow> pool \<Rightarrow> nat \<Rightarrow> bool" where
  "own_account attempt rs p r \<longleftrightarrow> calls p ! r \<le> begun attempt (replicas p ! r)
     \<and> won p ! r + (if undecided (replicas p ! r) then 1 else 0) \<le> 1
     \<and> steps_left attempt (replicas p ! r) + count_list rs r \<le> 2 * attempt + 4"

lemma own_account_step:
  assumes "replica_step attempt r p p'" "pool_inv attempt n p" "i < n" "own_account attempt rs p i"
  shows "own_account attempt (rs @ [r]) p' i"
proof (cases "i = r")
  case True
  have l: "i < length (replicas p)" "i < length (calls p)" "i < length (won p)" "begun attempt (replicas p ! i) \<le> attempt"
    using assms(2,3) by (auto simp: pool_inv_def)
  show ?thesis using assms(1)
    by (cases rule: replica_step.cases) (use l assms(4) True in \<open>auto simp: own_account_def\<close>)
next
  case False
  show ?thesis using assms(1)
    by (cases rule: replica_step.cases) (use False assms(4) in \<open>auto simp: own_account_def\<close>)
qed

lemma run_own_account:
  assumes "pool_run attempt p0 rs p" "p0 = spawned n" "i < n"
  shows "own_account attempt rs p i"
  using assms
proof (induction rule: pool_run.induct)
  case (pool_start p)
  then show ?case by (simp add: own_account_def spawned_def)
next
  case (pool_step p rs p' r p'')
  then show ?case using own_account_step[OF pool_step(2)] reachable_inv by blast
qed

text \<open>C29: The replicas end: whatever the schedule, each replica takes at most \<open>2 * attempt + 4\<close> steps, asks KTMB
  at most \<open>attempt\<close> times and wins at most one hold, and the schedule is no longer than all of them allow.\<close>

theorem replicas_end:
  assumes "pool_run attempt (spawned n) rs p" "r < n"
  shows "count_list rs r \<le> 2 * attempt + 4 \<and> calls p ! r \<le> attempt \<and> won p ! r \<le> 1 \<and> length rs \<le> n * (2 * attempt + 4)"
proof -
  have "length rs \<le> n * (2 * attempt + 4)"
    using run_progress[OF assms(1) pool_inv_start] by (simp add: spawned_def sum_list_replicate)
  moreover have "begun attempt (replicas p ! r) \<le> attempt"
    using reachable_inv[OF assms(1)] assms(2) by (auto simp: pool_inv_def)
  ultimately show ?thesis
    using run_own_account[OF assms(1) refl assms(2)] by (auto simp: own_account_def split: if_splits)
qed

definition one_win :: pool where
  "one_win = \<lparr>tokens = 0, replicas = [Winning], won = [1], calls = [1]\<rparr>"

lemma one_win_run: "pool_run 1 (spawned 1) [0, 0, 0] one_win"
proof -
  have "replica_step 1 0 (spawned 1) \<lparr>tokens = 0, replicas = [Ready 0], won = [0], calls = [0]\<rparr>"
    "replica_step 1 0 \<lparr>tokens = 0, replicas = [Ready 0], won = [0], calls = [0]\<rparr> \<lparr>tokens = 0, replicas = [Reserving 0], won = [0], calls = [1]\<rparr>"
    "replica_step 1 0 \<lparr>tokens = 0, replicas = [Reserving 0], won = [0], calls = [1]\<rparr> one_win"
    by (simp_all add: replica_step_iff spawned_def one_win_def)
  from pool_step[OF pool_step[OF pool_step[OF pool_start this(1)] this(2)] this(3)] show ?thesis by simp
qed

theorem replicas_never_block_witness: "\<exists>p'. replica_step 1 0 one_win p'"
  using replicas_never_block[OF one_win_run, of 0] by (simp add: one_win_def)

theorem replicas_end_witness: "pool_run 1 (spawned 1) [0, 0, 0] one_win \<and> count_list [0, 0, 0 :: nat] 0 \<le> 2 * 1 + 4 \<and> calls one_win ! 0 \<le> 1 \<and> won one_win ! 0 \<le> 1"
  using replicas_end[OF one_win_run, of 0] one_win_run by simp

end
