(* ===== verification/Reserver.thy ===== *)
theory Reserver
  imports Differ Slot_Store Replicas Ktmb_Types Reserve_Dto Retry
begin

text \<open>
  lib/reserver: the reserver's main loop (reserver.go), which turns changes of the seat counts into
  attempts at seats, and what one attempt does; the two syncers that feed it are the theory \<open>Syncers\<close>. KTMB, redis, the clock, the sealing and telemetry are parameters;
  the replicas an attempt starts are the theory \<open>Replicas\<close>. The nested map of the last change of
  each slot is a map from slots; making its inner maps is not visible in it.
\<close>

record LoginStore =
  login_UserData :: string
  login_Find :: FindStore

record DiffNormalizer =
  norm_Count :: int
  norm_Delta :: int
  norm_Instant :: instant

record DeferredBuy =
  deferred_slot :: slot
  deferred_Instant :: instant

record reserver_config =
  NormalConcurrency :: int
  MaintenanceConcurrency :: int
  NormalAttempts :: int
  MaintenanceAttempts :: int
  reserver_BackoffLimit :: int

text \<open>The replicas one call of \<open>reserveProcess\<close> starts, with what they are given.\<close>

record batch =
  batch_UserData :: string
  batch_Find :: FindRes
  batch_slot :: slot
  batch_concurrency :: int
  batch_attempts :: int

record reserver_state =
  rv_normalizer :: "slot \<rightharpoonup> DiffNormalizer"
  rv_counter :: count
  rv_login :: LoginStore
  rv_deferred :: "DeferredBuy list"

record 'x reserver_env =
  rs_now :: "'x \<Rightarrow> instant \<times> 'x"
  rs_location :: location
  rs_sleep_until :: "instant \<Rightarrow> 'x \<Rightarrow> unit \<times> 'x"
  rs_reserve :: "string \<Rightarrow> string \<Rightarrow> string \<Rightarrow> 'x \<Rightarrow> ReserveRes GenericRes result \<times> 'x"
  rs_seal :: "ReserveDto \<Rightarrow> 'x \<Rightarrow> string result \<times> 'x"
  rs_configure :: "'x \<Rightarrow> unit result \<times> 'x"
  rs_push :: "string \<Rightarrow> 'x \<Rightarrow> unit result \<times> 'x"
  rs_shutdown :: "'x \<Rightarrow> unit result \<times> 'x"

datatype reserver_event =
    Rs_Now instant
  | Rs_Slept instant
  | Started batch
  | Rs_Reserved string FindRes "ReserveRes GenericRes result"
  | Rs_Sealed ReserveDto "string result"
  | Rs_Configured "unit result"
  | Rs_Pushed string "unit result"
  | Rs_Shutdown "unit result"

type_synonym ('x, 'a) reserving = "('x, reserver_event, 'a) proc"

section \<open>Maintenance\<close>

definition isMaintenance :: "location \<Rightarrow> instant \<Rightarrow> bool" where
  "isMaintenance loc t \<longleftrightarrow> hour_of loc t = 23 \<or> (hour_of loc t = 0 \<and> minute_of loc t < 14)
     \<or> (hour_of loc t = 0 \<and> minute_of loc t = 14 \<and> second_of loc t \<le> 55)"

definition dateLayout :: "chunk list" where
  "dateLayout = [Year, Lit (CHR ''-''), Month, Lit (CHR ''-''), Day]"

definition dateTimeLayout :: "chunk list" where
  "dateTimeLayout = dateLayout @ [Lit (CHR '' ''), Hour, Lit (CHR '':''), Minute, Lit (CHR '':''), Second]"

definition maintenanceOver :: "location \<Rightarrow> instant \<Rightarrow> instant result" where
  "maintenanceOver loc now =
     (case parse_in_location dateTimeLayout (format_time dateLayout loc now @ '' 00:14:59'') loc of
        Inl err \<Rightarrow> Inl err
      | Inr target \<Rightarrow>
          let target = (if now > target then target + 24 * hour else target);
              target = (if now > target then target + 24 * hour else target)
          in Inr target)"

definition blockIfMaintenance :: "'x reserver_env \<Rightarrow> ('x, bool result) reserving" where
  "blockIfMaintenance env = do {
     n \<leftarrow> invoke (rs_now env) Rs_Now;
     if isMaintenance (rs_location env) n
     then (case maintenanceOver (rs_location env) n of
         Inl err \<Rightarrow> return (Inl err)
       | Inr till \<Rightarrow> do { _ \<leftarrow> invoke (rs_sleep_until env till) (\<lambda>_. Rs_Slept till); return (Inr True) })
     else return (Inr False)
   }"

section \<open>One attempt\<close>

definition hold_dto :: "string \<Rightarrow> slot \<Rightarrow> string \<Rightarrow> ReserveDto" where
  "hold_dto userData k bookingData = (case k of (dir, day, t) \<Rightarrow>
     \<lparr>dto_UserData = userData, dto_BookingData = bookingData, dto_PassengerData = [],
      dto_Direction = dir, dto_Date = day, dto_Time = t\<rparr>)"

definition sealed_hold :: "'x reserver_env \<Rightarrow> slot \<Rightarrow> string \<Rightarrow> FindRes \<Rightarrow> ('x, string result) reserving" where
  "sealed_hold env k userData fr =
     on_ok (invoke (rs_reserve env userData (SearchData fr) (TripData fr)) (Rs_Reserved userData fr)) (\<lambda>r.
       if \<not> Status r then return (Inl (Msg ''failed to reserve''))
       else invoke (rs_seal env (hold_dto userData k (reserve_BookingData (Data r))))
              (Rs_Sealed (hold_dto userData k (reserve_BookingData (Data r)))))"

text \<open>\<open>None\<close> is the panic of the deferred shutdown of the telemetry.\<close>

definition reserve :: "'x reserver_env \<Rightarrow> slot \<Rightarrow> string \<Rightarrow> FindRes \<Rightarrow> ('x, unit result option) reserving" where
  "reserve env k userData fr = do {
     sealed \<leftarrow> sealed_hold env k userData fr;
     case sealed of
       Inl err \<Rightarrow> return (Some (Inl err))
     | Inr encrypted \<Rightarrow> do {
         shutdown \<leftarrow> invoke (rs_configure env) Rs_Configured;
         case shutdown of
           Inl err \<Rightarrow> return (Some (Inl err))
         | Inr _ \<Rightarrow> do {
             add \<leftarrow> invoke (rs_push env encrypted) (Rs_Pushed encrypted);
             deferErr \<leftarrow> invoke (rs_shutdown env) Rs_Shutdown;
             return (case deferErr of Inl e \<Rightarrow> None | Inr _ \<Rightarrow> Some add)
           }
       }
   }"

section \<open>The main loop\<close>

text \<open>The source fills the missing levels of the store while it looks up a slot; a store read from a JSON null
  is a nil map, on which that panics. Here a store is always a map and the lookup reads only.\<close>

definition reserveProcess :: "'x reserver_env \<Rightarrow> reserver_config \<Rightarrow> LoginStore \<Rightarrow> instant \<Rightarrow> slot \<Rightarrow> DeferredBuy list \<Rightarrow> ('x, DeferredBuy list) reserving" where
  "reserveProcess env cfg login n k deferred =
     (if TripData (findSlot (login_Find login) k) = []
      then return (deferred @ [\<lparr>deferred_slot = k, deferred_Instant = n\<rparr>])
      else do {
        tn \<leftarrow> invoke (rs_now env) Rs_Now;
        let isM = isMaintenance (rs_location env) tn;
        let b = \<lparr>batch_UserData = login_UserData login, batch_Find = findSlot (login_Find login) k, batch_slot = k,
          batch_concurrency = (if isM then MaintenanceConcurrency cfg else NormalConcurrency cfg),
          batch_attempts = (if isM then MaintenanceAttempts cfg else NormalAttempts cfg)\<rparr>;
        _ \<leftarrow> invoke (\<lambda>x. ((), x)) (\<lambda>_. Started b);
        return deferred
      })"

definition on_counter :: "reserver_state \<Rightarrow> count \<Rightarrow> reserver_state" where
  "on_counter st counter = st\<lparr>rv_counter := counter\<rparr>"

fun redo_deferred :: "'x reserver_env \<Rightarrow> reserver_config \<Rightarrow> LoginStore \<Rightarrow> instant \<Rightarrow> DeferredBuy list \<Rightarrow> DeferredBuy list
    \<Rightarrow> ('x, DeferredBuy list) reserving" where
  "redo_deferred env cfg login now [] filtered = return filtered"
| "redo_deferred env cfg login now (b # bs) filtered =
     (if now - deferred_Instant b < 5 * minute
      then do { filtered' \<leftarrow> reserveProcess env cfg login now (deferred_slot b) filtered; redo_deferred env cfg login now bs filtered' }
      else redo_deferred env cfg login now bs filtered)"

definition on_login :: "'x reserver_env \<Rightarrow> reserver_config \<Rightarrow> reserver_state \<Rightarrow> LoginStore \<Rightarrow> ('x, reserver_state) reserving" where
  "on_login env cfg st login = do {
     now \<leftarrow> invoke (rs_now env) Rs_Now;
     filtered \<leftarrow> redo_deferred env cfg login now (rv_deferred st) [];
     return (st\<lparr>rv_login := login, rv_deferred := filtered\<rparr>)
   }"

fun attempt_seats :: "'x reserver_env \<Rightarrow> reserver_config \<Rightarrow> LoginStore \<Rightarrow> instant \<Rightarrow> slot \<Rightarrow> nat \<Rightarrow> DeferredBuy list
    \<Rightarrow> ('x, DeferredBuy list) reserving" where
  "attempt_seats env cfg login now k 0 deferred = return deferred"
| "attempt_seats env cfg login now k (Suc n) deferred = do {
     deferred' \<leftarrow> reserveProcess env cfg login now k deferred;
     attempt_seats env cfg login now k n deferred'
   }"

definition diff_slot :: "Diff \<Rightarrow> slot" where
  "diff_slot d = (diff_Direction d, diff_Date d, diff_Time d @ '':00'')"

definition debounced :: "reserver_state \<Rightarrow> instant \<Rightarrow> Diff \<Rightarrow> bool" where
  "debounced st now d = (case rv_normalizer st (diff_slot d) of None \<Rightarrow> False | Some p \<Rightarrow> now - norm_Instant p < 600 * millisecond)"

definition seats_to_buy :: "count \<Rightarrow> Diff \<Rightarrow> int" where
  "seats_to_buy counter d =
     (let needed = need counter (diff_Direction d) (diff_Date d) (diff_Time d @ '':00'') in
      if diff_Delta (diff_Data d) < needed then diff_Delta (diff_Data d) else needed)"

definition on_diff :: "'x reserver_env \<Rightarrow> reserver_config \<Rightarrow> reserver_state \<Rightarrow> Diff \<Rightarrow> ('x, reserver_state) reserving" where
  "on_diff env cfg st d = do {
     now \<leftarrow> invoke (rs_now env) Rs_Now;
     let st' = st\<lparr>rv_normalizer := (rv_normalizer st)(diff_slot d \<mapsto>
       \<lparr>norm_Count = diff_Count (diff_Data d), norm_Delta = diff_Delta (diff_Data d), norm_Instant = now\<rparr>)\<rparr>;
     if debounced st now d then return st'
     else if diff_Count (diff_Data d) < 1 then return st'
     else do {
       deferred \<leftarrow> attempt_seats env cfg (rv_login st) now (diff_slot d) (nat (seats_to_buy (rv_counter st) d)) (rv_deferred st);
       return (st'\<lparr>rv_deferred := deferred\<rparr>)
     }
   }"

datatype reserver_input = Counter_In count | Login_In LoginStore | Diff_In Diff

fun reserver_step :: "'x reserver_env \<Rightarrow> reserver_config \<Rightarrow> reserver_state \<Rightarrow> reserver_input \<Rightarrow> ('x, reserver_state) reserving" where
  "reserver_step env cfg st (Counter_In c) = return (on_counter st c)"
| "reserver_step env cfg st (Login_In l) = on_login env cfg st l"
| "reserver_step env cfg st (Diff_In d) = on_diff env cfg st d"

fun reserver_steps :: "'x reserver_env \<Rightarrow> reserver_config \<Rightarrow> reserver_state \<Rightarrow> reserver_input list \<Rightarrow> ('x, reserver_state) reserving" where
  "reserver_steps env cfg st [] = return st"
| "reserver_steps env cfg st (i # is) = do { st' \<leftarrow> reserver_step env cfg st i; reserver_steps env cfg st' is }"

definition reserver_Start :: "'x reserver_env \<Rightarrow> reserver_config \<Rightarrow> LoginStore \<Rightarrow> count \<Rightarrow> reserver_input list \<Rightarrow> ('x, reserver_state) reserving" where
  "reserver_Start env cfg login counter inputs =
     reserver_steps env cfg \<lparr>rv_normalizer = Map.empty, rv_counter = counter, rv_login = login, rv_deferred = []\<rparr> inputs"

section \<open>What the loop starts\<close>

fun started :: "reserver_event \<Rightarrow> batch option" where
  "started (Started b) = Some b"
| "started ev = None"

definition starts :: "reserver_event list \<Rightarrow> batch list" where
  "starts tr = List.map_filter started tr"

lemma starts_simps [simp]:
  "starts [] = []" "starts (ev # tr) = (case started ev of None \<Rightarrow> starts tr | Some b \<Rightarrow> b # starts tr)" "starts (tr @ tr') = starts tr @ starts tr'"
  by (simp_all add: starts_def split: option.split)

text \<open>Trip data for the slot is at hand, and a batch that uses it, at normal or at maintenance strength.\<close>

definition at_hand :: "LoginStore \<Rightarrow> slot \<Rightarrow> bool" where
  "at_hand login k \<longleftrightarrow> TripData (findSlot (login_Find login) k) \<noteq> []"

definition fits :: "reserver_config \<Rightarrow> LoginStore \<Rightarrow> batch \<Rightarrow> bool" where
  "fits cfg login b \<longleftrightarrow> batch_UserData b = login_UserData login \<and> batch_Find b = findSlot (login_Find login) (batch_slot b) \<and> TripData (batch_Find b) \<noteq> []
     \<and> (batch_concurrency b, batch_attempts b) \<in> {(NormalConcurrency cfg, NormalAttempts cfg), (MaintenanceConcurrency cfg, MaintenanceAttempts cfg)}"

lemma effect_reserveProcess:
  "effect (reserveProcess env cfg login n k deferred) (\<lambda>d tr.
     if at_hand login k then d = deferred \<and> map batch_slot (starts tr) = [k] \<and> list_all (fits cfg login) (starts tr)
     else starts tr = [] \<and> d = deferred @ [\<lparr>deferred_slot = k, deferred_Instant = n\<rparr>])"
  unfolding reserveProcess_def
  by (intro effect_if effect_return effect_bind effect_invoke effect_Let) (auto simp: at_hand_def fits_def)

lemma effect_attempt_seats:
  "effect (attempt_seats env cfg login now k n deferred) (\<lambda>d tr.
     if at_hand login k then d = deferred \<and> map batch_slot (starts tr) = replicate n k \<and> list_all (fits cfg login) (starts tr)
     else starts tr = [] \<and> d = deferred @ replicate n \<lparr>deferred_slot = k, deferred_Instant = now\<rparr>)"
proof (induction n arbitrary: deferred)
  case (Suc n)
  show ?case unfolding attempt_seats.simps
    by (rule effect_bind, rule effect_conseq[OF effect_reserveProcess], rule effect_conseq[OF Suc.IH]) (auto split: if_splits)
qed simp

text \<open>How many seats a change calls for: the smaller of the new seats and the demand, which is 0 where the snapshot has
  no entry; none shortly after the slot's last change, or without seats.\<close>

definition wanted :: "reserver_state \<Rightarrow> instant \<Rightarrow> Diff \<Rightarrow> nat" where
  "wanted st now d =
     (if (\<exists>p. rv_normalizer st (diff_slot d) = Some p \<and> now - norm_Instant p < 600 * millisecond) \<or> diff_Count (diff_Data d) < 1 then 0
      else nat (min (diff_Delta (diff_Data d))
        (case demand (rv_counter st) (diff_Direction d) (diff_Date d) (diff_Time d @ '':00'') of None \<Rightarrow> 0 | Some n \<Rightarrow> n)))"

lemma wanted_eq:
  "wanted st now d = (if debounced st now d \<or> diff_Count (diff_Data d) < 1 then 0 else nat (seats_to_buy (rv_counter st) d))"
proof -
  have "debounced st now d \<longleftrightarrow> (\<exists>p. rv_normalizer st (diff_slot d) = Some p \<and> now - norm_Instant p < 600 * millisecond)"
    by (simp add: debounced_def split: option.split)
  moreover have "seats_to_buy (rv_counter st) d = min (diff_Delta (diff_Data d))
      (case demand (rv_counter st) (diff_Direction d) (diff_Date d) (diff_Time d @ '':00'') of None \<Rightarrow> 0 | Some n \<Rightarrow> n)"
    by (simp add: seats_to_buy_def need_def Let_def min_def)
  ultimately show ?thesis by (simp only: wanted_def)
qed

definition reacts :: "reserver_config \<Rightarrow> reserver_state \<Rightarrow> Diff \<Rightarrow> instant \<Rightarrow> reserver_state \<Rightarrow> batch list \<Rightarrow> bool" where
  "reacts cfg st d now st' bs \<longleftrightarrow>
     (if at_hand (rv_login st) (diff_slot d)
      then rv_deferred st' = rv_deferred st \<and> map batch_slot bs = replicate (wanted st now d) (diff_slot d) \<and> list_all (fits cfg (rv_login st)) bs
      else bs = [] \<and> rv_deferred st' = rv_deferred st @ replicate (wanted st now d) \<lparr>deferred_slot = diff_slot d, deferred_Instant = now\<rparr>)
   \<and> rv_normalizer st' = (rv_normalizer st)(diff_slot d \<mapsto>
       \<lparr>norm_Count = diff_Count (diff_Data d), norm_Delta = diff_Delta (diff_Data d), norm_Instant = now\<rparr>)
   \<and> rv_counter st' = rv_counter st \<and> rv_login st' = rv_login st"

lemma effect_on_diff:
  "effect (on_diff env cfg st d) (\<lambda>st' tr. \<exists>now. tr = Rs_Now now # tl tr \<and> reacts cfg st d now st' (starts tr))"
  unfolding on_diff_def
proof (intro effect_bind effect_invoke effect_Let effect_if effect_return, goal_cases)
  case (3 now st')
  have w: "wanted st now d = nat (seats_to_buy (rv_counter st) d)" using 3 by (simp add: wanted_eq)
  show ?case
    by (rule effect_conseq[OF effect_attempt_seats]) (auto simp: reacts_def w 3(1) split: if_splits)
qed (auto simp: reacts_def wanted_eq)

text \<open>C30: On a change of a slot's seats the reserver starts, with the trip data it has for the slot and the
  current session, one batch of replicas for each of the smaller of the new seats and the demand, or defers as
  many when it has no trip data; it starts none within 600 milliseconds of the slot's last change, or when no
  seat is left. It remembers the change in any case and touches nothing else.\<close>

theorem on_diff_reacts:
  "effect (on_diff env cfg st d) (\<lambda>st' tr. \<exists>now. tr = Rs_Now now # tl tr \<and> reacts cfg st d now st' (starts tr))"
  by (rule effect_on_diff)

section \<open>Deferred seats\<close>

definition young :: "instant \<Rightarrow> DeferredBuy \<Rightarrow> bool" where
  "young now b \<longleftrightarrow> now - deferred_Instant b < 5 * minute"

lemma effect_redo_deferred:
  "effect (redo_deferred env cfg login now bs filtered) (\<lambda>d tr.
     map batch_slot (starts tr) = filter (at_hand login) (map deferred_slot (filter (young now) bs)) \<and> list_all (fits cfg login) (starts tr)
   \<and> d = filtered @ map (\<lambda>k. \<lparr>deferred_slot = k, deferred_Instant = now\<rparr>)
       (filter (\<lambda>k. \<not> at_hand login k) (map deferred_slot (filter (young now) bs))))"
proof (induction bs arbitrary: filtered)
  case (Cons b bs)
  show ?case unfolding redo_deferred.simps
  proof (rule effect_if)
    assume "now - deferred_Instant b < 5 * minute"
    then have y: "young now b" by (simp add: young_def)
    show "effect (do { filtered' \<leftarrow> reserveProcess env cfg login now (deferred_slot b) filtered; redo_deferred env cfg login now bs filtered' })
      (\<lambda>d tr. map batch_slot (starts tr) = filter (at_hand login) (map deferred_slot (filter (young now) (b # bs))) \<and> list_all (fits cfg login) (starts tr)
         \<and> d = filtered @ map (\<lambda>k. \<lparr>deferred_slot = k, deferred_Instant = now\<rparr>)
             (filter (\<lambda>k. \<not> at_hand login k) (map deferred_slot (filter (young now) (b # bs)))))"
      by (rule effect_bind, rule effect_conseq[OF effect_reserveProcess], rule effect_conseq[OF Cons.IH])
        (use y in \<open>auto split: if_splits\<close>)
  next
    assume "\<not> now - deferred_Instant b < 5 * minute"
    then have "\<not> young now b" by (simp add: young_def)
    then show "effect (redo_deferred env cfg login now bs filtered)
      (\<lambda>d tr. map batch_slot (starts tr) = filter (at_hand login) (map deferred_slot (filter (young now) (b # bs))) \<and> list_all (fits cfg login) (starts tr)
         \<and> d = filtered @ map (\<lambda>k. \<lparr>deferred_slot = k, deferred_Instant = now\<rparr>)
             (filter (\<lambda>k. \<not> at_hand login k) (map deferred_slot (filter (young now) (b # bs)))))"
      using Cons.IH by simp
  qed
qed simp

text \<open>C31: New login data lose no deferred seat younger than five minutes: each is started when its trip
  data are now at hand, and deferred again otherwise, and nothing else is started or deferred. A seat deferred
  again counts as deferred now, so its five minutes begin anew.\<close>

theorem on_login_resumes:
  "effect (on_login env cfg st login) (\<lambda>st' tr. \<exists>now. tr = Rs_Now now # tl tr \<and> rv_login st' = login
     \<and> map batch_slot (starts tr) = filter (at_hand login) (map deferred_slot (filter (young now) (rv_deferred st))) \<and> list_all (fits cfg login) (starts tr)
     \<and> rv_deferred st' = map (\<lambda>k. \<lparr>deferred_slot = k, deferred_Instant = now\<rparr>)
         (filter (\<lambda>k. \<not> at_hand login k) (map deferred_slot (filter (young now) (rv_deferred st)))))"
  unfolding on_login_def
  by (intro effect_bind effect_invoke effect_conseq[OF effect_redo_deferred] effect_return) auto

section \<open>A hold that was granted\<close>

definition reserve_sound :: "slot \<Rightarrow> string \<Rightarrow> FindRes \<Rightarrow> unit result option \<Rightarrow> reserver_event list \<Rightarrow> bool" where
  "reserve_sound k userData fr r tr \<longleftrightarrow> (r \<noteq> None \<longrightarrow> (r = Some (Inr ()) \<longleftrightarrow> (\<exists>enc. Rs_Pushed enc (Inr ()) \<in> set tr)))
     \<and> (\<forall>enc p. Rs_Pushed enc p \<in> set tr \<longrightarrow> (\<exists>res. Rs_Reserved userData fr (Inr res) \<in> set tr \<and> Status res
           \<and> Rs_Sealed (hold_dto userData k (reserve_BookingData (Data res))) (Inr enc) \<in> set tr))"

text \<open>An attempt succeeds exactly when a hold is queued for the buyer, unless it panics, and what it queues is the
  sealed hold KTMB granted in it, for the slot and the session it was made with.\<close>

theorem reserve_queues_holds: "effect (reserve env k userData fr) (reserve_sound k userData fr)"
proof -
  have s: "effect (sealed_hold env k userData fr) (\<lambda>r tr. (\<forall>enc p. Rs_Pushed enc p \<notin> set tr)
      \<and> (\<forall>enc. r = Inr enc \<longrightarrow> (\<exists>res. Rs_Reserved userData fr (Inr res) \<in> set tr \<and> Status res
           \<and> Rs_Sealed (hold_dto userData k (reserve_BookingData (Data res))) (Inr enc) \<in> set tr)))"
    unfolding sealed_hold_def by (intro effect_on_ok_invoke effect_if effect_return effect_invoke) auto
  show ?thesis unfolding reserve_def
    by (rule effect_bind, rule effect_conseq[OF s], intro effect_case_sum effect_bind effect_return effect_invoke)
      (auto simp: reserve_sound_def split: sum.split)
qed

end
