(* ===== verification/Syncers.thy ===== *)
theory Syncers
  imports Count Slot_Store Retry
begin

text \<open>
  lib/reserver/retriever.go, login_syncer.go and count_syncer.go: what keeps the reserver's login data
  and the demand up to date. Redis, the streams, the opening of sealed values and telemetry are
  parameters; a send on a channel is an event. Both services run under the supervision of \<open>Retry\<close>.
\<close>

record 'x sync_env =
  sy_exists :: "string \<Rightarrow> 'x \<Rightarrow> int result \<times> 'x"
  sy_get :: "string \<Rightarrow> 'x \<Rightarrow> string result \<times> 'x"
  sy_open_user :: "string \<Rightarrow> string result"
  sy_open_store :: "string \<Rightarrow> FindStore result"
  sy_user_key :: string
  sy_store_key :: string
  sy_now :: "'x \<Rightarrow> instant \<times> 'x"
  sy_count :: "instant \<Rightarrow> 'x \<Rightarrow> count_read \<times> 'x"
  sy_create_group :: "'x \<Rightarrow> unit \<times> 'x"
  sy_configure :: "'x \<Rightarrow> unit result \<times> 'x"
  sy_shutdown :: "'x \<Rightarrow> unit result \<times> 'x"
  sy_group_read :: "'x \<Rightarrow> unit result \<times> 'x"
  sy_sleep :: "duration \<Rightarrow> 'x \<Rightarrow> unit \<times> 'x"

datatype sync_event =
    Sy_Exists string "int result"
  | Sy_Get string "string result"
  | Sy_Now instant
  | Sy_Count count_read
  | Login_To_Reserver string FindStore
  | Count_To_Reserver count
  | Count_To_Differ count
  | Sy_Group
  | Sy_Configured "unit result"
  | Sy_Shutdown "unit result"
  | Sy_Signal "unit result"
  | Sy_Slept duration

type_synonym ('x, 'a) syncing = "('x, sync_event, 'a) proc"

definition sending :: "sync_event \<Rightarrow> ('x, unit) syncing" where
  "sending ev = invoke (\<lambda>x. ((), x)) (\<lambda>_. ev)"

section \<open>The login data\<close>

text \<open>\<open>Inr None\<close> is the nil store of a key that does not exist.\<close>

definition GetLoginData :: "'x sync_env \<Rightarrow> ('x, (string \<times> FindStore) option result) syncing" where
  "GetLoginData env =
     on_ok (invoke (sy_exists env (sy_user_key env)) (Sy_Exists (sy_user_key env))) (\<lambda>n.
     if n = 0 then return (Inr None)
     else on_ok (invoke (sy_exists env (sy_store_key env)) (Sy_Exists (sy_store_key env))) (\<lambda>n.
     if n = 0 then return (Inr None)
     else on_ok (invoke (sy_get env (sy_user_key env)) (Sy_Get (sy_user_key env))) (\<lambda>userDataEnc.
     on_ok (invoke (sy_get env (sy_store_key env)) (Sy_Get (sy_store_key env))) (\<lambda>storeEnc.
     return (case sy_open_user env userDataEnc of
         Inl err \<Rightarrow> Inl err
       | Inr userData \<Rightarrow> (case sy_open_store env storeEnc of
             Inl err \<Rightarrow> Inl err
           | Inr store \<Rightarrow> Inr (Some (userData, store))))))))"

definition login_update :: "'x sync_env \<Rightarrow> ('x, unit result) syncing" where
  "login_update env =
     on_ok (GetLoginData env) (\<lambda>d.
       case d of
         None \<Rightarrow> return (Inr ())
       | Some (userData, store) \<Rightarrow> do { _ \<leftarrow> sending (Login_To_Reserver userData store); return (Inr ()) })"

section \<open>The demand\<close>

text \<open>\<open>maps.Copy\<close> into a new map: the nil map has no entries to copy.\<close>

definition copied :: "count option \<Rightarrow> count" where
  "copied counts = (case counts of None \<Rightarrow> [] | Some c \<Rightarrow> c)"

definition count_update :: "'x sync_env \<Rightarrow> ('x, unit result) syncing" where
  "count_update env = do {
     now \<leftarrow> invoke (sy_now env) Sy_Now;
     c \<leftarrow> invoke (sy_count env now) Sy_Count;
     case c of (exists, counts, err) \<Rightarrow>
       if \<not> exists then return (Inr ())
       else (case err of
           Some e \<Rightarrow> return (Inl e)
         | None \<Rightarrow> do {
             _ \<leftarrow> sending (Count_To_Reserver (copied counts));
             _ \<leftarrow> sending (Count_To_Differ (copied counts));
             return (Inr ())
           })
   }"

section \<open>The services\<close>

text \<open>One round: telemetry, then one signal of the stream, whose handler is the update, and at last the
  deferred shutdown of the telemetry, whose failure is a panic (\<open>None\<close>).\<close>

definition sync_loop :: "'x sync_env \<Rightarrow> ('x, unit result) syncing \<Rightarrow> ('x, (bool \<times> error option) option) syncing" where
  "sync_loop env update = do {
     shutdown \<leftarrow> invoke (sy_configure env) Sy_Configured;
     case shutdown of
       Inl err \<Rightarrow> return (Some (True, Some err))
     | Inr _ \<Rightarrow> do {
         r \<leftarrow> on_ok (invoke (sy_group_read env) Sy_Signal) (\<lambda>_. update);
         deferErr \<leftarrow> invoke (sy_shutdown env) Sy_Shutdown;
         return (case deferErr of
             Inl e \<Rightarrow> None
           | Inr _ \<Rightarrow> Some (False, case r of Inl err \<Rightarrow> Some err | Inr _ \<Rightarrow> None))
       }
   }"

definition sync_Start :: "'x sync_env \<Rightarrow> ('x, unit result) syncing \<Rightarrow> int \<Rightarrow> nat \<Rightarrow> ('x, unit result option) syncing" where
  "sync_Start env update backoffLimit rounds = do {
     iErr \<leftarrow> update;
     case iErr of
       Inl err \<Rightarrow> return (Some (Inl err))
     | Inr _ \<Rightarrow> do {
         _ \<leftarrow> invoke (sy_create_group env) (\<lambda>_. Sy_Group);
         supervise (\<lambda>d. invoke (sy_sleep env d) (\<lambda>_. Sy_Slept d)) (sync_loop env update) backoffLimit rounds 0
       }
   }"

definition count_Start :: "'x sync_env \<Rightarrow> int \<Rightarrow> nat \<Rightarrow> ('x, unit result option) syncing" where
  "count_Start env = sync_Start env (count_update env)"

definition login_Start :: "'x sync_env \<Rightarrow> int \<Rightarrow> nat \<Rightarrow> ('x, unit result option) syncing" where
  "login_Start env = sync_Start env (login_update env)"

section \<open>What the services send\<close>

lemma effect_sync_Start_closed:
  assumes "effect update (\<lambda>_. Q)" "Q []" "\<And>tr tr'. Q tr \<Longrightarrow> Q tr' \<Longrightarrow> Q (tr @ tr')"
    and "\<And>r. Q [Sy_Configured r]" "\<And>r. Q [Sy_Shutdown r]" "\<And>r. Q [Sy_Signal r]" "\<And>d. Q [Sy_Slept d]" "Q [Sy_Group]"
  shows "effect (sync_Start env update limit n) (\<lambda>_. Q)"
proof -
  have q: "Q tr \<Longrightarrow> Q (Sy_Configured r # tr)" "Q tr \<Longrightarrow> Q (tr @ [Sy_Shutdown r])" "Q tr \<Longrightarrow> Q (Sy_Signal r # tr)" "Q tr \<Longrightarrow> Q (Sy_Slept d # tr)" "Q tr \<Longrightarrow> Q (Sy_Group # tr)" for tr r d
    using assms(3)[of "[Sy_Configured r]" tr] assms(3)[of tr "[Sy_Shutdown r]"] assms(3)[of "[Sy_Signal r]" tr] assms(3)[of "[Sy_Slept d]" tr] assms(3)[of "[Sy_Group]" tr] assms(4-8)
    by simp_all
  have signal: "effect (on_ok (invoke (sy_group_read env) Sy_Signal) (\<lambda>_. update)) (\<lambda>_. Q)"
    by (intro effect_on_ok_invoke effect_conseq[OF assms(1)]) (simp_all add: q assms(2))
  have round: "effect (sync_loop env update) (\<lambda>_. Q)"
    unfolding sync_loop_def
    by (intro effect_bind effect_invoke effect_case_sum effect_return effect_conseq[OF signal]) (simp_all add: q assms(2))
  have all: "effect (supervise (\<lambda>d. invoke (sy_sleep env d) (\<lambda>_. Sy_Slept d)) (sync_loop env update) limit n 0) (\<lambda>_. Q)"
    by (rule effect_supervise_closed[OF _ round]) (simp_all add: assms(2,3) effect_invoke q)
  show ?thesis unfolding sync_Start_def
    by (rule effect_bind, rule effect_conseq[OF assms(1)], intro effect_case_sum effect_return effect_bind effect_invoke effect_conseq[OF all])
      (simp_all add: assms(2,3) q)
qed

fun count_sent :: "sync_event \<Rightarrow> bool" where
  "count_sent (Count_To_Reserver c) = True"
| "count_sent (Count_To_Differ c) = True"
| "count_sent ev = False"

fun snapshot_read :: "sync_event \<Rightarrow> count option" where
  "snapshot_read (Sy_Count (True, c, None)) = Some (copied c)"
| "snapshot_read ev = None"

definition in_step :: "sync_event list \<Rightarrow> bool" where
  "in_step tr \<longleftrightarrow> filter count_sent tr =
     concat (map (\<lambda>c. [Count_To_Reserver c, Count_To_Differ c]) (List.map_filter snapshot_read tr))"

lemma in_step_simps: "in_step []" "in_step tr \<Longrightarrow> in_step tr' \<Longrightarrow> in_step (tr @ tr')"
  by (simp_all add: in_step_def)

lemma effect_count_update: "effect (count_update env) (\<lambda>_. in_step)"
  unfolding count_update_def sending_def
  by (intro effect_bind effect_invoke effect_case_prod effect_if effect_case_option effect_return) (auto simp: in_step_def)

text \<open>The demand service sends every snapshot it reads to the reserver first and to the differ next,
  and sends nothing else, through its whole life: a change the differ reports is always priced against
  the demand that re-armed it.\<close>

theorem counts_reach_reserver_first: "effect (count_Start env limit rounds) (\<lambda>_. in_step)"
  unfolding count_Start_def
  by (rule effect_sync_Start_closed[OF effect_count_update]) (auto simp: in_step_simps in_step_def)

text \<open>A failed read of the demand is reported only when the read also said that the key exists; the
  reader never says so when redis or its value failed.\<close>

lemma failed_count_unreported:
  "effect (count_update env) (\<lambda>r tr. list_all (\<lambda>ev. case ev of Sy_Count (exists, c, e) \<Rightarrow> \<not> exists | _ \<Rightarrow> True) tr \<longrightarrow> r = Inr () \<and> \<not> list_ex count_sent tr)"
  unfolding count_update_def sending_def
  by (intro effect_bind effect_invoke effect_case_prod effect_if effect_case_option effect_return) auto

fun login_sent :: "sync_event \<Rightarrow> (string \<times> FindStore) option" where
  "login_sent (Login_To_Reserver u s) = Some (u, s)"
| "login_sent ev = None"

definition login_forwarded :: "'x sync_env \<Rightarrow> unit result \<Rightarrow> sync_event list \<Rightarrow> bool" where
  "login_forwarded env r tr \<longleftrightarrow>
     (case List.map_filter login_sent tr of
        [] \<Rightarrow> True
      | [(u, s)] \<Rightarrow> r = Inr () \<and> (\<exists>eu es. Sy_Get (sy_user_key env) (Inr eu) \<in> set tr \<and> sy_open_user env eu = Inr u
          \<and> Sy_Get (sy_store_key env) (Inr es) \<in> set tr \<and> sy_open_store env es = Inr s)
      | _ \<Rightarrow> False)"

definition login_opened :: "'x sync_env \<Rightarrow> (string \<times> FindStore) option result \<Rightarrow> sync_event list \<Rightarrow> bool" where
  "login_opened env r tr \<longleftrightarrow> List.map_filter login_sent tr = []
     \<and> (\<forall>u s. r = Inr (Some (u, s)) \<longrightarrow> (\<exists>eu es. Sy_Get (sy_user_key env) (Inr eu) \<in> set tr \<and> sy_open_user env eu = Inr u
          \<and> Sy_Get (sy_store_key env) (Inr es) \<in> set tr \<and> sy_open_store env es = Inr s))"

lemma effect_GetLoginData: "effect (GetLoginData env) (login_opened env)"
  unfolding GetLoginData_def
  by (intro effect_on_ok_invoke effect_if effect_return) (auto simp: login_opened_def split: sum.splits)

text \<open>An update of the login data sends the reserver at most one pair, and only the session and the
  store that were both read and opened in this update.\<close>

theorem login_update_forwards: "effect (login_update env) (login_forwarded env)"
  unfolding login_update_def sending_def
  by (rule effect_on_ok_cases[OF effect_GetLoginData])
    (auto simp: login_opened_def login_forwarded_def split: option.split intro!: effect_bind effect_invoke)

end
