(* ===== verification/Reserve_Chain.thy ===== *)
theory Reserve_Chain
  imports Reserver Syncers
begin

text \<open>
  The differ and the reserver together: what follows when the demand of a departure rises. The reserver is
  priced against the same demand because the syncer sends every snapshot to it first (\<open>Syncers\<close>).
\<close>

definition slot_diff :: "string \<Rightarrow> string \<Rightarrow> string \<Rightarrow> int \<Rightarrow> Diff" where
  "slot_diff dir day k v = \<lparr>diff_Direction = dir, diff_Date = day, diff_Time = k, diff_Data = \<lparr>diff_Count = v, diff_Prev = 0, diff_Delta = v\<rparr>\<rparr>"

text \<open>The reserver answers a report of \<open>v\<close> new seats, with a demand of \<open>needed\<close> for the departure \<open>k\<close>.\<close>

definition takes_up :: "reserver_state \<Rightarrow> slot \<Rightarrow> int \<Rightarrow> int \<Rightarrow> bool \<Rightarrow> instant \<Rightarrow> reserver_state \<Rightarrow> reserver_event list \<Rightarrow> bool" where
  "takes_up st k v needed recent now st' tr \<longleftrightarrow>
     (let n = (if recent then 0 else nat (min v needed)) in
      if at_hand (rv_login st) k then map batch_slot (starts tr) = replicate n k \<and> rv_deferred st' = rv_deferred st
      else starts tr = [] \<and> rv_deferred st' = rv_deferred st @ replicate n \<lparr>deferred_slot = k, deferred_Instant = now\<rparr>)"

text \<open>C26: A rise of the demand is acted on. When the demand of a departure rises, the first report of its date that
  follows, in which it has seats, makes the differ send these as new seats. On that message a reserver that has
  had no other message about the departure in the last 600 milliseconds starts one batch of replicas for each of the
  smaller of the seats and the demand it holds itself for the departure if it has trip data for it,
  and defers that many if it has none. The demand each holds is its own: nothing ties the two here.\<close>

theorem risen_demand_is_taken_up:
  assumes "differ_step decode s Stop_Sub [] s1"
    and "need (d_relevant s1) dir day (k @ '':00'') > need (d_last s) dir day (k @ '':00'')" "demanded (d_relevant s1) dir day k"
    and "differ_run decode s1 is es s2" "list_all (\<lambda>i. is_published i \<and> \<not> about dir day i) is"
    and "differ_step decode s2 (Published channel payload) ds s3" "about dir day (Published channel payload)"
    and "decode payload = Inr rx" "(k, v) \<in> set rx" "0 < v"
  shows "slot_diff dir day k v \<in> set ds
    \<and> effect (on_diff env cfg st (slot_diff dir day k v)) (\<lambda>st' tr. \<exists>now. tr = Rs_Now now # tl tr
        \<and> takes_up st (dir, day, k @ '':00'') v (need (rv_counter st) dir day (k @ '':00''))
            (debounced st now (slot_diff dir day k v)) now st' tr)"
proof
  show "slot_diff dir day k v \<in> set ds"
    unfolding slot_diff_def by (rule rearmed_slot_reported[OF assms(1-9)]) (use assms(10) in simp)
  have slot: "diff_slot (slot_diff dir day k v) = (dir, day, k @ '':00'')" by (simp add: diff_slot_def slot_diff_def)
  have "seats_to_buy (rv_counter st) (slot_diff dir day k v) = min v (need (rv_counter st) dir day (k @ '':00''))"
    by (simp add: seats_to_buy_def slot_diff_def Let_def min_def)
  then have w: "wanted st now (slot_diff dir day k v)
      = (if debounced st now (slot_diff dir day k v) then 0 else nat (min v (need (rv_counter st) dir day (k @ '':00''))))" for now
    using assms(10) by (simp add: wanted_eq slot_diff_def)
  show "effect (on_diff env cfg st (slot_diff dir day k v)) (\<lambda>st' tr. \<exists>now. tr = Rs_Now now # tl tr
        \<and> takes_up st (dir, day, k @ '':00'') v (need (rv_counter st) dir day (k @ '':00''))
            (debounced st now (slot_diff dir day k v)) now st' tr)"
    by (rule effect_conseq[OF effect_on_diff])
      (auto simp: reacts_def slot w takes_up_def Let_def split: if_splits intro!: exI)
qed

definition ex_chain_env :: "unit reserver_env" where
  "ex_chain_env = \<lparr>rs_now = Pair 0, rs_location = 0, rs_sleep_until = (\<lambda>t. Pair ()), rs_reserve = (\<lambda>u s t. Pair (Inl Read_Error)),
     rs_seal = (\<lambda>d. Pair (Inl Read_Error)), rs_configure = Pair (Inr ()), rs_push = (\<lambda>s. Pair (Inr ())), rs_shutdown = Pair (Inr ())\<rparr>"

definition ex_chain_config :: reserver_config where
  "ex_chain_config = \<lparr>NormalConcurrency = 2, MaintenanceConcurrency = 4, NormalAttempts = 3, MaintenanceAttempts = 9, reserver_BackoffLimit = 5\<rparr>"

definition ex_chain_slot :: slot where
  "ex_chain_slot = (''JToW'', ''01-02-2026'', ''08:00:00'')"

definition ex_chain_state :: reserver_state where
  "ex_chain_state = \<lparr>rv_normalizer = Map.empty, rv_counter = ex_count 2,
     rv_login = \<lparr>login_UserData = ''u'', login_Find = setSlot Map.empty ex_chain_slot \<lparr>SearchData = ''s'', TripData = ''t''\<rparr>\<rparr>, rv_deferred = []\<rparr>"

lemma ex_chain_at_hand: "at_hand (rv_login ex_chain_state) ex_chain_slot"
  by (simp add: at_hand_def ex_chain_state_def findSlot_def getSlot_setSlot)

text \<open>Three seats of a departure whose demand rose to two: two batches.\<close>

theorem risen_demand_is_taken_up_witness:
  "map batch_slot (starts (trace (on_diff ex_chain_env ex_chain_config ex_chain_state (slot_diff ''JToW'' ''01-02-2026'' ''08:00'' 3)) ()))
     = [ex_chain_slot, ex_chain_slot]"
proof -
  have z: "remembered (fst (rearm ex_memory (ex_count 1) (ex_count 2))) ''JToW'' ''01-02-2026'' ''08:00'' = 0"
    by (rule rearm_forgets) (simp_all add: ex_need)
  have "effect (on_diff ex_chain_env ex_chain_config ex_chain_state (slot_diff ''JToW'' ''01-02-2026'' ''08:00'' 3))
    (\<lambda>st' tr. \<exists>now. tr = Rs_Now now # tl tr
        \<and> takes_up ex_chain_state (''JToW'', ''01-02-2026'', ''08:00'' @ '':00'') 3 (need (rv_counter ex_chain_state) ''JToW'' ''01-02-2026'' (''08:00'' @ '':00''))
            (debounced ex_chain_state now (slot_diff ''JToW'' ''01-02-2026'' ''08:00'' 3)) now st' tr)"
    by (rule conjunct2, rule risen_demand_is_taken_up[OF ex_hand_over[where m = ex_memory and n = 1 and n' = 2] _ _ idle_run _ ex_message[OF z, of 2],
          where rx = "[(''08:00'', 3)]"])
      (simp_all add: ex_listening_def ex_need demanded_def ex_channel_parts ex_decode_def)
  from effect_trace[OF this, of "()"] show ?thesis using ex_chain_at_hand
    by (auto simp: takes_up_def ex_need debounced_def ex_chain_state_def ex_chain_slot_def numeral_2_eq_2)
qed

end
