(* ===== verification/Poller.thy ===== *)
theory Poller
  imports Prober_Fleet Encryptor
begin

text \<open>
  lib/poller: which dates are watched how closely, and the helium pods that watch them (poller.go,
  job.go). The counts, redis, the session pool, kubernetes, the random names and encoding/json are
  parameters.
\<close>

record HeliumJob =
  hj_Date :: string
  hj_From :: string

record PollProfile =
  prof_Name :: string
  prof_ShardSize :: int
  prof_Delay :: int

record HeliumSetting =
  set_Mode :: string
  set_Type :: string
  set_Delay :: int
  set_Proxy :: bool
  set_SpoofIp :: bool
  set_Token :: string

record Tiers =
  BoostKey :: string
  MaxBoost :: int
  MaxLight :: int
  Light :: PollProfile
  GenerationKey :: string
  MinGeneration :: duration

text \<open>
  The kubernetes Job a pod runs as: its metadata (the pod template's annotations are its labels), the
  pod's and the container's security context, and the container.
\<close>

record pod_security =
  sec_RunAsUser :: int
  sec_RunAsGroup :: int
  sec_RunAsNonRoot :: bool
  sec_FSGroup :: int
  sec_AllowPrivilegeEscalation :: bool
  sec_ReadOnlyRootFilesystem :: bool
  sec_CapabilitiesDrop :: "string list"

record helium_spec =
  hs_Name :: string
  hs_Namespace :: string
  hs_Owner :: "string \<times> string \<times> string \<times> string"
  hs_Labels :: "(string \<times> string) list"
  hs_Annotations :: "(string \<times> string) list"
  hs_Security :: pod_security
  hs_Container :: string
  hs_Image :: string
  hs_Command :: "string list"
  hs_Limits :: "string \<times> string"
  hs_Requests :: "string \<times> string"
  hs_Env :: "(string \<times> string) list"
  hs_SecretRef :: string
  hs_Mount :: "string \<times> string \<times> string"
  hs_Volume :: "string \<times> string \<times> string \<times> string"
  hs_RestartPolicy :: string
  hs_TTLSecondsAfterFinished :: int
  hs_BackoffLimit :: int

record job_template =
  tmpl_namespace :: string
  tmpl_version :: string
  tmpl_image :: string
  tmpl_Landscape :: string
  tmpl_Platform :: string
  tmpl_configMapRef :: string
  tmpl_secretRef :: string
  tmpl_podName :: string
  tmpl_podUID :: string
  tmpl_shardSize :: int

record 'x poller_env =
  po_count :: "instant \<Rightarrow> 'x \<Rightarrow> count_read \<times> 'x"
  po_now :: "'x \<Rightarrow> instant \<times> 'x"
  po_live :: bool
  po_boost :: "string \<Rightarrow> 'x \<Rightarrow> redis_read \<times> 'x"
  po_boost_json :: "string \<Rightarrow> (string \<rightharpoonup> int) result"
  po_setnx :: "string \<Rightarrow> duration \<Rightarrow> 'x \<Rightarrow> bool result \<times> 'x"
  po_sha1 :: "HeliumJob list \<times> HeliumJob list \<Rightarrow> string"
  po_jobs_json :: "HeliumJob list \<Rightarrow> string result"
  po_settings_json :: "HeliumSetting list \<Rightarrow> string result"
  po_pick :: "'x \<Rightarrow> string result \<times> 'x"
  po_xid :: "'x \<Rightarrow> string \<times> 'x"
  po_create :: "helium_spec \<Rightarrow> 'x \<Rightarrow> unit result \<times> 'x"

datatype poll_event =
    Po_Now instant
  | Po_Count count_read
  | Boost_Read string redis_read
  | Claimed string duration "bool result"
  | Picked "string result"
  | Xid string
  | Create_Watch HeliumJob helium_spec "unit result"
  | Create_Pod "HeliumJob list" int helium_spec "unit result"

type_synonym ('x, 'a) polling = "('x, poll_event, 'a) proc"

section \<open>Which targets\<close>

definition pollLayout :: "chunk list" where
  "pollLayout = [Day, Lit (CHR ''-''), Month, Lit (CHR ''-''), Year]"

text \<open>\<open>time.Parse\<close> reads in UTC; the zero \<open>time.Time\<close> is the first instant of year 1.\<close>

definition parsePollDate :: "string \<Rightarrow> instant" where
  "parsePollDate d = (case parse_in_location pollLayout d 0 of Inl err \<Rightarrow> date 1 1 1 0 0 0 0 0 | Inr t \<Rightarrow> t)"

definition poll_order :: "HeliumJob \<Rightarrow> instant \<times> string" where
  "poll_order j = (parsePollDate (hj_Date j), hj_From j)"

text \<open>\<open>capStreams\<close> sorts the targets in place and returns a first part of them.\<close>

definition capStreams :: "int \<Rightarrow> HeliumJob list \<Rightarrow> HeliumJob list" where
  "capStreams maxStreams js =
     (if maxStreams > 0 \<and> int (length js) > maxStreams then take (nat maxStreams) js else js)"

definition unix_now :: "instant \<Rightarrow> int" where
  "unix_now now = now div nanos_per_second"

definition on_boost :: "(string \<rightharpoonup> int) \<Rightarrow> instant \<Rightarrow> HeliumJob \<Rightarrow> bool" where
  "on_boost boost now j = (case boost (hj_Date j) of None \<Rightarrow> False | Some expiry \<Rightarrow> expiry > unix_now now)"

fun split_later :: "Tiers \<Rightarrow> (string \<rightharpoonup> int) \<Rightarrow> instant \<Rightarrow> HeliumJob list \<Rightarrow> HeliumJob list \<times> HeliumJob list \<times> int
    \<Rightarrow> HeliumJob list \<times> HeliumJob list" where
  "split_later tiers boost now [] (full, light, boosted) = (full, light)"
| "split_later tiers boost now (j # js) (full, light, boosted) =
     (if on_boost boost now j \<and> boosted < MaxBoost tiers then split_later tiers boost now js (full @ [j], light, boosted + 1)
      else if MaxLight tiers > 0 \<and> int (length light) < MaxLight tiers then split_later tiers boost now js (full, light @ [j], boosted)
      else split_later tiers boost now js (full, light, boosted))"

definition selectTargets :: "int \<Rightarrow> Tiers \<Rightarrow> HeliumJob list \<Rightarrow> (string \<rightharpoonup> int) \<Rightarrow> instant \<Rightarrow> HeliumJob list \<times> HeliumJob list" where
  "selectTargets maxStreams tiers jobs boost now =
     (let ordered = sort_key poll_order jobs; window = capStreams maxStreams ordered in
      split_later tiers boost now (drop (length window) ordered) (window, [], 0))"

definition readBoost :: "'x poller_env \<Rightarrow> Tiers \<Rightarrow> ('x, string \<rightharpoonup> int) polling" where
  "readBoost env tiers =
     (if \<not> po_live env \<or> BoostKey tiers = [] \<or> MaxBoost tiers \<le> 0 then return Map.empty
      else do {
        raw \<leftarrow> invoke (po_boost env (BoostKey tiers)) (Boost_Read (BoostKey tiers));
        return (case raw of
            Nil_Reply \<Rightarrow> Map.empty
          | Read_Failed err \<Rightarrow> Map.empty
          | Value v \<Rightarrow> (case po_boost_json env v of Inl err \<Rightarrow> Map.empty | Inr b \<Rightarrow> b))
      })"

definition targetSignature :: "'x poller_env \<Rightarrow> HeliumJob list \<Rightarrow> HeliumJob list \<Rightarrow> string" where
  "targetSignature env full light = hex_encode (po_sha1 env (full, light))"

definition claimGeneration :: "'x poller_env \<Rightarrow> Tiers \<Rightarrow> HeliumJob list \<Rightarrow> HeliumJob list \<Rightarrow> ('x, bool) polling" where
  "claimGeneration env tiers full light =
     (if \<not> po_live env \<or> GenerationKey tiers = [] \<or> MinGeneration tiers \<le> 0 then return True
      else do {
        let key = GenerationKey tiers @ '':'' @ targetSignature env full light;
        ok \<leftarrow> invoke (po_setnx env key (MinGeneration tiers)) (Claimed key (MinGeneration tiers));
        return (case ok of Inl err \<Rightarrow> True | Inr b \<Rightarrow> b)
      })"

section \<open>The pods\<close>

definition shardTargets :: "'a list \<Rightarrow> int \<Rightarrow> 'a list list" where
  "shardTargets targets k = (if k \<le> 0 \<or> int (length targets) \<le> k then [targets] else slices (nat k) targets)"

definition FullProfile :: "job_template \<Rightarrow> PollProfile" where
  "FullProfile h = \<lparr>prof_Name = ''full'', prof_ShardSize = tmpl_shardSize h, prof_Delay = 10\<rparr>"

definition helium_labels :: "job_template \<Rightarrow> (string \<times> string) list" where
  "helium_labels h =
     [(''atomi.cloud/landscape'', tmpl_Landscape h), (''atomi.cloud/platform'', tmpl_Platform h),
      (''atomi.cloud/service'', ''helium''), (''atomi.cloud/module'', ''pollee''), (''atomi.cloud/layer'', ''2'')]"

definition helium_settings :: "int \<Rightarrow> string \<Rightarrow> HeliumSetting list" where
  "helium_settings delay token =
     [\<lparr>set_Mode = ''mobile'', set_Type = ''held'', set_Delay = delay, set_Proxy = False, set_SpoofIp = True, set_Token = token\<rparr>]"

definition helium_security :: pod_security where
  "helium_security = \<lparr>sec_RunAsUser = 1000, sec_RunAsGroup = 1000, sec_RunAsNonRoot = True, sec_FSGroup = 1000,
     sec_AllowPrivilegeEscalation = False, sec_ReadOnlyRootFilesystem = True, sec_CapabilitiesDrop = [''ALL'']\<rparr>"

definition helium_job :: "job_template \<Rightarrow> string \<Rightarrow> string list \<Rightarrow> string \<times> string \<Rightarrow> string \<times> string \<Rightarrow> helium_spec" where
  "helium_job h name command limits requests =
     (let configMapKey = tmpl_Landscape h @ ''.config.yaml'' in
      \<lparr>hs_Name = name,
       hs_Namespace = tmpl_namespace h,
       hs_Owner = (''v1'', ''Pod'', tmpl_podName h, tmpl_podUID h),
       hs_Labels = helium_labels h,
       hs_Annotations = helium_labels h,
       hs_Security = helium_security,
       hs_Container = ''helium-pollee'',
       hs_Image = tmpl_image h @ '':'' @ tmpl_version h,
       hs_Command = command,
       hs_Limits = limits,
       hs_Requests = requests,
       hs_Env = [(''LANDSCAPE'', tmpl_Landscape h)],
       hs_SecretRef = tmpl_secretRef h,
       hs_Mount = (''config-volume'', ''/app/config/app/'' @ configMapKey, configMapKey),
       hs_Volume = (''config-volume'', tmpl_configMapRef h, configMapKey, configMapKey),
       hs_RestartPolicy = ''Never'',
       hs_TTLSecondsAfterFinished = 180,
       hs_BackoffLimit = 0\<rparr>)"

definition watcher_job :: "job_template \<Rightarrow> string \<Rightarrow> string \<Rightarrow> string \<Rightarrow> helium_spec" where
  "watcher_job h data settingsData random =
     helium_job h (''helium-pollee-'' @ random)
       [''bun'', ''run'', ''index.js'', ''multi-watch'', ''-d'', data, ''-s'', settingsData, ''-i'', ''120'']
       (''1000m'', ''512Mi'') (''400m'', ''256Mi'')"

text \<open>The event names the targets beside the spec, whose \<open>-d\<close> argument is their JSON.\<close>

definition createMultiPod :: "'x poller_env \<Rightarrow> job_template \<Rightarrow> HeliumJob list \<Rightarrow> int \<Rightarrow> ('x, unit result) polling" where
  "createMultiPod env h job delay =
     (case po_jobs_json env job of
        Inl err \<Rightarrow> return (Inl err)
      | Inr data \<Rightarrow>
          on_ok (invoke (po_pick env) Picked) (\<lambda>token.
            case po_settings_json env (helium_settings delay token) of
              Inl err \<Rightarrow> return (Inl err)
            | Inr settingsData \<Rightarrow> do {
                random \<leftarrow> invoke (po_xid env) Xid;
                invoke (po_create env (watcher_job h data settingsData random)) (Create_Pod job delay (watcher_job h data settingsData random))
              }))"

fun create_pods :: "'x poller_env \<Rightarrow> job_template \<Rightarrow> int \<Rightarrow> HeliumJob list list \<Rightarrow> ('x, unit result) polling" where
  "create_pods env h delay [] = return (Inr ())"
| "create_pods env h delay (shard # shards) = on_ok (createMultiPod env h shard delay) (\<lambda>_. create_pods env h delay shards)"

definition CreateMultiJob :: "'x poller_env \<Rightarrow> job_template \<Rightarrow> HeliumJob list \<Rightarrow> PollProfile \<Rightarrow> ('x, unit result) polling" where
  "CreateMultiJob env h job profile =
     (if job = [] then return (Inr ()) else create_pods env h (prof_Delay profile) (shardTargets job (prof_ShardSize profile)))"

text \<open>The earlier way to watch, one pod for one date, with the date and the direction in its name.\<close>

definition CreateJob :: "'x poller_env \<Rightarrow> job_template \<Rightarrow> HeliumJob \<Rightarrow> ('x, unit result) polling" where
  "CreateJob env h job = do {
     random \<leftarrow> invoke (po_xid env) Xid;
     let spec = helium_job h (''helium-pollee-'' @ to_lower (hj_Date job) @ ''-'' @ to_lower (hj_From job) @ ''-'' @ random)
       [''bun'', ''run'', ''index.js'', ''watch'', ''-d'', hj_Date job, ''-f'', hj_From job, ''-i'', ''180'']
       (''1000m'', ''1Gi'') (''1000m'', ''1Gi'');
     invoke (po_create env spec) (Create_Watch job spec)
   }"

section \<open>One trigger\<close>

definition jobs_of :: "count \<Rightarrow> HeliumJob list" where
  "jobs_of counts = concat (map (\<lambda>(dir, dates). map (\<lambda>(day, _). \<lparr>hj_Date = day, hj_From = dir\<rparr>) dates) counts)"

definition errs_of :: "unit result list \<Rightarrow> error list" where
  "errs_of rs = List.map_filter (\<lambda>r. case r of Inl e \<Rightarrow> Some e | Inr _ \<Rightarrow> None) rs"

definition createPoller :: "'x poller_env \<Rightarrow> job_template \<Rightarrow> int \<Rightarrow> Tiers \<Rightarrow> ('x, unit result) polling" where
  "createPoller env h maxStreams tiers = do {
     now \<leftarrow> invoke (po_now env) Po_Now;
     c \<leftarrow> invoke (po_count env now) Po_Count;
     case c of (exists, counts, err) \<Rightarrow>
       if \<not> exists then return (Inr ())
       else (case err of
           Some e \<Rightarrow> return (Inl e)
         | None \<Rightarrow> do {
             boost \<leftarrow> readBoost env tiers;
             now2 \<leftarrow> invoke (po_now env) Po_Now;
             let sel = selectTargets maxStreams tiers (jobs_of (case counts of None \<Rightarrow> [] | Some c \<Rightarrow> c)) boost now2;
             claimed \<leftarrow> claimGeneration env tiers (fst sel) (snd sel);
             if \<not> claimed then return (Inr ())
             else do {
               fullErr \<leftarrow> CreateMultiJob env h (fst sel) (FullProfile h);
               lightErr \<leftarrow> (if snd sel \<noteq> [] then CreateMultiJob env h (snd sel) (Light tiers) else return (Inr ()));
               return (join_errors (errs_of [fullErr, lightErr]))
             }
           })
   }"

section \<open>Correctness\<close>

interpretation poller_shards: sharding shardTargets
proof
  fix xs :: "'a list" and n :: int and s :: "'a list"
  show "concat (shardTargets xs n) = xs" by (simp add: shardTargets_def slices_concat)
  show "int (length s) \<le> n" if "0 < n" "s \<in> set (shardTargets xs n)"
    using that by (auto simp: shardTargets_def split: if_splits dest: slices_size)
  show "s \<noteq> []" if "xs \<noteq> []" "s \<in> set (shardTargets xs n)"
    using that by (auto simp: shardTargets_def split: if_splits dest: slices_size)
qed

lemma split_later_full:
  "fst (split_later tiers boost now js (full, light, boosted))
     = full @ take (nat (MaxBoost tiers - boosted)) (filter (on_boost boost now) js)"
proof (induction js arbitrary: full light boosted)
  case (Cons j js)
  have "nat (MaxBoost tiers - boosted) = Suc (nat (MaxBoost tiers - (boosted + 1)))" if "boosted < MaxBoost tiers" using that by auto
  then show ?case using Cons by (auto simp: take_Cons')
qed simp

lemma room_left: "n < (m :: nat) \<Longrightarrow> t \<le> k \<Longrightarrow> Suc (min (m - (n + Suc 0)) (k - t)) = min (m - n) (Suc k - t)"
  by arith

lemma split_later_light:
  assumes "b = length (take (nat (MaxBoost tiers - boosted)) (filter (on_boost boost now) js))" "int (length light) \<le> max 0 (MaxLight tiers)"
  shows "\<exists>light'. snd (split_later tiers boost now js (full, light, boosted)) = light @ light' \<and> subseq light' js
     \<and> mset (take (nat (MaxBoost tiers - boosted)) (filter (on_boost boost now) js)) + mset light' \<subseteq># mset js
     \<and> length light' = min (nat (MaxLight tiers) - length light) (length js - b)"
  using assms
proof (induction js arbitrary: full light boosted b)
  case (Cons j js)
  let ?t = "\<lambda>n js. take (nat (MaxBoost tiers - n)) (filter (on_boost boost now) js)"
  have bd: "length (?t n js) \<le> length js" for n using length_filter_le[of "on_boost boost now" js] by (simp add: min_le_iff_disj)
  consider (boost) "on_boost boost now j" "boosted < MaxBoost tiers"
    | (light) "\<not> (on_boost boost now j \<and> boosted < MaxBoost tiers)" "MaxLight tiers > 0 \<and> int (length light) < MaxLight tiers"
    | (drop) "\<not> (on_boost boost now j \<and> boosted < MaxBoost tiers)" "\<not> (MaxLight tiers > 0 \<and> int (length light) < MaxLight tiers)" by blast
  then show ?case unfolding Cons.prems(1)
  proof cases
    case boost
    then have "nat (MaxBoost tiers - boosted) = Suc (nat (MaxBoost tiers - (boosted + 1)))" by auto
    then have t: "?t boosted (j # js) = j # ?t (boosted + 1) js" using boost(1) by (simp only: filter.simps take_Suc_Cons if_True)
    have step: "split_later tiers boost now (j # js) (full, light, boosted) = split_later tiers boost now js (full @ [j], light, boosted + 1)"
      using boost by simp
    show "\<exists>l. snd (split_later tiers boost now (j # js) (full, light, boosted)) = light @ l \<and> subseq l (j # js)
        \<and> mset (?t boosted (j # js)) + mset l \<subseteq># mset (j # js)
        \<and> length l = min (nat (MaxLight tiers) - length light) (length (j # js) - length (?t boosted (j # js)))"
      using Cons.IH[OF refl Cons.prems(2), of "full @ [j]" "boosted + 1"] unfolding t step
      by (elim exE, rule_tac x = light' in exI) (simp add: list_emb_Cons)
  next
    case light
    then have t: "?t boosted (j # js) = ?t boosted js" by auto
    have step: "split_later tiers boost now (j # js) (full, light, boosted) = split_later tiers boost now js (full, light @ [j], boosted)"
      using light by auto
    have fits: "int (length (light @ [j])) \<le> max 0 (MaxLight tiers)" using light by auto
    from Cons.IH[OF refl fits, of full boosted] obtain l where l:
      "snd (split_later tiers boost now js (full, light @ [j], boosted)) = (light @ [j]) @ l" "subseq l js"
      "mset (?t boosted js) + mset l \<subseteq># mset js"
      "length l = min (nat (MaxLight tiers) - length (light @ [j])) (length js - length (?t boosted js))" by blast
    have "length (j # l) = min (nat (MaxLight tiers) - length light) (length (j # js) - length (?t boosted js))"
    proof -
      have "length light < nat (MaxLight tiers)" using light(2) by linarith
      then show ?thesis unfolding length_Cons l(4) length_append list.size(3) using room_left bd[of boosted] by simp
    qed
    moreover have "mset (?t boosted js) + mset (j # l) \<subseteq># mset (j # js)" using l(3) by simp
    ultimately show "\<exists>l. snd (split_later tiers boost now (j # js) (full, light, boosted)) = light @ l \<and> subseq l (j # js)
        \<and> mset (?t boosted (j # js)) + mset l \<subseteq># mset (j # js)
        \<and> length l = min (nat (MaxLight tiers) - length light) (length (j # js) - length (?t boosted (j # js)))"
      unfolding t step l(1) using l(2) by (intro exI[of _ "j # l"] conjI) simp_all
  next
    case drop
    then have t: "?t boosted (j # js) = ?t boosted js" by auto
    have step: "split_later tiers boost now (j # js) (full, light, boosted) = split_later tiers boost now js (full, light, boosted)"
      using drop by auto
    from Cons.IH[OF refl Cons.prems(2), of full boosted] obtain l where l:
      "snd (split_later tiers boost now js (full, light, boosted)) = light @ l" "subseq l js"
      "mset (?t boosted js) + mset l \<subseteq># mset js"
      "length l = min (nat (MaxLight tiers) - length light) (length js - length (?t boosted js))" by blast
    have "nat (MaxLight tiers) - length light = 0" using drop(2) by auto
    moreover have "mset (?t boosted js) + mset l \<subseteq># mset (j # js)" by (rule subset_mset.order_trans[OF l(3)]) simp
    ultimately show "\<exists>l. snd (split_later tiers boost now (j # js) (full, light, boosted)) = light @ l \<and> subseq l (j # js)
        \<and> mset (?t boosted (j # js)) + mset l \<subseteq># mset (j # js)
        \<and> length l = min (nat (MaxLight tiers) - length light) (length (j # js) - length (?t boosted (j # js)))"
      unfolding t step using l by (intro exI[of _ l] conjI) (simp_all only: min_0L list_emb_Cons)
  qed
qed simp

text \<open>C32: The three tiers of the watch. At full power are the earliest targets, up to the cap on streams, and
  then the first of the later ones whose released date is still boosted, up to the cap on boosts; the light
  tier holds later targets in their order and is filled up to its own cap; and no target is in
  both or twice in one.\<close>

theorem selectTargets_tiers:
  "case selectTargets maxStreams tiers jobs boost now of (full, light) \<Rightarrow>
     let ordered = sort_key poll_order jobs; window = capStreams maxStreams ordered; later = drop (length window) ordered;
         boosted = take (nat (MaxBoost tiers)) (filter (on_boost boost now) later)
     in full = window @ boosted \<and> subseq light later \<and> mset full + mset light \<subseteq># mset jobs
        \<and> length light = min (nat (MaxLight tiers)) (length later - length boosted)"
proof -
  let ?o = "sort_key poll_order jobs"
  let ?w = "capStreams maxStreams ?o"
  let ?l = "drop (length ?w) ?o"
  let ?b = "take (nat (MaxBoost tiers)) (filter (on_boost boost now) ?l)"
  have wo: "?w @ ?l = ?o" by (auto simp: capStreams_def)
  have full: "fst (split_later tiers boost now ?l (?w, [], 0)) = ?w @ ?b" by (simp add: split_later_full)
  from split_later_light[of "length ?b" tiers 0 boost now ?l "[]" ?w] obtain light where l:
    "snd (split_later tiers boost now ?l (?w, [], 0)) = light" "subseq light ?l" "mset ?b + mset light \<subseteq># mset ?l"
    "length light = min (nat (MaxLight tiers)) (length ?l - length ?b)" by auto
  have "mset ?w + mset ?b + mset light \<subseteq># mset ?w + mset ?l" using l(3) by (simp add: add.assoc)
  also have "\<dots> = mset jobs" using arg_cong[OF wo, of mset] by simp
  finally have "mset (?w @ ?b) + mset light \<subseteq># mset jobs" by simp
  then show ?thesis
    using full l(1,2,4) unfolding selectTargets_def Let_def case_prod_beta by (simp only: simp_thms)
qed

fun pod_of :: "poll_event \<Rightarrow> HeliumJob list option" where
  "pod_of (Create_Pod js delay spec r) = Some js"
| "pod_of ev = None"

definition pods :: "poll_event list \<Rightarrow> HeliumJob list list" where
  "pods tr = List.map_filter pod_of tr"

lemma pods_simps [simp]:
  "pods [] = []" "pods (ev # tr) = (case pod_of ev of None \<Rightarrow> pods tr | Some js \<Rightarrow> js # pods tr)" "pods (tr @ tr') = pods tr @ pods tr'"
  by (simp_all add: pods_def List.map_filter_def split: option.split)

lemma effect_createMultiPod:
  "effect (createMultiPod env h job delay) (\<lambda>r tr. pods tr = [job] \<or> pods tr = [] \<and> (\<exists>e. r = Inl e))"
  unfolding createMultiPod_def
  by (intro effect_intros effect_on_ok_invoke) simp_all

lemma effect_create_pods:
  "effect (create_pods env h delay shards) (\<lambda>r tr. prefix (pods tr) shards \<and> (r = Inr () \<longrightarrow> pods tr = shards))"
proof (induction shards)
  case (Cons shard shards)
  show ?case unfolding create_pods.simps
    by (rule effect_on_ok_cases[OF effect_createMultiPod]) (auto intro!: effect_conseq[OF Cons.IH])
qed simp

lemma prefix_concat: "prefix xs ys \<Longrightarrow> prefix (concat xs) (concat ys)"
  by (auto simp: prefix_def)

lemma effect_CreateMultiJob:
  "effect (CreateMultiJob env h job profile) (\<lambda>r tr. prefix (concat (pods tr)) job \<and> (r = Inr () \<longrightarrow> concat (pods tr) = job)
     \<and> [] \<notin> set (pods tr) \<and> (0 < prof_ShardSize profile \<longrightarrow> (\<forall>p \<in> set (pods tr). int (length p) \<le> prof_ShardSize profile)))"
  unfolding CreateMultiJob_def
proof (rule effect_if)
  assume "job \<noteq> []"
  show "effect (create_pods env h (prof_Delay profile) (shardTargets job (prof_ShardSize profile))) (\<lambda>r tr.
      prefix (concat (pods tr)) job \<and> (r = Inr () \<longrightarrow> concat (pods tr) = job)
     \<and> [] \<notin> set (pods tr) \<and> (0 < prof_ShardSize profile \<longrightarrow> (\<forall>p \<in> set (pods tr). int (length p) \<le> prof_ShardSize profile)))"
  proof (rule effect_conseq[OF effect_create_pods], elim conjE, intro conjI impI ballI)
    fix r :: "unit result" and tr assume p: "prefix (pods tr) (shardTargets job (prof_ShardSize profile))"
      and r: "r = Inr () \<longrightarrow> pods tr = shardTargets job (prof_ShardSize profile)"
    show "prefix (concat (pods tr)) job" using prefix_concat[OF p] by (simp add: poller_shards.shard_concat)
    show "concat (pods tr) = job" if "r = Inr ()" using that r by (simp add: poller_shards.shard_concat)
    have sub: "set (pods tr) \<subseteq> set (shardTargets job (prof_ShardSize profile))" using p by (rule set_mono_prefix)
    show "[] \<notin> set (pods tr)" using sub poller_shards.shard_nonempty[OF \<open>job \<noteq> []\<close>] by blast
    show "int (length q) \<le> prof_ShardSize profile" if "0 < prof_ShardSize profile" "q \<in> set (pods tr)" for q
      using poller_shards.shard_size[OF that(1)] that(2) sub by blast
  qed
qed simp

text \<open>What a trigger may have watched: nothing, or the two tiers it selected from the demand snapshot.\<close>

definition watches :: "int \<Rightarrow> Tiers \<Rightarrow> unit result \<Rightarrow> poll_event list \<Rightarrow> bool" where
  "watches maxStreams tiers r tr \<longleftrightarrow> pods tr = [] \<or>
     (\<exists>counts boost now full light. Po_Count (True, counts, None) \<in> set tr \<and> Po_Now now \<in> set tr
       \<and> (\<forall>k d. Claimed k d (Inr False) \<notin> set tr) \<and> pods tr = full @ light
       \<and> (case selectTargets maxStreams tiers (jobs_of (case counts of None \<Rightarrow> [] | Some c \<Rightarrow> c)) boost now of
            (f, l) \<Rightarrow> prefix (concat full) f \<and> prefix (concat light) l
              \<and> (r = Inr () \<longrightarrow> concat full = f \<and> concat light = l)))"

lemma effect_readBoost: "effect (readBoost env tiers) (\<lambda>b tr. pods tr = [] \<and> (\<forall>k d r. Claimed k d r \<notin> set tr))"
  unfolding readBoost_def by (intro effect_intros) simp_all

lemma effect_claimGeneration:
  "effect (claimGeneration env tiers full light) (\<lambda>b tr. pods tr = [] \<and> (b \<longrightarrow> (\<forall>k d. Claimed k d (Inr False) \<notin> set tr)))"
  unfolding claimGeneration_def by (intro effect_intros) (auto split: sum.splits)

lemma effect_no_claim:
  "effect (createMultiPod env h job delay) (\<lambda>r tr. \<forall>k d r. Claimed k d r \<notin> set tr)"
  "effect (create_pods env h delay shards) (\<lambda>r tr. \<forall>k d r. Claimed k d r \<notin> set tr)"
  "effect (CreateMultiJob env h job profile) (\<lambda>r tr. \<forall>k d r. Claimed k d r \<notin> set tr)"
proof -
  show a: "effect (createMultiPod env h job delay) (\<lambda>r tr. \<forall>k d r. Claimed k d r \<notin> set tr)" for job
    unfolding createMultiPod_def by (intro effect_intros effect_on_ok_invoke) simp_all
  show b: "effect (create_pods env h delay shards) (\<lambda>r tr. \<forall>k d r. Claimed k d r \<notin> set tr)" for delay shards
  proof (induction shards)
    case (Cons shard shards)
    have p: "effect (createMultiPod env h shard delay) (\<lambda>r tr. \<forall>k d r. Claimed k d r \<notin> set tr)"
      unfolding createMultiPod_def by (intro effect_intros effect_on_ok_invoke) simp_all
    show ?case unfolding create_pods.simps by (rule effect_on_ok_cases[OF p]) (auto intro!: effect_conseq[OF Cons.IH])
  qed simp
  show "effect (CreateMultiJob env h job profile) (\<lambda>r tr. \<forall>k d r. Claimed k d r \<notin> set tr)"
    unfolding CreateMultiJob_def by (rule effect_if) (simp, rule b)
qed

lemma errs_of_two: "join_errors (errs_of [a, b]) = Inr () \<longleftrightarrow> a = Inr () \<and> b = Inr ()"
  by (cases a; cases b) (auto simp: errs_of_def List.map_filter_def)

text \<open>The pods created for \<open>job\<close>: a prefix of it, all of it when nothing failed, and no claim is made on the way.\<close>

definition pods_for :: "HeliumJob list \<Rightarrow> unit result \<Rightarrow> poll_event list \<Rightarrow> bool" where
  "pods_for job r tr \<longleftrightarrow> prefix (concat (pods tr)) job \<and> (r = Inr () \<longrightarrow> concat (pods tr) = job)
     \<and> (\<forall>k d r. Claimed k d r \<notin> set tr)"

abbreviation create_both :: "'x poller_env \<Rightarrow> job_template \<Rightarrow> Tiers \<Rightarrow> HeliumJob list \<times> HeliumJob list \<Rightarrow> ('x, unit result) polling" where
  "create_both env h tiers sel \<equiv>
     State_Monad.bind (CreateMultiJob env h (fst sel) (FullProfile h)) (\<lambda>fullErr.
     State_Monad.bind (if snd sel \<noteq> [] then CreateMultiJob env h (snd sel) (Light tiers) else return (Inr ())) (\<lambda>lightErr.
     return (join_errors (errs_of [fullErr, lightErr]))))"

lemma effect_pods_for: "effect (CreateMultiJob env h job p) (pods_for job)"
  by (rule effect_conseq[OF effect_conj[OF effect_CreateMultiJob effect_no_claim(3)]]) (simp add: pods_for_def)

lemma effect_pods_light:
  "effect (if job \<noteq> [] then CreateMultiJob env h job p else return (Inr ())) (pods_for job)"
  by (intro effect_if effect_pods_for) (simp add: pods_for_def)

lemma effect_create_both:
  "effect (create_both env h tiers sel) (\<lambda>r tr. \<exists>full light. pods tr = full @ light
     \<and> prefix (concat full) (fst sel) \<and> prefix (concat light) (snd sel)
     \<and> (r = Inr () \<longrightarrow> concat full = fst sel \<and> concat light = snd sel) \<and> (\<forall>k d r. Claimed k d r \<notin> set tr))"
proof (rule effect_bind, rule effect_conseq[OF effect_pods_for], rule effect_bind, rule effect_conseq[OF effect_pods_light], rule effect_return)
  fix fullErr lightErr :: "unit result" and tr tr'
  assume "pods_for (fst sel) fullErr tr" "pods_for (snd sel) lightErr tr'"
  then show "\<exists>full light. pods (tr @ tr' @ []) = full @ light
     \<and> prefix (concat full) (fst sel) \<and> prefix (concat light) (snd sel)
     \<and> (join_errors (errs_of [fullErr, lightErr]) = Inr () \<longrightarrow> concat full = fst sel \<and> concat light = snd sel)
     \<and> (\<forall>k d r. Claimed k d r \<notin> set (tr @ tr' @ []))"
    unfolding errs_of_two by (intro exI[of _ "pods tr"] exI[of _ "pods tr'"]) (auto simp: pods_for_def)
qed

text \<open>What \<open>createPoller\<close> does once it has read a snapshot.\<close>

abbreviation choose_and_create :: "'x poller_env \<Rightarrow> job_template \<Rightarrow> int \<Rightarrow> Tiers \<Rightarrow> HeliumJob list \<Rightarrow> ('x, unit result) polling" where
  "choose_and_create env h maxStreams tiers jobs \<equiv>
     State_Monad.bind (readBoost env tiers) (\<lambda>boost. State_Monad.bind (invoke (po_now env) Po_Now) (\<lambda>now2.
     State_Monad.bind (claimGeneration env tiers (fst (selectTargets maxStreams tiers jobs boost now2))
         (snd (selectTargets maxStreams tiers jobs boost now2))) (\<lambda>claimed.
     if \<not> claimed then return (Inr ()) else create_both env h tiers (selectTargets maxStreams tiers jobs boost now2))))"

definition chosen :: "int \<Rightarrow> Tiers \<Rightarrow> HeliumJob list \<Rightarrow> unit result \<Rightarrow> poll_event list \<Rightarrow> bool" where
  "chosen maxStreams tiers jobs r tr \<longleftrightarrow> pods tr = [] \<or>
     (\<exists>boost now full light. Po_Now now \<in> set tr \<and> (\<forall>k d. Claimed k d (Inr False) \<notin> set tr) \<and> pods tr = full @ light
       \<and> (case selectTargets maxStreams tiers jobs boost now of
            (f, l) \<Rightarrow> prefix (concat full) f \<and> prefix (concat light) l
              \<and> (r = Inr () \<longrightarrow> concat full = f \<and> concat light = l)))"

lemma effect_choose_and_create:
  "effect (choose_and_create env h maxStreams tiers jobs) (chosen maxStreams tiers jobs)"
proof (rule effect_bind, rule effect_conseq[OF effect_readBoost], rule effect_bind, rule effect_invoke, rule effect_bind,
    rule effect_conseq[OF effect_claimGeneration], rule effect_if)
  fix boost tr1 now2 and claimed :: bool and tr3
  assume silent: "pods tr1 = [] \<and> (\<forall>k d r. Claimed k d r \<notin> set tr1)"
    "pods tr3 = [] \<and> (claimed \<longrightarrow> (\<forall>k d. Claimed k d (Inr False) \<notin> set tr3))"
  show "effect (return (Inr () :: unit result)) (\<lambda>r tr. chosen maxStreams tiers jobs r (tr1 @ [Po_Now now2] @ tr3 @ tr))"
    using silent by (simp add: chosen_def)
  let ?sel = "selectTargets maxStreams tiers jobs boost now2"
  assume claimed: "\<not> \<not> claimed"
  show "effect (create_both env h tiers ?sel) (\<lambda>r tr. chosen maxStreams tiers jobs r (tr1 @ [Po_Now now2] @ tr3 @ tr))"
  proof (rule effect_conseq[OF effect_create_both], elim exE conjE)
    fix r :: "unit result" and tr4 full light
    assume "pods tr4 = full @ light" "prefix (concat full) (fst ?sel)" "prefix (concat light) (snd ?sel)"
      "r = Inr () \<longrightarrow> concat full = fst ?sel \<and> concat light = snd ?sel" "\<forall>k d r. Claimed k d r \<notin> set tr4"
    then show "chosen maxStreams tiers jobs r (tr1 @ [Po_Now now2] @ tr3 @ tr4)"
      unfolding chosen_def using silent claimed
      by (intro disjI2 exI[of _ boost] exI[of _ now2] exI[of _ full] exI[of _ light]) (simp add: case_prod_beta)
  qed
qed

lemma chosen_watches:
  assumes "chosen maxStreams tiers (jobs_of (case counts of None \<Rightarrow> [] | Some c \<Rightarrow> c)) r tr"
  shows "watches maxStreams tiers r (Po_Now now # Po_Count (True, counts, None) # tr)"
  using assms unfolding chosen_def
proof (elim disjE exE conjE)
  fix boost at full light
  assume "Po_Now at \<in> set tr" "\<forall>k d. Claimed k d (Inr False) \<notin> set tr" "pods tr = full @ light"
    "case selectTargets maxStreams tiers (jobs_of (case counts of None \<Rightarrow> [] | Some c \<Rightarrow> c)) boost at of
       (f, l) \<Rightarrow> prefix (concat full) f \<and> prefix (concat light) l \<and> (r = Inr () \<longrightarrow> concat full = f \<and> concat light = l)"
  then show ?thesis
    unfolding watches_def by (intro disjI2 exI[of _ counts] exI[of _ boost] exI[of _ at] exI[of _ full] exI[of _ light]) simp
qed (simp add: watches_def)

text \<open>C33: A trigger watches nothing, or the two tiers it selects from the demand snapshot it read, the full one
  first; a pod holds only targets of its own tier, each tier is cut into pods in its order, and both
  are covered completely when the trigger succeeds; a trigger whose generation is already claimed
  creates no pod.\<close>

theorem createPoller_watches: "effect (createPoller env h maxStreams tiers) (watches maxStreams tiers)"
  unfolding createPoller_def Let_def
proof (rule effect_bind, rule effect_invoke, rule effect_bind, rule effect_invoke, rule effect_case_prod, rule effect_case_prod,
    rule effect_if, simp add: watches_def, rule effect_case_option)
  fix now :: instant and c :: count_read and ex counts and b and e :: "error option"
  assume "c = (ex, b)" "b = (counts, e)" "\<not> \<not> ex" "e = None"
  then have "c = (True, counts, None)" by simp
  then show "effect (choose_and_create env h maxStreams tiers (jobs_of (case counts of None \<Rightarrow> [] | Some c \<Rightarrow> c)))
      (\<lambda>r tr. watches maxStreams tiers r ([Po_Now now] @ [Po_Count c] @ tr))"
    by (auto intro!: effect_conseq[OF effect_choose_and_create] chosen_watches)
qed (simp_all add: watches_def)

end
