(* ===== verification/Triggers.thy ===== *)
theory Triggers
  imports Poller Enricher Retry
begin

text \<open>
  lib/poller/poller_triggers.go and lib/enricher/enricher_triggers.go: what wakes the poller and the
  enricher, and the loops that then run them (Start of poller.go, Start and loop of enricher.go). Redis,
  telemetry, the random source and the propagation of the trace context are parameters; a send on the
  channel is an event. \<open>RedisStream\<close> nests the supervised loop in another one, so that a round that asks to
  exit only leaves the inner loop: its request has no effect, which \<open>keep_going\<close> writes out.
\<close>

type_synonym carrier = "(string \<times> string) list"

record TriggerMessage =
  msg_Type :: string
  msg_Mc :: "carrier option"

record 'x trigger_env =
  tg_create_group :: "'x \<Rightarrow> unit \<times> 'x"
  tg_configure :: "'x \<Rightarrow> unit result \<times> 'x"
  tg_shutdown :: "'x \<Rightarrow> unit result \<times> 'x"
  tg_signal :: "'x \<Rightarrow> unit result \<times> 'x"
  tg_inject :: "'x \<Rightarrow> carrier \<times> 'x"
  tg_sleep :: "duration \<Rightarrow> 'x \<Rightarrow> unit \<times> 'x"
  tg_random :: "nat \<Rightarrow> 'x \<Rightarrow> nat \<times> 'x"

datatype 'm trigger_event =
    Tg_Group
  | Tg_Configured "unit result"
  | Tg_Shutdown "unit result"
  | Tg_Signal "unit result"
  | Tg_Injected carrier
  | Tg_Sent 'm
  | Tg_Slept duration
  | Tg_Random nat

type_synonym ('x, 'm, 'a) triggering = "('x, 'm trigger_event, 'a) proc"

definition emit :: "'m \<Rightarrow> ('x, 'm, unit) triggering" where
  "emit m = invoke (\<lambda>x. ((), x)) (\<lambda>_. Tg_Sent m)"

section \<open>The stream\<close>

definition trigger_loop :: "'x trigger_env \<Rightarrow> ('x, 'm, unit) triggering \<Rightarrow> ('x, 'm, (bool \<times> error option) option) triggering" where
  "trigger_loop env on_signal = do {
     shutdown \<leftarrow> invoke (tg_configure env) Tg_Configured;
     case shutdown of
       Inl err \<Rightarrow> return (Some (True, Some err))
     | Inr _ \<Rightarrow> do {
         r \<leftarrow> on_ok (invoke (tg_signal env) Tg_Signal) (\<lambda>_. do { _ \<leftarrow> on_signal; return (Inr ()) });
         deferErr \<leftarrow> invoke (tg_shutdown env) Tg_Shutdown;
         return (case deferErr of
             Inl e \<Rightarrow> None
           | Inr _ \<Rightarrow> Some (False, case r of Inl err \<Rightarrow> Some err | Inr _ \<Rightarrow> None))
       }
   }"

definition keep_going :: "('x, 'm, (bool \<times> error option) option) triggering \<Rightarrow> ('x, 'm, (bool \<times> error option) option) triggering" where
  "keep_going round = do { r \<leftarrow> round; return (map_option (\<lambda>b. (False, snd b)) r) }"

definition trigger_stream :: "'x trigger_env \<Rightarrow> ('x, 'm, unit) triggering \<Rightarrow> int \<Rightarrow> nat \<Rightarrow> ('x, 'm, unit result option) triggering" where
  "trigger_stream env on_signal backoffLimit rounds = do {
     _ \<leftarrow> invoke (tg_create_group env) (\<lambda>_. Tg_Group);
     supervise (\<lambda>d. invoke (tg_sleep env d) (\<lambda>_. Tg_Slept d)) (keep_going (trigger_loop env on_signal)) backoffLimit rounds 0
   }"

section \<open>The poller\<close>

definition poller_redisLoop :: "'x trigger_env \<Rightarrow> ('x, string, (bool \<times> error option) option) triggering" where
  "poller_redisLoop env = trigger_loop env (emit ''redis-stream'')"

definition poller_RedisStream :: "'x trigger_env \<Rightarrow> int \<Rightarrow> nat \<Rightarrow> ('x, string, unit result option) triggering" where
  "poller_RedisStream env = trigger_stream env (emit ''redis-stream'')"

text \<open>What the cron job of the poller does every minute.\<close>

definition poller_cron_tick :: "('x, string, unit) triggering" where
  "poller_cron_tick = emit ''cron''"

text \<open>The loop of \<open>Start\<close>, for a number of messages; \<open>None\<close> when it waits for the next one.\<close>

fun poller_serve :: "'x poller_env \<Rightarrow> job_template \<Rightarrow> int \<Rightarrow> Tiers \<Rightarrow> nat \<Rightarrow> ('x, unit result option) polling" where
  "poller_serve env h maxStreams tiers 0 = return None"
| "poller_serve env h maxStreams tiers (Suc n) = do {
     r \<leftarrow> createPoller env h maxStreams tiers;
     case r of
       Inl err \<Rightarrow> return (Some (Inl err))
     | Inr _ \<Rightarrow> poller_serve env h maxStreams tiers n
   }"

section \<open>The enricher\<close>

definition enricher_signal :: "'x trigger_env \<Rightarrow> ('x, TriggerMessage, unit) triggering" where
  "enricher_signal env = do {
     mc \<leftarrow> invoke (tg_inject env) Tg_Injected;
     emit \<lparr>msg_Type = ''redis-stream'', msg_Mc = Some mc\<rparr>
   }"

definition enricher_redisLoop :: "'x trigger_env \<Rightarrow> ('x, TriggerMessage, (bool \<times> error option) option) triggering" where
  "enricher_redisLoop env = trigger_loop env (enricher_signal env)"

definition enricher_RedisStream :: "'x trigger_env \<Rightarrow> int \<Rightarrow> nat \<Rightarrow> ('x, TriggerMessage, unit result option) triggering" where
  "enricher_RedisStream env = trigger_stream env (enricher_signal env)"

text \<open>Two to four hours between the random triggers; one unit of fuel each.\<close>

fun RandomTrigger :: "'x trigger_env \<Rightarrow> nat \<Rightarrow> ('x, TriggerMessage, unit) triggering" where
  "RandomTrigger env 0 = return ()"
| "RandomTrigger env (Suc n) = do {
     _ \<leftarrow> emit \<lparr>msg_Type = ''random'', msg_Mc = None\<rparr>;
     k \<leftarrow> invoke (tg_random env 7200) Tg_Random;
     _ \<leftarrow> invoke (tg_sleep env (int (k + 7200) * second)) (\<lambda>_. Tg_Slept (int (k + 7200) * second));
     RandomTrigger env n
   }"

datatype enricher_service = Enriching enricher_event | Enr_Configured "unit result" | Enr_Shutdown "unit result"

text \<open>One round of the enricher: \<open>None\<close> is a panic.\<close>

definition enricher_loop :: "'x trigger_env \<Rightarrow> 'x enricher_env \<Rightarrow> enricher_config \<Rightarrow> ('x, enricher_service, unit result option) proc" where
  "enricher_loop tg env cfg = do {
     shutdown \<leftarrow> invoke (tg_configure tg) Enr_Configured;
     case shutdown of
       Inl err \<Rightarrow> return (Some (Inl err))
     | Inr _ \<Rightarrow> do {
         r \<leftarrow> lifted Enriching (enrich env cfg);
         deferErr \<leftarrow> invoke (tg_shutdown tg) Enr_Shutdown;
         return (case deferErr of Inl e \<Rightarrow> None | Inr _ \<Rightarrow> r)
       }
   }"

text \<open>The outer option is \<open>None\<close> when the loop waits for the next message, the inner one for a panic.\<close>

fun enricher_serve :: "'x trigger_env \<Rightarrow> 'x enricher_env \<Rightarrow> enricher_config \<Rightarrow> nat \<Rightarrow> ('x, enricher_service, unit result option option) proc" where
  "enricher_serve tg env cfg 0 = return None"
| "enricher_serve tg env cfg (Suc n) = do {
     r \<leftarrow> enricher_loop tg env cfg;
     case r of
       None \<Rightarrow> return (Some None)
     | Some (Inl err) \<Rightarrow> return (Some (Some (Inl err)))
     | Some (Inr _) \<Rightarrow> enricher_serve tg env cfg n
   }"

section \<open>What the triggers send\<close>

fun signalled :: "'m trigger_event \<Rightarrow> unit option" where
  "signalled (Tg_Signal (Inr ())) = Some ()"
| "signalled ev = None"

fun sent_message :: "'m trigger_event \<Rightarrow> 'm option" where
  "sent_message (Tg_Sent m) = Some m"
| "sent_message ev = None"

definition relayed :: "'m trigger_event list \<Rightarrow> bool" where
  "relayed tr \<longleftrightarrow> length (List.map_filter sent_message tr) = length (List.map_filter signalled tr)"

lemma supervise_never_exits:
  assumes "\<And>d. effect (pause d) (\<lambda>_ _. True)" and "effect round (\<lambda>r _. \<forall>b. r = Some b \<longrightarrow> \<not> fst b)"
  shows "effect (supervise pause round limit n c) (\<lambda>r _. r \<noteq> Some (Inr ()))"
proof (induction n arbitrary: c)
  case (Suc n)
  have p: "effect (pause d) (\<lambda>_ _. True)" for d by (rule assms(1))
  show ?case unfolding supervise.simps
    by (rule effect_bind, rule effect_conseq[OF assms(2)],
        intro effect_case_option effect_return effect_if effect_bind effect_conseq[OF p] effect_conseq[OF Suc.IH]) auto
qed simp

lemma relayed_append: "relayed tr \<Longrightarrow> relayed tr' \<Longrightarrow> relayed (tr @ tr')"
  by (simp add: relayed_def)

lemma effect_trigger_loop:
  assumes "effect on_signal (\<lambda>_ tr. List.map_filter signalled tr = [] \<and> length (List.map_filter sent_message tr) = 1)"
  shows "effect (trigger_loop env on_signal) (\<lambda>r tr. relayed tr)"
proof -
  have s: "effect (on_ok (invoke (tg_signal env) Tg_Signal) (\<lambda>_. do { _ \<leftarrow> on_signal; return (Inr ()) })) (\<lambda>r tr. relayed tr)"
    by (intro effect_on_ok_invoke effect_bind effect_conseq[OF assms] effect_return) (auto simp: relayed_def)
  show ?thesis unfolding trigger_loop_def
    by (intro effect_bind effect_invoke effect_case_sum effect_return effect_conseq[OF s]) (simp_all add: relayed_def)
qed

lemma effect_keep_going: "effect p (\<lambda>_. Q) \<Longrightarrow> effect (keep_going p) (\<lambda>r tr. Q tr \<and> (\<forall>b. r = Some b \<longrightarrow> \<not> fst b))"
  unfolding keep_going_def by (intro effect_bind effect_return) (auto elim!: effect_conseq)

lemma effect_trigger_stream:
  fixes on_signal :: "('x, 'm, unit) triggering"
  assumes "effect on_signal (\<lambda>_ tr. List.map_filter signalled tr = [] \<and> length (List.map_filter sent_message tr) = 1)"
  shows "effect (trigger_stream env on_signal limit n) (\<lambda>r tr. relayed tr \<and> r \<noteq> Some (Inr ()))"
proof -
  let ?pause = "\<lambda>d. invoke (tg_sleep env d) (\<lambda>_. Tg_Slept d) :: ('x, 'm, unit) triggering"
  have round: "effect (keep_going (trigger_loop env on_signal)) (\<lambda>r tr. relayed tr \<and> (\<forall>b. r = Some b \<longrightarrow> \<not> fst b))"
    by (rule effect_keep_going[OF effect_trigger_loop[OF assms]])
  have "effect (supervise ?pause (keep_going (trigger_loop env on_signal)) limit n 0) (\<lambda>_. relayed)"
    by (rule effect_supervise_closed) (auto intro: effect_invoke relayed_append effect_conseq[OF round] simp: relayed_def)
  moreover have "effect (supervise ?pause (keep_going (trigger_loop env on_signal)) limit n 0) (\<lambda>r _. r \<noteq> Some (Inr ()))"
    by (rule supervise_never_exits) (auto intro: effect_invoke effect_conseq[OF round])
  ultimately have "effect (supervise ?pause (keep_going (trigger_loop env on_signal)) limit n 0) (\<lambda>r tr. relayed tr \<and> r \<noteq> Some (Inr ()))"
    by (rule effect_conj)
  then show ?thesis unfolding trigger_stream_def
    by (intro effect_bind effect_invoke) (auto simp: relayed_def elim!: effect_conseq)
qed

text \<open>Each signal of the demand stream wakes its service exactly once, and nothing else on this path does; the
  stream loops of the poller and the enricher never return without an error, not even when a round asks to exit.\<close>

theorem streams_relay_signals:
  "effect (poller_RedisStream env limit n) (\<lambda>r tr. relayed tr \<and> r \<noteq> Some (Inr ()))
 \<and> effect (enricher_RedisStream env limit n) (\<lambda>r tr. relayed tr \<and> r \<noteq> Some (Inr ()))"
  unfolding poller_RedisStream_def enricher_RedisStream_def
  by (intro conjI effect_trigger_stream)
    (auto simp: emit_def enricher_signal_def intro!: effect_bind effect_invoke)

text \<open>The poller stops at the first trigger it fails on, with its error.\<close>

lemma poller_serve_stops:
  "outcome (createPoller env h m tiers) x = Inl err \<Longrightarrow> outcome (poller_serve env h m tiers (Suc n)) x = Some (Inl err)"
  by (simp add: outcome_def case_prod_beta)

end
