(* ===== verification/Otel_Redis.thy ===== *)
theory Otel_Redis
  imports Tin_Prelude
begin

text \<open>
  lib/otelredis/redis.go: messages between the services, over redis queues, streams and channels, in an
  envelope with the trace context of the sender. The redis commands, the propagation of the context
  and encoding/json are parameters; the handler of a message is given the context and the JSON of the
  message. Spans are not modelled. \<open>None\<close> is a panic.
\<close>

section \<open>The connection\<close>

text \<open>A host name with a dot but no final one gets it, so that it is looked up as it is.\<close>

definition fqdnHost :: "(string \<Rightarrow> bool) \<Rightarrow> string \<Rightarrow> string" where
  "fqdnHost parse_ip host =
     (if parse_ip host \<or> CHR ''.'' \<notin> set host \<or> has_suffix host ''.'' then host else host @ ''.'')"

record redis_options =
  opt_Addr :: string
  opt_TLS :: "string option" \<comment> \<open>\<open>TLSConfig.ServerName\<close>\<close>

definition join_host_port :: "string \<Rightarrow> string \<Rightarrow> string" where
  "join_host_port host port =
     (if CHR '':'' \<in> set host then ''['' @ host @ '']:'' @ port else host @ '':'' @ port)"

definition without_dot :: "string \<Rightarrow> string" where
  "without_dot s = (if has_suffix s ''.'' then butlast s else s)"

definition normalizeRedisOptions :: "(string \<Rightarrow> bool) \<Rightarrow> (string \<Rightarrow> (string \<times> string) result) \<Rightarrow> redis_options \<Rightarrow> redis_options" where
  "normalizeRedisOptions parse_ip split_host_port opt =
     (case split_host_port (opt_Addr opt) of
        Inl err \<Rightarrow> opt
      | Inr (host, port) \<Rightarrow>
          opt\<lparr>opt_Addr := join_host_port (fqdnHost parse_ip host) port,
              opt_TLS := (case opt_TLS opt of None \<Rightarrow> None | Some s \<Rightarrow> Some (without_dot host))\<rparr>)"

record cache_config =
  cache_Ssl :: bool
  cache_Password :: string
  cache_Endpoint :: string

definition redis_url :: "cache_config \<Rightarrow> string" where
  "redis_url cfg = ''redis'' @ (if cache_Ssl cfg then ''s'' else '''') @ ''://default:'' @ cache_Password cfg @ ''@'' @ cache_Endpoint cfg"

section \<open>Messages\<close>

text \<open>The types are those of the world, of the messages, of decoded messages and of trace contexts. A
  stream entry is the map of its values; \<open>fmt.Sprintf\<close> prints a missing one as \<open><nil>\<close>.\<close>

type_synonym stream_values = "(string \<times> string) list"

record ('x, 'm, 'v, 'c) redis_env =
  or_inject :: "'x \<Rightarrow> 'c \<times> 'x"
  or_envelope :: "'m \<Rightarrow> 'c \<Rightarrow> string result"
  or_open :: "string \<Rightarrow> ('v \<times> 'c) result"
  or_message_json :: "'v \<Rightarrow> string result"
  or_json :: "'m \<Rightarrow> string result"
  or_carrier_json :: "'c \<Rightarrow> string result"
  or_raw :: "string \<Rightarrow> string result"
  or_compact :: "string \<Rightarrow> string"
  or_carrier :: "string \<Rightarrow> 'c result"
  or_lpush :: "string \<Rightarrow> string \<Rightarrow> 'x \<Rightarrow> int result \<times> 'x"
  or_brpop :: "string \<Rightarrow> 'x \<Rightarrow> string list result \<times> 'x"
  or_rpop :: "string \<Rightarrow> 'x \<Rightarrow> redis_read \<times> 'x"
  or_xadd :: "string \<Rightarrow> int \<Rightarrow> stream_values \<Rightarrow> 'x \<Rightarrow> string result \<times> 'x"
  or_xread :: "string \<Rightarrow> 'x \<Rightarrow> stream_values list list result \<times> 'x"
  or_xreadgroup :: "string \<Rightarrow> string \<Rightarrow> string \<Rightarrow> 'x \<Rightarrow> stream_values list list result \<times> 'x"
  or_publish :: "string \<Rightarrow> string \<Rightarrow> 'x \<Rightarrow> int result \<times> 'x"
  or_receive :: "'x \<Rightarrow> string result \<times> 'x"

datatype ('c, 'h) redis_event =
    Injected 'c
  | LPushed string string "int result"
  | BRPopped string "string list result"
  | RPopped string redis_read
  | XAdded string int stream_values "string result"
  | XRead string "stream_values list list result"
  | XReadGroup string string string "stream_values list list result"
  | Publishing string string "int result"
  | Received "string result"
  | Handled 'h

type_synonym ('x, 'c, 'h, 'a) messaging = "('x, ('c, 'h) redis_event, 'a) proc"
type_synonym ('x, 'c, 'h) handler = "'c \<Rightarrow> string \<Rightarrow> ('x, ('c, 'h) redis_event, unit result option) proc"

definition QueuePush :: "('x, 'm, 'v, 'c) redis_env \<Rightarrow> string \<Rightarrow> 'm \<Rightarrow> ('x, 'c, 'h, int result) messaging" where
  "QueuePush env queue any = do {
     mc \<leftarrow> invoke (or_inject env) Injected;
     case or_envelope env any mc of
       Inl err \<Rightarrow> return (Inl err)
     | Inr messageJson \<Rightarrow> invoke (or_lpush env queue messageJson) (LPushed queue messageJson)
   }"

text \<open>What both pops do with a popped value.\<close>

definition deliver :: "('x, 'm, 'v, 'c) redis_env \<Rightarrow> ('x, 'c, 'h) handler \<Rightarrow> string \<Rightarrow> ('x, 'c, 'h, unit result option) messaging" where
  "deliver env handler val =
     (case or_open env val of
        Inl err \<Rightarrow> return (Some (Inl err))
      | Inr (msg, mc) \<Rightarrow> (case or_message_json env msg of
            Inl err \<Rightarrow> return (Some (Inl err))
          | Inr marshal \<Rightarrow> handler mc marshal))"

definition QueuePop :: "('x, 'm, 'v, 'c) redis_env \<Rightarrow> string \<Rightarrow> ('x, 'c, 'h) handler \<Rightarrow> ('x, 'c, 'h, unit result option) messaging" where
  "QueuePop env queue handler = do {
     result \<leftarrow> invoke (or_brpop env queue) (BRPopped queue);
     case result of
       Inl err \<Rightarrow> return (Some (Inl err))
     | Inr popped \<Rightarrow> if length popped < 2 then return None else deliver env handler (popped ! 1)
   }"

definition QueuePopNoWait :: "('x, 'm, 'v, 'c) redis_env \<Rightarrow> string \<Rightarrow> ('x, 'c, 'h) handler \<Rightarrow> ('x, 'c, 'h, (bool \<times> unit result) option) messaging" where
  "QueuePopNoWait env queue handler = do {
     r \<leftarrow> invoke (or_rpop env queue) (RPopped queue);
     case r of
       Nil_Reply \<Rightarrow> return (Some (False, Inr ()))
     | Read_Failed err \<Rightarrow> return (Some (False, Inl err))
     | Value val \<Rightarrow> do { d \<leftarrow> deliver env handler val; return (map_option (Pair True) d) }
   }"

text \<open>The answer of \<open>XADD\<close> is returned in the command; the error of \<open>StreamAdd\<close> is that of the encoding.\<close>

definition StreamAdd :: "('x, 'm, 'v, 'c) redis_env \<Rightarrow> string \<Rightarrow> 'm \<Rightarrow> ('x, 'c, 'h, string result result) messaging" where
  "StreamAdd env stream any = do {
     mc \<leftarrow> invoke (or_inject env) Injected;
     case or_json env any of
       Inl err \<Rightarrow> return (Inl err)
     | Inr messageJson \<Rightarrow> (case or_carrier_json env mc of
           Inl err \<Rightarrow> return (Inl err)
         | Inr contextJson \<Rightarrow> do {
             let vs = [(''message'', messageJson), (''context'', contextJson)];
             cmd \<leftarrow> invoke (or_xadd env stream 50 vs) (XAdded stream 50 vs);
             return (Inr cmd)
           })
   }"

definition printed :: "string option \<Rightarrow> string" where
  "printed v = (case v of None \<Rightarrow> ''<nil>'' | Some s \<Rightarrow> s)"

definition first_entry :: "stream_values list list \<Rightarrow> stream_values option" where
  "first_entry streams = (case streams of (vs # _) # _ \<Rightarrow> Some vs | _ \<Rightarrow> None)"

definition deliver_entry :: "('x, 'm, 'v, 'c) redis_env \<Rightarrow> ('x, 'c, 'h) handler \<Rightarrow> stream_values list list \<Rightarrow> ('x, 'c, 'h, unit result option) messaging" where
  "deliver_entry env handler streams =
     (case first_entry streams of
        None \<Rightarrow> return None
      | Some vs \<Rightarrow> (case or_raw env (printed (map_of vs ''message'')) of
            Inl err \<Rightarrow> return (Some (Inl err))
          | Inr msg \<Rightarrow> (case or_carrier env (printed (map_of vs ''context'')) of
                Inl err \<Rightarrow> return (Some (Inl err))
              | Inr mc \<Rightarrow> handler mc msg)))"

definition StreamRead :: "('x, 'm, 'v, 'c) redis_env \<Rightarrow> string \<Rightarrow> ('x, 'c, 'h) handler \<Rightarrow> ('x, 'c, 'h, unit result option) messaging" where
  "StreamRead env stream handler = do {
     result \<leftarrow> invoke (or_xread env stream) (XRead stream);
     case result of
       Inl err \<Rightarrow> return (Some (Inl err))
     | Inr streams \<Rightarrow> deliver_entry env (\<lambda>mc msg. handler mc (or_compact env msg)) streams
   }"

definition StreamGroupRead :: "('x, 'm, 'v, 'c) redis_env \<Rightarrow> string \<Rightarrow> string \<Rightarrow> string \<Rightarrow> ('x, 'c, 'h) handler
    \<Rightarrow> ('x, 'c, 'h, unit result option) messaging" where
  "StreamGroupRead env stream groupId consumerId handler = do {
     result \<leftarrow> invoke (or_xreadgroup env stream groupId consumerId) (XReadGroup stream groupId consumerId);
     case result of
       Inl err \<Rightarrow> return (Some (Inl err))
     | Inr streams \<Rightarrow> deliver_entry env handler streams
   }"

definition Pub :: "('x, 'm, 'v, 'c) redis_env \<Rightarrow> string \<Rightarrow> 'm \<Rightarrow> ('x, 'c, 'h, int result result) messaging" where
  "Pub env channel any = do {
     mc \<leftarrow> invoke (or_inject env) Injected;
     case or_envelope env any mc of
       Inl err \<Rightarrow> return (Inl err)
     | Inr marshal \<Rightarrow> do {
         cmd \<leftarrow> invoke (or_publish env channel marshal) (Publishing channel marshal);
         return (Inr cmd)
       }
   }"

definition Recv :: "('x, 'm, 'v, 'c) redis_env \<Rightarrow> ('x, 'c, 'h) handler \<Rightarrow> ('x, 'c, 'h, unit result option) messaging" where
  "Recv env handler = do {
     message \<leftarrow> invoke (or_receive env) Received;
     case message of
       Inl err \<Rightarrow> return (Some (Inl err))
     | Inr payload \<Rightarrow> deliver env handler payload
   }"

section \<open>Host names\<close>

lemma fqdnHost_idem:
  assumes "\<And>h. parse_ip (h @ ''.'') = False"
  shows "fqdnHost parse_ip (fqdnHost parse_ip host) = fqdnHost parse_ip host"
  using assms by (simp add: fqdnHost_def has_suffix_def)

section \<open>What the queues keep\<close>

text \<open>The documented behaviour of redis lists the queues rely on, while redis answers: \<open>LPUSH\<close> puts a
  value at the head of a list, \<open>RPOP\<close> takes the one at its end.\<close>

definition serves_queues :: "('x, 'm, 'v, 'c) redis_env \<Rightarrow> ('x \<Rightarrow> string \<Rightarrow> string list) \<Rightarrow> bool" where
  "serves_queues env stored \<longleftrightarrow>
     (\<forall>x. stored (snd (or_inject env x)) = stored x)
   \<and> (\<forall>q s x. \<exists>n. fst (or_lpush env q s x) = Inr n \<and> stored (snd (or_lpush env q s x)) = (stored x)(q := s # stored x q))
   \<and> (\<forall>q x. stored x q = [] \<longrightarrow> fst (or_rpop env q x) = Nil_Reply \<and> stored (snd (or_rpop env q x)) = stored x)
   \<and> (\<forall>q x ss s. stored x q = ss @ [s] \<longrightarrow> fst (or_rpop env q x) = Value s \<and> stored (snd (or_rpop env q x)) = (stored x)(q := ss))"

text \<open>A decoded envelope holds the context of its sender and a value whose JSON is that of the message.\<close>

definition opens_envelopes :: "('x, 'm, 'v, 'c) redis_env \<Rightarrow> ('m \<Rightarrow> string) \<Rightarrow> bool" where
  "opens_envelopes env message \<longleftrightarrow> (\<forall>m c. \<exists>s v. or_envelope env m c = Inr s \<and> or_open env s = Inr (v, c) \<and> or_message_json env v = Inr (message m))"

fun push_all :: "('x, 'm, 'v, 'c) redis_env \<Rightarrow> string \<Rightarrow> 'm list \<Rightarrow> ('x, 'c, 'h, unit) messaging" where
  "push_all env q [] = return ()"
| "push_all env q (m # ms) = do { _ \<leftarrow> QueuePush env q m; push_all env q ms }"

definition recording :: "('x, 'c, 'c \<times> string) handler" where
  "recording c raw = do { _ \<leftarrow> invoke (\<lambda>x. ((), x)) (\<lambda>_. Handled (c, raw)); return (Some (Inr ())) }"

fun pop_all :: "('x, 'm, 'v, 'c) redis_env \<Rightarrow> string \<Rightarrow> nat \<Rightarrow> ('x, 'c, 'c \<times> string, unit) messaging" where
  "pop_all env q 0 = return ()"
| "pop_all env q (Suc n) = do { _ \<leftarrow> QueuePopNoWait env q recording; pop_all env q n }"

fun handled_message :: "('c, 'c \<times> string) redis_event \<Rightarrow> string option" where
  "handled_message (Handled (c, raw)) = Some raw"
| "handled_message ev = None"

definition handled_messages :: "('c, 'c \<times> string) redis_event list \<Rightarrow> string list" where
  "handled_messages tr = List.map_filter handled_message tr"

lemma handled_messages_simps [simp]:
  "handled_messages [] = []"
  "handled_messages (tr @ tr') = handled_messages tr @ handled_messages tr'"
  "handled_messages (ev # tr) = (case handled_message ev of None \<Rightarrow> handled_messages tr | Some m \<Rightarrow> m # handled_messages tr)"
  by (simp_all add: handled_messages_def List.map_filter_def split: option.split)

definition sealed_as :: "('x, 'm, 'v, 'c) redis_env \<Rightarrow> ('m \<Rightarrow> string) \<Rightarrow> 'm \<Rightarrow> string \<Rightarrow> bool" where
  "sealed_as env message m s \<longleftrightarrow> (\<exists>v c. or_open env s = Inr (v, c) \<and> or_message_json env v = Inr (message m))"

lemma run_push_all:
  fixes env :: "('x, 'm, 'v, 'c) redis_env" and w :: "('x, ('c, 'c \<times> string) redis_event) world"
  assumes "serves_queues env stored" "opens_envelopes env message"
  shows "\<exists>ss. list_all2 (sealed_as env message) ms ss
     \<and> stored (ext (snd (run_state (push_all env q ms) w))) q = rev ss @ stored (ext w) q
     \<and> handled_messages (log (snd (run_state (push_all env q ms) w))) = handled_messages (log w)"
proof (induction ms arbitrary: w)
  case (Cons m ms)
  let ?p = "QueuePush env q m :: ('x, 'c, 'c \<times> string, int result) messaging"
  let ?mc = "fst (or_inject env (ext w))"
  obtain s v where s: "or_envelope env m ?mc = Inr s" "or_open env s = Inr (v, ?mc)" "or_message_json env v = Inr (message m)"
    using assms(2) unfolding opens_envelopes_def by blast
  have st: "stored (ext (snd (run_state ?p w))) q = s # stored (ext w) q"
    using assms(1) s by (simp add: QueuePush_def serves_queues_def)
  have h: "handled_messages (log (snd (run_state ?p w))) = handled_messages (log w)"
    using s by (simp add: QueuePush_def)
  from Cons.IH[of "snd (run_state ?p w)"] obtain ss where "list_all2 (sealed_as env message) ms ss"
     "stored (ext (snd (run_state (push_all env q ms) (snd (run_state ?p w))))) q = rev ss @ stored (ext (snd (run_state ?p w))) q"
     "handled_messages (log (snd (run_state (push_all env q ms) (snd (run_state ?p w))))) = handled_messages (log (snd (run_state ?p w)))" by blast
  moreover have "sealed_as env message m s" using s unfolding sealed_as_def by blast
  ultimately show ?case using st h by (intro exI[of _ "s # ss"]) (simp add: case_prod_beta)
qed simp

lemma run_pop_one:
  assumes "serves_queues env stored"
  shows "stored (ext w) q = [] \<Longrightarrow> stored (ext (snd (run_state (QueuePopNoWait env q recording) w))) q = []
      \<and> handled_messages (log (snd (run_state (QueuePopNoWait env q recording) w))) = handled_messages (log w)"
    and "stored (ext w) q = ss @ [s] \<Longrightarrow> sealed_as env message m s
      \<Longrightarrow> stored (ext (snd (run_state (QueuePopNoWait env q recording) w))) q = ss
      \<and> handled_messages (log (snd (run_state (QueuePopNoWait env q recording) w))) = handled_messages (log w) @ [message m]"
  using assms by (auto simp: QueuePopNoWait_def serves_queues_def deliver_def recording_def sealed_as_def)

lemma run_pop_all:
  assumes "serves_queues env stored" "list_all2 (sealed_as env message) ms ss" "stored (ext w) q = rev ss"
  shows "handled_messages (log (snd (run_state (pop_all env q n) w))) = handled_messages (log w) @ map message (take n ms)"
  using assms(2,3)
proof (induction n arbitrary: ms ss w)
  case (Suc n)
  let ?w = "snd (run_state (QueuePopNoWait env q recording) w)"
  show ?case
  proof (cases ms)
    case Nil
    then show ?thesis using Suc.IH[of "[]" "[]" ?w] run_pop_one(1)[OF assms(1), of w q] Suc.prems by (simp add: case_prod_beta)
  next
    case (Cons m ms')
    then obtain s ss' where "ss = s # ss'" "sealed_as env message m s" "list_all2 (sealed_as env message) ms' ss'"
      using Suc.prems(1) by (auto simp: list_all2_Cons1)
    then show ?thesis using Suc.IH[of ms' ss' ?w] run_pop_one(2)[OF assms(1), of w q "rev ss'" s message m] Suc.prems(2) Cons
      by (simp add: case_prod_beta)
  qed
qed simp

text \<open>A queue hands on every message once, in the order of the pushes: when a list of messages is pushed on an
  empty queue and popped at least as many times, the handlers are given the JSON of each message, in that order,
  and the pops beyond give none.\<close>

theorem queue_fifo:
  fixes env :: "('x, 'm, 'v, 'c) redis_env"
  assumes "serves_queues env stored" and "opens_envelopes env message" and "stored x q = []" and "length ms \<le> n"
  shows "handled_messages (trace (do { push_all env q ms; pop_all env q n }) x) = map message ms"
proof -
  let ?w = "snd (run_state (push_all env q ms) (fresh_world x :: ('x, ('c, 'c \<times> string) redis_event) world))"
  obtain ss where "list_all2 (sealed_as env message) ms ss" "stored (ext ?w) q = rev ss" "handled_messages (log ?w) = []"
    using run_push_all[OF assms(1,2), of ms q "fresh_world x"] assms(3) by (auto simp: fresh_world_def)
  then show ?thesis
    using run_pop_all[OF assms(1), of message ms ss ?w q n] assms(4) by (simp add: trace_def case_prod_beta)
qed

text \<open>A redis of lists, and envelopes without a context.\<close>

definition list_redis :: "(string \<Rightarrow> string list, string, string, unit) redis_env" where
  "list_redis = \<lparr>or_inject = Pair (), or_envelope = (\<lambda>m c. Inr m), or_open = (\<lambda>s. Inr (s, ())), or_message_json = Inr,
     or_json = Inr, or_carrier_json = (\<lambda>c. Inr []), or_raw = Inr, or_compact = id, or_carrier = (\<lambda>s. Inr ()),
     or_lpush = (\<lambda>q s x. (Inr (int (length (x q)) + 1), x(q := s # x q))),
     or_brpop = (\<lambda>q x. if x q = [] then (Inl Read_Error, x) else (Inr [q, last (x q)], x(q := butlast (x q)))),
     or_rpop = (\<lambda>q x. if x q = [] then (Nil_Reply, x) else (Value (last (x q)), x(q := butlast (x q)))),
     or_xadd = (\<lambda>st n vs x. (Inl Read_Error, x)), or_xread = (\<lambda>st x. (Inr [], x)), or_xreadgroup = (\<lambda>st g c x. (Inr [], x)),
     or_publish = (\<lambda>c s x. (Inr 0, x)), or_receive = Pair (Inl Read_Error)\<rparr>"

lemma list_redis_serves: "serves_queues list_redis (\<lambda>x. x)" "opens_envelopes list_redis id"
  by (auto simp: serves_queues_def opens_envelopes_def list_redis_def)

theorem queue_fifo_witness:
  "handled_messages (trace (do { push_all list_redis ''q'' [''a'', ''b'']; pop_all list_redis ''q'' 3 }) (\<lambda>_. [])) = [''a'', ''b'']"
  using queue_fifo[OF list_redis_serves, of "\<lambda>_. []" "''q''" "[''a'', ''b'']" 3] by simp

text \<open>A push succeeds exactly when redis took it. A stream entry is different: \<open>StreamAdd\<close> fails only
  when it cannot encode, whatever redis answered.\<close>

lemma QueuePush_reports:
  "effect (QueuePush env queue any) (\<lambda>r tr. \<forall>n. r = Inr n \<longleftrightarrow> (\<exists>s. LPushed queue s (Inr n) \<in> set tr))"
  unfolding QueuePush_def by (intro effect_intros) auto

lemma StreamAdd_hides:
  "effect (StreamAdd env stream any) (\<lambda>r tr. (\<exists>cmd. r = Inr cmd) \<longleftrightarrow> (\<exists>vs cmd. XAdded stream 50 vs cmd \<in> set tr))"
  unfolding StreamAdd_def by (intro effect_intros) auto

end
