(* ===== verification/Cdc.thy ===== *)
theory Cdc
  imports Count Retry Otel_Redis "HOL-Library.AList" "HOL-Library.Word"
begin

text \<open>
  lib/cdc/cdc.go: on a signal of zinc the demand of all bookings is read and written to redis as one
  snapshot, and the services that use it are told. Zinc, the snapshot key, json.Marshal, telemetry and
  redis are parameters; the streams are those of \<open>Otel_Redis\<close>. The service runs under the supervision
  of \<open>Retry\<close>.
\<close>

record BookingCountRes =
  bc_Date :: "string option"
  bc_Direction :: "string option"
  bc_TicketsNeeded :: "32 word"
  bc_Time :: "string option"

record cdc_config =
  cdc_Scheme :: string
  cdc_Host :: string
  cdc_Port :: string
  cdc_Group :: string
  cdc_BackoffLimit :: int
  cdc_Parallelism :: int

record stream_config =
  stream_Cdc :: string
  stream_Update :: string
  stream_Enrich :: string
  stream_Reserver :: string

datatype cdc_event =
    Cdc_Group string string
  | Cdc_Configured "unit result"
  | Cdc_Shutdown "unit result"
  | Zinc_Counts string "BookingCountRes list body result"
  | Counts_Set string string "unit result"
  | Cdc_Slept duration

record ('x, 'v, 'c) cdc_env =
  cdc_redis :: "('x, string, 'v, 'c) redis_env"
  cdc_client :: "string \<Rightarrow> unit result"
  cdc_counts :: "string \<Rightarrow> 'x \<Rightarrow> BookingCountRes list body result \<times> 'x"
  cdc_marshal :: "count \<Rightarrow> string result"
  cdc_set :: "string \<Rightarrow> string \<Rightarrow> 'x \<Rightarrow> unit result \<times> 'x"
  cdc_create_group :: "string \<Rightarrow> string \<Rightarrow> 'x \<Rightarrow> unit \<times> 'x"
  cdc_configure :: "'x \<Rightarrow> unit result \<times> 'x"
  cdc_shutdown :: "'x \<Rightarrow> unit result \<times> 'x"
  cdc_sleep :: "duration \<Rightarrow> 'x \<Rightarrow> unit \<times> 'x"
  cdc_config :: cdc_config
  cdc_stream :: stream_config
  cdc_ps :: string

type_synonym ('x, 'c, 'a) cdc_proc = "('x, ('c, cdc_event) redis_event, 'a) proc"

section \<open>The snapshot\<close>

text \<open>\<open>counts[dir][date][t] = n\<close>, the inner maps made when they are missing.\<close>

definition entry_of :: "'a \<Rightarrow> ('a \<times> 'b list) list \<Rightarrow> 'b list" where
  "entry_of k m = (case map_of m k of None \<Rightarrow> [] | Some v \<Rightarrow> v)"

definition set_count :: "string \<Rightarrow> string \<Rightarrow> string \<Rightarrow> int \<Rightarrow> count \<Rightarrow> count" where
  "set_count dir day t n counts =
     AList.update dir (AList.update day (AList.update t n (entry_of day (entry_of dir counts))) (entry_of dir counts)) counts"

text \<open>\<open>None\<close> is the panic on a missing direction, date or time.\<close>

fun count_all :: "BookingCountRes list \<Rightarrow> count \<Rightarrow> count option" where
  "count_all [] counts = Some counts"
| "count_all (d # ds) counts =
     (case (bc_Direction d, bc_Date d, bc_Time d) of
        (Some dir, Some day, Some t) \<Rightarrow> count_all ds (set_count dir day t (sint (bc_TicketsNeeded d)) counts)
      | _ \<Rightarrow> None)"

definition cdc_endpoint :: "cdc_config \<Rightarrow> string" where
  "cdc_endpoint cfg = cdc_Scheme cfg @ ''://'' @ cdc_Host cfg @ '':'' @ cdc_Port cfg"

definition cdc_sync :: "('x, 'v, 'c) cdc_env \<Rightarrow> ('x, 'c, unit result option) cdc_proc" where
  "cdc_sync env =
     (let endpoint = cdc_endpoint (cdc_config env) in
      case cdc_client env endpoint of
        Inl er \<Rightarrow> return (Some (Inl er))
      | Inr _ \<Rightarrow> do {
          resp \<leftarrow> invoke (cdc_counts env endpoint) (\<lambda>r. Handled (Zinc_Counts endpoint r));
          case resp of
            Inl er \<Rightarrow> return (Some (Inl er))
          | Inr b \<Rightarrow> (case b of
                Unreadable \<Rightarrow> return (Some (Inl Read_Error))
              | Garbled \<Rightarrow> return (Some (Inl Decode_Error))
              | Decoded data \<Rightarrow> (case count_all data [] of
                    None \<Rightarrow> return None
                  | Some counts \<Rightarrow> (case cdc_marshal env counts of
                        Inl er \<Rightarrow> return (Some (Inl er))
                      | Inr out \<Rightarrow> do {
                          let key = cdc_ps env @ '':count'';
                          r \<leftarrow> invoke (cdc_set env key out) (\<lambda>r. Handled (Counts_Set key out r));
                          case r of
                            Inl er \<Rightarrow> return (Some (Inl er))
                          | Inr _ \<Rightarrow> do {
                              cmd \<leftarrow> StreamAdd (cdc_redis env) (stream_Update (cdc_stream env)) ''ping'';
                              return (Some (case cmd of Inl redErr \<Rightarrow> Inl redErr | Inr _ \<Rightarrow> Inr ()))
                            }
                        })))
        })"

section \<open>The service\<close>

definition cdc_loop :: "('x, 'v, 'c) cdc_env \<Rightarrow> string \<Rightarrow> ('x, 'c, (bool \<times> error option) option) cdc_proc" where
  "cdc_loop env consumerId = do {
     shutdown \<leftarrow> invoke (cdc_configure env) (\<lambda>r. Handled (Cdc_Configured r));
     case shutdown of
       Inl err \<Rightarrow> return (Some (True, Some err))
     | Inr _ \<Rightarrow> do {
         r \<leftarrow> StreamGroupRead (cdc_redis env) (stream_Cdc (cdc_stream env)) (cdc_Group (cdc_config env)) consumerId (\<lambda>ctx message. cdc_sync env);
         deferErr \<leftarrow> invoke (cdc_shutdown env) (\<lambda>r. Handled (Cdc_Shutdown r));
         return (case (r, deferErr) of
             (Some res, Inr _) \<Rightarrow> Some (False, case res of Inl err \<Rightarrow> Some err | Inr _ \<Rightarrow> None)
           | _ \<Rightarrow> None)
       }
   }"

definition cdc_Start :: "('x, 'v, 'c) cdc_env \<Rightarrow> string \<Rightarrow> nat \<Rightarrow> ('x, 'c, unit result option) cdc_proc" where
  "cdc_Start env consumerId rounds = do {
     let group = cdc_Group (cdc_config env);
     _ \<leftarrow> invoke (cdc_create_group env (stream_Cdc (cdc_stream env)) group) (\<lambda>_. Handled (Cdc_Group (stream_Cdc (cdc_stream env)) group));
     supervise (\<lambda>d. invoke (cdc_sleep env d) (\<lambda>_. Handled (Cdc_Slept d))) (cdc_loop env consumerId)
       (cdc_BackoffLimit (cdc_config env)) rounds 0
   }"

section \<open>What the snapshot holds\<close>

definition slot_entry :: "BookingCountRes \<Rightarrow> ((string \<times> string \<times> string) \<times> int) option" where
  "slot_entry d = (case (bc_Direction d, bc_Date d, bc_Time d) of
       (Some dir, Some day, Some t) \<Rightarrow> Some ((dir, day, t), sint (bc_TicketsNeeded d))
     | _ \<Rightarrow> None)"

lemma demand_entry_of: "demand c dir day t = map_of (entry_of day (entry_of dir c)) t"
  by (auto simp: demand_def entry_of_def split: option.split)

lemma map_of_update: "map_of (AList.update k v m) k' = (if k' = k then Some v else map_of m k')"
  by (simp add: AList.update_conv')

lemma entry_of_update: "entry_of k' (AList.update k v m) = (if k' = k then v else entry_of k' m)"
  by (simp add: entry_of_def map_of_update)

lemma demand_set_count:
  "demand (set_count dir day t n c) dir' day' t' = (if (dir', day', t') = (dir, day, t) then Some n else demand c dir' day' t')"
  by (auto simp: demand_entry_of set_count_def entry_of_update map_of_update)

lemma set_update: "AList.update k v m = xs \<Longrightarrow> set (map snd xs) \<subseteq> insert v (set (map snd m))"
  by (induction m arbitrary: xs) (force split: if_splits)+

lemma entry_of_cases: "entry_of k m = [] \<or> entry_of k m \<in> set (map snd m)"
  by (cases "map_of m k") (auto simp: entry_of_def dest: map_of_SomeD intro: rev_image_eqI)

lemma wf_set_count:
  assumes "wf_count c" shows "wf_count (set_count dir day t n c)"
proof -
  let ?ds = "entry_of dir c" and ?ts = "entry_of day (entry_of dir c)"
  have d: "distinct (map fst ?ds)" "\<forall>tc \<in> set (map snd ?ds). distinct (map fst tc)"
    using assms entry_of_cases[of dir c] unfolding wf_count_def by force+
  have t: "distinct (map fst ?ts)" using d(2) entry_of_cases[of day ?ds] by auto
  have "\<forall>tc \<in> set (map snd (AList.update day (AList.update t n ?ts) ?ds)). distinct (map fst tc)"
  proof
    fix tc assume "tc \<in> set (map snd (AList.update day (AList.update t n ?ts) ?ds))"
    then have "tc = AList.update t n ?ts \<or> tc \<in> set (map snd ?ds)" using set_update[OF refl, of day "AList.update t n ?ts" ?ds] by blast
    then show "distinct (map fst tc)" using d(2) t by (auto simp: AList.distinct_update)
  qed
  then show ?thesis
    using assms d(1) set_update[OF refl, of dir "AList.update day (AList.update t n ?ts) ?ds" c]
    by (fastforce simp: wf_count_def set_count_def AList.distinct_update)
qed

lemma count_all_demand:
  "count_all ds c = Some c' \<Longrightarrow> demand c' dir day t =
     (case map_of (rev (List.map_filter slot_entry ds)) (dir, day, t) of None \<Rightarrow> demand c dir day t | Some n \<Rightarrow> Some n)"
  by (induction ds c rule: count_all.induct)
    (auto simp: slot_entry_def demand_set_count map_add_def split: option.splits if_splits)

lemma count_all_wf: "count_all ds c = Some c' \<Longrightarrow> wf_count c \<Longrightarrow> wf_count c'"
  by (induction ds c rule: count_all.induct) (auto simp: wf_set_count split: option.splits)

lemma count_all_defined: "count_all ds c = None \<longleftrightarrow> (\<exists>d \<in> set ds. slot_entry d = None)"
  by (induction ds c rule: count_all.induct) (auto simp: slot_entry_def split: option.splits)

lemma int32_range: "sint (w :: 32 word) \<in> {-2147483648..2147483647}"
  using sint_range_size[of w] by (simp add: word_size)

lemma map_filter_entry: "(k, n) \<in> set (List.map_filter slot_entry ds) \<Longrightarrow> n \<in> {-2147483648..2147483647}"
  using int32_range by (auto simp: List.map_filter_def slot_entry_def split: option.splits)

text \<open>C34: The snapshot of any answer of zinc is a well-formed demand: every direction, date and time is a key once; its
  numbers are 32-bit; and each departure has the number of its last entry in the answer. It is missing
  exactly when an entry lacks its direction, date or time, a nil dereference.\<close>

theorem count_all_snapshot:
  "case count_all data [] of
     None \<Rightarrow> list_ex (\<lambda>d. slot_entry d = None) data
   | Some c \<Rightarrow> wf_count c \<and> list_all (\<lambda>d. slot_entry d \<noteq> None) data
       \<and> (\<forall>dir day t. demand c dir day t = map_of (rev (List.map_filter slot_entry data)) (dir, day, t)
            \<and> pred_option (\<lambda>n. n \<in> {-2147483648..2147483647}) (demand c dir day t))"
proof (cases "count_all data []")
  case None
  then show ?thesis using count_all_defined[of data "[]"] by (auto simp: list_ex_iff)
next
  case (Some c)
  have d: "demand c dir day t = map_of (rev (List.map_filter slot_entry data)) (dir, day, t)" for dir day t
    using count_all_demand[OF Some] by (simp add: demand_def split: option.split)
  have "pred_option (\<lambda>n. n \<in> {-2147483648..2147483647}) (demand c dir day t)" for dir day t
    unfolding d using map_filter_entry[of "(dir, day, t)" _ data]
    by (cases "map_of (rev (List.map_filter slot_entry data)) (dir, day, t)") (auto dest!: map_of_SomeD)
  moreover have "list_all (\<lambda>d. slot_entry d \<noteq> None) data"
    using Some count_all_defined[of data "[]"] by (auto simp: list_all_iff)
  moreover have "wf_count c" using count_all_wf[OF Some] by (simp add: wf_count_def)
  ultimately show ?thesis using Some d by simp
qed

section \<open>What the service publishes\<close>

datatype cdc_step = Counted "BookingCountRes list" | Stored string | Notified

fun cdc_step_of :: "('x, 'v, 'c) cdc_env \<Rightarrow> ('c, cdc_event) redis_event \<Rightarrow> cdc_step option" where
  "cdc_step_of env (Handled (Zinc_Counts ep (Inr (Decoded data)))) = Some (Counted data)"
| "cdc_step_of env (Handled (Counts_Set key out (Inr ()))) = (if key = cdc_ps env @ '':count'' then Some (Stored out) else None)"
| "cdc_step_of env (XAdded stream n vs cmd) = Some Notified"
| "cdc_step_of env ev = None"

definition cdc_steps :: "('x, 'v, 'c) cdc_env \<Rightarrow> ('c, cdc_event) redis_event list \<Rightarrow> cdc_step list" where
  "cdc_steps env tr = List.map_filter (cdc_step_of env) tr"

lemma cdc_steps_simps [simp]:
  "cdc_steps env [] = []"
  "cdc_steps env (ev # tr) = (case cdc_step_of env ev of None \<Rightarrow> cdc_steps env tr | Some s \<Rightarrow> s # cdc_steps env tr)"
  "cdc_steps env (tr @ tr') = cdc_steps env tr @ cdc_steps env tr'"
  by (simp_all add: cdc_steps_def split: option.split)

text \<open>How far one signal gets: an answer of zinc, its snapshot in redis, the notice.\<close>

definition sync_round :: "('x, 'v, 'c) cdc_env \<Rightarrow> cdc_step list \<Rightarrow> bool" where
  "sync_round env r \<longleftrightarrow> r = [] \<or> (\<exists>data. r = [Counted data]
     \<or> (\<exists>c out. count_all data [] = Some c \<and> cdc_marshal env c = Inr out
          \<and> (r = [Counted data, Stored out] \<or> r = [Counted data, Stored out, Notified])))"

definition published :: "('x, 'v, 'c) cdc_env \<Rightarrow> ('c, cdc_event) redis_event list \<Rightarrow> bool" where
  "published env tr \<longleftrightarrow> (\<exists>rs. cdc_steps env tr = concat rs \<and> list_all (sync_round env) rs)"

lemma published_append: "published env tr \<Longrightarrow> published env tr' \<Longrightarrow> published env (tr @ tr')"
proof -
  assume "published env tr" "published env tr'"
  then obtain rs rs' where "cdc_steps env tr = concat rs" "list_all (sync_round env) rs"
    "cdc_steps env tr' = concat rs'" "list_all (sync_round env) rs'" unfolding published_def by blast
  then show ?thesis unfolding published_def by (intro exI[of _ "rs @ rs'"]) simp
qed

lemma published_round: "sync_round env (cdc_steps env tr) \<Longrightarrow> published env tr"
  unfolding published_def by (intro exI[of _ "[cdc_steps env tr]"]) simp

lemma published_silent: "cdc_steps env tr = [] \<Longrightarrow> published env tr"
  by (rule published_round) (simp add: sync_round_def)

lemma published_silent_event [simp]:
  "published env []"
  "cdc_step_of env ev = None \<Longrightarrow> published env (ev # tr) = published env tr"
  "cdc_step_of env ev = None \<Longrightarrow> published env (tr @ [ev]) = published env tr"
  by (simp_all add: published_silent) (simp_all add: published_def)

lemma effect_StreamAdd: "effect (StreamAdd (cdc_redis env) stream any) (\<lambda>r tr. cdc_steps env tr = [] \<or> cdc_steps env tr = [Notified])"
  unfolding StreamAdd_def by (intro effect_intros) simp_all

lemma effect_cdc_sync: "effect (cdc_sync env) (\<lambda>_. published env)"
  unfolding cdc_sync_def
proof (intro effect_Let effect_case_sum effect_case_body effect_case_option effect_bind effect_invoke effect_return
    effect_conseq[OF effect_StreamAdd], goal_cases)
qed (auto intro!: published_round simp: sync_round_def split: sum.splits body.splits)

text \<open>Through its whole life the service works in rounds: it stores a snapshot only of the answer zinc
  just gave, and tells the other services only after that snapshot is stored.\<close>

theorem cdc_Start_publishes: "effect (cdc_Start env consumerId rounds) (\<lambda>_. published env)"
proof -
  have read: "effect (StreamGroupRead (cdc_redis env) stream group consumer (\<lambda>ctx message. cdc_sync env)) (\<lambda>_. published env)" for stream group consumer
    unfolding StreamGroupRead_def deliver_entry_def
    by (intro effect_bind effect_invoke effect_case_sum effect_case_option effect_return effect_conseq[OF effect_cdc_sync])
      simp_all
  have round: "effect (cdc_loop env consumerId) (\<lambda>_. published env)"
    unfolding cdc_loop_def
    by (intro effect_bind effect_invoke effect_case_sum effect_return effect_conseq[OF read])
      simp_all
  have all: "effect (supervise (\<lambda>d. invoke (cdc_sleep env d) (\<lambda>_. Handled (Cdc_Slept d))) (cdc_loop env consumerId) limit rounds 0) (\<lambda>_. published env)" for limit
    by (rule effect_supervise_closed[OF _ round]) (auto intro: published_append effect_invoke)
  show ?thesis unfolding cdc_Start_def
    by (intro effect_Let effect_bind effect_invoke effect_conseq[OF all]) simp
qed

text \<open>A notice redis refused is not reported: the answer of \<open>XADD\<close> stays in the command that
  \<open>StreamAdd\<close> returns, and the handler ends without an error.\<close>

lemma lost_notice_unreported:
  "effect (cdc_sync env) (\<lambda>r tr. (\<exists>stream n vs e. XAdded stream n vs (Inl e) \<in> set tr) \<longrightarrow> r = Some (Inr ()))"
  unfolding cdc_sync_def
proof (intro effect_Let effect_case_sum effect_case_body effect_case_option effect_bind effect_invoke effect_return, goal_cases)
  case (8 endpoint _ resp b data counts out key r)
  have "effect (StreamAdd (cdc_redis env) (stream_Update (cdc_stream env)) ''ping'')
    (\<lambda>r tr. (\<exists>stream n vs e. XAdded stream n vs (Inl e) \<in> set tr) \<longrightarrow> (\<exists>cmd. r = Inr cmd))"
    unfolding StreamAdd_def by (intro effect_intros) auto
  then show ?case by (rule effect_conseq) (auto split: sum.split)
qed (auto split: sum.splits)

end
