(* ===== verification/Pool.thy ===== *)
theory Pool
  imports Ktmb_Types "HOL-Library.AList"
begin

text \<open>
  lib/pool/pool.go: the pool of KTMB sessions, one per configured account, in a redis hash from email to
  sealed session. The redis commands, KTMB's login, sealing and opening are parameters, and so are the
  orders in which Go iterates over its two maps. \<open>None\<close> is a panic of the opening.
\<close>

record Credential =
  cred_Email :: string
  cred_Password :: string

record 'x pool_env =
  pl_hkeys :: "'x \<Rightarrow> string list result \<times> 'x"
  pl_hdel :: "string \<Rightarrow> 'x \<Rightarrow> unit result \<times> 'x"
  pl_hset :: "string \<Rightarrow> string \<Rightarrow> 'x \<Rightarrow> unit result \<times> 'x"
  pl_random :: "'x \<Rightarrow> (string \<times> string) list result \<times> 'x"
  pl_hgetall :: "'x \<Rightarrow> (string \<times> string) list result \<times> 'x"
  pl_login :: "string \<Rightarrow> string \<Rightarrow> 'x \<Rightarrow> LoginRes GenericRes result \<times> 'x"
  pl_encrypt :: "string \<Rightarrow> 'x \<Rightarrow> string result \<times> 'x"
  pl_decrypt :: "string \<Rightarrow> string result option"
  pl_order_current :: "string list \<Rightarrow> string list"
  pl_order_desired :: "(string \<times> Credential) list \<Rightarrow> (string \<times> Credential) list"

datatype pool_event =
    HKeys "string list result"
  | HDel string "unit result"
  | HSet string string "unit result"
  | HRandField "(string \<times> string) list result"
  | HGetAll "(string \<times> string) list result"
  | Pool_Login string string "LoginRes GenericRes result"
  | Pool_Sealed string "string result"

type_synonym ('x, 'a) pooling = "('x, pool_event, 'a) proc"

section \<open>Reconciling\<close>

fun desired_of :: "Credential list \<Rightarrow> (string \<times> Credential) list \<Rightarrow> (string \<times> Credential) list" where
  "desired_of [] desired = desired"
| "desired_of (c # cs) desired =
     (let email = trim_space (cred_Email c) in
      if email = [] then desired_of cs desired else desired_of cs (AList.update email c desired))"

text \<open>A map made from the members of a list has each of them once.\<close>

definition current_of :: "string list \<Rightarrow> string list" where
  "current_of ks = remdups ks"

fun remove_all :: "'x pool_env \<Rightarrow> (string \<times> Credential) list \<Rightarrow> string list \<Rightarrow> ('x, unit result) pooling" where
  "remove_all env desired [] = return (Inr ())"
| "remove_all env desired (email # es) =
     (if map_of desired email \<noteq> None then remove_all env desired es
      else on_ok (invoke (pl_hdel env email) (HDel email)) (\<lambda>_. remove_all env desired es))"

text \<open>One account: \<open>Inr\<close> tells whether it was added.\<close>

definition add_one :: "'x pool_env \<Rightarrow> string \<Rightarrow> Credential \<Rightarrow> ('x, bool result) pooling" where
  "add_one env email cred = do {
     l \<leftarrow> invoke (pl_login env (cred_Email cred) (cred_Password cred)) (Pool_Login (cred_Email cred) (cred_Password cred));
     case l of
       Inl er \<Rightarrow> return (Inr False)
     | Inr login \<Rightarrow>
         if \<not> Status login then return (Inr False)
         else do {
           enc \<leftarrow> invoke (pl_encrypt env (login_UserData (Data login))) (Pool_Sealed (login_UserData (Data login)));
           case enc of
             Inl ee \<Rightarrow> return (Inr False)
           | Inr e \<Rightarrow> on_ok (invoke (pl_hset env email e) (HSet email e)) (\<lambda>_. return (Inr True))
         }
   }"

fun add_all :: "'x pool_env \<Rightarrow> string list \<Rightarrow> (string \<times> Credential) list \<Rightarrow> ('x, unit result) pooling" where
  "add_all env current [] = return (Inr ())"
| "add_all env current ((email, cred) # ds) =
     (if email \<in> set current then add_all env current ds
      else on_ok (add_one env email cred) (\<lambda>_. add_all env current ds))"

definition pool_Sync :: "'x pool_env \<Rightarrow> Credential list \<Rightarrow> ('x, unit result) pooling" where
  "pool_Sync env creds =
     (let desired = desired_of creds [] in
      on_ok (invoke (pl_hkeys env) HKeys) (\<lambda>currentKeys.
        let current = current_of currentKeys in
        on_ok (remove_all env desired (pl_order_current env current)) (\<lambda>_.
          add_all env current (pl_order_desired env desired))))"

section \<open>Reading\<close>

definition Pick :: "'x pool_env \<Rightarrow> ('x, string result option) pooling" where
  "Pick env = do {
     vals \<leftarrow> invoke (pl_random env) HRandField;
     return (case vals of
         Inl err \<Rightarrow> Some (Inl err)
       | Inr [] \<Rightarrow> Some (Inl (Msg ''userData pool is empty''))
       | Inr (v # _) \<Rightarrow> pl_decrypt env (snd v))
   }"

fun open_all :: "'x pool_env \<Rightarrow> (string \<times> string) list \<Rightarrow> (string \<times> string) list \<Rightarrow> string list
    \<Rightarrow> ((string \<times> string) list \<times> string list) option" where
  "open_all env [] out errs = Some (out, errs)"
| "open_all env ((email, enc) # raw) out errs =
     (case pl_decrypt env enc of
        None \<Rightarrow> None
      | Some (Inl de) \<Rightarrow> open_all env raw out (errs @ [email])
      | Some (Inr ud) \<Rightarrow> open_all env raw (AList.update email ud out) errs)"

text \<open>The sessions and the error; the map is \<open>None\<close> (nil) when redis failed.\<close>

definition Get_all :: "'x pool_env \<Rightarrow> ('x, ((string \<times> string) list option \<times> error option) option) pooling" where
  "Get_all env = do {
     raw \<leftarrow> invoke (pl_hgetall env) HGetAll;
     return (case raw of
         Inl err \<Rightarrow> Some (None, Some err)
       | Inr raw \<Rightarrow> map_option (\<lambda>(out, errs).
           (Some out, if errs = [] then None else Some (Msg (''failed to decrypt userData for: '' @ join_with '', '' errs))))
           (open_all env raw [] []))
   }"

section \<open>What a reconciliation does\<close>

fun removal :: "pool_event \<Rightarrow> string option" where
  "removal (HDel email (Inr ())) = Some email"
| "removal ev = None"

fun attempted :: "pool_event \<Rightarrow> (string \<times> string) option" where
  "attempted (Pool_Login email password r) = Some (email, password)"
| "attempted ev = None"

fun written :: "pool_event \<Rightarrow> (string \<times> string) option" where
  "written (HSet email enc r) = Some (email, enc)"
| "written ev = None"

definition login_of :: "Credential \<Rightarrow> string \<times> string" where
  "login_of cred = (cred_Email cred, cred_Password cred)"

text \<open>A value is stored for an account only when it is the sealed session of an accepted login with its credential.\<close>

definition earned :: "(string \<times> Credential) list \<Rightarrow> string list \<Rightarrow> pool_event list \<Rightarrow> bool" where
  "earned desired current tr \<longleftrightarrow> (\<forall>email enc. (email, enc) \<in> set (List.map_filter written tr) \<longrightarrow>
     email \<notin> set current \<and> (\<exists>cred login. (email, cred) \<in> set desired \<and> Status login
       \<and> Pool_Login (cred_Email cred) (cred_Password cred) (Inr login) \<in> set tr
       \<and> Pool_Sealed (login_UserData (Data login)) (Inr enc) \<in> set tr))"

lemma effect_remove_all:
  "effect (remove_all env desired es) (\<lambda>r tr. List.map_filter attempted tr = [] \<and> List.map_filter written tr = []
     \<and> prefix (List.map_filter removal tr) (filter (\<lambda>e. map_of desired e = None) es)
     \<and> (r = Inr () \<longrightarrow> List.map_filter removal tr = filter (\<lambda>e. map_of desired e = None) es))"
proof (induction es)
  case (Cons e es)
  show ?case unfolding remove_all.simps
  proof (rule effect_if)
    assume "map_of desired e \<noteq> None"
    then show "effect (remove_all env desired es) (\<lambda>r tr. List.map_filter attempted tr = [] \<and> List.map_filter written tr = []
     \<and> prefix (List.map_filter removal tr) (filter (\<lambda>e. map_of desired e = None) (e # es))
     \<and> (r = Inr () \<longrightarrow> List.map_filter removal tr = filter (\<lambda>e. map_of desired e = None) (e # es)))"
      by (intro effect_conseq[OF Cons.IH]) auto
  next
    assume "\<not> map_of desired e \<noteq> None"
    then show "effect (on_ok (invoke (pl_hdel env e) (HDel e)) (\<lambda>_. remove_all env desired es))
      (\<lambda>r tr. List.map_filter attempted tr = [] \<and> List.map_filter written tr = []
     \<and> prefix (List.map_filter removal tr) (filter (\<lambda>e. map_of desired e = None) (e # es))
     \<and> (r = Inr () \<longrightarrow> List.map_filter removal tr = filter (\<lambda>e. map_of desired e = None) (e # es)))"
      by (intro effect_on_ok_invoke effect_conseq[OF Cons.IH]) auto
  qed
qed simp

lemma earned_Nil [simp]: "earned ds current []"
  by (simp add: earned_def)

lemma earned_append: "earned ds current tr \<Longrightarrow> earned ds current tr' \<Longrightarrow> earned ds current (tr @ tr')"
  unfolding earned_def map_filter_simps' set_append by blast

lemma earned_mono: "earned ds current tr \<Longrightarrow> earned (d # ds) current tr"
  unfolding earned_def list.set by blast

lemma effect_add_one:
  assumes "email \<notin> set current"
  shows "effect (add_one env email cred) (\<lambda>r tr. List.map_filter removal tr = [] \<and> List.map_filter attempted tr = [login_of cred]
     \<and> earned ((email, cred) # ds) current tr)"
  using assms unfolding add_one_def
  by (intro effect_intros effect_on_ok_invoke) (auto simp: login_of_def earned_def)

lemma effect_add_all:
  "effect (add_all env current ds) (\<lambda>r tr. List.map_filter removal tr = [] \<and> earned ds current tr
     \<and> prefix (List.map_filter attempted tr) (map (\<lambda>d. login_of (snd d)) (filter (\<lambda>d. fst d \<notin> set current) ds))
     \<and> (r = Inr () \<longrightarrow> List.map_filter attempted tr = map (\<lambda>d. login_of (snd d)) (filter (\<lambda>d. fst d \<notin> set current) ds)))"
proof (induction ds)
  case (Cons d ds)
  obtain email cred where d: "d = (email, cred)" by fastforce
  show ?case unfolding d add_all.simps
  proof (rule effect_if)
    assume "email \<in> set current"
    then show "effect (add_all env current ds)
      (\<lambda>r tr. List.map_filter removal tr = [] \<and> earned ((email, cred) # ds) current tr
     \<and> prefix (List.map_filter attempted tr) (map (\<lambda>d. login_of (snd d)) (filter (\<lambda>d. fst d \<notin> set current) ((email, cred) # ds)))
     \<and> (r = Inr () \<longrightarrow> List.map_filter attempted tr = map (\<lambda>d. login_of (snd d)) (filter (\<lambda>d. fst d \<notin> set current) ((email, cred) # ds))))"
      by (intro effect_conseq[OF Cons.IH]) (simp add: earned_mono)
  next
    assume new: "email \<notin> set current"
    show "effect (on_ok (add_one env email cred) (\<lambda>_. add_all env current ds))
      (\<lambda>r tr. List.map_filter removal tr = [] \<and> earned ((email, cred) # ds) current tr
     \<and> prefix (List.map_filter attempted tr) (map (\<lambda>d. login_of (snd d)) (filter (\<lambda>d. fst d \<notin> set current) ((email, cred) # ds)))
     \<and> (r = Inr () \<longrightarrow> List.map_filter attempted tr = map (\<lambda>d. login_of (snd d)) (filter (\<lambda>d. fst d \<notin> set current) ((email, cred) # ds))))"
    proof (rule effect_on_ok_cases[OF effect_add_one[OF new, of env cred ds]], goal_cases)
      case (2 b tr)
      then show ?case using new by (intro effect_conseq[OF Cons.IH]) (auto intro: earned_append earned_mono)
    qed (use new in auto)
  qed
qed simp

definition reconciled :: "'x pool_env \<Rightarrow> Credential list \<Rightarrow> unit result \<Rightarrow> pool_event list \<Rightarrow> bool" where
  "reconciled env creds r tr \<longleftrightarrow> (case tr of
     HKeys (Inr keys) # calls \<Rightarrow>
       (let conf = desired_of creds [];
            gone = filter (\<lambda>e. map_of conf e = None) (pl_order_current env (current_of keys));
            new = filter (\<lambda>d. fst d \<notin> set keys) (pl_order_desired env conf)
        in prefix (List.map_filter removal calls) gone
         \<and> prefix (List.map_filter attempted calls) (map (\<lambda>d. login_of (snd d)) new)
         \<and> earned (pl_order_desired env conf) keys calls
         \<and> (r = Inr () \<longrightarrow> List.map_filter removal calls = gone \<and> List.map_filter attempted calls = map (\<lambda>d. login_of (snd d)) new))
   | _ \<Rightarrow> r \<noteq> Inr () \<and> length tr = 1)"

text \<open>A reconciliation makes the pool follow the configuration: it removes only accounts that are in the pool and no longer
  configured, logs in only configured accounts that are not in the pool, each once and with its own
  credential, and stores for an account only the sealed session of such a login; the others it leaves alone.
  When it succeeds, it has removed all of the former and tried all of the latter.\<close>

theorem pool_Sync_reconciles: "effect (pool_Sync env creds) (reconciled env creds)"
  unfolding pool_Sync_def Let_def
proof (rule effect_on_ok_invoke, simp add: reconciled_def)
  fix keys
  let ?conf = "desired_of creds []"
  show "effect (on_ok (remove_all env ?conf (pl_order_current env (current_of keys)))
      (\<lambda>_. add_all env (current_of keys) (pl_order_desired env ?conf)))
    (\<lambda>r tr. reconciled env creds r (HKeys (Inr keys) # tr))"
  proof (rule effect_on_ok_cases[OF effect_remove_all], goal_cases)
    case (1 e tr)
    then show ?case by (simp add: reconciled_def earned_def Let_def)
  next
    case (2 a tr)
    have k: "set (current_of keys) = set keys" "earned ds (current_of keys) calls = earned ds keys calls" for ds calls
      by (simp_all add: current_of_def earned_def)
    have "earned (pl_order_desired env ?conf) keys tr" using 2 by (simp add: earned_def)
    with 2 show ?case
      by (intro effect_conseq[OF effect_add_all]) (simp add: reconciled_def Let_def k earned_append)
  qed
qed

text \<open>A second reconciliation finds nothing to do: no call but the first when every configured account, and no
  other, is in the pool.\<close>

lemma pool_Sync_idle:
  assumes "fst (pl_hkeys env x) = Inr keys" and "set keys = fst ` set (desired_of creds [])"
    and "set (pl_order_current env (current_of keys)) = set keys"
    and "set (pl_order_desired env (desired_of creds [])) = set (desired_of creds [])"
  shows "outcome (pool_Sync env creds) x = Inr () \<and> trace (pool_Sync env creds) x = [HKeys (Inr keys)]"
proof -
  have rem: "remove_all env conf es = return (Inr ())" if "\<forall>e \<in> set es. map_of conf e \<noteq> None" for conf es
    using that by (induction es) auto
  have add: "add_all env current ds = return (Inr ())" if "fst ` set ds \<subseteq> set current" for current ds
    using that by (induction ds) auto
  have "\<forall>e \<in> set (pl_order_current env (current_of keys)). map_of (desired_of creds []) e \<noteq> None"
    using assms(2,3) by (simp add: map_of_eq_None_iff)
  moreover have "fst ` set (pl_order_desired env (desired_of creds [])) \<subseteq> set (current_of keys)"
    using assms(2,4) by (simp add: current_of_def)
  ultimately show ?thesis
    using assms(1) by (simp add: pool_Sync_def Let_def rem add outcome_def trace_def fresh_world_def)
qed

end
