(* ===== verification/Warm_Pool.thy ===== *)
theory Warm_Pool
  imports Otel_Redis Go_Time
begin

text \<open>
  lib/ktmb/warmpool.go: the DNS cache the KTMB client dials through. The resolver, the dialer and the
  reading of an address (\<open>net.SplitHostPort\<close>, \<open>net.ParseIP\<close>, \<open>url.Parse\<close>) are parameters. The
  warmer, which only sends HEAD requests and drops the answers, is modelled by the URLs it asks.
\<close>

record warm_config =
  PoolSize :: int
  IntervalMs :: int
  DnsRefreshMs :: int

definition msOr :: "int \<Rightarrow> int \<Rightarrow> duration" where
  "msOr ms def = (if ms \<le> 0 then def else ms) * 1000000"

definition warm_interval :: "warm_config \<Rightarrow> duration" where
  "warm_interval w = msOr (IntervalMs w) 30000"

definition warm_dnsRefresh :: "warm_config \<Rightarrow> duration" where
  "warm_dnsRefresh w = msOr (DnsRefreshMs w) 60000"

text \<open>What the program uses of a parsed URL.\<close>

record url_parts =
  url_Scheme :: string
  url_Host :: string
  url_Hostname :: string

definition hostOf :: "(string \<Rightarrow> url_parts result) \<Rightarrow> string \<Rightarrow> string" where
  "hostOf parse rawURL = (case parse rawURL of Inl err \<Rightarrow> rawURL | Inr p \<Rightarrow> url_Hostname p)"

definition rootURL :: "(string \<Rightarrow> url_parts result) \<Rightarrow> string \<Rightarrow> string" where
  "rootURL parse rawURL = (case parse rawURL of Inl err \<Rightarrow> rawURL | Inr p \<Rightarrow> url_Scheme p @ ''://'' @ url_Host p @ ''/'')"

definition fqdn :: "string \<Rightarrow> string" where
  "fqdn host = (if has_suffix host ''.'' then host else host @ ''.'')"

fun dedupe_onto :: "string list \<Rightarrow> string list \<Rightarrow> string list" where
  "dedupe_onto [] out = out"
| "dedupe_onto (s # ss) out = (if s \<in> set out then dedupe_onto ss out else dedupe_onto ss (out @ [s]))"

definition dedupe :: "string list \<Rightarrow> string list" where
  "dedupe ss = dedupe_onto ss []"

section \<open>The cache\<close>

record dns_cache =
  dns_entries :: "string \<rightharpoonup> string list"
  dns_hosts :: "string list"

definition newDNSCache :: dns_cache where
  "newDNSCache = \<lparr>dns_entries = Map.empty, dns_hosts = []\<rparr>"

record ('x, 'c) dial_env =
  dn_split :: "string \<Rightarrow> (string \<times> string) result"
  dn_is_ip :: "string \<Rightarrow> bool"
  dn_lookup :: "string \<Rightarrow> 'x \<Rightarrow> string list result \<times> 'x"
  dn_dial :: "string \<Rightarrow> 'x \<Rightarrow> 'c result \<times> 'x"

datatype 'c dial_event =
    Looked_Up string "string list result"
  | Dialled string "'c result"

type_synonym ('x, 'c, 'a) dialling = "('x, 'c dial_event, 'a) proc"

definition dns_get :: "dns_cache \<Rightarrow> string \<Rightarrow> string list option" where
  "dns_get d host = (case dns_entries d host of Some ips \<Rightarrow> if ips \<noteq> [] then Some ips else None | None \<Rightarrow> None)"

definition dns_set :: "dns_cache \<Rightarrow> string \<Rightarrow> string list \<Rightarrow> dns_cache" where
  "dns_set d host ips = \<lparr>dns_entries = (dns_entries d)(host \<mapsto> ips),
     dns_hosts = (if host \<in> set (dns_hosts d) then dns_hosts d else dns_hosts d @ [host])\<rparr>"

definition dns_resolve :: "('x, 'c) dial_env \<Rightarrow> string \<Rightarrow> ('x, 'c, string list result) dialling" where
  "dns_resolve env host = invoke (dn_lookup env (fqdn host)) (Looked_Up host)"

text \<open>\<open>prime\<close> and one tick of \<open>refreshLoop\<close> do the same for their hosts: a host that does not
  resolve keeps its last addresses.\<close>

fun prime :: "('x, 'c) dial_env \<Rightarrow> dns_cache \<Rightarrow> string list \<Rightarrow> ('x, 'c, dns_cache) dialling" where
  "prime env d [] = return d"
| "prime env d (h # hs) = do {
     r \<leftarrow> dns_resolve env h;
     prime env (case r of Inr ips \<Rightarrow> dns_set d h ips | Inl err \<Rightarrow> d) hs
   }"

definition refresh_tick :: "('x, 'c) dial_env \<Rightarrow> dns_cache \<Rightarrow> ('x, 'c, dns_cache) dialling" where
  "refresh_tick env d = prime env d (dns_hosts d)"

section \<open>Dialling\<close>

text \<open>The addresses in turn: the first connection, or the last error.\<close>

fun dial_each :: "('x, 'c) dial_env \<Rightarrow> string \<Rightarrow> string list \<Rightarrow> error option \<Rightarrow> ('x, 'c, error option + 'c) dialling" where
  "dial_each env port [] lastErr = return (Inl lastErr)"
| "dial_each env port (ip # ips) lastErr = do {
     conn \<leftarrow> invoke (dn_dial env (join_host_port ip port)) (Dialled (join_host_port ip port));
     case conn of Inr c \<Rightarrow> return (Inr c) | Inl derr \<Rightarrow> dial_each env port ips (Some derr)
   }"

definition dial_plain :: "('x, 'c) dial_env \<Rightarrow> string \<Rightarrow> ('x, 'c, 'c result) dialling" where
  "dial_plain env addr = invoke (dn_dial env addr) (Dialled addr)"

definition give_up :: "('x, 'c) dial_env \<Rightarrow> string \<Rightarrow> error option \<Rightarrow> ('x, 'c, 'c result) dialling" where
  "give_up env addr lastErr = (case lastErr of Some e \<Rightarrow> return (Inl e) | None \<Rightarrow> dial_plain env addr)"

definition dial_known :: "('x, 'c) dial_env \<Rightarrow> dns_cache \<Rightarrow> string \<Rightarrow> string \<Rightarrow> string \<Rightarrow> string list \<Rightarrow> ('x, 'c, 'c result \<times> dns_cache) dialling" where
  "dial_known env d addr host port ips = do {
     a \<leftarrow> dial_each env port ips None;
     case a of
       Inr c \<Rightarrow> return (Inr c, d)
     | Inl lastErr \<Rightarrow> do {
         r \<leftarrow> dns_resolve env host;
         case r of
           Inl rerr \<Rightarrow> do { c \<leftarrow> give_up env addr lastErr; return (c, d) }
         | Inr resolved \<Rightarrow> do {
             a2 \<leftarrow> dial_each env port resolved lastErr;
             case a2 of
               Inr c \<Rightarrow> return (Inr c, dns_set d host resolved)
             | Inl lastErr2 \<Rightarrow> do { c \<leftarrow> give_up env addr lastErr2; return (c, dns_set d host resolved) }
           }
       }
   }"

definition dialContext :: "('x, 'c) dial_env \<Rightarrow> dns_cache \<Rightarrow> string \<Rightarrow> ('x, 'c, 'c result \<times> dns_cache) dialling" where
  "dialContext env d addr =
     (case dn_split env addr of
        Inl err \<Rightarrow> do { c \<leftarrow> dial_plain env addr; return (c, d) }
      | Inr (host, port) \<Rightarrow>
          if dn_is_ip env host then do { c \<leftarrow> dial_plain env addr; return (c, d) }
          else (case dns_get d host of
              Some ips \<Rightarrow> dial_known env d addr host port ips
            | None \<Rightarrow> do {
                r \<leftarrow> dns_resolve env host;
                case r of
                  Inl rerr \<Rightarrow> do { c \<leftarrow> dial_plain env addr; return (c, d) }
                | Inr resolved \<Rightarrow> dial_known env (dns_set d host resolved) addr host port resolved
              }))"

section \<open>The pool\<close>

definition primed_hosts :: "(string \<Rightarrow> url_parts result) \<Rightarrow> string \<Rightarrow> string \<Rightarrow> string list" where
  "primed_hosts parse apiUrl appUrl = dedupe [hostOf parse apiUrl, hostOf parse appUrl]"

text \<open>The requests one round of the warmer sends.\<close>

definition warm_requests :: "(string \<Rightarrow> url_parts result) \<Rightarrow> warm_config \<Rightarrow> string \<Rightarrow> string \<Rightarrow> string list" where
  "warm_requests parse w apiUrl appUrl =
     concat (map (replicate (nat (PoolSize w))) (dedupe [rootURL parse apiUrl, rootURL parse appUrl]))"

definition startWarmPool :: "('x, 'c) dial_env \<Rightarrow> (string \<Rightarrow> url_parts result) \<Rightarrow> dns_cache \<Rightarrow> string \<Rightarrow> string \<Rightarrow> ('x, 'c, dns_cache) dialling" where
  "startWarmPool env parse d apiUrl appUrl = prime env d (primed_hosts parse apiUrl appUrl)"

section \<open>Correctness\<close>

lemma dedupe_onto: "distinct out \<Longrightarrow> distinct (dedupe_onto ss out) \<and> set (dedupe_onto ss out) = set out \<union> set ss"
  by (induction ss arbitrary: out) auto

lemma dedupe_sound: "distinct (dedupe ss)" "set (dedupe ss) = set ss"
  using dedupe_onto[of "[]" ss] by (simp_all add: dedupe_def)

fun connection :: "'c dial_event \<Rightarrow> 'c option" where
  "connection (Dialled a (Inr c)) = Some c"
| "connection ev = None"

text \<open>The addresses a host is known to have: those in the cache before, and those looked up since.\<close>

definition known_address :: "dns_cache \<Rightarrow> 'c dial_event list \<Rightarrow> string \<Rightarrow> string \<Rightarrow> bool" where
  "known_address d tr host ip \<longleftrightarrow> (\<exists>ips. ip \<in> set ips \<and> (dns_entries d host = Some ips \<or> Looked_Up host (Inr ips) \<in> set tr))"

definition dial_sound :: "('x, 'c) dial_env \<Rightarrow> dns_cache \<Rightarrow> string \<Rightarrow> 'c result \<times> dns_cache \<Rightarrow> 'c dial_event list \<Rightarrow> bool" where
  "dial_sound env d addr r tr \<longleftrightarrow>
     (case fst r of
        Inr c \<Rightarrow> List.map_filter connection tr = [c]
      | Inl e \<Rightarrow> List.map_filter connection tr = [] \<and> (\<exists>a. Dialled a (Inl e) \<in> set tr))
   \<and> (\<forall>a c. Dialled a c \<in> set tr \<longrightarrow> a = addr
        \<or> (\<exists>host port ip. dn_split env addr = Inr (host, port) \<and> a = join_host_port ip port \<and> known_address d tr host ip))
   \<and> (\<forall>h. dns_entries (snd r) h = dns_entries d h \<or> (\<exists>ips. Looked_Up h (Inr ips) \<in> set tr \<and> dns_entries (snd r) h = Some ips))"

definition tried_each :: "string \<Rightarrow> string list \<Rightarrow> error option \<Rightarrow> error option + 'c \<Rightarrow> 'c dial_event list \<Rightarrow> bool" where
  "tried_each port ips lastErr r tr \<longleftrightarrow>
     (case r of
        Inr c \<Rightarrow> List.map_filter connection tr = [c]
      | Inl e \<Rightarrow> List.map_filter connection tr = [] \<and> (if ips = [] then e = lastErr else \<exists>e' a. e = Some e' \<and> Dialled a (Inl e') \<in> set tr))
   \<and> (\<forall>ev \<in> set tr. \<exists>ip c. ip \<in> set ips \<and> ev = Dialled (join_host_port ip port) c)"

lemma tried_each_simps:
  "tried_each port [] le (Inl le) []"
  "tried_each port (ip # ips) le (Inr c) [Dialled (join_host_port ip port) (Inr c)]"
  "tried_each port ips (Some e) r tr \<Longrightarrow> tried_each port (ip # ips) le r (Dialled (join_host_port ip port) (Inl e) # tr)"
  by (auto simp: tried_each_def split: sum.splits if_splits; blast)+

lemma effect_dial_each: "effect (dial_each env port ips lastErr) (tried_each port ips lastErr)"
proof (induction ips arbitrary: lastErr)
  case (Cons ip ips)
  show ?case unfolding dial_each.simps
    by (rule effect_bind, rule effect_invoke, rule effect_case_sum; (rule effect_conseq[OF Cons.IH])?)
      (simp_all add: tried_each_simps)
qed (simp add: tried_each_simps)

definition hunted :: "('x, 'c) dial_env \<Rightarrow> dns_cache \<Rightarrow> string \<Rightarrow> 'c dial_event list \<Rightarrow> bool" where
  "hunted env d addr tr \<longleftrightarrow> (\<forall>a c. Dialled a c \<in> set tr \<longrightarrow> a = addr
        \<or> (\<exists>host port ip. dn_split env addr = Inr (host, port) \<and> a = join_host_port ip port \<and> known_address d tr host ip))"

definition updated :: "dns_cache \<Rightarrow> dns_cache \<Rightarrow> 'c dial_event list \<Rightarrow> bool" where
  "updated d d' tr \<longleftrightarrow> (\<forall>h. dns_entries d' h = dns_entries d h \<or> (\<exists>ips. Looked_Up h (Inr ips) \<in> set tr \<and> dns_entries d' h = Some ips))"

definition result_logged :: "'c result \<Rightarrow> 'c dial_event list \<Rightarrow> bool" where
  "result_logged r tr \<longleftrightarrow> (case r of
        Inr c \<Rightarrow> List.map_filter connection tr = [c]
      | Inl e \<Rightarrow> List.map_filter connection tr = [] \<and> (\<exists>a. Dialled a (Inl e) \<in> set tr))"

lemma dial_sound_iff: "dial_sound env d addr r tr \<longleftrightarrow> result_logged (fst r) tr \<and> hunted env d addr tr \<and> updated d (snd r) tr"
  by (simp add: dial_sound_def hunted_def updated_def result_logged_def)

lemma hunted_simps:
  "hunted env d addr []"
  "hunted env d addr tr \<Longrightarrow> hunted env d addr (tr @ [Looked_Up h r])"
  "hunted env d addr tr \<Longrightarrow> hunted env d addr (tr @ [Dialled addr c])"
  by (auto simp: hunted_def known_address_def) blast+

lemma hunted_each:
  assumes "hunted env d addr tr" "tried_each port ips le r tr'" "dn_split env addr = Inr (host, port)"
    and "\<And>ip. ip \<in> set ips \<Longrightarrow> known_address d tr host ip"
  shows "hunted env d addr (tr @ tr')"
proof -
  have mono: "known_address d tr h ip \<Longrightarrow> known_address d (tr @ tr') h ip" for h ip by (auto simp: known_address_def)
  have "\<exists>ip. a = join_host_port ip port \<and> known_address d tr host ip" if "Dialled a c \<in> set tr'" for a c
    using assms(2,4) that unfolding tried_each_def by fastforce
  then show ?thesis using assms(1,3) mono unfolding hunted_def set_append Un_iff by metis
qed

lemma updated_simps:
  "updated d d []"
  "updated d d' tr \<Longrightarrow> updated d d' (tr @ tr')"
  "updated d d' tr \<Longrightarrow> Looked_Up host (Inr ips) \<in> set tr \<Longrightarrow> updated d (dns_set d' host ips) tr"
  unfolding updated_def dns_set_def by auto

lemma effect_give_up:
  "effect (give_up env addr le) (\<lambda>r tr. case le of Some e \<Rightarrow> r = Inl e \<and> tr = [] | None \<Rightarrow> tr = [Dialled addr r])"
  unfolding give_up_def dial_plain_def by (auto split: option.split intro: effect_invoke)

lemma sound_give_up:
  fixes env :: "('x, 'c) dial_env"
  assumes "hunted env d addr tr" "updated d d' tr" "List.map_filter connection tr = []"
    and "\<And>e. le = Some e \<Longrightarrow> \<exists>a. Dialled a (Inl e) \<in> set tr"
  shows "effect (do { c \<leftarrow> give_up env addr le; return (c, d') }) (\<lambda>r tr'. dial_sound env d addr r (tr @ tr'))"
proof (rule effect_bind, rule effect_conseq[OF effect_give_up], rule effect_return)
  fix r :: "'c result" and tr' assume g: "case le of Some e \<Rightarrow> r = Inl e \<and> tr' = [] | None \<Rightarrow> tr' = [Dialled addr r]"
  show "dial_sound env d addr (r, d') (tr @ tr' @ [])"
  proof (cases le)
    case None
    then show ?thesis using g assms(1-3) hunted_simps(3)[OF assms(1), of r] updated_simps(2)[OF assms(2)]
      by (cases r) (auto simp: dial_sound_iff result_logged_def)
  next
    case (Some e)
    then show ?thesis using g assms by (auto simp: dial_sound_iff result_logged_def)
  qed
qed

lemma known_set: "ip \<in> set ips \<Longrightarrow> Looked_Up host (Inr ips) \<in> set tr \<Longrightarrow> known_address d tr host ip"
  by (auto simp: known_address_def)

text \<open>The second half: dialling what the host resolved to, after \<open>tr\<close> and the last error \<open>le\<close>.\<close>

lemma effect_dial_resolved:
  fixes env :: "('x, 'c) dial_env"
  assumes split: "dn_split env addr = Inr (host, port)"
    and known: "\<And>ip. ip \<in> set resolved \<Longrightarrow> known_address d0 tr host ip"
    and start: "hunted env d0 addr tr" "updated d0 d tr" "List.map_filter connection tr = []"
    and err: "\<And>e. le = Some e \<Longrightarrow> \<exists>a. Dialled a (Inl e) \<in> set tr"
  shows "effect (do {
           a \<leftarrow> dial_each env port resolved le;
           case a of
             Inr c \<Rightarrow> return (Inr c, d)
           | Inl le' \<Rightarrow> do { c \<leftarrow> give_up env addr le'; return (c, d) }
         }) (\<lambda>r tr'. dial_sound env d0 addr r (tr @ tr'))"
proof (rule effect_bind, rule effect_conseq[OF effect_dial_each], rule effect_case_sum)
  fix a :: "error option + 'c" and tr2 le2 assume t: "tried_each port resolved le a tr2" and a: "a = Inl le2"
  have h: "hunted env d0 addr (tr @ tr2)" by (rule hunted_each[OF start(1) t split known])
  have "\<exists>a. Dialled a (Inl e) \<in> set (tr @ tr2)" if "le2 = Some e" for e
    using t that err by (auto simp: tried_each_def a split: if_splits)
  moreover have "List.map_filter connection (tr @ tr2) = []" using t start(3) by (simp add: tried_each_def a)
  ultimately show "effect (do { c \<leftarrow> give_up env addr le2; return (c, d) }) (\<lambda>r tr'. dial_sound env d0 addr r (tr @ tr2 @ tr'))"
    using sound_give_up[OF h updated_simps(2)[OF start(2)], of le2] by simp
next
  fix a :: "error option + 'c" and tr2 c assume t: "tried_each port resolved le a tr2" and a: "a = Inr c"
  have "hunted env d0 addr (tr @ tr2)" by (rule hunted_each[OF start(1) t split known])
  then show "effect (return (Inr c, d)) (\<lambda>r tr'. dial_sound env d0 addr r (tr @ tr2 @ tr'))"
    using t start(3) updated_simps(2)[OF start(2), of tr2] by (simp add: dial_sound_iff result_logged_def tried_each_def a)
qed

lemma effect_dial_known:
  fixes env :: "('x, 'c) dial_env"
  assumes split: "dn_split env addr = Inr (host, port)"
    and known: "\<And>ip. ip \<in> set ips \<Longrightarrow> known_address d0 tr0 host ip"
    and start: "hunted env d0 addr tr0" "updated d0 d tr0" "List.map_filter connection tr0 = []"
  shows "effect (dial_known env d addr host port ips) (\<lambda>r tr. dial_sound env d0 addr r (tr0 @ tr))"
  unfolding dial_known_def dns_resolve_def
proof (rule effect_bind, rule effect_conseq[OF effect_dial_each], rule effect_case_sum, rule effect_bind, rule effect_invoke, rule effect_case_sum)
  fix a :: "error option + 'c" and tr1 le and r :: "string list result"
  assume t: "tried_each port ips None a tr1" and a: "a = Inl le"
  let ?tr = "tr0 @ tr1 @ [Looked_Up host r]"
  have h: "hunted env d0 addr ?tr" using hunted_simps(2)[OF hunted_each[OF start(1) t split known]] by simp
  have e: "\<exists>a. Dialled a (Inl e) \<in> set ?tr" if "le = Some e" for e
    using t that by (auto simp: tried_each_def a split: if_splits)
  have c: "List.map_filter connection ?tr = []" using t start(3) by (simp add: tried_each_def a)
  have u: "updated d0 d ?tr" by (rule updated_simps(2)[OF start(2)])
  show "effect (do { c \<leftarrow> give_up env addr le; return (c, d) }) (\<lambda>c tr. dial_sound env d0 addr c (tr0 @ tr1 @ [Looked_Up host r] @ tr))"
    using sound_give_up[OF h u, of le] c e by simp
  fix resolved assume r: "r = Inr resolved"
  have u2: "updated d0 (dns_set d host resolved) ?tr" by (rule updated_simps(3)[OF u]) (simp add: r)
  have "known_address d0 ?tr host ip" if "ip \<in> set resolved" for ip
    using that by (rule known_set) (simp add: r)
  from effect_dial_resolved[OF split this h u2 c e]
  show "effect (do {
             a2 \<leftarrow> dial_each env port resolved le;
             case a2 of
               Inr c \<Rightarrow> return (Inr c, dns_set d host resolved)
             | Inl lastErr2 \<Rightarrow> do { c \<leftarrow> give_up env addr lastErr2; return (c, dns_set d host resolved) }
           }) (\<lambda>c tr. dial_sound env d0 addr c (tr0 @ tr1 @ [Looked_Up host r] @ tr))" by simp
next
  fix a :: "error option + 'c" and tr1 c assume t: "tried_each port ips None a tr1" and a: "a = Inr c"
  have "hunted env d0 addr (tr0 @ tr1)" by (rule hunted_each[OF start(1) t split known])
  then show "effect (return (Inr c, d)) (\<lambda>r tr. dial_sound env d0 addr r (tr0 @ tr1 @ tr))"
    using t start(3) updated_simps(2)[OF start(2)] by (simp add: dial_sound_iff result_logged_def tried_each_def a)
qed

text \<open>Dialling through the cache gives the first connection it makes and makes no other, or the error of a dial after none
  succeeded; it dials the address it was given, or addresses the cache had for its host or a lookup in this call gave;
  and it changes the cache only to what such a lookup gave.\<close>

theorem dialContext_sound: "effect (dialContext env d addr) (dial_sound env d addr)"
proof -
  have plain: "effect (do { c \<leftarrow> dial_plain env addr; return (c, d) }) (\<lambda>r tr. dial_sound env d addr r tr)"
    unfolding dial_plain_def
    by (intro effect_bind effect_invoke effect_return)
      (auto simp: dial_sound_def split: sum.split)
  show ?thesis unfolding dialContext_def dns_resolve_def
  proof (intro effect_case_sum effect_case_prod effect_if effect_case_option, goal_cases)
    case (3 p host port)
    show ?case
    proof (rule effect_bind, rule effect_invoke, rule effect_case_sum)
      fix r rerr
      show "effect (do { c \<leftarrow> dial_plain env addr; return (c, d) }) (\<lambda>c tr. dial_sound env d addr c ([Looked_Up host r] @ tr))"
        unfolding dial_plain_def
        by (intro effect_bind effect_invoke effect_return) (auto simp: dial_sound_def split: sum.split)
    next
      fix r :: "string list result" and resolved assume r: "r = Inr resolved"
      have "updated d (dns_set d host resolved) [Looked_Up host r]"
        by (rule updated_simps(3)) (simp_all add: updated_def r)
      then show "effect (dial_known env (dns_set d host resolved) addr host port resolved) (\<lambda>c tr. dial_sound env d addr c ([Looked_Up host r] @ tr))"
        using 3 by (intro effect_dial_known) (auto simp: r known_address_def hunted_def)
    qed
  next
    case (4 p host port ips)
    then have k: "known_address d [] host ip" if "ip \<in> set ips" for ip
      using that by (auto simp: dns_get_def known_address_def split: option.splits if_splits)
    have "dn_split env addr = Inr (host, port)" using 4 by simp
    from effect_dial_known[OF this k hunted_simps(1) updated_simps(1)] show ?case by simp
  qed (rule plain)+
qed

text \<open>When every address failed and the host no longer resolves, the last error is returned: there is no plain dial.\<close>

lemma dialContext_no_fallback:
  "dn_split env addr = Inr (host, port) \<Longrightarrow> \<not> dn_is_ip env host \<Longrightarrow> dns_entries d host = Some (ip # ips)
    \<Longrightarrow> (\<And>a x. dn_dial env a x = (Inl e, x)) \<Longrightarrow> (\<And>h x. dn_lookup env h x = (Inl e', x))
    \<Longrightarrow> trace (dialContext env d addr) x = map (\<lambda>ip. Dialled (join_host_port ip port) (Inl e)) (ip # ips) @ [Looked_Up host (Inl e')]"
proof -
  assume a: "dn_split env addr = Inr (host, port)" "\<not> dn_is_ip env host" "dns_entries d host = Some (ip # ips)"
    "\<And>a x. dn_dial env a x = (Inl e, x)" "\<And>h x. dn_lookup env h x = (Inl e', x)"
  have each: "run_state (dial_each env port is le) w = (Inl (if is = [] then le else Some e),
      w\<lparr>log := log w @ map (\<lambda>ip. Dialled (join_host_port ip port) (Inl e)) is\<rparr>)" for "is" le w
    by (induction "is" arbitrary: le w) (auto simp: a(4))
  show ?thesis
    using a(1-3) by (simp add: dialContext_def dns_get_def dial_known_def dns_resolve_def give_up_def trace_def
      fresh_world_def each a(4,5) del: dial_each.simps)
qed

end
