(* ===== verification/Zinc_Client.thy ===== *)
theory Zinc_Client
  imports Tin_Prelude
begin

text \<open>
  lib/auth/credentials_provider.go: the token every request to zinc carries, exchanged when there is none
  or the last one expired; and the hand-written part of lib/zinc (recovery.go, ktmb_cost.go), which
  builds those requests. Descope, the clock, url.Parse, url.PathEscape, json.Marshal and the HTTP client are
  parameters; an instant is here the pair of whole seconds and nanoseconds.
\<close>

section \<open>The token\<close>

record credential_state =
  cr_token :: "string option"
  cr_expiration :: "int option"

record 'x auth_env =
  au_exchange :: "'x \<Rightarrow> (bool \<times> string \<times> int) result \<times> 'x"
  au_now :: "'x \<Rightarrow> (int \<times> int) \<times> 'x"

datatype auth_event = Exchanged "(bool \<times> string \<times> int) result" | Au_Now "int \<times> int"

type_synonym ('x, 'a) authing = "('x, auth_event, 'a) proc"

definition getTokenRaw :: "'x auth_env \<Rightarrow> ('x, (string \<times> int) result) authing" where
  "getTokenRaw env =
     on_ok (invoke (au_exchange env) Exchanged) (\<lambda>(authenticated, jwt, expiration).
       return (if authenticated then Inr (jwt, expiration) else Inl (Msg ''failed to authenticate'')))"

definition after :: "int \<times> int \<Rightarrow> int \<Rightarrow> bool" where
  "after now exp \<longleftrightarrow> fst now > exp \<or> fst now = exp \<and> snd now > 0"

text \<open>The outer option is a panic: an expiration without a token.\<close>

definition getToken :: "'x auth_env \<Rightarrow> credential_state \<Rightarrow> ('x, string result option \<times> credential_state) authing" where
  "getToken env d =
     (let renew = do {
        r \<leftarrow> getTokenRaw env;
        return (case r of
            Inl err \<Rightarrow> (Some (Inl err), d)
          | Inr (token, expiration) \<Rightarrow> (Some (Inr token), \<lparr>cr_token = Some token, cr_expiration = Some expiration\<rparr>))
      } in
      case cr_expiration d of
        None \<Rightarrow> renew
      | Some exp \<Rightarrow> do {
          now \<leftarrow> invoke (au_now env) Au_Now;
          if \<not> after now exp then return (map_option Inr (cr_token d), d) else renew
        })"

section \<open>Requests\<close>

record zinc_request =
  zr_Method :: string
  zr_URL :: string
  zr_Header :: "(string \<times> string) list"
  zr_Body :: "string option"

record zinc_urls =
  zu_resolve :: "string \<Rightarrow> string \<Rightarrow> string result" \<comment> \<open>a reference against the server\<close>
  zu_escape :: "string \<Rightarrow> string"

definition with_header :: "string \<Rightarrow> string \<Rightarrow> zinc_request \<Rightarrow> zinc_request" where
  "with_header k v req = req\<lparr>zr_Header := (k, v) # filter (\<lambda>h. fst h \<noteq> k) (zr_Header req)\<rparr>"

text \<open>The editor sets the token; it runs in the state of the credentials.\<close>

definition RequestEditor :: "'x auth_env \<Rightarrow> credential_state \<Rightarrow> zinc_request
    \<Rightarrow> ('x, zinc_request result option \<times> credential_state) authing" where
  "RequestEditor env d req = do {
     t \<leftarrow> getToken env d;
     return (case fst t of
         None \<Rightarrow> None
       | Some (Inl err) \<Rightarrow> Some (Inl err)
       | Some (Inr token) \<Rightarrow> Some (Inr (with_header ''Authorization'' (''Bearer '' @ token) req)), snd t)
   }"

text \<open>\<open>values.Encode\<close>: sorted by key, which the parameters of these requests are.\<close>

definition query_of :: "(string \<times> int option) list \<Rightarrow> string" where
  "query_of ps = join_with ''&'' (List.map_filter (\<lambda>(k, v). map_option (\<lambda>n. k @ ''='' @ format_int n) v) ps)"

definition get_request :: "string \<Rightarrow> string \<Rightarrow> zinc_request" where
  "get_request url query = \<lparr>zr_Method = ''GET'', zr_URL = (if query = [] then url else url @ ''?'' @ query), zr_Header = [], zr_Body = None\<rparr>"

record cost_missing_params =
  cm_Limit :: "int option"
  cm_Skip :: "int option"
  cm_Status :: "int option"

definition api_path :: "zinc_urls \<Rightarrow> string \<Rightarrow> string \<Rightarrow> string" where
  "api_path us version path = ''./api/v'' @ zu_escape us version @ ''/Booking/'' @ path"

definition NewGetApiVVersionBookingKtmbCostMissingRequest :: "zinc_urls \<Rightarrow> string \<Rightarrow> string \<Rightarrow> cost_missing_params option \<Rightarrow> zinc_request result" where
  "NewGetApiVVersionBookingKtmbCostMissingRequest us server version params =
     (case zu_resolve us server (api_path us version ''ktmb-cost/missing'') of
        Inl err \<Rightarrow> Inl err
      | Inr url \<Rightarrow> Inr (get_request url (case params of
            None \<Rightarrow> []
          | Some p \<Rightarrow> query_of [(''Limit'', cm_Limit p), (''Skip'', cm_Skip p), (''Status'', cm_Status p)])))"

definition NewGetApiVVersionBookingKtmbRefundMissingRequest :: "zinc_urls \<Rightarrow> string \<Rightarrow> string \<Rightarrow> int option option \<Rightarrow> zinc_request result" where
  "NewGetApiVVersionBookingKtmbRefundMissingRequest us server version params =
     (case zu_resolve us server (api_path us version ''ktmb-refund/missing'') of
        Inl err \<Rightarrow> Inl err
      | Inr url \<Rightarrow> Inr (get_request url (case params of None \<Rightarrow> [] | Some lim \<Rightarrow> query_of [(''limit'', lim)])))"

definition post_json :: "zinc_urls \<Rightarrow> ('b \<Rightarrow> string result) \<Rightarrow> string \<Rightarrow> string \<Rightarrow> 'b \<Rightarrow> zinc_request result" where
  "post_json us marshal server path body =
     (case zu_resolve us server path of
        Inl err \<Rightarrow> Inl err
      | Inr url \<Rightarrow> (case marshal body of
            Inl err \<Rightarrow> Inl err
          | Inr buf \<Rightarrow> Inr \<lparr>zr_Method = ''POST'', zr_URL = url, zr_Header = [(''Content-Type'', ''application/json'')], zr_Body = Some buf\<rparr>))"

text \<open>The bodies; amounts are JSON numbers, kept as their text.\<close>

record cost_body =
  cb_Amount :: string
  cb_Currency :: string

record refund_body =
  rb_RefundAmount :: string
  rb_RefundCurrency :: string

record check_body =
  kb_Status :: string
  kb_KtmbBookingNo :: "string option"
  kb_KtmbTicketNo :: "string option"
  kb_ClaimedByBookingId :: "string option"
  kb_Error :: "string option"

definition NewPostApiVVersionBookingIdKtmbCostRequest :: "zinc_urls \<Rightarrow> (cost_body \<Rightarrow> string result) \<Rightarrow> string \<Rightarrow> string \<Rightarrow> string \<Rightarrow> cost_body \<Rightarrow> zinc_request result" where
  "NewPostApiVVersionBookingIdKtmbCostRequest us marshal server version bookingId body =
     post_json us marshal server (api_path us version (zu_escape us bookingId @ ''/ktmb-cost'')) body"

definition NewPostApiVVersionBookingIdKtmbRefundRequest :: "zinc_urls \<Rightarrow> (refund_body \<Rightarrow> string result) \<Rightarrow> string \<Rightarrow> string \<Rightarrow> string \<Rightarrow> refund_body \<Rightarrow> zinc_request result" where
  "NewPostApiVVersionBookingIdKtmbRefundRequest us marshal server version bookingId body =
     post_json us marshal server (api_path us version (zu_escape us bookingId @ ''/ktmb-refund'')) body"

definition NewPostApiVVersionBookingKtmbCheckCheckIdResultRequest :: "zinc_urls \<Rightarrow> (check_body \<Rightarrow> string result) \<Rightarrow> string \<Rightarrow> string \<Rightarrow> string \<Rightarrow> check_body \<Rightarrow> zinc_request result" where
  "NewPostApiVVersionBookingKtmbCheckCheckIdResultRequest us marshal server version checkId body =
     post_json us marshal server (api_path us version (''ktmb-check/'' @ zu_escape us checkId @ ''/result'')) body"

definition NewPostApiVVersionBookingRecoveryExpireRequest :: "zinc_urls \<Rightarrow> string \<Rightarrow> string \<Rightarrow> zinc_request result" where
  "NewPostApiVVersionBookingRecoveryExpireRequest us server version =
     (case zu_resolve us server (api_path us version ''recovery-expire'') of
        Inl err \<Rightarrow> Inl err
      | Inr url \<Rightarrow> Inr \<lparr>zr_Method = ''POST'', zr_URL = url, zr_Header = [], zr_Body = None\<rparr>)"

section \<open>Sending\<close>

datatype 'r send_event = Auth_Call auth_event | Did zinc_request "'r result"

type_synonym ('x, 'r, 'a) zinc_sending = "('x, 'r send_event, 'a) proc"

record ('x, 'r) zinc_env =
  zn_auth :: "'x auth_env"
  zn_do :: "zinc_request \<Rightarrow> 'x \<Rightarrow> 'r result \<times> 'x"
  zn_urls :: zinc_urls
  zn_server :: string

text \<open>What each call does with the request it built: the editor, then the exchange.\<close>

definition send_built :: "('x, 'r) zinc_env \<Rightarrow> credential_state \<Rightarrow> zinc_request result \<Rightarrow> ('x, 'r, 'r result option \<times> credential_state) zinc_sending" where
  "send_built env d built =
     (case built of
        Inl err \<Rightarrow> return (Some (Inl err), d)
      | Inr req \<Rightarrow> do {
          e \<leftarrow> lifted Auth_Call (RequestEditor (zn_auth env) d req);
          case fst e of
            None \<Rightarrow> return (None, snd e)
          | Some (Inl err) \<Rightarrow> return (Some (Inl err), snd e)
          | Some (Inr req') \<Rightarrow> do { r \<leftarrow> invoke (zn_do env req') (Did req'); return (Some r, snd e) }
        })"

definition GetApiVVersionBookingKtmbCostMissing :: "('x, 'r) zinc_env \<Rightarrow> credential_state \<Rightarrow> string \<Rightarrow> cost_missing_params option \<Rightarrow> ('x, 'r, 'r result option \<times> credential_state) zinc_sending" where
  "GetApiVVersionBookingKtmbCostMissing env d version params =
     send_built env d (NewGetApiVVersionBookingKtmbCostMissingRequest (zn_urls env) (zn_server env) version params)"

definition PostApiVVersionBookingIdKtmbCost :: "('x, 'r) zinc_env \<Rightarrow> (cost_body \<Rightarrow> string result) \<Rightarrow> credential_state \<Rightarrow> string \<Rightarrow> string \<Rightarrow> cost_body \<Rightarrow> ('x, 'r, 'r result option \<times> credential_state) zinc_sending" where
  "PostApiVVersionBookingIdKtmbCost env marshal d version bookingId body =
     send_built env d (NewPostApiVVersionBookingIdKtmbCostRequest (zn_urls env) marshal (zn_server env) version bookingId body)"

definition GetApiVVersionBookingKtmbRefundMissing :: "('x, 'r) zinc_env \<Rightarrow> credential_state \<Rightarrow> string \<Rightarrow> int option option \<Rightarrow> ('x, 'r, 'r result option \<times> credential_state) zinc_sending" where
  "GetApiVVersionBookingKtmbRefundMissing env d version params =
     send_built env d (NewGetApiVVersionBookingKtmbRefundMissingRequest (zn_urls env) (zn_server env) version params)"

definition PostApiVVersionBookingIdKtmbRefund :: "('x, 'r) zinc_env \<Rightarrow> (refund_body \<Rightarrow> string result) \<Rightarrow> credential_state \<Rightarrow> string \<Rightarrow> string \<Rightarrow> refund_body \<Rightarrow> ('x, 'r, 'r result option \<times> credential_state) zinc_sending" where
  "PostApiVVersionBookingIdKtmbRefund env marshal d version bookingId body =
     send_built env d (NewPostApiVVersionBookingIdKtmbRefundRequest (zn_urls env) marshal (zn_server env) version bookingId body)"

definition PostApiVVersionBookingRecoveryExpire :: "('x, 'r) zinc_env \<Rightarrow> credential_state \<Rightarrow> string \<Rightarrow> ('x, 'r, 'r result option \<times> credential_state) zinc_sending" where
  "PostApiVVersionBookingRecoveryExpire env d version =
     send_built env d (NewPostApiVVersionBookingRecoveryExpireRequest (zn_urls env) (zn_server env) version)"

definition PostApiVVersionBookingKtmbCheckCheckIdResult :: "('x, 'r) zinc_env \<Rightarrow> (check_body \<Rightarrow> string result) \<Rightarrow> credential_state \<Rightarrow> string \<Rightarrow> string \<Rightarrow> check_body \<Rightarrow> ('x, 'r, 'r result option \<times> credential_state) zinc_sending" where
  "PostApiVVersionBookingKtmbCheckCheckIdResult env marshal d version checkId body =
     send_built env d (NewPostApiVVersionBookingKtmbCheckCheckIdResultRequest (zn_urls env) marshal (zn_server env) version checkId body)"

section \<open>What a request carries\<close>

text \<open>Either both or none are set, as in a new provider and after every exchange.\<close>

definition wf_credentials :: "credential_state \<Rightarrow> bool" where
  "wf_credentials d \<longleftrightarrow> (cr_token d = None \<longleftrightarrow> cr_expiration d = None)"

definition token_sound :: "credential_state \<Rightarrow> string result option \<times> credential_state \<Rightarrow> auth_event list \<Rightarrow> bool" where
  "token_sound d r tr \<longleftrightarrow> (wf_credentials d \<longrightarrow> wf_credentials (snd r) \<and> fst r \<noteq> None)
   \<and> (\<forall>token. fst r = Some (Inr token) \<longrightarrow> cr_token (snd r) = Some token
        \<and> ((\<exists>exp. Exchanged (Inr (True, token, exp)) \<in> set tr \<and> cr_expiration (snd r) = Some exp)
           \<or> snd r = d \<and> (\<exists>now exp. Au_Now now \<in> set tr \<and> cr_expiration d = Some exp \<and> \<not> after now exp)))
   \<and> (\<forall>e. fst r = Some (Inl e) \<longrightarrow> snd r = d)"

lemma effect_getToken: "effect (getToken env d) (token_sound d)"
proof -
  have renew: "effect (do {
        r \<leftarrow> getTokenRaw env;
        return (case r of
            Inl err \<Rightarrow> (Some (Inl err), d)
          | Inr (token, expiration) \<Rightarrow> (Some (Inr token), \<lparr>cr_token = Some token, cr_expiration = Some expiration\<rparr>)) })
     (\<lambda>r tr. token_sound d r (pre @ tr))" for pre
    unfolding getTokenRaw_def
    by (intro effect_bind effect_on_ok_invoke effect_return effect_case_prod)
      (auto simp: token_sound_def wf_credentials_def)
  show ?thesis unfolding getToken_def Let_def
  proof (rule effect_case_option)
    show "effect (do {
        r \<leftarrow> getTokenRaw env;
        return (case r of
            Inl err \<Rightarrow> (Some (Inl err), d)
          | Inr (token, expiration) \<Rightarrow> (Some (Inr token), \<lparr>cr_token = Some token, cr_expiration = Some expiration\<rparr>)) })
        (token_sound d)" using renew[of "[]"] by simp
  next
    fix exp assume e: "cr_expiration d = Some exp"
    have idle: "token_sound d (map_option Inr (cr_token d), d) ([Au_Now r] @ [])" if "\<not> after r exp" for r
      using e that by (cases r) (auto simp: token_sound_def wf_credentials_def)
    show "effect (do {
          now \<leftarrow> invoke (au_now env) Au_Now;
          if \<not> after now exp then return (map_option Inr (cr_token d), d)
          else do {
            r \<leftarrow> getTokenRaw env;
            return (case r of
                Inl err \<Rightarrow> (Some (Inl err), d)
              | Inr (token, expiration) \<Rightarrow> (Some (Inr token), \<lparr>cr_token = Some token, cr_expiration = Some expiration\<rparr>)) }
        }) (token_sound d)"
      by (rule effect_bind, rule effect_invoke, rule effect_if, rule effect_return)
        (erule idle, rule renew)
  qed
qed

definition bearer :: "zinc_request \<Rightarrow> string \<Rightarrow> bool" where
  "bearer req token \<longleftrightarrow> map_of (zr_Header req) ''Authorization'' = Some (''Bearer '' @ token)"

fun auth_calls :: "'r send_event \<Rightarrow> auth_event option" where
  "auth_calls (Auth_Call ev) = Some ev"
| "auth_calls ev = None"

definition sent_authorised :: "credential_state \<Rightarrow> 'r send_event list \<Rightarrow> bool" where
  "sent_authorised d tr \<longleftrightarrow> length (filter (\<lambda>ev. auth_calls ev = None) tr) \<le> 1
   \<and> (\<forall>req r. Did req r \<in> set tr \<longrightarrow> (\<exists>token d'. bearer req token
        \<and> token_sound d (Some (Inr token), d') (List.map_filter auth_calls tr)))"

lemma map_filter_map_Auth: "List.map_filter auth_calls (map Auth_Call es) = es" "filter (\<lambda>ev. auth_calls ev = None) (map Auth_Call es) = []"
  by (induction es) auto

lemma effect_send_built: "effect (send_built env d built) (\<lambda>_. sent_authorised d)"
proof -
  have ed: "effect (RequestEditor (zn_auth env) d req) (\<lambda>r tr. \<forall>req'. fst r = Some (Inr req') \<longrightarrow>
      (\<exists>token. bearer req' token \<and> token_sound d (Some (Inr token), snd r) tr))" for req
    unfolding RequestEditor_def
    by (rule effect_bind, rule effect_conseq[OF effect_getToken], rule effect_return)
      (auto simp: bearer_def with_header_def split: option.splits sum.splits)
  show ?thesis unfolding send_built_def
  proof (rule effect_case_sum, simp add: sent_authorised_def, rule effect_bind, rule effect_conseq[OF effect_lifted[OF ed]], elim exE conjE,
      rule effect_case_option, simp add: sent_authorised_def map_filter_map_Auth, fastforce simp: sent_authorised_def map_filter_map_Auth)
  qed (intro effect_case_sum effect_bind effect_invoke effect_return; fastforce simp: sent_authorised_def map_filter_map_Auth)+
qed

text \<open>Each hand-written call of zinc sends at most one request, under a bearer token that was exchanged in the call
  itself, or exchanged before and not expired at a time read in the call.\<close>

theorem zinc_calls_authorised:
  "effect (GetApiVVersionBookingKtmbCostMissing env d v params) (\<lambda>_. sent_authorised d)
 \<and> effect (GetApiVVersionBookingKtmbRefundMissing env d v lim) (\<lambda>_. sent_authorised d)
 \<and> effect (PostApiVVersionBookingIdKtmbCost env mc d v u cost) (\<lambda>_. sent_authorised d)
 \<and> effect (PostApiVVersionBookingIdKtmbRefund env mr d v u refund) (\<lambda>_. sent_authorised d)
 \<and> effect (PostApiVVersionBookingRecoveryExpire env d v) (\<lambda>_. sent_authorised d)
 \<and> effect (PostApiVVersionBookingKtmbCheckCheckIdResult env mk d v u report) (\<lambda>_. sent_authorised d)"
  unfolding GetApiVVersionBookingKtmbCostMissing_def GetApiVVersionBookingKtmbRefundMissing_def
    PostApiVVersionBookingIdKtmbCost_def PostApiVVersionBookingIdKtmbRefund_def
    PostApiVVersionBookingRecoveryExpire_def PostApiVVersionBookingKtmbCheckCheckIdResult_def
  by (intro conjI effect_send_built)

end
