(* ===== verification/Recover_Cmd.thy ===== *)
theory Recover_Cmd
  imports Recoverer_Queue Ktmb_Cost
begin

text \<open>
  cmds/recoverer.go and cmds/ktmb_cost_backfill.go: recovering bookings by hand, with a confirmation for each, and the
  mode a backfill runs in. The terminal and the search are parameters; one booking is
  classified by \<open>ProcessItem\<close>, its calls logged as \<open>Item_Call\<close>.
\<close>

record 'x recover_cmd_env =
  rc_recoverer :: "'x recoverer_env"
  rc_config :: recoverer_config
  rc_search :: "list_params \<Rightarrow> 'x \<Rightarrow> zinc_booking list reply \<times> 'x"
  rc_answer :: "'x \<Rightarrow> string \<times> 'x"
  rc_post :: "string \<Rightarrow> uuid \<Rightarrow> 'x \<Rightarrow> unit reply \<times> 'x"

datatype recover_cmd_event =
    Searched list_params "zinc_booking list reply"
  | Answered string
  | Moved string uuid "unit reply"
  | Item_Call event

type_synonym ('x, 'a) recovering = "('x, recover_cmd_event, 'a) proc"

definition postTransition :: "'x recover_cmd_env \<Rightarrow> uuid \<Rightarrow> string \<Rightarrow> ('x, unit result) recovering" where
  "postTransition env u name =
     on_ok (invoke (rc_post env name u) (Moved name u)) (\<lambda>resp.
       return (if StatusCode resp \<noteq> 200 then Inl (Status_Error (''failed to mark booking as '' @ name) (StatusCode resp)) else Inr ()))"

definition recoverable_status :: "string \<Rightarrow> bool" where
  "recoverable_status status \<longleftrightarrow> status = ''Pending'' \<or> status = ''Buying'' \<or> status = ''Recovering''"

text \<open>A confirmed booking goes to Recovering, over Buying when it is Pending, and is then classified.\<close>

definition recover_one :: "'x recover_cmd_env \<Rightarrow> zinc_booking \<Rightarrow> ('x, unit result) recovering" where
  "recover_one env b =
     (let status = deref (zb_Status b) in
      on_ok (if status = ''Pending'' then postTransition env (zb_Id b) ''buying'' else return (Inr ())) (\<lambda>_.
      on_ok (if status = ''Pending'' \<or> status = ''Buying'' then postTransition env (zb_Id b) ''recovering'' else return (Inr ())) (\<lambda>_.
      lifted Item_Call (ProcessItem (rc_recoverer env) (rc_config env) (ReconstructDto (rc_recoverer env) b)))))"

fun recover_each :: "'x recover_cmd_env \<Rightarrow> zinc_booking list \<Rightarrow> ('x, unit result) recovering" where
  "recover_each env [] = return (Inr ())"
| "recover_each env (b # bs) =
     (if \<not> recoverable_status (deref (zb_Status b)) then recover_each env bs
      else do {
        answer \<leftarrow> invoke (rc_answer env) Answered;
        if to_lower (trim_space answer) \<noteq> ''y'' then recover_each env bs
        else on_ok (recover_one env b) (\<lambda>_. recover_each env bs)
      })"

definition recover_params :: "string \<Rightarrow> string \<Rightarrow> string \<Rightarrow> string \<Rightarrow> list_params" where
  "recover_params passport day t direction = no_params\<lparr>lp_PassportNumber := Some passport, lp_Date := Some day,
     lp_Time := Some t, lp_Direction := Some direction\<rparr>"

definition Recover :: "'x recover_cmd_env \<Rightarrow> string \<Rightarrow> string \<Rightarrow> string \<Rightarrow> string \<Rightarrow> ('x, unit result) recovering" where
  "Recover env passport day t direction =
     (if passport = [] \<or> day = [] \<or> t = [] \<or> (direction \<noteq> ''JToW'' \<and> direction \<noteq> ''WToJ'')
      then return (Inl (Msg ''usage: recover <passport> <date dd-MM-yyyy> <time HH:mm:ss> <direction JToW|WToJ>''))
      else
        (let ps = recover_params passport day t direction in
         on_ok (invoke (rc_search env ps) (Searched ps)) (\<lambda>resp.
           if StatusCode resp \<noteq> 200 then return (Inl (Status_Error ''failed to search bookings'' (StatusCode resp)))
           else (case Body resp of
               Unreadable \<Rightarrow> return (Inl Read_Error)
             | Garbled \<Rightarrow> return (Inl Decode_Error)
             | Decoded bookings \<Rightarrow> recover_each env bookings))))"

section \<open>The backfill's mode\<close>

definition backfill_status :: "string \<Rightarrow> bool \<Rightarrow> int result" where
  "backfill_status status refund =
     (if status = ''completed'' then Inr (if refund then 5 else 2)
      else if status = ''terminated'' then Inr 5
      else Inl (Msg ''status must be completed or terminated''))"

section \<open>Only what was confirmed\<close>

fun confirmation :: "recover_cmd_event \<Rightarrow> bool" where
  "confirmation (Answered s) \<longleftrightarrow> to_lower (trim_space s) = ''y''"
| "confirmation ev \<longleftrightarrow> False"

fun acts :: "recover_cmd_event \<Rightarrow> bool" where
  "acts (Moved name u r) \<longleftrightarrow> True"
| "acts (Item_Call ev) \<longleftrightarrow> True"
| "acts ev \<longleftrightarrow> False"

definition moves_listed :: "zinc_booking list \<Rightarrow> recover_cmd_event list \<Rightarrow> bool" where
  "moves_listed bs tr \<longleftrightarrow> (\<forall>name u r. Moved name u r \<in> set tr \<longrightarrow>
     (\<exists>b \<in> set bs. zb_Id b = u \<and> recoverable_status (deref (zb_Status b))))"

lemma effect_recover_one:
  fixes env :: "'x recover_cmd_env"
  shows "effect (recover_one env b) (\<lambda>r tr. list_all acts tr \<and> (\<forall>name u r. Moved name u r \<in> set tr \<longrightarrow> u = zb_Id b))"
proof -
  have post: "effect (postTransition env u name) (\<lambda>r tr. list_all acts tr \<and> (\<forall>name' u' r. Moved name' u' r \<in> set tr \<longrightarrow> u' = u))" for u name
    unfolding postTransition_def by (intro effect_on_ok_invoke effect_return) auto
  have item: "effect (lifted Item_Call p) (\<lambda>r tr. list_all acts tr \<and> (\<forall>name u r. Moved name u r \<in> set tr \<longrightarrow> u = zb_Id b))"
    if "effect p (\<lambda>_ _. True)" for p :: "('x, event, unit result) proc"
    by (rule effect_conseq[OF effect_lifted[OF that]]) (auto simp: list_all_iff)
  have "effect (ProcessItem (rc_recoverer env) (rc_config env) (ReconstructDto (rc_recoverer env) b)) (\<lambda>_ _. True)"
    by (rule effect_conseq[OF effect_ProcessItem[OF any_scan_means]]) simp
  note item = item[OF this]
  have step: "effect (if c then postTransition env (zb_Id b) name else return (Inr ()))
      (\<lambda>r tr. list_all acts tr \<and> (\<forall>name u r. Moved name u r \<in> set tr \<longrightarrow> u = zb_Id b))" for c name
    using post by simp
  show ?thesis unfolding recover_one_def Let_def
    by (rule effect_on_ok_cases[OF step], assumption, rule effect_on_ok_cases[OF step], force, rule effect_conseq[OF item]) force
qed

text \<open>Nothing is done before the first confirmation, and only bookings that can be recovered are moved.\<close>

definition confirmed_first :: "recover_cmd_event list \<Rightarrow> bool" where
  "confirmed_first tr \<longleftrightarrow> list_all (\<lambda>ev. \<not> acts ev) (takeWhile (\<lambda>ev. \<not> confirmation ev) tr)"

lemma confirmed_first_simps:
  "confirmed_first []"
  "confirmation ev \<Longrightarrow> confirmed_first (ev # tr)"
  "\<not> confirmation ev \<Longrightarrow> \<not> acts ev \<Longrightarrow> confirmed_first (ev # tr) = confirmed_first tr"
  by (simp_all add: confirmed_first_def)

lemma moves_listed_simps:
  "moves_listed bs []" "moves_listed bs (Answered s # tr) = moves_listed bs tr"
  "moves_listed bs (tr @ tr') \<longleftrightarrow> moves_listed bs tr \<and> moves_listed bs tr'"
  "recoverable_status (deref (zb_Status b)) \<Longrightarrow> (\<forall>name u r. Moved name u r \<in> set tr \<longrightarrow> u = zb_Id b) \<Longrightarrow> moves_listed (b # bs) tr"
  unfolding moves_listed_def set_append by auto blast+

lemma effect_recover_each: "effect (recover_each env bs) (\<lambda>r tr. confirmed_first tr \<and> moves_listed bs tr)"
proof (induction bs)
  case (Cons b bs)
  have more: "moves_listed bs tr \<Longrightarrow> moves_listed (b # bs) tr" for tr by (auto simp: moves_listed_def)
  show ?case unfolding recover_each.simps
  proof (rule effect_if)
    assume "\<not> recoverable_status (deref (zb_Status b))"
    show "effect (recover_each env bs) (\<lambda>r tr. confirmed_first tr \<and> moves_listed (b # bs) tr)"
      by (rule effect_conseq[OF Cons.IH]) (simp add: more)
  next
    assume "\<not> \<not> recoverable_status (deref (zb_Status b))"
    then have rec: "recoverable_status (deref (zb_Status b))" by simp
    show "effect (do {
        answer \<leftarrow> invoke (rc_answer env) Answered;
        if to_lower (trim_space answer) \<noteq> ''y'' then recover_each env bs
        else on_ok (recover_one env b) (\<lambda>_. recover_each env bs) }) (\<lambda>r tr. confirmed_first tr \<and> moves_listed (b # bs) tr)"
    proof (rule effect_bind, rule effect_invoke, rule effect_if)
      fix answer assume "to_lower (trim_space answer) \<noteq> ''y''"
      then show "effect (recover_each env bs) (\<lambda>r tr. confirmed_first ([Answered answer] @ tr) \<and> moves_listed (b # bs) ([Answered answer] @ tr))"
        by (intro effect_conseq[OF Cons.IH]) (auto simp: confirmed_first_simps moves_listed_def)
    next
      fix answer assume "\<not> to_lower (trim_space answer) \<noteq> ''y''"
      then have c: "confirmed_first (Answered answer # tr)" for tr by (simp add: confirmed_first_simps)
      show "effect (on_ok (recover_one env b) (\<lambda>_. recover_each env bs))
        (\<lambda>r tr. confirmed_first ([Answered answer] @ tr) \<and> moves_listed (b # bs) ([Answered answer] @ tr))"
        by (rule effect_on_ok_cases[OF effect_recover_one]; (rule effect_conseq[OF Cons.IH])?)
          (simp_all add: c moves_listed_simps rec more)
    qed
  qed
qed (simp add: confirmed_first_simps moves_listed_def)

definition by_hand :: "list_params \<Rightarrow> recover_cmd_event list \<Rightarrow> bool" where
  "by_hand ps tr \<longleftrightarrow> (case tr of
     [] \<Rightarrow> True
   | Searched ps' resp # calls \<Rightarrow> ps' = ps \<and> confirmed_first calls
       \<and> moves_listed (case resp of Inr r \<Rightarrow> (case Body r of Decoded bs \<Rightarrow> bs | _ \<Rightarrow> []) | Inl _ \<Rightarrow> []) calls
   | _ \<Rightarrow> False)"

text \<open>Recovering by hand asks zinc for the bookings of exactly the given passport and departure, moves or classifies
  nothing before a confirmation, and moves only bookings of that answer that are Pending, Buying or Recovering.\<close>

theorem Recover_by_hand: "effect (Recover env passport day t direction) (\<lambda>_. by_hand (recover_params passport day t direction))"
  unfolding Recover_def Let_def
  by (intro effect_if effect_return effect_on_ok_invoke effect_case_body effect_conseq[OF effect_recover_each])
    (auto simp: by_hand_def confirmed_first_simps moves_listed_def)

end
