(* ===== verification/Worker.thy ===== *)
theory Worker
  imports Tin_Prelude
begin

text \<open>
  The loop the recoverer and the withdrawer share: Start lets cron jobs and other goroutines send on channels,
  and one goroutine takes a job at a time from whichever channel \<open>select\<close> picks and performs it, until the
  context is cancelled. A job makes its calls one by one: the senders interleave freely with the loop, also between
  the calls of a job. What the services rely on of their channels is the locale \<open>job_channels\<close>.
\<close>

text \<open>A send: it goes through, or the \<open>default\<close> branch discards it, or the sender blocks.\<close>

datatype 'q offer = Sent_On 'q | Discarded | Blocked

text \<open>\<open>around\<close> is the world with the calls made so far. What it answers to a job is fixed when the job begins:
  \<open>ahead\<close> are the calls the job has still to make, and \<open>comes_back\<close> says whether it returns after them; a job that runs
  out of fuel does not.\<close>

record ('q, 'j, 'x, 'e) worker =
  channels :: 'q
  first_sends :: "'j list" \<comment> \<open>blocking sends of Start itself, before its loop\<close>
  doing :: "'j option"
  ahead :: "'e list"
  comes_back :: bool
  returned :: bool
  arrived :: "'j list"
  lost :: "'j list"
  finished :: "'j list"
  around :: "('x, 'e) world"

definition calls_of :: "('x, 'e, 'a) proc \<Rightarrow> ('x, 'e) world \<Rightarrow> 'e list" where
  "calls_of p v = drop (length (log v)) (log (snd (run_state p v)))"

inductive worker_step :: "('q \<Rightarrow> 'j \<Rightarrow> 'q offer) \<Rightarrow> ('q \<Rightarrow> 'j \<Rightarrow> 'q \<Rightarrow> bool) \<Rightarrow> ('j \<Rightarrow> ('x, 'e, unit option) proc)
    \<Rightarrow> ('q, 'j, 'x, 'e) worker \<Rightarrow> ('q, 'j, 'x, 'e) worker \<Rightarrow> bool" for offer takes perform where
  sends: "\<not> returned w \<Longrightarrow> offer (channels w) j = Sent_On q
    \<Longrightarrow> worker_step offer takes perform w (w\<lparr>channels := q, arrived := arrived w @ [j]\<rparr>)"
| discards: "\<not> returned w \<Longrightarrow> offer (channels w) j = Discarded
    \<Longrightarrow> worker_step offer takes perform w (w\<lparr>lost := lost w @ [j]\<rparr>)"
| opens: "first_sends w = j # js \<Longrightarrow> offer (channels w) j = Sent_On q
    \<Longrightarrow> worker_step offer takes perform w (w\<lparr>channels := q, first_sends := js, arrived := arrived w @ [j]\<rparr>)"
| begins: "first_sends w = [] \<Longrightarrow> doing w = None \<Longrightarrow> \<not> returned w \<Longrightarrow> takes (channels w) j q
    \<Longrightarrow> worker_step offer takes perform w (w\<lparr>channels := q, doing := Some j, ahead := calls_of (perform j) (around w),
          comes_back := fst (run_state (perform j) (around w)) \<noteq> None,
          around := (around w)\<lparr>ext := ext (snd (run_state (perform j) (around w)))\<rparr>\<rparr>)"
| calls: "ahead w = e # es \<Longrightarrow> worker_step offer takes perform w (w\<lparr>ahead := es, around := (around w)\<lparr>log := log (around w) @ [e]\<rparr>\<rparr>)"
| ends: "doing w = Some j \<Longrightarrow> ahead w = [] \<Longrightarrow> comes_back w \<Longrightarrow> worker_step offer takes perform w
    (w\<lparr>doing := None, finished := finished w @ [j]\<rparr>)"
| cancels: "first_sends w = [] \<Longrightarrow> doing w = None \<Longrightarrow> worker_step offer takes perform w (w\<lparr>returned := True\<rparr>)"

definition fresh_worker :: "'q \<Rightarrow> 'j list \<Rightarrow> 'x \<Rightarrow> ('q, 'j, 'x, 'e) worker" where
  "fresh_worker q js x = \<lparr>channels = q, first_sends = js, doing = None, ahead = [], comes_back = True, returned = False,
     arrived = [], lost = [], finished = [], around = fresh_world x\<rparr>"

definition started :: "('q, 'j, 'x, 'e) worker \<Rightarrow> 'j list" where
  "started w = finished w @ (case doing w of None \<Rightarrow> [] | Some j \<Rightarrow> [j])"

section \<open>Jobs are performed one after the other\<close>

text \<open>\<open>does j v v'\<close>: the job leads the world from \<open>v\<close> to \<open>v'\<close>.\<close>

inductive serially :: "('j \<Rightarrow> 'v \<Rightarrow> 'v \<Rightarrow> bool) \<Rightarrow> 'v \<Rightarrow> 'j list \<Rightarrow> 'v \<Rightarrow> bool" for does where
  no_job: "serially does v [] v"
| next_job: "serially does v js v' \<Longrightarrow> does j v' v'' \<Longrightarrow> serially does v (js @ [j]) v''"

lemma serially_mono: "serially does v js v' \<Longrightarrow> (\<And>j u u'. does j u u' \<Longrightarrow> does' j u u') \<Longrightarrow> serially does' v js v'"
  by (induction rule: serially.induct) (auto intro: serially.intros)

definition runs :: "('j \<Rightarrow> ('x, 'e, unit option) proc) \<Rightarrow> 'j \<Rightarrow> ('x, 'e) world \<Rightarrow> ('x, 'e) world \<Rightarrow> bool" where
  "runs perform j v v' \<longleftrightarrow> run_state (perform j) v = (Some (), v')"

text \<open>\<open>v\<close> is the world the finished jobs left: with no job under way it is the present one, and else the calls of the
  one under way follow, those made and those ahead.\<close>

definition serial_upto :: "('j \<Rightarrow> ('x, 'e, unit option) proc) \<Rightarrow> ('q, 'j, 'x, 'e) worker \<Rightarrow> ('x, 'e) world \<Rightarrow> bool" where
  "serial_upto perform w v \<longleftrightarrow> (case doing w of
       None \<Rightarrow> around w = v \<and> ahead w = []
     | Some j \<Rightarrow> (\<exists>made. log (around w) = log v @ made \<and> log (snd (run_state (perform j) v)) = log v @ made @ ahead w)
         \<and> ext (around w) = ext (snd (run_state (perform j) v)) \<and> comes_back w = (fst (run_state (perform j) v) \<noteq> None))"

lemma calls_of_log: "effect p P \<Longrightarrow> log (snd (run_state p v)) = log v @ calls_of p v"
  by (auto simp: calls_of_def elim!: effectE[where w = v])

lemma worker_serial_step:
  assumes "worker_step offer takes perform w w'" "\<And>j. effect (perform j) (\<lambda>_ _. True)"
    and "serially (runs perform) v0 (finished w) v" "serial_upto perform w v"
  shows "\<exists>v. serially (runs perform) v0 (finished w') v \<and> serial_upto perform w' v"
  using assms(1)
proof cases
  case (begins j q)
  then have "around w = v" using assms(4) by (simp add: serial_upto_def)
  then have "serial_upto perform w' v"
    using begins calls_of_log[OF assms(2)] by (simp add: serial_upto_def)
  then show ?thesis using begins assms(3) by (intro exI[of _ v]) simp
next
  case (calls e es)
  then have "serial_upto perform w' v" using assms(4) by (auto simp: serial_upto_def split: option.splits)
  then show ?thesis using calls assms(3) by (intro exI[of _ v]) simp
next
  case (ends j)
  let ?r = "run_state (perform j) v"
  have "runs perform j v (around w)"
    using ends assms(4) by (cases ?r) (auto simp: serial_upto_def runs_def intro: world.equality)
  then show ?thesis using ends assms(3) by (intro exI[of _ "around w"]) (simp add: serial_upto_def next_job)
qed (use assms(3,4) in \<open>auto simp: serial_upto_def split: option.splits\<close>)

lemma worker_serial:
  assumes "(worker_step offer takes perform)\<^sup>*\<^sup>* (fresh_worker q js x) w" "\<And>j. effect (perform j) (\<lambda>_ _. True)"
  shows "\<exists>v. serially (runs perform) (fresh_world x) (finished w) v \<and> serial_upto perform w v"
  using assms(1)
proof (induction rule: rtranclp_induct)
  case base
  then show ?case by (auto simp: fresh_worker_def serial_upto_def intro: no_job)
next
  case (step w w')
  then show ?case using worker_serial_step[OF step.hyps(2) assms(2)] by blast
qed

lemma worker_grows_step:
  "worker_step offer takes perform w w' \<Longrightarrow> \<exists>as fs. arrived w' = arrived w @ as \<and> started w' = started w @ fs"
  by (erule worker_step.cases) (auto simp: started_def)

lemma worker_grows:
  "(worker_step offer takes perform)\<^sup>*\<^sup>* w w' \<Longrightarrow> \<exists>as fs. arrived w' = arrived w @ as \<and> started w' = started w @ fs"
proof (induction rule: rtranclp_induct)
  case (step v v')
  then show ?case using worker_grows_step[OF step.hyps(2)] by fastforce
qed simp

text \<open>A step of the loop itself, with no tick: neither a send nor the cancellation.\<close>

definition own_step :: "('q \<Rightarrow> 'j \<Rightarrow> 'q offer) \<Rightarrow> ('q \<Rightarrow> 'j \<Rightarrow> 'q \<Rightarrow> bool) \<Rightarrow> ('j \<Rightarrow> ('x, 'e, unit option) proc)
    \<Rightarrow> ('q, 'j, 'x, 'e) worker \<Rightarrow> ('q, 'j, 'x, 'e) worker \<Rightarrow> bool" where
  "own_step offer takes perform w w' \<longleftrightarrow> worker_step offer takes perform w w' \<and> arrived w' = arrived w \<and> lost w' = lost w \<and> returned w' = returned w"

lemma job_completes:
  assumes "doing w = Some j" "comes_back w"
  shows "\<exists>w'. (own_step offer takes perform)\<^sup>*\<^sup>* w w' \<and> doing w' = None \<and> finished w' = finished w @ [j]
    \<and> channels w' = channels w \<and> first_sends w' = first_sends w \<and> returned w' = returned w"
  using assms
proof (induction "ahead w" arbitrary: w)
  case Nil
  then have "own_step offer takes perform w (w\<lparr>doing := None, finished := finished w @ [j]\<rparr>)"
    unfolding own_step_def by (simp add: worker_step.ends)
  then show ?case by (intro exI[of _ "w\<lparr>doing := None, finished := finished w @ [j]\<rparr>"]) auto
next
  case (Cons e es)
  let ?w = "w\<lparr>ahead := es, around := (around w)\<lparr>log := log (around w) @ [e]\<rparr>\<rparr>"
  have s: "own_step offer takes perform w ?w"
    unfolding own_step_def using worker_step.calls[of w e es] Cons.hyps(2) by simp
  have "doing ?w = Some j" "comes_back ?w" "es = ahead ?w" using Cons.prems by simp_all
  then obtain w' where "(own_step offer takes perform)\<^sup>*\<^sup>* ?w w'" "doing w' = None" "finished w' = finished w @ [j]"
      "channels w' = channels w" "first_sends w' = first_sends w" "returned w' = returned w"
    using Cons.hyps(1)[of ?w] by auto
  then show ?case using s by (meson converse_rtranclp_into_rtranclp)
qed

lemma begun_comes_back:
  assumes "(worker_step offer takes perform)\<^sup>*\<^sup>* (fresh_worker q js x) w" "\<And>j v. fst (run_state (perform j) v) \<noteq> None"
  shows "comes_back w"
  using assms(1)
proof (induction rule: rtranclp_induct)
  case base
  then show ?case by (simp add: fresh_worker_def)
next
  case (step w w')
  from step.hyps(2) show ?case by cases (use step.IH assms(2) in auto)
qed

section \<open>Each channel in its order\<close>

text \<open>\<open>pend q k\<close> are the jobs that wait in the channel \<open>k\<close> of the channels \<open>q\<close>, the next one first.\<close>

locale job_channels =
  fixes offer :: "'q \<Rightarrow> 'j \<Rightarrow> 'q offer" and takes :: "'q \<Rightarrow> 'j \<Rightarrow> 'q \<Rightarrow> bool"
    and channel :: "'j \<Rightarrow> 'k" and pend :: "'q \<Rightarrow> 'k \<Rightarrow> 'j list"
  assumes pend_sent: "offer q j = Sent_On q' \<Longrightarrow> pend q' = (pend q)(channel j := pend q (channel j) @ [j])"
    and pend_taken: "takes q j q' \<Longrightarrow> pend q = (pend q')(channel j := j # pend q' (channel j))"
begin

lemma in_order_step:
  assumes "worker_step offer takes perform w w'"
    and "\<And>k. filter (\<lambda>j. channel j = k) (arrived w) = filter (\<lambda>j. channel j = k) (started w) @ pend (channels w) k"
  shows "filter (\<lambda>j. channel j = k) (arrived w') = filter (\<lambda>j. channel j = k) (started w') @ pend (channels w') k"
  using assms(1)
proof cases
  case (sends j q)
  then show ?thesis using assms(2)[of k] pend_sent[of "channels w" j q] by (simp add: started_def)
next
  case (opens j js q)
  then show ?thesis using assms(2)[of k] pend_sent[of "channels w" j q] by (simp add: started_def)
next
  case (begins j q)
  then show ?thesis using assms(2)[of k] pend_taken[of "channels w" j q] by (simp add: started_def)
next
  case (ends j)
  then show ?thesis using assms(2)[of k] by (simp add: started_def)
qed (use assms(2)[of k] in \<open>simp_all add: started_def\<close>)

lemma in_order:
  assumes "(worker_step offer takes perform)\<^sup>*\<^sup>* (fresh_worker q js x) w" "pend q = (\<lambda>k. [])"
  shows "filter (\<lambda>j. channel j = k) (arrived w) = filter (\<lambda>j. channel j = k) (started w) @ pend (channels w) k"
  using assms(1)
proof (induction arbitrary: k rule: rtranclp_induct)
  case base
  then show ?case using assms(2) by (simp add: fresh_worker_def started_def)
next
  case (step v v')
  then show ?case by (blast intro: in_order_step)
qed

end

text \<open>A job was offered in a step, whether it was arrived or discarded.\<close>

definition ticked :: "('q, 'j, 'x, 'e) worker \<Rightarrow> 'j \<Rightarrow> ('q, 'j, 'x, 'e) worker \<Rightarrow> bool" where
  "ticked w j w' \<longleftrightarrow> arrived w' = arrived w @ [j] \<or> lost w' = lost w @ [j]"

lemma count_list_filter: "P j \<Longrightarrow> count_list (filter P xs) j = count_list xs j"
  by (induction xs) auto

text \<open>Channels that discard a job only while an equal one waits, and from which the loop can take any that waits.\<close>

locale lossless_channels = job_channels +
  assumes discarded_waits: "offer q j = Discarded \<Longrightarrow> j \<in> set (pend q (channel j))"
    and waiting_taken: "j \<in> set (pend q (channel j)) \<Longrightarrow> \<exists>q'. takes q j q'"
begin

lemma ticked_waits:
  assumes "worker_step offer takes perform w w'" "ticked w j w'"
  shows "j \<in> set (pend (channels w') (channel j)) \<and> started w' = started w"
  using assms by cases (auto simp: ticked_def started_def dest: pend_sent discarded_waits)

text \<open>From a tick on, a job of its kind waits until one has begun after it.\<close>

lemma tick_waits:
  assumes "(worker_step offer takes perform)\<^sup>*\<^sup>* (fresh_worker q js x) w" "pend q = (\<lambda>k. [])"
    and "worker_step offer takes perform w w'" "ticked w j w'"
    and "(worker_step offer takes perform)\<^sup>*\<^sup>* w' w''"
  shows "count_list (started w) j < count_list (started w'') j \<or> j \<in> set (pend (channels w'') (channel j))"
proof (rule disjCI)
  assume n: "j \<notin> set (pend (channels w'') (channel j))"
  let ?n = "\<lambda>js. count_list (filter (\<lambda>i. channel i = channel j) js) j"
  have w': "(worker_step offer takes perform)\<^sup>*\<^sup>* (fresh_worker q js x) w'"
    using assms(1,3) by (rule rtranclp.rtrancl_into_rtrancl)
  then have w'': "(worker_step offer takes perform)\<^sup>*\<^sup>* (fresh_worker q js x) w''" using assms(5) by (rule rtranclp_trans)
  have "?n (started w) < ?n (arrived w')"
    using in_order[OF w' assms(2), of "channel j"] ticked_waits[OF assms(3,4)] by (auto simp: count_list_0_iff simp del: neq0_conv simp flip: neq0_conv)
  also have "\<dots> \<le> ?n (arrived w'')" using worker_grows[OF assms(5)] by auto
  also have "\<dots> = ?n (started w'')"
    using in_order[OF w'' assms(2), of "channel j"] n by (simp add: count_list_0_iff)
  finally show "count_list (started w) j < count_list (started w'') j" by (simp add: count_list_filter)
qed

text \<open>And the loop, unless it was cancelled, gets to it by its own steps.\<close>

lemma waiting_is_reached:
  assumes "doing w = None" "first_sends w = []" "\<not> returned w" "j \<in> set (pend (channels w) (channel j))"
    and "\<And>j v. fst (run_state (perform j) v) \<noteq> None"
  shows "\<exists>w'. (own_step offer takes perform)\<^sup>*\<^sup>* w w' \<and> finished w' = finished w @ [j] \<and> returned w' = returned w"
proof -
  obtain q where q: "takes (channels w) j q" using waiting_taken assms(4) by blast
  let ?w = "w\<lparr>channels := q, doing := Some j, ahead := calls_of (perform j) (around w), comes_back := fst (run_state (perform j) (around w)) \<noteq> None,
          around := (around w)\<lparr>ext := ext (snd (run_state (perform j) (around w)))\<rparr>\<rparr>"
  have s: "own_step offer takes perform w ?w"
    unfolding own_step_def using worker_step.begins[where w = w and takes = takes and offer = offer and perform = perform and j = j and q = q] assms(1-3) q by simp
  have "doing ?w = Some j" "comes_back ?w" using assms(5) by simp_all
  from job_completes[OF this, of offer takes perform] s show ?thesis
    by (auto intro: converse_rtranclp_into_rtranclp)
qed

lemma tick_is_answered:
  assumes "(worker_step offer takes perform)\<^sup>*\<^sup>* (fresh_worker q [] x) w" "pend q = (\<lambda>k. [])"
    and "worker_step offer takes perform w w'" "ticked w j w'"
    and "(worker_step offer takes perform)\<^sup>*\<^sup>* w' w''" "\<not> returned w''"
    and ret: "\<And>j v. fst (run_state (perform j) v) \<noteq> None"
  shows "\<exists>w3. (own_step offer takes perform)\<^sup>*\<^sup>* w'' w3 \<and> count_list (started w) j < count_list (finished w3) j"
proof -
  have w'': "(worker_step offer takes perform)\<^sup>*\<^sup>* (fresh_worker q [] x) w''"
    using assms(1,3,5) by (meson rtranclp.rtrancl_into_rtrancl rtranclp_trans)
  then have "first_sends w'' = []"
    by (induction rule: rtranclp_induct) (auto simp: fresh_worker_def elim!: worker_step.cases)
  moreover have "comes_back w''" by (rule begun_comes_back[OF w'' ret])
  ultimately obtain v where v: "(own_step offer takes perform)\<^sup>*\<^sup>* w'' v" "doing v = None" "finished v = started w''"
      "channels v = channels w''" "first_sends v = []" "\<not> returned v"
    using assms(6) job_completes[of w'' _ offer takes perform]
    by (cases "doing w''") (auto simp: started_def)
  from tick_waits[OF assms(1-5)] show ?thesis
  proof
    assume "j \<in> set (pend (channels w'') (channel j))"
    then obtain w3 where w3: "(own_step offer takes perform)\<^sup>*\<^sup>* v w3" "finished w3 = started w'' @ [j]"
      using waiting_is_reached[OF v(2,5,6) _ ret] v(3,4) by fastforce
    have "count_list (started w) j \<le> count_list (started w'') j"
      using worker_grows_step[OF assms(3)] worker_grows[OF assms(5)] by auto
    then show ?thesis using v(1) w3 by (intro exI[of _ w3]) auto
  qed (use v in auto)
qed

end

end
