(* ===== verification/Recoverer_Start.thy ===== *)
theory Recoverer_Start
  imports Otel_Redis Recoverer_Queue Worker
begin

text \<open>
  Start of lib/recoverer/client.go as a worker, and popChecks of check.go, which feeds it. The drain and the sweep
  cron share one channel with room for two ticks; a check is handed over on an unbuffered channel, so that it
  waits in the hand of popChecks, which pops the next one only then. Before its loop, Start sends a sweep, and
  that send blocks. Errors of the telemetry or of a cron expression end Start before and are not modelled; when
  a cron job fires is open, and \<open>popping\<close> says whether popChecks runs.
\<close>

section \<open>The loop\<close>

datatype recoverer_job = Drain_Tick | Sweep_Tick | Check uuid uuid

record recoverer_channels =
  ch :: "recoverer_job list" \<comment> \<open>ticks only\<close>
  checks :: "recoverer_job option"

fun recoverer_offer :: "bool \<Rightarrow> recoverer_channels \<Rightarrow> recoverer_job \<Rightarrow> recoverer_channels offer" where
  "recoverer_offer popping q (Check checkId bookingId) =
     (if popping \<and> checks q = None then Sent_On (q\<lparr>checks := Some (Check checkId bookingId)\<rparr>) else Blocked)"
| "recoverer_offer popping q t = (if length (ch q) < 2 then Sent_On (q\<lparr>ch := ch q @ [t]\<rparr>) else Discarded)"

fun recoverer_takes :: "recoverer_channels \<Rightarrow> recoverer_job \<Rightarrow> recoverer_channels \<Rightarrow> bool" where
  "recoverer_takes q (Check checkId bookingId) q' \<longleftrightarrow> checks q = Some (Check checkId bookingId) \<and> q' = q\<lparr>checks := None\<rparr>"
| "recoverer_takes q t q' \<longleftrightarrow> (\<exists>ts. ch q = t # ts \<and> q' = q\<lparr>ch := ts\<rparr>)"

fun recoverer_perform :: "'x recoverer_env \<Rightarrow> recoverer_config \<Rightarrow> nat \<Rightarrow> recoverer_job \<Rightarrow> ('x, unit option) action" where
  "recoverer_perform env cfg fuel Drain_Tick = cycle env cfg fuel False"
| "recoverer_perform env cfg fuel Sweep_Tick = cycle env cfg fuel True"
| "recoverer_perform env cfg fuel (Check checkId bookingId) = do {
     answerCheck env cfg checkId bookingId;
     return (Some ())
   }"

type_synonym 'x recoverer_service = "(recoverer_channels, recoverer_job, 'x, event) worker"

definition recoverer_start :: "'x \<Rightarrow> 'x recoverer_service" where
  "recoverer_start x = fresh_worker \<lparr>ch = [], checks = None\<rparr> [Sweep_Tick] x"

definition recoverer_step :: "'x recoverer_env \<Rightarrow> recoverer_config \<Rightarrow> nat \<Rightarrow> bool \<Rightarrow> 'x recoverer_service \<Rightarrow> 'x recoverer_service \<Rightarrow> bool" where
  "recoverer_step env cfg fuel popping = worker_step (recoverer_offer popping) recoverer_takes (recoverer_perform env cfg fuel)"

text \<open>The two channels, as what a job is sent on.\<close>

definition is_check :: "recoverer_job \<Rightarrow> bool" where
  "is_check j \<longleftrightarrow> (case j of Check c b \<Rightarrow> True | _ \<Rightarrow> False)"

definition waiting_jobs :: "recoverer_channels \<Rightarrow> bool \<Rightarrow> recoverer_job list" where
  "waiting_jobs q c = (if c then (case checks q of None \<Rightarrow> [] | Some j \<Rightarrow> [j]) else ch q)"

interpretation recoverer_jobs: job_channels "recoverer_offer popping" recoverer_takes is_check waiting_jobs
  by unfold_locales (case_tac j; auto simp: waiting_jobs_def is_check_def fun_eq_iff split: if_splits)+

lemma waiting_jobs_start: "waiting_jobs \<lparr>ch = [], checks = None\<rparr> = (\<lambda>k. [])"
  by (auto simp: waiting_jobs_def fun_eq_iff)

text \<open>At most two ticks wait.\<close>

lemma recoverer_ticks_bounded:
  assumes "(recoverer_step env cfg fuel popping)\<^sup>*\<^sup>* (recoverer_start x) w"
  shows "length (ch (channels w)) \<le> 2"
  using assms
proof (induction rule: rtranclp_induct)
  case base
  then show ?case by (simp add: recoverer_start_def fresh_worker_def)
next
  case (step v v')
  have offers: "recoverer_offer popping q j = Sent_On q' \<Longrightarrow> length (ch q) \<le> 2 \<Longrightarrow> length (ch q') \<le> 2" for q j q'
    by (cases j) (auto split: if_splits)
  have takes: "recoverer_takes q j q' \<Longrightarrow> length (ch q) \<le> 2 \<Longrightarrow> length (ch q') \<le> 2" for q j q'
    by (cases j) auto
  from step.hyps(2) show ?case
    unfolding recoverer_step_def by cases (use step.IH offers takes in auto)
qed

section \<open>One job after the other\<close>

text \<open>What a job does, from the world it begins in: a drain drains the queue and then ends what expired, a sweep goes
  on, skipping what the drain handled, to sweep and then to repair, and a check is answered.\<close>

fun recoverer_does :: "'x recoverer_env \<Rightarrow> recoverer_config \<Rightarrow> nat \<Rightarrow> recoverer_job \<Rightarrow> ('x, event) world \<Rightarrow> ('x, event) world \<Rightarrow> bool" where
  "recoverer_does env cfg fuel Drain_Tick v v' \<longleftrightarrow> (\<exists>d v1 x.
     run_state (Drain env cfg) v = (d, v1) \<and> run_state (ExpireRecovery env) v1 = (x, v'))"
| "recoverer_does env cfg fuel Sweep_Tick v v' \<longleftrightarrow> (\<exists>d v1 x v2 s v3 r.
     run_state (Drain env cfg) v = (d, v1) \<and> run_state (ExpireRecovery env) v1 = (x, v2)
   \<and> run_state (Sweep env cfg fuel (fst d)) v2 = (Some s, v3) \<and> run_state (Repair env cfg) v3 = (r, v'))"
| "recoverer_does env cfg fuel (Check checkId bookingId) v v' \<longleftrightarrow> run_state (answerCheck env cfg checkId bookingId) v = ((), v')"

lemma recoverer_perform_does: "runs (recoverer_perform env cfg fuel) j v v' \<Longrightarrow> recoverer_does env cfg fuel j v v'"
  by (cases j) (auto simp: runs_def cycle_def split: prod.splits option.splits)

lemma effect_Repair: "effect (Repair env cfg) (\<lambda>_ _. True)"
proof -
  have list: "effect (listMissingTickets env cfg) (\<lambda>_ _. True)"
    unfolding listMissingTickets_def by (rule effect_on_ok_invoke) simp_all
  have each: "effect (for_each (repairOne env cfg u) bs) (\<lambda>_ _. True)" for u bs
    by (rule effect_conseq[OF effect_for_each[where Q = "\<lambda>_. True"]]) (auto simp: list_all_iff intro: effect_conseq[OF effect_repairOne])
  show ?thesis
    unfolding Repair_def repairBookings_def
    by (intro effect_if effect_return effect_on_ok_cases[OF list] effect_on_ok_invoke effect_bind effect_conseq[OF each] TrueI)
qed

lemma effect_recoverer_perform: "effect (recoverer_perform env cfg fuel j) (\<lambda>_ _. True)"
proof -
  have x: "effect (ExpireRecovery env) (\<lambda>_ _. True)"
    unfolding ExpireRecovery_def by (rule effect_on_ok_invoke) simp_all
  have "effect (cycle env cfg fuel sweep) (\<lambda>_ _. True)" for sweep
    unfolding cycle_def
    by (intro effect_bind effect_if effect_case_option effect_return effect_conseq[OF effect_Drain] effect_conseq[OF x]
        effect_conseq[OF effect_Sweep] effect_conseq[OF effect_Repair]) simp_all
  moreover have "effect (recoverer_perform env cfg fuel (Check c b)) (\<lambda>_ _. True)" for c b
    unfolding recoverer_perform.simps
    by (intro effect_bind effect_conseq[OF answerCheck_reads_only] effect_return) simp
  ultimately show ?thesis by (cases j) simp_all
qed

text \<open>Start sends its sweep when the loop has taken nothing yet and at most one tick is there.\<close>

definition sweeps_first :: "'x recoverer_service \<Rightarrow> bool" where
  "sweeps_first w \<longleftrightarrow>
     (if first_sends w = [] then Sweep_Tick \<in> set (take 2 (filter (\<lambda>j. \<not> is_check j) (arrived w)))
      else first_sends w = [Sweep_Tick] \<and> started w = [])"

lemma sweeps_first_step:
  assumes "recoverer_step env cfg fuel popping w w'" "sweeps_first w"
    and order: "filter (\<lambda>j. \<not> is_check j) (arrived w) = filter (\<lambda>j. \<not> is_check j) (started w) @ ch (channels w)"
  shows "sweeps_first w'"
  using assms(1) unfolding recoverer_step_def
proof cases
  case (opens j js q)
  then have "j = Sweep_Tick" "js = []" "length (ch (channels w)) < 2" "started w = []"
    using assms(2) by (auto simp: sweeps_first_def split: if_splits)
  then show ?thesis using order opens by (auto simp: sweeps_first_def is_check_def)
next
  case (sends j q)
  then show ?thesis using assms(2) by (auto simp: sweeps_first_def started_def dest: in_set_takeD split: if_splits) 
next
  case (ends j)
  then show ?thesis using assms(2) by (auto simp: sweeps_first_def started_def split: if_splits)
qed (use assms(2) in \<open>auto simp: sweeps_first_def started_def split: if_splits\<close>)

lemma recoverer_in_order:
  assumes "(recoverer_step env cfg fuel popping)\<^sup>*\<^sup>* (recoverer_start x) w"
  shows "filter (\<lambda>j. is_check j = k) (arrived w) = filter (\<lambda>j. is_check j = k) (started w) @ waiting_jobs (channels w) k"
  by (rule recoverer_jobs.in_order[OF assms[unfolded recoverer_step_def recoverer_start_def] waiting_jobs_start])

lemma recoverer_ticks_in_order:
  assumes "(recoverer_step env cfg fuel popping)\<^sup>*\<^sup>* (recoverer_start x) w"
  shows "filter (\<lambda>j. \<not> is_check j) (arrived w) = filter (\<lambda>j. \<not> is_check j) (started w) @ ch (channels w)"
  using recoverer_in_order[OF assms, of False] by (simp add: waiting_jobs_def)

lemma recoverer_sweeps_first:
  assumes "(recoverer_step env cfg fuel popping)\<^sup>*\<^sup>* (recoverer_start x) w"
  shows "sweeps_first w"
  using assms
proof (induction rule: rtranclp_induct)
  case base
  then show ?case by (simp add: sweeps_first_def recoverer_start_def fresh_worker_def started_def)
next
  case (step w w')
  show ?case by (rule sweeps_first_step[OF step.hyps(2) step.IH recoverer_ticks_in_order[OF step.hyps(1)]])
qed

text \<open>C36: The recoverer is sequential and starts with a sweep. Whatever its cron jobs and the checks do, also between the
  calls of a job: its calls are those of the jobs it finished, one after the other, each in the world the one
  before left, followed by the first calls of the job under way; a drain tick drains and expires, a sweep tick then also
  sweeps and repairs. Every tick and check it accepted is begun once, the ticks and the checks each in
  the order they came; at most two ticks wait; and it begins nothing before one of the first two ticks is a sweep.\<close>

theorem recoverer_Start_serial:
  assumes "(recoverer_step env cfg fuel popping)\<^sup>*\<^sup>* (recoverer_start x) w"
  shows "(\<exists>v. serially (recoverer_does env cfg fuel) (fresh_world x) (finished w) v
        \<and> (case doing w of None \<Rightarrow> log (around w) = log v
           | Some j \<Rightarrow> \<exists>made. log (around w) = log v @ made \<and> log (snd (run_state (recoverer_perform env cfg fuel j) v)) = log v @ made @ ahead w))
    \<and> filter (\<lambda>j. is_check j = k) (arrived w) = filter (\<lambda>j. is_check j = k) (started w) @ waiting_jobs (channels w) k
    \<and> length (ch (channels w)) \<le> 2
    \<and> (started w \<noteq> [] \<longrightarrow> Sweep_Tick \<in> set (take 2 (filter (\<lambda>j. \<not> is_check j) (arrived w))))"
proof -
  obtain v where v: "serially (runs (recoverer_perform env cfg fuel)) (fresh_world x) (finished w) v" "serial_upto (recoverer_perform env cfg fuel) w v"
    using worker_serial[OF assms[unfolded recoverer_step_def recoverer_start_def] effect_recoverer_perform] by blast
  have "serially (recoverer_does env cfg fuel) (fresh_world x) (finished w) v"
    using v(1) recoverer_perform_does by (rule serially_mono)
  moreover have "case doing w of None \<Rightarrow> log (around w) = log v
      | Some j \<Rightarrow> \<exists>made. log (around w) = log v @ made \<and> log (snd (run_state (recoverer_perform env cfg fuel j) v)) = log v @ made @ ahead w"
    using v(2) by (auto simp: serial_upto_def split: option.split)
  moreover have "started w \<noteq> [] \<longrightarrow> Sweep_Tick \<in> set (take 2 (filter (\<lambda>j. \<not> is_check j) (arrived w)))"
    using recoverer_sweeps_first[OF assms] by (auto simp: sweeps_first_def split: if_splits)
  ultimately show ?thesis using recoverer_in_order[OF assms] recoverer_ticks_bounded[OF assms] by blast
qed

text \<open>Start has sent its sweep and begun it.\<close>

definition sweeping :: "'x recoverer_env \<Rightarrow> recoverer_config \<Rightarrow> nat \<Rightarrow> 'x \<Rightarrow> 'x recoverer_service" where
  "sweeping env cfg fuel x = (let p = cycle env cfg fuel True; v = fresh_world x in
     (recoverer_start x)\<lparr>first_sends := [], doing := Some Sweep_Tick, ahead := calls_of p v,
       comes_back := fst (run_state p v) \<noteq> None, arrived := [Sweep_Tick], around := v\<lparr>ext := ext (snd (run_state p v))\<rparr>\<rparr>)"

lemma recoverer_sweeping: "(recoverer_step env cfg fuel popping)\<^sup>*\<^sup>* (recoverer_start x) (sweeping env cfg fuel x)"
proof -
  let ?w = "(recoverer_start x)\<lparr>channels := \<lparr>ch = [Sweep_Tick], checks = None\<rparr>, first_sends := [], arrived := [Sweep_Tick]\<rparr>"
  have "recoverer_step env cfg fuel popping (recoverer_start x) ?w"
    using worker_step.opens[of "recoverer_start x" Sweep_Tick "[]" "recoverer_offer popping" "\<lparr>ch = [Sweep_Tick], checks = None\<rparr>"]
    by (simp add: recoverer_step_def recoverer_start_def fresh_worker_def)
  moreover have "recoverer_step env cfg fuel popping ?w (sweeping env cfg fuel x)"
    using worker_step.begins[of ?w recoverer_takes Sweep_Tick "\<lparr>ch = [], checks = None\<rparr>" "recoverer_offer popping" "recoverer_perform env cfg fuel"]
    by (simp add: recoverer_step_def recoverer_start_def sweeping_def fresh_worker_def Let_def)
  ultimately show ?thesis by (meson converse_rtranclp_into_rtranclp r_into_rtranclp)
qed

theorem recoverer_Start_serial_witness:
  "let w = sweeping example_env example_config 1 () in
     log (snd (run_state (recoverer_perform example_env example_config 1 Sweep_Tick) (fresh_world ()))) = log (around w) @ ahead w
   \<and> Sweep_Tick \<in> set (take 2 (filter (\<lambda>j. \<not> is_check j) (arrived w)))"
proof -
  let ?w = "sweeping example_env example_config 1 ()"
  have f: "finished ?w = []" "doing ?w = Some Sweep_Tick" "started ?w = [Sweep_Tick]"
    by (simp_all add: sweeping_def Let_def recoverer_start_def fresh_worker_def started_def)
  from recoverer_Start_serial[OF recoverer_sweeping[of example_env example_config 1 True "()"], of True]
  obtain v where "serially (recoverer_does example_env example_config 1) (fresh_world ()) [] v"
      "\<exists>made. log (around ?w) = log v @ made \<and> log (snd (run_state (recoverer_perform example_env example_config 1 Sweep_Tick) v)) = log v @ made @ ahead ?w"
      "Sweep_Tick \<in> set (take 2 (filter (\<lambda>j. \<not> is_check j) (arrived ?w)))"
    unfolding f by auto
  moreover from this(1) have "v = fresh_world ()" by cases auto
  ultimately show ?thesis by (auto simp: Let_def)
qed

section \<open>What the shared channel loses\<close>

text \<open>Two drains come while the sweep of Start runs, and then a sweep.\<close>

lemma recoverer_tick_step:
  assumes "\<not> is_check j" "\<not> returned w" "length (ch (channels w)) < 2"
  shows "recoverer_step env cfg fuel popping w
    (w\<lparr>channels := (channels w)\<lparr>ch := ch (channels w) @ [j]\<rparr>, arrived := arrived w @ [j]\<rparr>)"
  unfolding recoverer_step_def by (rule worker_step.sends) (use assms in \<open>auto simp: is_check_def split: recoverer_job.splits\<close>)

definition crowded :: "'x recoverer_env \<Rightarrow> recoverer_config \<Rightarrow> nat \<Rightarrow> 'x \<Rightarrow> 'x recoverer_service" where
  "crowded env cfg fuel x = (sweeping env cfg fuel x)\<lparr>channels := \<lparr>ch = [Drain_Tick, Drain_Tick], checks = None\<rparr>,
     arrived := [Sweep_Tick, Drain_Tick, Drain_Tick]\<rparr>"

lemma recoverer_crowded: "(recoverer_step env cfg fuel popping)\<^sup>*\<^sup>* (recoverer_start x) (crowded env cfg fuel x)"
proof -
  define v where "v = (sweeping env cfg fuel x)\<lparr>channels := \<lparr>ch = [Drain_Tick], checks = None\<rparr>, arrived := [Sweep_Tick, Drain_Tick]\<rparr>"
  have "recoverer_step env cfg fuel popping (sweeping env cfg fuel x) v" "recoverer_step env cfg fuel popping v (crowded env cfg fuel x)"
    using recoverer_tick_step[of Drain_Tick "sweeping env cfg fuel x"] recoverer_tick_step[of Drain_Tick v]
    by (simp_all add: v_def crowded_def sweeping_def Let_def recoverer_start_def fresh_worker_def is_check_def)
  then show ?thesis using recoverer_sweeping by (meson rtranclp.rtrancl_into_rtrancl)
qed

lemma recoverer_discards:
  assumes "recoverer_step env cfg fuel popping w w'" "ticked w j w'" "\<not> is_check j" "length (ch (channels w)) = 2" "first_sends w = []"
  shows "w' = w\<lparr>lost := lost w @ [j]\<rparr>"
  using assms(1) unfolding recoverer_step_def
  by cases (use assms(2-5) in \<open>auto simp: ticked_def is_check_def split: recoverer_job.splits\<close>)

text \<open>The rounds of a kind that were begun are the ticks of it that were accepted, but for those that still wait.\<close>

lemma sweeps_begun:
  assumes "(recoverer_step env cfg fuel popping)\<^sup>*\<^sup>* (recoverer_start x) w"
  shows "count_list (arrived w) Sweep_Tick = count_list (started w) Sweep_Tick + count_list (ch (channels w)) Sweep_Tick"
proof -
  have "count_list (filter (\<lambda>j. \<not> is_check j) (arrived w)) Sweep_Tick
      = count_list (filter (\<lambda>j. \<not> is_check j) (started w)) Sweep_Tick + count_list (ch (channels w)) Sweep_Tick"
    using recoverer_ticks_in_order[OF assms] by simp
  then show ?thesis by (simp add: count_list_filter is_check_def)
qed

text \<open>C37: Two drains crowd out a sweep. There is a run in which a cycle is under way and two drain ticks wait; every sweep
  tick that comes then is discarded and leaves the two drains as they wait; and until another sweep tick is
  accepted, the recoverer begins no sweep.\<close>

theorem recoverer_can_lose_sweep:
  "\<exists>w. (recoverer_step env cfg fuel popping)\<^sup>*\<^sup>* (recoverer_start x) w
    \<and> doing w = Some Sweep_Tick \<and> ch (channels w) = [Drain_Tick, Drain_Tick]
    \<and> recoverer_step env cfg fuel popping w (w\<lparr>lost := lost w @ [Sweep_Tick]\<rparr>)
    \<and> (\<forall>w'. recoverer_step env cfg fuel popping w w' \<and> ticked w Sweep_Tick w' \<longrightarrow>
         w' = w\<lparr>lost := lost w @ [Sweep_Tick]\<rparr>
       \<and> (\<forall>w''. (recoverer_step env cfg fuel popping)\<^sup>*\<^sup>* w' w'' \<and> count_list (arrived w'') Sweep_Tick = count_list (arrived w) Sweep_Tick
            \<longrightarrow> count_list (started w'') Sweep_Tick = count_list (started w) Sweep_Tick))"
proof -
  let ?w = "crowded env cfg fuel x" and ?step = "recoverer_step env cfg fuel popping"
  have c: "doing ?w = Some Sweep_Tick" "ch (channels ?w) = [Drain_Tick, Drain_Tick]" "first_sends ?w = []" "\<not> returned ?w"
    by (simp_all add: crowded_def sweeping_def Let_def recoverer_start_def fresh_worker_def)
  have lost: "?step ?w (?w\<lparr>lost := lost ?w @ [Sweep_Tick]\<rparr>)"
    unfolding recoverer_step_def by (rule worker_step.discards) (simp_all add: c)
  have only: "w' = ?w\<lparr>lost := lost ?w @ [Sweep_Tick]\<rparr>" if "?step ?w w'" "ticked ?w Sweep_Tick w'" for w'
    by (rule recoverer_discards[OF that]) (simp_all add: c is_check_def)
  have none: "count_list (started w'') Sweep_Tick = count_list (started ?w) Sweep_Tick"
    if "?step ?w w'" "?step\<^sup>*\<^sup>* w' w''" "count_list (arrived w'') Sweep_Tick = count_list (arrived ?w) Sweep_Tick" for w' w''
  proof -
    have r: "?step\<^sup>*\<^sup>* ?w w''" using that(1,2) by (rule converse_rtranclp_into_rtranclp)
    obtain fs where "started w'' = started ?w @ fs" using worker_grows[OF r[unfolded recoverer_step_def]] by blast
    moreover have "count_list (arrived ?w) Sweep_Tick = count_list (started ?w) Sweep_Tick + count_list (ch (channels ?w)) Sweep_Tick"
      by (rule sweeps_begun[OF recoverer_crowded])
    ultimately show ?thesis
      using sweeps_begun[OF rtranclp_trans[OF recoverer_crowded r]] that(3) c(2) by simp
  qed
  show ?thesis
  proof (intro exI[of _ ?w] conjI allI impI)
    fix w' assume w': "?step ?w w' \<and> ticked ?w Sweep_Tick w'"
    show "w' = ?w\<lparr>lost := lost ?w @ [Sweep_Tick]\<rparr>" by (rule only) (use w' in blast)+
    fix w'' assume "?step\<^sup>*\<^sup>* w' w'' \<and> count_list (arrived w'') Sweep_Tick = count_list (arrived ?w) Sweep_Tick"
    then show "count_list (started w'') Sweep_Tick = count_list (started ?w) Sweep_Tick"
      by (intro none[of w' w'']) (use w' in blast)+
  qed (fact recoverer_crowded c(1) c(2) lost)+
qed

theorem recoverer_can_lose_sweep_witness:
  "\<exists>w. (recoverer_step example_env example_config 1 True)\<^sup>*\<^sup>* (recoverer_start ()) w
    \<and> doing w = Some Sweep_Tick \<and> ch (channels w) = [Drain_Tick, Drain_Tick]
    \<and> recoverer_step example_env example_config 1 True w (w\<lparr>lost := lost w @ [Sweep_Tick]\<rparr>)"
  using recoverer_can_lose_sweep[of example_env example_config 1 True "()"] by blast

text \<open>A sweep tick is lost only so: when one waits already, or two drains do.\<close>

lemma recoverer_loses_only_when_full:
  "recoverer_offer popping q j = Discarded \<Longrightarrow> \<not> is_check j \<and> 2 \<le> length (ch q)"
  by (cases j) (auto simp: is_check_def split: if_splits)

text \<open>Ticks that fill the channel before the send of Start leave it waiting for a receiver that only it could be.\<close>

lemma recoverer_startup_blocks:
  assumes "(recoverer_step env cfg fuel popping)\<^sup>*\<^sup>* w w'" "first_sends w = [Sweep_Tick]" "length (ch (channels w)) = 2" "doing w = None"
  shows "first_sends w' = [Sweep_Tick] \<and> length (ch (channels w')) = 2 \<and> doing w' = None \<and> finished w' = finished w"
  using assms(1)
proof (induction rule: rtranclp_induct)
  case base
  then show ?case using assms(2-4) by simp
next
  case (step v v')
  have offers: "recoverer_offer popping q j = Sent_On q' \<Longrightarrow> length (ch q) = 2 \<Longrightarrow> ch q' = ch q" for q j q'
    by (cases j) (auto split: if_splits)
  from step.hyps(2) show ?case
    unfolding recoverer_step_def by cases (use step.IH offers in fastforce)+
qed

section \<open>The requests\<close>

record 'x check_env =
  pc_done :: "'x \<Rightarrow> bool \<times> 'x" \<comment> \<open>\<open>ctx.Err() != nil\<close>\<close>
  pc_decode :: "string \<Rightarrow> (uuid \<times> uuid) result"
  pc_hand :: "uuid \<Rightarrow> uuid \<Rightarrow> 'x \<Rightarrow> bool \<times> 'x" \<comment> \<open>false when the context ended first\<close>
  pc_sleep :: "duration \<Rightarrow> 'x \<Rightarrow> bool \<times> 'x" \<comment> \<open>true when the context ended first\<close>

datatype check_event = Asked_Done bool | Malformed string | Handed uuid uuid bool | Backed_Off duration bool

text \<open>\<open>uuid.Nil\<close> is the number zero.\<close>

definition check_handler :: "'x check_env \<Rightarrow> ('x, 'c, check_event) handler" where
  "check_handler pc mc message =
     (let malformed = do { _ \<leftarrow> invoke (Pair ()) (\<lambda>_. Handled (Malformed message)); return (Some (Inr ())) }
      in case pc_decode pc message of
        Inl e \<Rightarrow> malformed
      | Inr (checkId, bookingId) \<Rightarrow>
          if checkId = 0 \<or> bookingId = 0 then malformed
          else do {
            _ \<leftarrow> invoke (pc_hand pc checkId bookingId) (\<lambda>b. Handled (Handed checkId bookingId b));
            return (Some (Inr ()))
          })"

text \<open>The result is \<open>None\<close> when the fuel is out or the pop panics.\<close>

fun popChecks :: "'x check_env \<Rightarrow> ('x, 'm, 'v, 'c) redis_env \<Rightarrow> string \<Rightarrow> nat \<Rightarrow> duration \<Rightarrow> ('x, 'c, check_event, unit option) messaging" where
  "popChecks pc rd queue 0 backoff = return None"
| "popChecks pc rd queue (Suc n) backoff = do {
     over \<leftarrow> invoke (pc_done pc) (\<lambda>b. Handled (Asked_Done b));
     if over then return (Some ())
     else do {
       r \<leftarrow> QueuePop rd queue (check_handler pc);
       case r of
         None \<Rightarrow> return None
       | Some (Inr _) \<Rightarrow> popChecks pc rd queue n second
       | Some (Inl err) \<Rightarrow> do {
           over \<leftarrow> invoke (pc_done pc) (\<lambda>b. Handled (Asked_Done b));
           if over then return (Some ())
           else do {
             over \<leftarrow> invoke (pc_sleep pc backoff) (\<lambda>b. Handled (Backed_Off backoff b));
             if over then return (Some ())
             else popChecks pc rd queue n (if backoff < minute then backoff * 2 else backoff)
           }
         }
     }
   }"

text \<open>A request is handed on only when it is read from the message popped last, a message is malformed only when
  it does not read as two ids, and no pause is longer than 64 seconds.\<close>

fun check_events_ok :: "'x check_env \<Rightarrow> ('x, 'm, 'v, 'c) redis_env \<Rightarrow> string option \<Rightarrow> ('c, check_event) redis_event list \<Rightarrow> bool" where
  "check_events_ok pc rd popped [] = True"
| "check_events_ok pc rd popped (BRPopped q r # tr) =
     check_events_ok pc rd (case r of Inr (k # val # _) \<Rightarrow> (case or_open rd val of
         Inr (v, c) \<Rightarrow> (case or_message_json rd v of Inr raw \<Rightarrow> Some raw | Inl e \<Rightarrow> None) | Inl e \<Rightarrow> None) | _ \<Rightarrow> None) tr"
| "check_events_ok pc rd popped (Handled (Handed c b ok) # tr) \<longleftrightarrow>
     (case popped of None \<Rightarrow> False | Some raw \<Rightarrow> pc_decode pc raw = Inr (c, b) \<and> c \<noteq> 0 \<and> b \<noteq> 0) \<and> check_events_ok pc rd None tr"
| "check_events_ok pc rd popped (Handled (Malformed raw) # tr) \<longleftrightarrow> popped = Some raw
     \<and> (case pc_decode pc raw of Inl e \<Rightarrow> True | Inr (c, b) \<Rightarrow> c = 0 \<or> b = 0) \<and> check_events_ok pc rd None tr"
| "check_events_ok pc rd popped (Handled (Backed_Off d over) # tr) \<longleftrightarrow> d \<le> 64 * second \<and> check_events_ok pc rd popped tr"
| "check_events_ok pc rd popped (ev # tr) = check_events_ok pc rd popped tr"

lemma QueuePop_checked:
  "effect (QueuePop rd queue (check_handler pc)) (\<lambda>r tr. \<forall>popped rest. check_events_ok pc rd popped (tr @ rest) = check_events_ok pc rd None rest)"
  unfolding QueuePop_def
proof (rule effect_bind, rule effect_invoke)
  fix r
  show "effect (case r of Inl err \<Rightarrow> return (Some (Inl err))
      | Inr popped \<Rightarrow> if length popped < 2 then return None else deliver rd (check_handler pc) (popped ! 1))
    (\<lambda>_ tr'. \<forall>popped rest. check_events_ok pc rd popped (([BRPopped queue r] @ tr') @ rest) = check_events_ok pc rd None rest)"
  proof (cases r)
    case (Inr ps)
    show ?thesis
    proof (cases "length ps < 2")
      case True
      then show ?thesis using Inr by (cases ps) simp_all
    next
      case False
      then obtain k val ps' where "ps = k # val # ps'" by (metis One_nat_def Suc_1 length_0_conv length_Cons lessI neq_Nil_conv zero_less_Suc)
      then show ?thesis using Inr unfolding deliver_def check_handler_def Let_def
        by (auto intro!: effect_case_sum effect_case_prod effect_if effect_bind effect_invoke)
    qed
  qed simp
qed

definition back_offs :: "duration set" where
  "back_offs = {second, 2 * second, 4 * second, 8 * second, 16 * second, 32 * second, 64 * second}"

lemma back_offs_double: "d \<in> back_offs \<Longrightarrow> (if d < minute then d * 2 else d) \<in> back_offs"
  by (auto simp: back_offs_def minute_def second_def)

lemma back_offs_bound: "d \<in> back_offs \<Longrightarrow> d \<le> 64 * second"
  by (auto simp: back_offs_def second_def)

lemma effect_popChecks:
  "backoff \<in> back_offs \<Longrightarrow> effect (popChecks pc rd queue n backoff) (\<lambda>_ tr. check_events_ok pc rd None tr)"
proof (induction n arbitrary: backoff)
  case (Suc n)
  have again: "effect (popChecks pc rd queue n second) (\<lambda>_ tr. check_events_ok pc rd None tr)"
    using Suc.IH[of second] by (simp add: back_offs_def)
  have longer: "effect (popChecks pc rd queue n (if backoff < minute then backoff * 2 else backoff)) (\<lambda>_ tr. check_events_ok pc rd None tr)"
    using Suc.IH[OF back_offs_double[OF Suc.prems]] .
  have rest: "effect (do {
      over \<leftarrow> invoke (pc_done pc) (\<lambda>b. Handled (Asked_Done b));
      if over then return (Some ())
      else do {
        over \<leftarrow> invoke (pc_sleep pc backoff) (\<lambda>b. Handled (Backed_Off backoff b));
        if over then return (Some ()) else popChecks pc rd queue n (if backoff < minute then backoff * 2 else backoff)
      }
    }) (\<lambda>_ tr. check_events_ok pc rd None tr)"
    by (intro effect_bind effect_invoke effect_if effect_return effect_conseq[OF longer]) (simp_all add: back_offs_bound[OF Suc.prems])
  show ?case
    unfolding popChecks.simps
  proof (rule effect_bind, rule effect_invoke, rule effect_if)
    fix over :: bool
    show "effect (do {
        r \<leftarrow> QueuePop rd queue (check_handler pc);
        case r of
          None \<Rightarrow> return None
        | Some (Inl err) \<Rightarrow> do {
            over \<leftarrow> invoke (pc_done pc) (\<lambda>b. Handled (Asked_Done b));
            if over then return (Some ())
            else do {
              over \<leftarrow> invoke (pc_sleep pc backoff) (\<lambda>b. Handled (Backed_Off backoff b));
              if over then return (Some ()) else popChecks pc rd queue n (if backoff < minute then backoff * 2 else backoff)
            }
          }
        | Some (Inr _) \<Rightarrow> popChecks pc rd queue n second
      }) (\<lambda>_ tr. check_events_ok pc rd None ([Handled (Asked_Done over)] @ tr))"
    proof (rule effect_bind, rule effect_conseq[OF QueuePop_checked])
      fix r tr
      assume tr: "\<forall>popped rest. check_events_ok pc rd popped (tr @ rest) = check_events_ok pc rd None rest"
      show "effect (case r of
          None \<Rightarrow> return None
        | Some (Inl err) \<Rightarrow> do {
            over \<leftarrow> invoke (pc_done pc) (\<lambda>b. Handled (Asked_Done b));
            if over then return (Some ())
            else do {
              over \<leftarrow> invoke (pc_sleep pc backoff) (\<lambda>b. Handled (Backed_Off backoff b));
              if over then return (Some ()) else popChecks pc rd queue n (if backoff < minute then backoff * 2 else backoff)
            }
          }
        | Some (Inr _) \<Rightarrow> popChecks pc rd queue n second)
        (\<lambda>_ tr'. check_events_ok pc rd None ([Handled (Asked_Done over)] @ tr @ tr'))"
        by (simp only: append_Cons append_Nil check_events_ok.simps tr)
          (intro effect_case_option effect_case_sum rest again, use tr[rule_format, of None "[]"] in simp)
    qed
  qed simp
qed simp

text \<open>PopChecks hands on only the requests it is sent: every request it hands to the loop is read from the message
  popped last and names two ids, a message is dropped as malformed only when it does not, and it never waits
  longer than 64 seconds before it pops again.\<close>

theorem popChecks_hands_on: "effect (popChecks pc rd queue n second) (\<lambda>_ tr. check_events_ok pc rd None tr)"
  by (rule effect_popChecks) (simp add: back_offs_def)

end
