(* ===== verification/Withdrawer_Start.thy ===== *)
theory Withdrawer_Start
  imports Worker Withdrawer
begin

text \<open>
  Start of lib/withdrawer/client.go as a worker: two cron jobs, each with a channel of its own with room for one
  tick, and the loop that approves or reconciles. Errors of the telemetry or of a cron expression end Start before
  it does anything and are not modelled; when a cron job fires is open.
\<close>

datatype withdrawer_job = Approve_Tick | Reconcile_Tick

record withdrawer_channels =
  approveCh :: bool \<comment> \<open>a tick waits\<close>
  reconcileCh :: bool

fun withdrawer_offer :: "withdrawer_channels \<Rightarrow> withdrawer_job \<Rightarrow> withdrawer_channels offer" where
  "withdrawer_offer q Approve_Tick = (if approveCh q then Discarded else Sent_On (q\<lparr>approveCh := True\<rparr>))"
| "withdrawer_offer q Reconcile_Tick = (if reconcileCh q then Discarded else Sent_On (q\<lparr>reconcileCh := True\<rparr>))"

fun withdrawer_takes :: "withdrawer_channels \<Rightarrow> withdrawer_job \<Rightarrow> withdrawer_channels \<Rightarrow> bool" where
  "withdrawer_takes q Approve_Tick q' \<longleftrightarrow> approveCh q \<and> q' = q\<lparr>approveCh := False\<rparr>"
| "withdrawer_takes q Reconcile_Tick q' \<longleftrightarrow> reconcileCh q \<and> q' = q\<lparr>reconcileCh := False\<rparr>"

fun withdrawer_perform :: "'x withdrawer_env \<Rightarrow> withdrawer_config \<Rightarrow> withdrawer_job \<Rightarrow> ('x, unit option) withdrawing" where
  "withdrawer_perform env cfg Approve_Tick = do { _ \<leftarrow> approve_tick env cfg; return (Some ()) }"
| "withdrawer_perform env cfg Reconcile_Tick = do { _ \<leftarrow> reconcile_tick env cfg; return (Some ()) }"

type_synonym 'x withdrawer_service = "(withdrawer_channels, withdrawer_job, 'x, withdrawer_event) worker"

definition withdrawer_start :: "'x \<Rightarrow> 'x withdrawer_service" where
  "withdrawer_start x = fresh_worker \<lparr>approveCh = False, reconcileCh = False\<rparr> [] x"

definition withdrawer_step :: "'x withdrawer_env \<Rightarrow> withdrawer_config \<Rightarrow> 'x withdrawer_service \<Rightarrow> 'x withdrawer_service \<Rightarrow> bool" where
  "withdrawer_step env cfg = worker_step withdrawer_offer withdrawer_takes (withdrawer_perform env cfg)"

fun waiting_ticks :: "withdrawer_channels \<Rightarrow> withdrawer_job \<Rightarrow> withdrawer_job list" where
  "waiting_ticks q Approve_Tick = (if approveCh q then [Approve_Tick] else [])"
| "waiting_ticks q Reconcile_Tick = (if reconcileCh q then [Reconcile_Tick] else [])"

lemma waiting_ticks_fun: "P (waiting_ticks q Approve_Tick) (waiting_ticks q' Approve_Tick)
    \<Longrightarrow> P (waiting_ticks q Reconcile_Tick) (waiting_ticks q' Reconcile_Tick) \<Longrightarrow> P (waiting_ticks q k) (waiting_ticks q' k)"
  by (cases k) auto

interpretation withdrawer_ticks: lossless_channels withdrawer_offer withdrawer_takes "\<lambda>j. j" waiting_ticks
proof unfold_locales
  fix q q' :: withdrawer_channels and j
  show "withdrawer_offer q j = Sent_On q' \<Longrightarrow> waiting_ticks q' = (waiting_ticks q)(j := waiting_ticks q j @ [j])"
  proof
    fix k
    assume "withdrawer_offer q j = Sent_On q'"
    then show "waiting_ticks q' k = ((waiting_ticks q)(j := waiting_ticks q j @ [j])) k"
      by (cases j; cases k) (auto split: if_splits)
  qed
  show "withdrawer_takes q j q' \<Longrightarrow> waiting_ticks q = (waiting_ticks q')(j := j # waiting_ticks q' j)"
  proof
    fix k
    assume "withdrawer_takes q j q'"
    then show "waiting_ticks q k = ((waiting_ticks q')(j := j # waiting_ticks q' j)) k"
      by (cases j; cases k) auto
  qed
  show "withdrawer_offer q j = Discarded \<Longrightarrow> j \<in> set (waiting_ticks q j)"
    by (cases j) (auto split: if_splits)
  show "j \<in> set (waiting_ticks q j) \<Longrightarrow> \<exists>q'. withdrawer_takes q j q'"
    by (cases j) (auto split: if_splits)
qed

lemma waiting_at_start: "waiting_ticks \<lparr>approveCh = False, reconcileCh = False\<rparr> = (\<lambda>k. [])"
  by (rule ext) (metis (full_types) waiting_ticks.simps withdrawer_channels.select_convs withdrawer_job.exhaust)

lemma withdrawer_comes_back: "fst (run_state (withdrawer_perform env cfg j) v) \<noteq> None"
  by (cases j) (auto simp: case_prod_beta)

lemma effect_withdrawer_perform: "effect (withdrawer_perform env cfg j) (\<lambda>_ _. True)"
proof (cases j)
  case Approve_Tick
  then show ?thesis
    by (simp add: approve_tick_def)
      (intro effect_bind effect_conseq[OF effect_decision] effect_if effect_return effect_conseq[OF effect_sweep] TrueI)
next
  case Reconcile_Tick
  then show ?thesis
    by (simp add: reconcile_tick_def) (intro effect_bind effect_conseq[OF effect_reconcileSweep] effect_return TrueI)
qed

text \<open>What the service did is what its finished rounds do one after the other, and there is no round without
  a tick: in particular nothing happens at startup.\<close>

lemma withdrawer_Start_serial:
  assumes "(withdrawer_step env cfg)\<^sup>*\<^sup>* (withdrawer_start x) w"
  shows "\<exists>v. serially (runs (withdrawer_perform env cfg)) (fresh_world x) (finished w) v \<and> serial_upto (withdrawer_perform env cfg) w v"
    and "count_list (started w) k \<le> count_list (arrived w) k"
proof -
  show "\<exists>v. serially (runs (withdrawer_perform env cfg)) (fresh_world x) (finished w) v \<and> serial_upto (withdrawer_perform env cfg) w v"
    by (rule worker_serial[OF assms[unfolded withdrawer_step_def withdrawer_start_def] effect_withdrawer_perform])
  have "filter (\<lambda>j. j = k) (arrived w) = filter (\<lambda>j. j = k) (started w) @ waiting_ticks (channels w) k"
    using withdrawer_ticks.in_order[OF assms[unfolded withdrawer_step_def withdrawer_start_def] waiting_at_start] .
  then have "count_list (filter (\<lambda>j. j = k) (arrived w)) k = count_list (filter (\<lambda>j. j = k) (started w)) k + count_list (waiting_ticks (channels w) k) k"
    by simp
  then show "count_list (started w) k \<le> count_list (arrived w) k"
    by (simp add: count_list_filter)
qed

text \<open>The loop's own steps: neither a tick nor the cancellation.\<close>

definition withdrawer_own_step :: "'x withdrawer_env \<Rightarrow> withdrawer_config \<Rightarrow> 'x withdrawer_service \<Rightarrow> 'x withdrawer_service \<Rightarrow> bool" where
  "withdrawer_own_step env cfg = own_step withdrawer_offer withdrawer_takes (withdrawer_perform env cfg)"

text \<open>C38: No tick is missed. From a tick of a cron job on, also one that comes during a round or is discarded because one
  waits already, a tick of its kind waits until a round of that kind has begun after it; and unless the
  context was cancelled, the loop can get from every later state, by its own steps alone, to where a round
  begun after the tick is finished. That its turn comes is left to \<open>select\<close> and the scheduler.\<close>

theorem withdrawer_answers_ticks:
  assumes "(withdrawer_step env cfg)\<^sup>*\<^sup>* (withdrawer_start x) w" "withdrawer_step env cfg w w'" "ticked w j w'"
    and "(withdrawer_step env cfg)\<^sup>*\<^sup>* w' w''"
  shows "(waiting_ticks (channels w'') j = [j] \<or> count_list (started w) j < count_list (started w'') j)
    \<and> (returned w'' \<or> (\<exists>w3. (withdrawer_own_step env cfg)\<^sup>*\<^sup>* w'' w3 \<and> count_list (started w) j < count_list (finished w3) j))"
proof
  note a = assms(1)[unfolded withdrawer_step_def withdrawer_start_def] and b = assms(2)[unfolded withdrawer_step_def]
    and c = assms(4)[unfolded withdrawer_step_def]
  have "j \<in> set (waiting_ticks (channels w'') j) \<Longrightarrow> waiting_ticks (channels w'') j = [j]"
    by (cases j) (auto split: if_splits)
  then show "waiting_ticks (channels w'') j = [j] \<or> count_list (started w) j < count_list (started w'') j"
    using withdrawer_ticks.tick_waits[OF a waiting_at_start b assms(3) c] by blast
  show "returned w'' \<or> (\<exists>w3. (withdrawer_own_step env cfg)\<^sup>*\<^sup>* w'' w3 \<and> count_list (started w) j < count_list (finished w3) j)"
    using withdrawer_ticks.tick_is_answered[OF a waiting_at_start b assms(3) c _ withdrawer_comes_back]
    unfolding withdrawer_own_step_def by blast
qed

text \<open>A tick of the approve cron that waits.\<close>

definition approve_ticked :: "'x \<Rightarrow> 'x withdrawer_service" where
  "approve_ticked x = (withdrawer_start x)\<lparr>channels := \<lparr>approveCh = True, reconcileCh = False\<rparr>, arrived := [Approve_Tick]\<rparr>"

lemma approve_tick_comes: "withdrawer_step env cfg (withdrawer_start x) (approve_ticked x)"
  using worker_step.sends[of "withdrawer_start x" withdrawer_offer Approve_Tick "\<lparr>approveCh = True, reconcileCh = False\<rparr>"]
  by (simp add: withdrawer_step_def approve_ticked_def withdrawer_start_def fresh_worker_def)

theorem withdrawer_answers_ticks_witness:
  "\<exists>w. (withdrawer_own_step enabled_zinc \<lparr>ApproveEnable = True, PageLimit = 10\<rparr>)\<^sup>*\<^sup>* (approve_ticked ()) w
     \<and> 0 < count_list (finished w) Approve_Tick"
proof -
  have "ticked (withdrawer_start ()) Approve_Tick (approve_ticked ())" "\<not> returned (approve_ticked ())"
    "started (withdrawer_start () :: unit withdrawer_service) = []"
    by (simp_all add: ticked_def approve_ticked_def withdrawer_start_def fresh_worker_def started_def)
  then show ?thesis
    using withdrawer_answers_ticks[OF rtranclp.rtrancl_refl approve_tick_comes _ rtranclp.rtrancl_refl,
        of "()" Approve_Tick enabled_zinc "\<lparr>ApproveEnable = True, PageLimit = 10\<rparr>"] by auto
qed

end
