(* ===== verification/Spawner_Start.thy ===== *)
theory Spawner_Start
  imports Prober_Fleet
begin

text \<open>
  Start of lib/prober/spawner.go: one spawn at once and one at the beginning of each epoch, until the context is
  cancelled. The clock and the timer are parameters. The loop runs on fuel, one unit for a spawn; a failed spawn
  is only logged.
\<close>

text \<open>\<open>t.Truncate(d)\<close> rounds down to a multiple of \<open>d\<close> since the zero time, the start of the year 1.\<close>

definition zero_time :: instant where
  "zero_time = - 62135596800 * nanos_per_second"

definition Truncate :: "instant \<Rightarrow> duration \<Rightarrow> instant" where
  "Truncate t d = (if d \<le> 0 then t else t - (t - zero_time) mod d)"

record 'x spawner_clock =
  sp_now :: "'x \<Rightarrow> instant \<times> 'x"
  sp_wait :: "instant \<Rightarrow> 'x \<Rightarrow> bool \<times> 'x" \<comment> \<open>true when the context was cancelled before the timer fired\<close>

datatype spawner_event = Spawn_At instant | Spawning spawn_event | Now_At instant | Waited instant bool

fun spawner_rounds :: "'x spawner_env \<Rightarrow> 'x spawner_clock \<Rightarrow> job_creator \<Rightarrow> prober_config \<Rightarrow> duration \<Rightarrow> nat
    \<Rightarrow> ('x, spawner_event, unit result option) proc" where
  "spawner_rounds env clock c cfg epochDuration 0 = return None"
| "spawner_rounds env clock c cfg epochDuration (Suc n) = do {
     t \<leftarrow> invoke (sp_now clock) Spawn_At;
     _ \<leftarrow> lifted Spawning (Spawn env c cfg t);
     now \<leftarrow> invoke (sp_now clock) Now_At;
     (let till = Truncate now epochDuration + epochDuration in do {
       over \<leftarrow> invoke (sp_wait clock till) (Waited till);
       if over then return (Some (Inr ()))
       else spawner_rounds env clock c cfg epochDuration n
     })
   }"

definition spawner_Start :: "'x spawner_env \<Rightarrow> 'x spawner_clock \<Rightarrow> job_creator \<Rightarrow> prober_config \<Rightarrow> nat
    \<Rightarrow> ('x, spawner_event, unit result option) proc" where
  "spawner_Start env clock c cfg rounds =
     (let epochDuration = EpochMinutes cfg * minute in
      if epochDuration \<le> 0 then return (Some (Inl (Msg ''prober.epochMinutes must be positive'')))
      else spawner_rounds env clock c cfg epochDuration rounds)"

section \<open>When it spawns\<close>

inductive spawner_run :: "duration \<Rightarrow> spawner_event list \<Rightarrow> bool" for d where
  stopped: "spawner_run d []"
| cancelled: "spawner_run d (Spawn_At t # map Spawning s @ [Now_At now, Waited (Truncate now d + d) True])"
| spawned: "spawner_run d tr \<Longrightarrow> spawner_run d (Spawn_At t # map Spawning s @ Now_At now # Waited (Truncate now d + d) False # tr)"

lemma Spawn_logs: "effect (Spawn env c cfg now) (\<lambda>_ _. True)"
proof -
  have "effect (launch env c cfg epoch targets) (\<lambda>_ _. True)" for epoch targets
    unfolding launch_def Let_def
    by (intro effect_intros effect_conseq[OF effect_no_tally_create_all])
      (auto split: sum.splits intro!: effect_intros effect_conseq[OF effect_no_tally_create_all])
  then show ?thesis
    unfolding Spawn_def Let_def
    by (intro effect_if effect_return TrueI effect_bind effect_invoke effect_conseq[OF effect_logPreviousTally])
      (auto split: option.split)
qed

lemma effect_spawner_rounds: "effect (spawner_rounds env clock c cfg d n) (\<lambda>_ tr. spawner_run d tr)"
proof (induction n)
  case (Suc n)
  show ?case
    unfolding spawner_rounds.simps
  proof (rule effect_bind, rule effect_invoke, rule effect_bind, rule effect_conseq[OF effect_lifted[of _ "\<lambda>_ _. True"]])
    show "effect (Spawn env c cfg t) (\<lambda>_ _. True)" for t by (rule Spawn_logs)
  next
    fix t r tr
    assume "\<exists>tr'. tr = map Spawning tr' \<and> True"
    then obtain s where s: "tr = map Spawning s" by blast
    show "effect (do {
        now \<leftarrow> invoke (sp_now clock) Now_At;
        let till = Truncate now d + d in do {
          over \<leftarrow> invoke (sp_wait clock till) (Waited till);
          if over then return (Some (Inr ())) else spawner_rounds env clock c cfg d n
        }
      }) (\<lambda>_ tr'. spawner_run d ([Spawn_At t] @ tr @ tr'))"
      unfolding s Let_def
      by (intro effect_bind effect_invoke effect_if effect_return effect_conseq[OF Suc])
        (auto intro: spawner_run.intros)
  qed
qed (simp add: spawner_run.stopped)

section \<open>One spawn an epoch\<close>

fun reading :: "spawner_event \<Rightarrow> instant option" where
  "reading (Spawn_At t) = Some t"
| "reading (Now_At t) = Some t"
| "reading (Waited till False) = Some till"
| "reading ev = None"

text \<open>The clock does not run back, and a timer does not fire before its time.\<close>

definition clock_forward :: "spawner_event list \<Rightarrow> bool" where
  "clock_forward tr \<longleftrightarrow> sorted (0 # List.map_filter reading tr)"

fun spawn_time :: "spawner_event \<Rightarrow> instant option" where
  "spawn_time (Spawn_At t) = Some t"
| "spawn_time ev = None"

definition spawn_times :: "spawner_event list \<Rightarrow> instant list" where
  "spawn_times tr = List.map_filter spawn_time tr"

fun waits_for_next :: "prober_config \<Rightarrow> spawner_event list \<Rightarrow> bool" where
  "waits_for_next cfg (Now_At now # Waited till over # tr) \<longleftrightarrow>
     till = (epoch_of cfg now + 1) * (EpochMinutes cfg * minute) \<and> waits_for_next cfg tr"
| "waits_for_next cfg (ev # tr) = waits_for_next cfg tr"
| "waits_for_next cfg [] = True"

lemma spawning_logs_nothing [simp]:
  "List.map_filter reading (map Spawning s) = []" "List.map_filter spawn_time (map Spawning s) = []"
  by (induction s) simp_all

lemma waits_for_next_spawning: "waits_for_next cfg (map Spawning s @ tr) = waits_for_next cfg tr"
  by (induction s) simp_all

lemma epoch_of_div:
  assumes "0 \<le> t" "0 < EpochMinutes cfg"
  shows "epoch_of cfg t = t div (EpochMinutes cfg * minute)"
proof -
  have "epoch_of cfg t = t div nanos_per_second div (EpochMinutes cfg * 60)"
    using assms by (simp add: epoch_of_def unix_def quot_nonneg pos_imp_zdiv_nonneg_iff)
  also have "\<dots> = t div (nanos_per_second * (EpochMinutes cfg * 60))" using assms(2) by (subst zdiv_zmult2_eq) simp_all
  finally show ?thesis by (simp add: minute_def second_def mult.commute)
qed

lemma next_epoch:
  assumes "0 \<le> now" "0 < EpochMinutes cfg" "EpochMinutes cfg * 60 dvd 62135596800"
  shows "Truncate now (EpochMinutes cfg * minute) + EpochMinutes cfg * minute = (epoch_of cfg now + 1) * (EpochMinutes cfg * minute)"
proof -
  let ?d = "EpochMinutes cfg * minute"
  have d: "?d = EpochMinutes cfg * 60 * nanos_per_second" by (simp add: minute_def second_def)
  have "?d dvd zero_time" unfolding d zero_time_def mult_minus_left dvd_minus_iff
    by (rule mult_dvd_mono[OF assms(3) dvd_refl])
  then have "(now - zero_time) mod ?d = now mod ?d" by (metis dvd_imp_mod_0 diff_zero mod_diff_right_eq)
  then have "Truncate now ?d = now - now mod ?d"
    using assms(2) by (simp add: Truncate_def minute_def second_def)
  then show ?thesis using assms by (simp add: epoch_of_div minus_mod_eq_div_mult distrib_right)
qed

lemma epoch_of_mono: "0 \<le> s \<Longrightarrow> s \<le> t \<Longrightarrow> 0 < EpochMinutes cfg \<Longrightarrow> epoch_of cfg s \<le> epoch_of cfg t"
  by (simp add: epoch_of_div zdiv_mono1 minute_def second_def)

lemma epoch_of_start:
  "0 \<le> e \<Longrightarrow> 0 < EpochMinutes cfg \<Longrightarrow> epoch_of cfg (e * (EpochMinutes cfg * minute)) = e"
  by (simp add: epoch_of_div minute_def second_def)

lemma spawner_run_epochs:
  assumes "spawner_run (EpochMinutes cfg * minute) tr" "0 < EpochMinutes cfg" "EpochMinutes cfg * 60 dvd 62135596800"
    and "sorted (t0 # List.map_filter reading tr)" "0 \<le> t0"
  shows "sorted_wrt (<) (map (epoch_of cfg) (spawn_times tr)) \<and> (\<forall>t\<in>set (spawn_times tr). t0 \<le> t) \<and> waits_for_next cfg tr"
  using assms(1,4,5)
proof (induction arbitrary: t0)
  case stopped
  then show ?case by (simp add: spawn_times_def)
next
  case (cancelled t s now)
  then show ?case using next_epoch[of now cfg] assms(2,3)
    by (simp add: spawn_times_def waits_for_next_spawning)
next
  case (spawned tr t s now)
  let ?till = "Truncate now (EpochMinutes cfg * minute) + EpochMinutes cfg * minute"
  have le: "0 \<le> t" "t \<le> now" "now \<le> ?till" "sorted (?till # List.map_filter reading tr)" "t0 \<le> t"
    using spawned.prems by (simp_all add: sorted2 del: sorted_wrt.simps)
  then have till: "?till = (epoch_of cfg now + 1) * (EpochMinutes cfg * minute)" using next_epoch assms(2,3) by simp
  have "0 \<le> epoch_of cfg now" using le assms(2) by (simp add: epoch_of_div minute_def second_def pos_imp_zdiv_nonneg_iff)
  then have "epoch_of cfg ?till = epoch_of cfg now + 1" unfolding till using epoch_of_start assms(2) by simp
  then have lt: "epoch_of cfg t < epoch_of cfg ?till" using epoch_of_mono[of t now cfg] le assms(2) by simp
  have IH: "sorted_wrt (<) (map (epoch_of cfg) (spawn_times tr)) \<and> (\<forall>t\<in>set (spawn_times tr). ?till \<le> t) \<and> waits_for_next cfg tr"
    using spawned.IH[of ?till] le by simp
  then have "\<forall>t'\<in>set (spawn_times tr). epoch_of cfg t < epoch_of cfg t' \<and> t0 \<le> t'"
    using lt epoch_of_mono[of ?till _ cfg] le assms(2) by (smt (verit) order_trans)
  then show ?case using IH till le
    by (simp add: spawn_times_def waits_for_next_spawning)
qed

text \<open>C39: One spawn an epoch. When the length of an epoch divides the time from the year 1 to 1970, as every divisor
  of a day does, the clock does not run back and no timer fires early, then the spawner waits each time for the
  first instant of the next epoch, and each spawn is of a later epoch than the one before: no epoch is spawned twice.\<close>

theorem spawner_epochs_advance:
  assumes "EpochMinutes cfg * 60 dvd 62135596800"
    and "clock_forward (trace (spawner_Start env clock c cfg rounds) x)"
  shows "sorted_wrt (<) (map (epoch_of cfg) (spawn_times (trace (spawner_Start env clock c cfg rounds) x)))
    \<and> waits_for_next cfg (trace (spawner_Start env clock c cfg rounds) x)"
proof (cases "EpochMinutes cfg * minute \<le> 0")
  case True
  then show ?thesis by (simp add: spawner_Start_def trace_def fresh_world_def spawn_times_def)
next
  case False
  then have "0 < EpochMinutes cfg" by (simp add: minute_def second_def mult_le_0_iff)
  moreover have "spawner_run (EpochMinutes cfg * minute) (trace (spawner_Start env clock c cfg rounds) x)"
    using False effect_trace[OF effect_spawner_rounds] by (simp add: spawner_Start_def)
  ultimately show ?thesis
    using spawner_run_epochs[OF _ _ assms(1), of "trace (spawner_Start env clock c cfg rounds) x" 0] assms(2) unfolding clock_forward_def by blast
qed

text \<open>A spawner that finds no demand, on a clock that only the timer moves.\<close>

definition idle_spawner :: "instant spawner_env" where
  "idle_spawner = \<lparr>marshal_targets = (\<lambda>_. Inr ''[]''), kube_create = (\<lambda>_ x. (Created, x)),
     poller_count = (\<lambda>_ x. ((False, None, None), x)), recover_session = (\<lambda>x. (Inr (), x)),
     ensure_store = (\<lambda>_ x. (Inr (), x)), write_expected = (\<lambda>_ _ x. (Inr (), x)),
     read_expected = (\<lambda>_ x. (Inr [], x)), read_tallies = (\<lambda>_ x. (Inr [], x))\<rparr>"

definition exact_clock :: "instant spawner_clock" where
  "exact_clock = \<lparr>sp_now = (\<lambda>t. (t, t)), sp_wait = (\<lambda>till t. (False, till))\<rparr>"

lemma idle_spawn:
  "run_state (Spawn idle_spawner ex_creator ex_config t) w = (Inr (), w\<lparr>log := log w @
     [Read_Expected (epoch_of ex_config t - 4) (Inr []), Read_Tallies (epoch_of ex_config t - 4) (Inr []), Poller_Count (False, None, None)]\<rparr>)"
proof -
  have q: "quot 16 5 = 3" by (simp add: quot_def)
  show ?thesis unfolding Spawn_def Let_def
    by (simp add: logPreviousTally_def idle_spawner_def ex_config_def epoch_of_def q)
qed

lemma exact_rounds:
  "run_state (spawner_rounds idle_spawner exact_clock ex_creator ex_config d (Suc n)) w =
     (let t = ext w; till = Truncate t d + d; e = epoch_of ex_config t - 4 in
      run_state (spawner_rounds idle_spawner exact_clock ex_creator ex_config d n)
        (w\<lparr>ext := till, log := log w @ [Spawn_At t, Spawning (Read_Expected e (Inr [])), Spawning (Read_Tallies e (Inr [])),
           Spawning (Poller_Count (False, None, None)), Now_At t, Waited till False]\<rparr>))"
  unfolding Let_def by (simp add: lifted_def idle_spawn fresh_world_def exact_clock_def Let_def)

lemma exact_epochs:
  "Truncate 0 300000000000 = 0" "Truncate 300000000000 300000000000 = 300000000000"
  "epoch_of ex_config 0 = 0" "epoch_of ex_config 300000000000 = 1" "EpochMinutes ex_config * minute = 300000000000"
  by (simp_all add: Truncate_def zero_time_def epoch_of_def quot_def unix_def ex_config_def minute_def second_def)

lemma idle_spawner_trace:
  "trace (spawner_Start idle_spawner exact_clock ex_creator ex_config 2) 0 =
     [Spawn_At 0, Spawning (Read_Expected (- 4) (Inr [])), Spawning (Read_Tallies (- 4) (Inr [])), Spawning (Poller_Count (False, None, None)),
      Now_At 0, Waited 300000000000 False,
      Spawn_At 300000000000, Spawning (Read_Expected (- 3) (Inr [])), Spawning (Read_Tallies (- 3) (Inr [])), Spawning (Poller_Count (False, None, None)),
      Now_At 300000000000, Waited 600000000000 False]"
  unfolding spawner_Start_def Let_def exact_epochs trace_def numeral_2_eq_2
  by (simp only: if_not_P[of "300000000000 \<le> (0 :: int)"] exact_rounds Let_def) (simp add: exact_epochs fresh_world_def)

theorem spawner_epochs_advance_witness:
  "map (epoch_of ex_config) (spawn_times (trace (spawner_Start idle_spawner exact_clock ex_creator ex_config 2) 0)) = [0, 1]
 \<and> waits_for_next ex_config (trace (spawner_Start idle_spawner exact_clock ex_creator ex_config 2) 0)"
  using spawner_epochs_advance[of ex_config idle_spawner exact_clock ex_creator 2 0]
  by (simp add: idle_spawner_trace clock_forward_def spawn_times_def exact_epochs)

end
