(* ===== verification/Prober_Redis.thy ===== *)
theory Prober_Redis
  imports Prober_Runner Otel_Redis Encryptor
begin

text \<open>
  The redis commands behind the prober: redisStoreCache and WriteTally of lib/prober/store.go, and the accessors
  NewSpawner gives the spawner (spawner.go) and NewRunner a Job (runner.go). The commands and encoding/json are parameters; a pipeline is
  a transaction. The theory follows the tallies of the Jobs into the report of the next epochs, and a recorded hold
  under newer ones.
\<close>

datatype redis_command =
    Set_String string string duration
  | L_Push string string
  | Expire string duration
  | S_Rem string "string list"
  | S_Add string string
  | L_Rem string int string

record 'x redis_commands =
  rc_exec :: "redis_command list \<Rightarrow> 'x \<Rightarrow> unit result \<times> 'x"
  rc_get :: "string \<Rightarrow> 'x \<Rightarrow> redis_read \<times> 'x"
  rc_smembers :: "string \<Rightarrow> 'x \<Rightarrow> string list result \<times> 'x"
  rc_lrange :: "string \<Rightarrow> int \<Rightarrow> int \<Rightarrow> 'x \<Rightarrow> string list result \<times> 'x"
  rc_eval :: "string list \<Rightarrow> string \<Rightarrow> 'x \<Rightarrow> int result \<times> 'x"

section \<open>The cache of the store\<close>

definition cache_SetPair :: "'x redis_commands \<Rightarrow> string \<Rightarrow> string \<Rightarrow> string \<Rightarrow> string \<Rightarrow> 'x \<Rightarrow> unit result \<times> 'x" where
  "cache_SetPair rc firstKey firstValue secondKey secondValue =
     rc_exec rc [Set_String firstKey firstValue 0, Set_String secondKey secondValue 0]"

definition cache_RemoveFingerprints :: "'x redis_commands \<Rightarrow> string \<Rightarrow> string list \<Rightarrow> 'x \<Rightarrow> unit result \<times> 'x" where
  "cache_RemoveFingerprints rc signalKey fingerprints x =
     (if fingerprints = [] then (Inr (), x) else rc_exec rc [S_Rem signalKey fingerprints] x)"

definition cache_CompareAndDelete :: "'x redis_commands \<Rightarrow> string \<Rightarrow> string \<Rightarrow> string \<Rightarrow> string \<Rightarrow> 'x \<Rightarrow> bool result \<times> 'x" where
  "cache_CompareAndDelete rc signalKey loginKey userDataKey expected x =
     (case rc_eval rc [loginKey, userDataKey, signalKey] expected x of
        (Inl err, x') \<Rightarrow> (Inl err, x')
      | (Inr n, x') \<Rightarrow> (Inr (n = 1), x'))"

text \<open>The SHA-256 digest is a parameter.\<close>

definition SessionFingerprint :: "(string \<Rightarrow> string) \<Rightarrow> string \<Rightarrow> string" where
  "SessionFingerprint sha256 userData = hex_encode (sha256 userData)"

text \<open>\<open>NewStore\<close>: the store over these commands, the other services as they are in \<open>env\<close>.\<close>

definition NewStore :: "(string \<Rightarrow> string) \<Rightarrow> 'x redis_commands \<Rightarrow> store_config \<Rightarrow> string \<Rightarrow> 'x store_env \<Rightarrow> 'x store_env" where
  "NewStore sha256 rc cfg sessionDeadKey env = env
     \<lparr>fingerprint := SessionFingerprint sha256,
      cache_get := rc_get rc,
      cache_set_pair := (\<lambda>u s. cache_SetPair rc (UserDataKey cfg) u (StoreKey cfg) s),
      death_fingerprints := rc_smembers rc sessionDeadKey,
      remove_fingerprints := cache_RemoveFingerprints rc sessionDeadKey,
      delete_session := cache_CompareAndDelete rc sessionDeadKey (LoginKey cfg) (UserDataKey cfg)\<rparr>"

section \<open>Tallies and the expected fleet\<close>

definition TallyKey :: "string \<Rightarrow> int \<Rightarrow> string" where
  "TallyKey ps epoch = ps @ '':prober:tally:'' @ format_int epoch"

definition ExpectedKey :: "string \<Rightarrow> int \<Rightarrow> string" where
  "ExpectedKey ps epoch = ps @ '':prober:expected:'' @ format_int epoch"

definition WriteTally :: "(JobTally \<Rightarrow> string result) \<Rightarrow> 'x redis_commands \<Rightarrow> string \<Rightarrow> JobTally \<Rightarrow> 'x \<Rightarrow> unit result \<times> 'x" where
  "WriteTally encode rc ps jt x =
     (case encode jt of
        Inl err \<Rightarrow> (Inl err, x)
      | Inr data \<Rightarrow> rc_exec rc [L_Push (TallyKey ps (Epoch jt)) data, Expire (TallyKey ps (Epoch jt)) (24 * hour)] x)"

text \<open>An entry the report cannot unmarshal is \<open>None\<close>.\<close>

definition readTallies :: "(string \<Rightarrow> JobTally option) \<Rightarrow> 'x redis_commands \<Rightarrow> string \<Rightarrow> int \<Rightarrow> 'x \<Rightarrow> JobTally option list result \<times> 'x" where
  "readTallies decode rc ps epoch x =
     (case rc_lrange rc (TallyKey ps epoch) 0 (- 1) x of (r, x') \<Rightarrow> (map_sum id (map decode) r, x'))"

definition writeExpected :: "(string list \<Rightarrow> string result) \<Rightarrow> 'x redis_commands \<Rightarrow> string \<Rightarrow> int \<Rightarrow> string list \<Rightarrow> 'x \<Rightarrow> unit result \<times> 'x" where
  "writeExpected encode rc ps epoch names x =
     (case encode names of
        Inl err \<Rightarrow> (Inl err, x)
      | Inr data \<Rightarrow> rc_exec rc [Set_String (ExpectedKey ps epoch) data (24 * hour)] x)"

definition readExpected :: "(string \<Rightarrow> string list result) \<Rightarrow> 'x redis_commands \<Rightarrow> string \<Rightarrow> int \<Rightarrow> 'x \<Rightarrow> string list result \<times> 'x" where
  "readExpected decode rc ps epoch x =
     (case rc_get rc (ExpectedKey ps epoch) x of
        (Nil_Reply, x') \<Rightarrow> (Inr [], x')
      | (Read_Failed err, x') \<Rightarrow> (Inl err, x')
      | (Value data, x') \<Rightarrow> (decode data, x'))"

text \<open>What the accessors need of encoding/json.\<close>

record prober_json =
  tally_json :: "JobTally \<Rightarrow> string result"
  tally_of_json :: "string \<Rightarrow> JobTally option"
  names_json :: "string list \<Rightarrow> string result"
  names_of_json :: "string \<Rightarrow> string list result"

definition NewSpawner :: "prober_json \<Rightarrow> 'x redis_commands \<Rightarrow> string \<Rightarrow> 'x spawner_env \<Rightarrow> 'x spawner_env" where
  "NewSpawner js rc ps env = env
     \<lparr>read_tallies := readTallies (tally_of_json js) rc ps,
      write_expected := writeExpected (names_json js) rc ps,
      read_expected := readExpected (names_of_json js) rc ps\<rparr>"

section \<open>What a Job writes\<close>

text \<open>Recorded holds are pushed at the head of a list; a drain reads its first entries.\<close>

definition releaseKey :: "string \<Rightarrow> string" where
  "releaseKey ps = ps @ '':prober:release''"

definition persistRelease :: "'x redis_commands \<Rightarrow> string \<Rightarrow> string \<Rightarrow> 'x \<Rightarrow> unit result \<times> 'x" where
  "persistRelease rc ps encrypted = rc_exec rc [L_Push (releaseKey ps) encrypted]"

definition listReleases :: "'x redis_commands \<Rightarrow> string \<Rightarrow> int \<Rightarrow> 'x \<Rightarrow> string list result \<times> 'x" where
  "listReleases rc ps limit = rc_lrange rc (releaseKey ps) 0 (limit - 1)"

definition removeRelease :: "'x redis_commands \<Rightarrow> string \<Rightarrow> string \<Rightarrow> 'x \<Rightarrow> unit result \<times> 'x" where
  "removeRelease rc ps encrypted = rc_exec rc [L_Rem (releaseKey ps) 1 encrypted]"

definition signalSessionDead :: "'x redis_commands \<Rightarrow> string \<Rightarrow> string \<Rightarrow> 'x \<Rightarrow> unit result \<times> 'x" where
  "signalSessionDead rc ps print =
     rc_exec rc [S_Add (ps @ '':prober:session-dead'') print, Expire (ps @ '':prober:session-dead'') (15 * minute)]"

definition enqueue :: "('x, string, 'v, 'c) redis_env \<Rightarrow> string \<Rightarrow> string \<Rightarrow> 'x \<Rightarrow> unit result \<times> 'x" where
  "enqueue stream queue encrypted x =
     (case run_state (QueuePush stream queue encrypted :: ('x, 'c, unit, int result) messaging) (fresh_world x) of
        (r, w) \<Rightarrow> (map_sum id (\<lambda>_. ()) r, ext w))"

definition NewRunner :: "(string \<Rightarrow> string) \<Rightarrow> prober_json \<Rightarrow> 'x redis_commands \<Rightarrow> ('x, string, 'v, 'c) redis_env \<Rightarrow> string \<Rightarrow> string \<Rightarrow> 'x runner_env \<Rightarrow> 'x runner_env" where
  "NewRunner sha256 js rc stream queue ps env = env
     \<lparr>rn_fingerprint := SessionFingerprint sha256,
      rn_write_tally := WriteTally (tally_json js) rc ps,
      rn_enqueue := enqueue stream queue,
      rn_persist := persistRelease rc ps,
      rn_list := listReleases rc ps,
      rn_remove := removeRelease rc ps,
      rn_signal := signalSessionDead rc ps\<rparr>"

section \<open>From the Jobs to the report\<close>

text \<open>What redis keeps of strings and lists.\<close>

record redis_db =
  db_strings :: "string \<rightharpoonup> string"
  db_lists :: "string \<Rightarrow> string list"

text \<open>\<open>LREM\<close> with a positive count removes the first such elements; \<open>LRANGE\<close> counts a negative index
  from the end.\<close>

fun remove_first :: "nat \<Rightarrow> 'a \<Rightarrow> 'a list \<Rightarrow> 'a list" where
  "remove_first n v [] = []"
| "remove_first n v (x # xs) = (if n > 0 \<and> x = v then remove_first (n - 1) v xs else x # remove_first n v xs)"

definition list_range :: "'a list \<Rightarrow> int \<Rightarrow> int \<Rightarrow> 'a list" where
  "list_range xs start stop =
     (let at = (\<lambda>i. if i < 0 then int (length xs) + i else i) in
      take (nat (at stop + 1 - max 0 (at start))) (drop (nat (at start)) xs))"

fun apply_command :: "redis_command \<Rightarrow> redis_db \<Rightarrow> redis_db" where
  "apply_command (Set_String k v ttl) db = db\<lparr>db_strings := (db_strings db)(k \<mapsto> v)\<rparr>"
| "apply_command (L_Push k v) db = db\<lparr>db_lists := (db_lists db)(k := v # db_lists db k)\<rparr>"
| "apply_command (Expire k d) db = db"
| "apply_command (L_Rem k n v) db = db\<lparr>db_lists := (db_lists db)(k := remove_first (nat n) v (db_lists db k))\<rparr>"
| "apply_command (S_Rem k vs) db = db"
| "apply_command (S_Add k v) db = db"

text \<open>The documented behaviour of redis, for keys that do not expire meanwhile: a transaction that succeeded was
  applied, one that failed was applied as a whole or not at all; a read that succeeded returns what is kept.\<close>

definition keeps_db :: "'x redis_commands \<Rightarrow> ('x \<Rightarrow> redis_db) \<Rightarrow> bool" where
  "keeps_db rc db \<longleftrightarrow>
     (\<forall>cmds x. db (snd (rc_exec rc cmds x)) = fold apply_command cmds (db x)
        \<or> fst (rc_exec rc cmds x) \<noteq> Inr () \<and> db (snd (rc_exec rc cmds x)) = db x)
   \<and> (\<forall>k x. db (snd (rc_get rc k x)) = db x \<and> (case fst (rc_get rc k x) of
        Value v \<Rightarrow> db_strings (db x) k = Some v | Nil_Reply \<Rightarrow> db_strings (db x) k = None | Read_Failed e \<Rightarrow> True))
   \<and> (\<forall>k i j x. db (snd (rc_lrange rc k i j x)) = db x
        \<and> (\<forall>vs. fst (rc_lrange rc k i j x) = Inr vs \<longrightarrow> vs = list_range (db_lists (db x) k) i j))"

definition reads_back :: "prober_json \<Rightarrow> JobTally \<Rightarrow> bool" where
  "reads_back js t \<longleftrightarrow> (\<exists>s. tally_json js t = Inr s \<and> tally_of_json js s = Some t)"

definition names_read_back :: "prober_json \<Rightarrow> string list \<Rightarrow> bool" where
  "names_read_back js ns \<longleftrightarrow> (\<exists>s. names_json js ns = Inr s \<and> names_of_json js s = Inr ns)"

text \<open>The Jobs write their tallies one after the other.\<close>

fun write_tallies :: "prober_json \<Rightarrow> 'x redis_commands \<Rightarrow> string \<Rightarrow> JobTally list \<Rightarrow> 'x \<Rightarrow> unit result list \<times> 'x" where
  "write_tallies js rc ps [] x = ([], x)"
| "write_tallies js rc ps (t # ts) x =
     (case WriteTally (tally_json js) rc ps t x of (r, x1) \<Rightarrow>
      case write_tallies js rc ps ts x1 of (rs, x2) \<Rightarrow> (r # rs, x2))"

lemma TallyKey_inject [simp]: "TallyKey ps e = TallyKey ps e' \<longleftrightarrow> e = e'"
  by (simp add: TallyKey_def format_int_inject)

lemma run_WriteTally:
  assumes "keeps_db rc db" "reads_back js t" "WriteTally (tally_json js) rc ps t x = (r, x')"
  obtains (written) s where "tally_of_json js s = Some t"
      "db x' = (db x)\<lparr>db_lists := (db_lists (db x))(TallyKey ps (Epoch t) := s # db_lists (db x) (TallyKey ps (Epoch t)))\<rparr>"
    | (lost) "r \<noteq> Inr ()" "db x' = db x"
proof -
  obtain s where s: "tally_json js t = Inr s" "tally_of_json js s = Some t" using assms(2) unfolding reads_back_def by blast
  let ?cmds = "[L_Push (TallyKey ps (Epoch t)) s, Expire (TallyKey ps (Epoch t)) (24 * hour)]"
  have "rc_exec rc ?cmds x = (r, x')" using assms(3) s(1) by (simp add: WriteTally_def)
  then consider "db x' = fold apply_command ?cmds (db x)" | "r \<noteq> Inr ()" "db x' = db x"
    using assms(1) unfolding keeps_db_def by (metis fst_conv snd_conv)
  then show ?thesis using s(2) by cases (auto intro: written lost)
qed

lemma run_write_tallies:
  assumes "keeps_db rc db" "list_all (reads_back js) ts" "write_tallies js rc ps ts x = (rs, x')"
  shows "\<exists>ts'. db_strings (db x') = db_strings (db x) \<and> subseq ts' ts \<and> (\<forall>t. (t, Inr ()) \<in> set (zip ts rs) \<longrightarrow> t \<in> set ts')
     \<and> (\<forall>e. map (tally_of_json js) (db_lists (db x') (TallyKey ps e))
          = map Some (rev (filter (\<lambda>t. Epoch t = e) ts')) @ map (tally_of_json js) (db_lists (db x) (TallyKey ps e)))"
  using assms(2,3)
proof (induction ts arbitrary: x rs)
  case (Cons t ts)
  obtain r x1 rs' where w: "WriteTally (tally_json js) rc ps t x = (r, x1)" "write_tallies js rc ps ts x1 = (rs', x')" "rs = r # rs'"
    using Cons.prems(2) by (auto split: prod.splits)
  from Cons.IH[OF _ w(2)] Cons.prems(1) obtain ts' where IH: "db_strings (db x') = db_strings (db x1)" "subseq ts' ts"
      "\<forall>t. (t, Inr ()) \<in> set (zip ts rs') \<longrightarrow> t \<in> set ts'"
      "\<And>e. map (tally_of_json js) (db_lists (db x') (TallyKey ps e))
          = map Some (rev (filter (\<lambda>t. Epoch t = e) ts')) @ map (tally_of_json js) (db_lists (db x1) (TallyKey ps e))" by auto
  consider (written) s where "tally_of_json js s = Some t"
      "db x1 = (db x)\<lparr>db_lists := (db_lists (db x))(TallyKey ps (Epoch t) := s # db_lists (db x) (TallyKey ps (Epoch t)))\<rparr>"
    | (lost) "r \<noteq> Inr ()" "db x1 = db x"
    using run_WriteTally[OF assms(1) _ w(1)] Cons.prems(1) by auto
  then show ?case
  proof cases
    case (written s)
    then show ?thesis using IH w(3) by (intro exI[of _ "t # ts'"]) auto
  next
    case lost
    then show ?thesis using IH w(3) by (intro exI[of _ ts']) auto
  qed
qed (auto intro: exI[of _ "[]"])

lemma run_writeExpected:
  assumes "keeps_db rc db" "names_read_back js names" "writeExpected (names_json js) rc ps e names x = (Inr (), x')"
  obtains s where "names_of_json js s = Inr names" "db_strings (db x') (ExpectedKey ps e) = Some s" "db_lists (db x') = db_lists (db x)"
proof -
  obtain s where s: "names_json js names = Inr s" "names_of_json js s = Inr names" using assms(2) unfolding names_read_back_def by blast
  have "rc_exec rc [Set_String (ExpectedKey ps e) s (24 * hour)] x = (Inr (), x')" using assms(3) s(1) by (simp add: writeExpected_def)
  then have "db x' = fold apply_command [Set_String (ExpectedKey ps e) s (24 * hour)] (db x)"
    using assms(1) unfolding keeps_db_def by (metis fst_conv snd_conv)
  then show ?thesis using that s(2) by simp
qed

lemma run_readExpected:
  assumes "keeps_db rc db" "db_strings (db x) (ExpectedKey ps e) = Some s" "names_of_json js s = Inr names"
    and "readExpected (names_of_json js) rc ps e x = (r, x')"
  shows "db x' = db x \<and> (r = Inr names \<or> (\<exists>err. r = Inl err))"
proof -
  obtain g y where g: "rc_get rc (ExpectedKey ps e) x = (g, y)" by fastforce
  then have "db y = db x" "case g of Value v \<Rightarrow> db_strings (db x) (ExpectedKey ps e) = Some v | Nil_Reply \<Rightarrow> db_strings (db x) (ExpectedKey ps e) = None | Read_Failed e \<Rightarrow> True"
    using assms(1) unfolding keeps_db_def by (metis fst_conv snd_conv)+
  then show ?thesis using assms(2-4) g by (auto simp: readExpected_def split: redis_read.splits)
qed

lemma list_range_all: "list_range xs 0 (- 1) = xs"
  by (simp add: list_range_def Let_def)

lemma list_range_prefix: "0 < n \<Longrightarrow> list_range xs 0 (n - 1) = take (nat n) xs"
  by (simp add: list_range_def Let_def)

lemma run_readTallies:
  assumes "keeps_db rc db" "readTallies (tally_of_json js) rc ps e x = (Inr vs, x')"
  shows "vs = map (tally_of_json js) (db_lists (db x) (TallyKey ps e))"
proof -
  obtain r y where r: "rc_lrange rc (TallyKey ps e) 0 (- 1) x = (r, y)" by fastforce
  then obtain g where g: "rc_lrange rc (TallyKey ps e) 0 (- 1) x = (Inr g, x')" "vs = map (tally_of_json js) g"
    using assms(2) by (cases r) (auto simp: readTallies_def)
  then have "g = list_range (db_lists (db x) (TallyKey ps e)) 0 (- 1)"
    using assms(1) unfolding keeps_db_def by (metis fst_conv)
  then show ?thesis using g(2) by (simp add: list_range_all)
qed

text \<open>C40: The tallies of the Jobs reach the report of their epoch. When the spawner recorded the fleet of an epoch, Jobs
  wrote tallies, of this epoch or of others, and redis keeps what it took, then a report of the epoch sums up exactly
  the tallies that were taken, every one whose Job was told of the success among them, and names as missing exactly
  the recorded Jobs without a tally among these, or none when its own read of the record failed.\<close>

theorem tallies_reach_report:
  assumes "keeps_db rc db" and "list_all (reads_back js) ts" and "names_read_back js names" and "db_lists (db x) (TallyKey ps e) = []"
    and "writeExpected (names_json js) rc ps e names x = (Inr (), x1)" and "write_tallies js rc ps ts x1 = (rs, x2)"
    and "outcome (logPreviousTally (NewSpawner js rc ps env) e) x2 = Some (missing, polls, holds, limited)"
  shows "\<exists>ts'. subseq ts' ts \<and> {t. (t, Inr ()) \<in> set (zip ts rs)} \<subseteq> set ts'
    \<and> polls = sum_list (map (Polls \<circ> Total) (filter (\<lambda>t. Epoch t = e) ts'))
    \<and> holds = sum_list (map (Holds \<circ> Total) (filter (\<lambda>t. Epoch t = e) ts'))
    \<and> missing = (if \<exists>err. Read_Expected e (Inl err) \<in> set (trace (logPreviousTally (NewSpawner js rc ps env) e) x2) then []
        else filter (\<lambda>n. n \<notin> Job ` set (filter (\<lambda>t. Epoch t = e) ts')) names)"
proof -
  obtain s where s: "names_of_json js s = Inr names" "db_strings (db x1) (ExpectedKey ps e) = Some s" "db_lists (db x1) = db_lists (db x)"
    using run_writeExpected[OF assms(1,3,5)] .
  from run_write_tallies[OF assms(1,2,6)] obtain ts' where ts': "db_strings (db x2) = db_strings (db x1)" "subseq ts' ts"
      "\<forall>t. (t, Inr ()) \<in> set (zip ts rs) \<longrightarrow> t \<in> set ts'"
      "map (tally_of_json js) (db_lists (db x2) (TallyKey ps e))
         = map Some (rev (filter (\<lambda>t. Epoch t = e) ts')) @ map (tally_of_json js) (db_lists (db x1) (TallyKey ps e))"
    by blast
  obtain g x3 where g: "readExpected (names_of_json js) rc ps e x2 = (g, x3)" by fastforce
  obtain v x4 where v: "readTallies (tally_of_json js) rc ps e x3 = (v, x4)" by fastforce
  have x3: "db x3 = db x2" "g = Inr names \<or> (\<exists>err. g = Inl err)"
    using run_readExpected[OF assms(1) _ s(1) g] s(2) ts'(1) by simp_all
  obtain vs where vs: "v = Inr vs"
    using assms(7) g v by (auto simp: outcome_def logPreviousTally_def NewSpawner_def fresh_world_def split: sum.splits)
  have "vs = map Some (rev (filter (\<lambda>t. Epoch t = e) ts'))"
    using run_readTallies[OF assms(1) v[unfolded vs]] x3(1) ts'(4) s(3) assms(4) by simp
  then have "List.map_filter id vs = rev (filter (\<lambda>t. Epoch t = e) ts')"
    by (simp add: List.map_filter_def comp_def)
  moreover have "trace (logPreviousTally (NewSpawner js rc ps env) e) x2 = [Read_Expected e g, Read_Tallies e v]"
    using g v by (simp add: trace_def logPreviousTally_def NewSpawner_def fresh_world_def Let_def)
  ultimately show ?thesis
    using ts'(2,3) assms(7) g v vs x3(2)
    by (intro exI[of _ ts'])
      (auto simp: outcome_def logPreviousTally_def NewSpawner_def fresh_world_def MissingJobs_filter rev_map[symmetric] Let_def comp_def
        split: if_splits)
qed

text \<open>A redis that never fails, and two Jobs of an epoch of which one reports.\<close>

definition plain_redis :: "redis_db redis_commands" where
  "plain_redis = \<lparr>rc_exec = (\<lambda>cmds x. (Inr (), fold apply_command cmds x)),
     rc_get = (\<lambda>k x. (case db_strings x k of None \<Rightarrow> Nil_Reply | Some v \<Rightarrow> Value v, x)),
     rc_smembers = (\<lambda>k x. (Inr [], x)), rc_lrange = (\<lambda>k i j x. (Inr (list_range (db_lists x k) i j), x)), rc_eval = (\<lambda>ks v x. (Inr 0, x))\<rparr>"

definition ex_tally :: JobTally where
  "ex_tally = \<lparr>Epoch = 9, Job = ''a'', Slots = [], Total = (slot_zero ''total'')\<lparr>Polls := 4\<rparr>\<rparr>"

definition ex_json :: prober_json where
  "ex_json = \<lparr>tally_json = (\<lambda>t. Inr ''t''), tally_of_json = (\<lambda>s. Some ex_tally),
     names_json = (\<lambda>ns. Inr ''n''), names_of_json = (\<lambda>s. Inr [''a'', ''b''])\<rparr>"

definition ex_written :: redis_db where
  "ex_written = \<lparr>db_strings = [ExpectedKey ''p'' 9 \<mapsto> ''n''], db_lists = (\<lambda>k. [])(TallyKey ''p'' 9 := [''t''])\<rparr>"

lemma plain_redis_keeps: "keeps_db plain_redis (\<lambda>x. x)"
  by (auto simp: keeps_db_def plain_redis_def split: option.split)

lemma ex_report:
  "outcome (logPreviousTally (NewSpawner ex_json plain_redis ''p'' undefined) 9) ex_written = Some ([''b''], 4, 0, 0)"
  by (simp add: outcome_def fresh_world_def logPreviousTally_def NewSpawner_def readExpected_def readTallies_def plain_redis_def
      ex_json_def ex_written_def ex_tally_def slot_zero_def list_range_all)

theorem tallies_reach_report_witness:
  "\<exists>ts'. subseq ts' [ex_tally] \<and> {t. (t, Inr ()) \<in> set (zip [ex_tally] [Inr () :: unit result])} \<subseteq> set ts'
    \<and> 4 = sum_list (map (Polls \<circ> Total) (filter (\<lambda>t. Epoch t = 9) ts'))
    \<and> 0 = sum_list (map (Holds \<circ> Total) (filter (\<lambda>t. Epoch t = 9) ts'))
    \<and> [''b''] = (if \<exists>err. Read_Expected 9 (Inl err) \<in> set (trace (logPreviousTally (NewSpawner ex_json plain_redis ''p'' undefined) 9) ex_written)
        then [] else filter (\<lambda>n. n \<notin> Job ` set (filter (\<lambda>t. Epoch t = 9) ts')) [''a'', ''b''])"
  by (rule tallies_reach_report[of plain_redis "\<lambda>x. x" ex_json "[ex_tally]" "[''a'', ''b'']" "\<lparr>db_strings = Map.empty, db_lists = \<lambda>k. []\<rparr>"
      "''p''" 9 "\<lparr>db_strings = [ExpectedKey ''p'' 9 \<mapsto> ''n''], db_lists = \<lambda>k. []\<rparr>" "[Inr ()]" ex_written, OF plain_redis_keeps _ _ _ _ _ ex_report])
    (simp_all add: reads_back_def names_read_back_def ex_json_def writeExpected_def WriteTally_def plain_redis_def ex_written_def ex_tally_def)

section \<open>A drain reads the newest recorded holds\<close>

text \<open>Recording holds one after the other, as long as redis takes them.\<close>

fun persist_all :: "'x redis_commands \<Rightarrow> string \<Rightarrow> string list \<Rightarrow> 'x \<Rightarrow> 'x option" where
  "persist_all rc ps [] x = Some x"
| "persist_all rc ps (e # es) x = (case persistRelease rc ps e x of (Inl err, x') \<Rightarrow> None | (Inr _, x') \<Rightarrow> persist_all rc ps es x')"

lemma run_persist_all:
  assumes "keeps_db rc db" "persist_all rc ps es x = Some x'"
  shows "db_lists (db x') (releaseKey ps) = rev es @ db_lists (db x) (releaseKey ps)"
  using assms(2)
proof (induction es arbitrary: x)
  case (Cons e es)
  obtain r y where r: "rc_exec rc [L_Push (releaseKey ps) e] x = (r, y)" by fastforce
  then have p: "persist_all rc ps es y = Some x'" "r = Inr ()"
    using Cons.prems by (auto simp: persistRelease_def split: sum.splits)
  then have "db y = fold apply_command [L_Push (releaseKey ps) e] (db x)"
    using assms(1) r unfolding keeps_db_def by (metis fst_conv snd_conv)
  then show ?case using Cons.IH[OF p(1)] by simp
qed simp

text \<open>As many holds recorded later as a drain reads hide all earlier ones from it.\<close>

lemma newer_releases_hide_older:
  assumes "keeps_db rc db" "persist_all rc ps es x = Some x'" "0 < limit" "limit \<le> int (length es)"
    and "fst (listReleases rc ps limit x') = Inr vs"
  shows "vs = take (nat limit) (rev es)"
proof -
  have "vs = list_range (rev es @ db_lists (db x) (releaseKey ps)) 0 (limit - 1)"
    using assms(1,5) run_persist_all[OF assms(1,2)] unfolding listReleases_def keeps_db_def by metis
  then show ?thesis using assms(3,4) by (simp add: list_range_prefix)
qed

end
