(* ===== verification/Telemetry.thy ===== *)
theory Telemetry
  imports Go_Time "HOL-Library.Char_ord"
begin

text \<open>
  system/telemetry: the logger, the trace and metric providers, and how the program sets them up and takes them
  down. The OpenTelemetry SDK is a parameter: the constructors of exporters and providers, the merge of resources
  and the shutdown of a provider. The settings of zerolog that \<open>Get\<close> changes are a state.
\<close>

section \<open>The logger (log.go)\<close>

datatype level = TraceLevel | DebugLevel | InfoLevel | WarnLevel | ErrorLevel | FatalLevel | PanicLevel | NoLevel

primrec level_number :: "level \<Rightarrow> int" where
  "level_number TraceLevel = - 1"
| "level_number DebugLevel = 0"
| "level_number InfoLevel = 1"
| "level_number WarnLevel = 2"
| "level_number ErrorLevel = 3"
| "level_number FatalLevel = 4"
| "level_number PanicLevel = 5"
| "level_number NoLevel = 6"

instantiation level :: linorder
begin

definition less_eq_level :: "level \<Rightarrow> level \<Rightarrow> bool" where
  "less_eq_level a b \<longleftrightarrow> level_number a \<le> level_number b"

definition less_level :: "level \<Rightarrow> level \<Rightarrow> bool" where
  "less_level a b \<longleftrightarrow> level_number a < level_number b"

instance
proof
  fix a b :: level
  assume "a \<le> b" "b \<le> a"
  then show "a = b" by (cases a; cases b) (simp_all add: less_eq_level_def)
qed (auto simp: less_eq_level_def less_level_def)

end

text \<open>The four formats of zerolog's own, and the layouts of the package time.\<close>

datatype time_format = TimeFormatUnix | TimeFormatUnixMs | TimeFormatUnixMicro | TimeFormatUnixNano | Layout string

record ZeroLogFieldConfig =
  zf_Caller :: "string option"
  zf_Timestamp :: "string option"
  zf_Error :: "string option"
  zf_ErrorStack :: "string option"
  zf_Level :: "string option"
  zf_Message :: "string option"
  zf_TraceId :: "string option"
  zf_SpanId :: "string option"

record ZeroLogConfig =
  zl_TimeFormat :: string
  zl_DurationFieldInteger :: bool
  zl_LogLevel :: string
  zl_Stacktrace :: bool
  zl_Caller :: bool
  zl_Timestamp :: bool
  zl_Pretty :: bool
  zl_Fields :: ZeroLogFieldConfig

definition TimeFormat :: "string \<Rightarrow> time_format result" where
  "TimeFormat s = (let f = to_lower s in
     if f = ''unix'' then Inr TimeFormatUnix
     else if f = ''unixms'' then Inr TimeFormatUnixMs
     else if f = ''unixmicro'' then Inr TimeFormatUnixMicro
     else if f = ''unixnano'' then Inr TimeFormatUnixNano
     else if f = ''rfc3339'' then Inr (Layout ''2006-01-02T15:04:05Z07:00'')
     else if f = ''rfc3339nano'' then Inr (Layout ''2006-01-02T15:04:05.999999999Z07:00'')
     else if f = ''rfc822'' then Inr (Layout ''02 Jan 06 15:04 MST'')
     else if f = ''rfc822z'' then Inr (Layout ''02 Jan 06 15:04 -0700'')
     else if f = ''rfc850'' then Inr (Layout ''Monday, 02-Jan-06 15:04:05 MST'')
     else if f = ''rfc1123'' then Inr (Layout ''Mon, 02 Jan 2006 15:04:05 MST'')
     else if f = ''rfc1123z'' then Inr (Layout ''Mon, 02 Jan 2006 15:04:05 -0700'')
     else Inl (Msg (''invalid time format: '' @ s)))"

text \<open>The level beside the error is \<open>NoLevel\<close>, which the one caller does not use.\<close>

definition GetLevel :: "string \<Rightarrow> level result" where
  "GetLevel s = (let l = to_lower s in
     if l = ''trace'' then Inr TraceLevel
     else if l = ''debug'' then Inr DebugLevel
     else if l = ''info'' then Inr InfoLevel
     else if l = ''warn'' then Inr WarnLevel
     else if l = ''error'' then Inr ErrorLevel
     else if l = ''fatal'' then Inr FatalLevel
     else if l = ''panic'' then Inr PanicLevel
     else if l = ''none'' then Inr NoLevel
     else Inl (Msg (''invalid log level: '' @ s)))"

text \<open>The global settings of zerolog, and the package's own \<open>once\<close> and \<open>log\<close>; \<open>None\<close> is the zero logger.\<close>

record zerolog_globals =
  zg_TimeFieldFormat :: time_format
  zg_Level :: level
  zg_CallerFieldName :: string
  zg_TimestampFieldName :: string
  zg_ErrorFieldName :: string
  zg_ErrorStackFieldName :: string
  zg_LevelFieldName :: string
  zg_MessageFieldName :: string
  zg_DurationFieldInteger :: bool
  zg_MarshalStack :: bool

record TracingHook =
  TraceField :: string
  SpanField :: string

record Logger =
  lg_Stack :: bool
  lg_Caller :: bool
  lg_Timestamp :: bool
  lg_Console :: bool
  lg_Hook :: TracingHook

record log_state =
  ls_Once :: bool
  ls_Globals :: zerolog_globals
  ls_Log :: "Logger option"

definition set_some :: "('a \<Rightarrow> 'g \<Rightarrow> 'g) \<Rightarrow> 'a option \<Rightarrow> 'g \<Rightarrow> 'g" where
  "set_some upd v g = (case v of None \<Rightarrow> g | Some x \<Rightarrow> upd x g)"

definition configure_globals :: "ZeroLogConfig \<Rightarrow> level \<Rightarrow> time_format \<Rightarrow> zerolog_globals \<Rightarrow> zerolog_globals" where
  "configure_globals zl lvl format g =
     (let fs = zl_Fields zl;
          g = g\<lparr>zg_TimeFieldFormat := format, zg_Level := lvl\<rparr>;
          g = set_some (\<lambda>s. zg_CallerFieldName_update (\<lambda>_. s)) (zf_Caller fs) g;
          g = set_some (\<lambda>s. zg_TimestampFieldName_update (\<lambda>_. s)) (zf_Timestamp fs) g;
          g = set_some (\<lambda>s. zg_ErrorFieldName_update (\<lambda>_. s)) (zf_Error fs) g;
          g = set_some (\<lambda>s. zg_ErrorStackFieldName_update (\<lambda>_. s)) (zf_ErrorStack fs) g;
          g = set_some (\<lambda>s. zg_LevelFieldName_update (\<lambda>_. s)) (zf_Level fs) g;
          g = set_some (\<lambda>s. zg_MessageFieldName_update (\<lambda>_. s)) (zf_Message fs) g;
          g = g\<lparr>zg_DurationFieldInteger := zl_DurationFieldInteger zl\<rparr>
      in if zl_Stacktrace zl then g\<lparr>zg_MarshalStack := True\<rparr> else g)"

definition build_logger :: "ZeroLogConfig \<Rightarrow> Logger" where
  "build_logger zl = \<lparr>lg_Stack = zl_Stacktrace zl, lg_Caller = zl_Caller zl, lg_Timestamp = zl_Timestamp zl,
     lg_Console = zl_Pretty zl,
     lg_Hook = \<lparr>TraceField = (case zf_TraceId (zl_Fields zl) of None \<Rightarrow> ''traceId'' | Some s \<Rightarrow> s),
       SpanField = (case zf_SpanId (zl_Fields zl) of None \<Rightarrow> ''spanId'' | Some s \<Rightarrow> s)\<rparr>\<rparr>"

text \<open>The function that runs once assigns its errors to a variable of its own, so the \<open>err\<close> returned stays nil.\<close>

definition once_Do :: "ZeroLogConfig \<Rightarrow> log_state \<Rightarrow> log_state" where
  "once_Do zl st =
     (case GetLevel (zl_LogLevel zl) of
        Inl err \<Rightarrow> st
      | Inr lvl \<Rightarrow> (case TimeFormat (zl_TimeFormat zl) of
            Inl err \<Rightarrow> st
          | Inr format \<Rightarrow> st\<lparr>ls_Globals := configure_globals zl lvl format (ls_Globals st), ls_Log := Some (build_logger zl)\<rparr>))"

definition Get :: "ZeroLogConfig \<Rightarrow> log_state \<Rightarrow> (Logger option \<times> error option) \<times> log_state" where
  "Get zl st =
     (let st' = (if ls_Once st then st else (once_Do zl st)\<lparr>ls_Once := True\<rparr>)
      in ((ls_Log st', None), st'))"

text \<open>What the hook adds to a log line and to the line's span. The context is \<open>None\<close> when the event has none.\<close>

record span =
  sp_Recording :: bool
  sp_TraceID :: "string option"
  sp_SpanID :: "string option"

datatype hook_action = Add_Str string string | Add_Event string "(string \<times> string) list" | Set_Error_Status string

definition hook_Run :: "(level \<Rightarrow> string) \<Rightarrow> TracingHook \<Rightarrow> bool \<Rightarrow> span option \<Rightarrow> level \<Rightarrow> string \<Rightarrow> hook_action list" where
  "hook_Run level_String h enabled ctx lvl message =
     (if lvl = NoLevel then []
      else if \<not> enabled then []
      else (case ctx of
          None \<Rightarrow> []
        | Some sp \<Rightarrow>
            if \<not> sp_Recording sp then []
            else (case sp_TraceID sp of None \<Rightarrow> [] | Some i \<Rightarrow> [Add_Str (TraceField h) i])
              @ (case sp_SpanID sp of None \<Rightarrow> [] | Some i \<Rightarrow> [Add_Str (SpanField h) i])
              @ [Add_Event ''log'' [(''log.severity'', level_String lvl), (''log.message'', message)]]
              @ (if ErrorLevel \<le> lvl then [Set_Error_Status message] else [])))"

section \<open>Traces (trace.go)\<close>

record TraceBatchProcessorConfig =
  bp_BatchTimeout :: "int option"
  bp_ExportTimeout :: "int option"
  bp_Blocking :: "bool option"
  bp_BatchSize :: "int option"
  bp_QueueSize :: "int option"

record TraceProcessorConfig =
  tp_ProcessorType :: string
  tp_Batch :: "TraceBatchProcessorConfig option"

record TraceExporterOTLPConfig =
  ot_Protocol :: string
  ot_Endpoint :: string
  ot_Insecure :: "bool option"
  ot_Headers :: "(string \<times> string) list option"
  ot_Compression :: "string option"
  ot_Timeout :: "int option"

record TraceExporterConsoleConfig =
  co_PrettyPrint :: "bool option"
  co_Timestamp :: "bool option"

record TraceExporterConfig =
  te_ExporterType :: string
  te_Otlp :: "TraceExporterOTLPConfig option"
  te_Console :: "TraceExporterConsoleConfig option"

datatype otlp_option = WithEndpoint string | WithInsecure | WithHeaders "(string \<times> string) list" | WithCompressor string
  | WithGzip | WithoutCompression | WithTimeout duration

datatype console_option = WithPrettyPrint | WithoutTimestamps

datatype batch_option = WithBatchTimeout duration | WithExportTimeout duration | WithBlocking
  | WithMaxExportBatchSize int | WithMaxQueueSize int

datatype 'e span_processor = Syncer 'e | Batcher 'e "batch_option list"

text \<open>The constructors of exporters.\<close>

record 'e exporter_sdk =
  sdk_grpc :: "otlp_option list \<Rightarrow> 'e result"
  sdk_http :: "otlp_option list \<Rightarrow> 'e result"
  sdk_console :: "console_option list \<Rightarrow> 'e result"

definition given :: "('a \<Rightarrow> 'o) \<Rightarrow> 'a option \<Rightarrow> 'o list" where
  "given f v = (case v of None \<Rightarrow> [] | Some x \<Rightarrow> [f x])"

definition batch_options :: "TraceBatchProcessorConfig option \<Rightarrow> batch_option list" where
  "batch_options b = (case b of None \<Rightarrow> [] | Some b \<Rightarrow>
     given (\<lambda>n. WithBatchTimeout (n * millisecond)) (bp_BatchTimeout b)
     @ given (\<lambda>n. WithExportTimeout (n * millisecond)) (bp_ExportTimeout b)
     @ (if bp_Blocking b = Some True then [WithBlocking] else [])
     @ given WithMaxExportBatchSize (bp_BatchSize b)
     @ given WithMaxQueueSize (bp_QueueSize b))"

definition newProcessor :: "TraceProcessorConfig \<Rightarrow> 'e \<Rightarrow> 'e span_processor result" where
  "newProcessor c e = (let t = to_lower (tp_ProcessorType c) in
     if t = ''sync'' then Inr (Syncer e)
     else if t = ''batch'' then Inr (Batcher e (batch_options (tp_Batch c)))
     else Inl (Msg ''invalid trace processor type''))"

text \<open>The options both kinds of exporters start from, and those for the console.\<close>

definition otlp_base :: "TraceExporterOTLPConfig \<Rightarrow> otlp_option list" where
  "otlp_base o' = WithEndpoint (ot_Endpoint o') # (if ot_Insecure o' = Some True then [WithInsecure] else [])
     @ given WithHeaders (ot_Headers o')"

definition otlp_timeout :: "TraceExporterOTLPConfig \<Rightarrow> otlp_option list" where
  "otlp_timeout o' = given (\<lambda>n. WithTimeout (n * millisecond)) (ot_Timeout o')"

definition http_compression :: "string \<Rightarrow> string option \<Rightarrow> otlp_option list result" where
  "http_compression invalid v = (case v of
       None \<Rightarrow> Inr []
     | Some s \<Rightarrow> let c = to_lower s in
         if c = ''gzip'' then Inr [WithGzip]
         else if c = ''none'' then Inr [WithoutCompression]
         else Inl (Msg invalid))"

definition console_options :: "TraceExporterConsoleConfig option \<Rightarrow> console_option list" where
  "console_options v = (case v of None \<Rightarrow> [] | Some c \<Rightarrow>
     (if co_PrettyPrint c = Some True then [WithPrettyPrint] else [])
     @ (if co_Timestamp c = Some False then [WithoutTimestamps] else []))"

definition trace_newExporter :: "'e exporter_sdk \<Rightarrow> TraceExporterConfig \<Rightarrow> 'e result" where
  "trace_newExporter sdk c =
     (let t = to_lower (te_ExporterType c) in
      if t = ''otlp'' then
        (case te_Otlp c of
           None \<Rightarrow> Inl (Msg ''missing trace exporter configuration for OTLP'')
         | Some o' \<Rightarrow>
             if to_lower (ot_Protocol o') = ''grpc''
             then sdk_grpc sdk (otlp_base o' @ given WithCompressor (ot_Compression o') @ otlp_timeout o')
             else if to_lower (ot_Protocol o') = ''http'' then
               (case http_compression ''invalid trace exporter compression type'' (ot_Compression o') of
                  Inl err \<Rightarrow> Inl err
                | Inr z \<Rightarrow> sdk_http sdk (otlp_base o' @ z @ otlp_timeout o'))
             else Inl (Msg ''invalid trace exporter protocol type''))
      else if t = ''console'' then sdk_console sdk (console_options (te_Console c))
      else Inl (Msg ''invalid trace exporter type''))"

definition trace_newProvider :: "'e exporter_sdk \<Rightarrow> ('e span_processor \<Rightarrow> 'r \<Rightarrow> 'p) \<Rightarrow> TraceExporterConfig \<Rightarrow> TraceProcessorConfig
    \<Rightarrow> 'r \<Rightarrow> 'p result" where
  "trace_newProvider sdk new exp proc' res =
     (case trace_newExporter sdk exp of
        Inl err \<Rightarrow> Inl err
      | Inr e \<Rightarrow> (case newProcessor proc' e of
            Inl err \<Rightarrow> Inl err
          | Inr p \<Rightarrow> Inr (new p res)))"

section \<open>Metrics (metrics.go)\<close>

record MetricReaderConfig =
  mr_Interval :: "int option"
  mr_Timeout :: "int option"

datatype reader_option = WithInterval duration | WithReaderTimeout duration

datatype 'e metric_reader = PeriodicReader 'e "reader_option list"

definition newReader :: "MetricReaderConfig \<Rightarrow> 'e \<Rightarrow> 'e metric_reader" where
  "newReader c e = PeriodicReader e (given (\<lambda>n. WithInterval (n * millisecond)) (mr_Interval c)
     @ given (\<lambda>n. WithReaderTimeout (n * millisecond)) (mr_Timeout c))"

definition metric_newExporter :: "'e exporter_sdk \<Rightarrow> TraceExporterConfig \<Rightarrow> 'e result" where
  "metric_newExporter sdk c =
     (let t = to_lower (te_ExporterType c) in
      if t = ''otlp'' then
        (case te_Otlp c of
           None \<Rightarrow> Inl (Msg ''missing metric exporter configuration for OTLP'')
         | Some o' \<Rightarrow>
             if to_lower (ot_Protocol o') = ''grpc''
             then sdk_grpc sdk (otlp_base o' @ given (\<lambda>s. WithCompressor (to_lower s)) (ot_Compression o') @ otlp_timeout o')
             else if to_lower (ot_Protocol o') = ''http'' then
               (case http_compression ''invalid metric exporter compression type'' (ot_Compression o') of
                  Inl err \<Rightarrow> Inl err
                | Inr z \<Rightarrow> sdk_http sdk (otlp_base o' @ z @ otlp_timeout o'))
             else Inl (Msg ''invalid metric exporter protocol type''))
      else if t = ''console'' then sdk_console sdk (console_options (te_Console c))
      else Inl (Msg ''invalid metrics exporter type''))"

definition newMeterProvider :: "'e exporter_sdk \<Rightarrow> ('e metric_reader \<Rightarrow> 'r \<Rightarrow> 'p) \<Rightarrow> TraceExporterConfig \<Rightarrow> MetricReaderConfig
    \<Rightarrow> 'r \<Rightarrow> 'p result" where
  "newMeterProvider sdk new exp rd res =
     (case metric_newExporter sdk exp of Inl err \<Rightarrow> Inl err | Inr e \<Rightarrow> Inr (new (newReader rd e) res))"

section \<open>Setting up and taking down (setup.go)\<close>

record AppConfig =
  ac_Landscape :: string
  ac_Platform :: string
  ac_Service :: string
  ac_Module :: string
  ac_Version :: string

definition lpsm_attributes :: "AppConfig \<Rightarrow> (string \<times> string) list" where
  "lpsm_attributes app = [(''atomicloud.landscape'', ac_Landscape app), (''atomicloud.platform'', ac_Platform app),
     (''atomicloud.service'', ac_Service app), (''atomicloud.module'', ac_Module app), (''atomicloud.version'', ac_Version app)]"

text \<open>\<open>merge\<close> is \<open>resource.Merge\<close>, \<open>schemaless\<close> a resource of attributes.\<close>

definition newResource :: "('r \<Rightarrow> 'r \<Rightarrow> 'r result) \<Rightarrow> ((string \<times> string) list \<Rightarrow> 'r) \<Rightarrow> 'r \<Rightarrow> AppConfig \<Rightarrow> 'r result" where
  "newResource merge schemaless default' app =
     (let n = schemaless [(''service.name'', ac_Platform app @ ''.'' @ ac_Service app @ ''.'' @ ac_Module app),
          (''service.version'', ac_Version app)]
      in case merge default' n of Inl err \<Rightarrow> Inl err | Inr m \<Rightarrow> merge m (schemaless (lpsm_attributes app)))"

text \<open>What \<open>Configure\<close> is built from: the resource, the providers the two configurators make for it,
  and the \<open>Shutdown\<close> of a provider.\<close>

record ('x, 'r, 'p) otel_env =
  oe_resource :: "'r result"
  oe_trace_enable :: bool
  oe_trace :: "'r \<Rightarrow> 'p result"
  oe_metric_enable :: bool
  oe_metric :: "'r \<Rightarrow> 'p result"
  oe_shutdown :: "'p \<Rightarrow> 'x \<Rightarrow> unit result \<times> 'x"

datatype 'p otel_event = Set_Propagator | Set_TracerProvider 'p | Set_MeterProvider 'p | Shut_Down 'p "unit result"

type_synonym ('x, 'p, 'a) telemetry = "('x, 'p otel_event, 'a) proc"

definition announce :: "'e \<Rightarrow> ('x, 'e, unit) proc" where
  "announce ev = invoke (\<lambda>x. ((), x)) (\<lambda>_. ev)"

text \<open>\<open>errors.Join\<close> of two errors that may be nil.\<close>

definition join_two :: "unit result \<Rightarrow> unit result \<Rightarrow> unit result" where
  "join_two a b = join_errors (List.map_filter (\<lambda>r. case r of Inl e \<Rightarrow> Some e | Inr _ \<Rightarrow> None) [a, b])"

fun otel_shutdown :: "('x, 'r, 'p) otel_env \<Rightarrow> 'p list \<Rightarrow> unit result \<Rightarrow> ('x, 'p, unit result) telemetry" where
  "otel_shutdown env [] err = return err"
| "otel_shutdown env (p # ps) err = do {
     r \<leftarrow> invoke (oe_shutdown env p) (Shut_Down p);
     otel_shutdown env ps (join_two err r)
   }"

text \<open>The result of a failed step: everything set up is shut down, and nothing is left to shut down.\<close>

definition handleErr :: "('x, 'r, 'p) otel_env \<Rightarrow> 'p list \<Rightarrow> error \<Rightarrow> ('x, 'p, 'p list \<times> unit result) telemetry" where
  "handleErr env shutdownFuncs inErr = do {
     r \<leftarrow> otel_shutdown env shutdownFuncs (Inr ());
     return ([], join_two (Inl inErr) r)
   }"

definition configure_metric :: "('x, 'r, 'p) otel_env \<Rightarrow> 'r \<Rightarrow> 'p list \<Rightarrow> ('x, 'p, 'p list \<times> unit result) telemetry" where
  "configure_metric env res shutdownFuncs =
     (if oe_metric_enable env then
        (case oe_metric env res of
           Inl er \<Rightarrow> handleErr env shutdownFuncs er
         | Inr p \<Rightarrow> do {
             announce (Set_MeterProvider p);
             return (shutdownFuncs @ [p], Inr ())
           })
      else return (shutdownFuncs, Inr ()))"

text \<open>The functions its \<open>shutdown\<close> will run, and its error.\<close>

definition Configure :: "('x, 'r, 'p) otel_env \<Rightarrow> ('x, 'p, 'p list \<times> unit result) telemetry" where
  "Configure env =
     (case oe_resource env of
        Inl e \<Rightarrow> handleErr env [] e
      | Inr res \<Rightarrow> do {
          announce Set_Propagator;
          (if oe_trace_enable env then
             (case oe_trace env res of
                Inl er \<Rightarrow> handleErr env [] er
              | Inr p \<Rightarrow> do {
                  announce (Set_TracerProvider p);
                  configure_metric env res [p]
                })
           else configure_metric env res [])
        })"

section \<open>Correctness\<close>

text \<open>A level or a time format that is not known leaves the program with the zero logger, which writes nothing, and no error.\<close>

theorem Get_hides_invalid_settings:
  assumes "\<not> ls_Once st" "ls_Log st = None"
    and "(\<exists>e. GetLevel (zl_LogLevel zl) = Inl e) \<or> (\<exists>e. TimeFormat (zl_TimeFormat zl) = Inl e)"
  shows "fst (Get zl st) = (None, None)"
  using assms by (auto simp: Get_def once_Do_def split: sum.split)

text \<open>\<open>Get\<close> configures once: a later call returns the same logger and changes nothing, whatever its settings.\<close>

theorem Get_once: "fst (Get zl' (snd (Get zl st))) = fst (Get zl st) \<and> snd (Get zl' (snd (Get zl st))) = snd (Get zl st)"
  by (simp add: Get_def Let_def)

lemma set_some_keeps [simp]:
  "zg_Level (set_some (\<lambda>s. zg_CallerFieldName_update (\<lambda>_. s)) v g) = zg_Level g"
  "zg_Level (set_some (\<lambda>s. zg_TimestampFieldName_update (\<lambda>_. s)) v g) = zg_Level g"
  "zg_Level (set_some (\<lambda>s. zg_ErrorFieldName_update (\<lambda>_. s)) v g) = zg_Level g"
  "zg_Level (set_some (\<lambda>s. zg_ErrorStackFieldName_update (\<lambda>_. s)) v g) = zg_Level g"
  "zg_Level (set_some (\<lambda>s. zg_LevelFieldName_update (\<lambda>_. s)) v g) = zg_Level g"
  "zg_Level (set_some (\<lambda>s. zg_MessageFieldName_update (\<lambda>_. s)) v g) = zg_Level g"
  "zg_TimeFieldFormat (set_some (\<lambda>s. zg_CallerFieldName_update (\<lambda>_. s)) v g) = zg_TimeFieldFormat g"
  "zg_TimeFieldFormat (set_some (\<lambda>s. zg_TimestampFieldName_update (\<lambda>_. s)) v g) = zg_TimeFieldFormat g"
  "zg_TimeFieldFormat (set_some (\<lambda>s. zg_ErrorFieldName_update (\<lambda>_. s)) v g) = zg_TimeFieldFormat g"
  "zg_TimeFieldFormat (set_some (\<lambda>s. zg_ErrorStackFieldName_update (\<lambda>_. s)) v g) = zg_TimeFieldFormat g"
  "zg_TimeFieldFormat (set_some (\<lambda>s. zg_LevelFieldName_update (\<lambda>_. s)) v g) = zg_TimeFieldFormat g"
  "zg_TimeFieldFormat (set_some (\<lambda>s. zg_MessageFieldName_update (\<lambda>_. s)) v g) = zg_TimeFieldFormat g"
  by (simp_all add: set_some_def split: option.split)

theorem Get_valid:
  assumes "\<not> ls_Once st" "GetLevel (zl_LogLevel zl) = Inr lvl" "TimeFormat (zl_TimeFormat zl) = Inr f"
  shows "fst (Get zl st) = (Some (build_logger zl), None) \<and> zg_Level (ls_Globals (snd (Get zl st))) = lvl
    \<and> zg_TimeFieldFormat (ls_Globals (snd (Get zl st))) = f"
  using assms by (simp add: Get_def once_Do_def configure_globals_def Let_def)

text \<open>A span gets the error status from its lines of level error and above, and from no line without a level.\<close>

theorem hook_marks_errors:
  "Set_Error_Status m \<in> set (hook_Run name h enabled ctx lvl message)
     \<longleftrightarrow> enabled \<and> (\<exists>sp. ctx = Some sp \<and> sp_Recording sp) \<and> m = message \<and> lvl \<in> {ErrorLevel, FatalLevel, PanicLevel}"
  by (cases lvl) (auto simp: hook_Run_def less_eq_level_def split: option.split)

lemma join_two_ok [simp]: "join_two a b = Inr () \<longleftrightarrow> a = Inr () \<and> b = Inr ()"
  by (cases a; cases b) (auto simp: join_two_def)

lemma effect_otel_shutdown:
  "effect (otel_shutdown env ps err) (\<lambda>r tr. (\<exists>rs. length rs = length ps \<and> tr = map2 Shut_Down ps rs
     \<and> (r = Inr () \<longleftrightarrow> err = Inr () \<and> list_all (\<lambda>r. r = Inr ()) rs)))"
proof (induction ps arbitrary: err)
  case (Cons p ps)
  show ?case unfolding otel_shutdown.simps
  proof (rule effect_bind, rule effect_invoke, rule effect_conseq[OF Cons.IH], elim exE conjE)
    fix r a tr rs
    assume "length rs = length ps" "tr = map2 Shut_Down ps rs" "a = Inr () \<longleftrightarrow> join_two err r = Inr () \<and> list_all (\<lambda>r. r = Inr ()) rs"
    then show "\<exists>rs. length rs = length (p # ps) \<and> [Shut_Down p r] @ tr = map2 Shut_Down (p # ps) rs
        \<and> (a = Inr () \<longleftrightarrow> err = Inr () \<and> list_all (\<lambda>r. r = Inr ()) rs)"
      by (intro exI[of _ "r # rs"]) simp
  qed
qed simp

fun taken_down :: "'p otel_event \<Rightarrow> 'p option" where
  "taken_down (Shut_Down p r) = Some p"
| "taken_down ev = None"

fun set_up :: "'p otel_event \<Rightarrow> 'p option" where
  "set_up (Set_TracerProvider p) = Some p"
| "set_up (Set_MeterProvider p) = Some p"
| "set_up ev = None"

text \<open>The providers of a run are still to be shut down when it succeeds; otherwise they have all been, once each.\<close>

definition configured :: "'p list \<times> unit result \<Rightarrow> 'p otel_event list \<Rightarrow> bool" where
  "configured out tr \<longleftrightarrow> (case snd out of
     Inr _ \<Rightarrow> fst out = List.map_filter set_up tr \<and> List.map_filter taken_down tr = []
   | Inl _ \<Rightarrow> fst out = [] \<and> List.map_filter taken_down tr = List.map_filter set_up tr)"

lemma shut_down_events [simp]:
  "length rs = length ps \<Longrightarrow> List.map_filter taken_down (map2 Shut_Down ps rs) = ps \<and> List.map_filter set_up (map2 Shut_Down ps rs) = []"
  by (induction rs ps rule: list_induct2) auto

lemma effect_announce [effect_intros]: "P () [ev] \<Longrightarrow> effect (announce ev) P"
  unfolding announce_def by (rule effect_invoke) (metis (full_types) unit.exhaust)

lemma effect_handleErr:
  "effect (handleErr env ps e) (\<lambda>out tr. fst out = [] \<and> snd out \<noteq> Inr () \<and> List.map_filter taken_down tr = ps \<and> List.map_filter set_up tr = [])"
  unfolding handleErr_def
  by (rule effect_bind, rule effect_conseq[OF effect_otel_shutdown], rule effect_return) auto

lemma failed_configured:
  "fst out = [] \<and> snd out \<noteq> Inr () \<and> List.map_filter taken_down tr = ps \<and> List.map_filter set_up tr = []
     \<Longrightarrow> List.map_filter taken_down pre = [] \<Longrightarrow> List.map_filter set_up pre = ps \<Longrightarrow> configured out (pre @ tr)"
  by (auto simp: configured_def split: sum.split)

lemma effect_configure_metric:
  assumes "List.map_filter taken_down pre = []" "List.map_filter set_up pre = ps"
  shows "effect (configure_metric env res ps) (\<lambda>out tr. configured out (pre @ tr))"
  unfolding configure_metric_def
proof (intro effect_if effect_case_sum effect_bind effect_announce effect_return effect_conseq[OF effect_handleErr])
  show "configured out (pre @ tr)"
    if "fst out = [] \<and> snd out \<noteq> Inr () \<and> List.map_filter taken_down tr = ps \<and> List.map_filter set_up tr = []" for out tr
    using failed_configured[OF that assms] .
qed (use assms in \<open>auto simp: configured_def\<close>)

text \<open>Setting up the telemetry leaves no provider behind: on success exactly the providers that were installed are
  handed to the returned shutdown, and on failure each of them has been shut down once and the returned shutdown has
  nothing left to do.\<close>

theorem Configure_cleans_up: "effect (Configure env) configured"
  unfolding Configure_def
proof (rule effect_case_sum, goal_cases)
  case (1 e)
  show ?case
    by (rule effect_conseq[OF effect_handleErr]) (use failed_configured[where pre = "[]" and ps = "[]"] in simp)
next
  case (2 res)
  show ?case
  proof (rule effect_bind, rule effect_announce, rule effect_if, rule effect_case_sum, goal_cases)
    case (1 er)
    show ?case
      by (rule effect_conseq[OF effect_handleErr]) (use failed_configured[where pre = "[Set_Propagator]" and ps = "[]"] in simp)
  next
    case (2 p)
    show ?case
      by (rule effect_bind, rule effect_announce) (use effect_configure_metric[of "[Set_Propagator, Set_TracerProvider p]" "[p]"] in simp)
  next
    case 3
    show ?case using effect_configure_metric[of "[Set_Propagator]" "[]"] by simp
  qed
qed

end
