(* ===== verification/Commands.thy ===== *)
theory Commands
  imports Prober_Runner Poller Pool Session Recover_Cmd
begin

text \<open>
  cmds and main.go: what the commands of the program do besides building their clients. The command line, the
  environment, the terminal, files, kubernetes and viper are parameters; what a command calls of a
  component is logged as that component's event.
\<close>

section \<open>Configuration (system/config, main.go)\<close>

text \<open>Viper: the absolute path, the settings a file holds with the environment's over them, and their merge.\<close>

record ('v, 'c) viper =
  vp_abs :: "string \<Rightarrow> string result"
  vp_read :: "string \<Rightarrow> string \<Rightarrow> 'v result"
  vp_merge :: "'v \<Rightarrow> 'v \<Rightarrow> 'v result"
  vp_unmarshal :: "'v \<Rightarrow> 'c result"

definition Load_config :: "('v, 'c) viper \<Rightarrow> string \<Rightarrow> string \<Rightarrow> 'c result" where
  "Load_config vp baseConfig landscape =
     (case vp_abs vp baseConfig of
        Inl err \<Rightarrow> Inl err
      | Inr basePath \<Rightarrow> (case vp_read vp basePath ''settings'' of
            Inl err \<Rightarrow> Inl err
          | Inr base \<Rightarrow> (case vp_read vp basePath (''settings.'' @ landscape) of
                Inl err \<Rightarrow> Inl err
              | Inr l \<Rightarrow> (case vp_merge vp base l of
                    Inl err \<Rightarrow> Inl err
                  | Inr merged \<Rightarrow> vp_unmarshal vp merged))))"

text \<open>The landscape and the directory the program starts with.\<close>

definition start_settings :: "(string \<Rightarrow> string) \<Rightarrow> string \<times> string" where
  "start_settings getenv =
     (if getenv ''LANDSCAPE'' = [] then ''lapras'' else getenv ''LANDSCAPE'',
      if getenv ''BASE_CONFIG'' = [] then ''./config/app'' else getenv ''BASE_CONFIG'')"

definition psm :: "string \<Rightarrow> string \<Rightarrow> string \<Rightarrow> string" where
  "psm platform service module = platform @ ''.'' @ service @ ''.'' @ module"

definition ps :: "string \<Rightarrow> string \<Rightarrow> string" where
  "ps platform service = platform @ ''.'' @ service"

definition zinc_endpoint :: "string \<Rightarrow> string \<Rightarrow> string \<Rightarrow> string" where
  "zinc_endpoint scheme host port = scheme @ ''://'' @ host @ '':'' @ port"

section \<open>The pool of sessions (loginer.go)\<close>

record 'x loginer_env =
  lo_unmarshal :: "string \<Rightarrow> Credential list result"
  lo_pool :: "'x pool_env"
  lo_shutdown :: "'x \<Rightarrow> unit \<times> 'x"

datatype loginer_event = Pool_Call pool_event | Told_To_Stop unit

definition Loginer :: "'x loginer_env \<Rightarrow> string \<Rightarrow> ('x, loginer_event, unit result) proc" where
  "Loginer env logins =
     (if logins = [] then return (Inl (Msg ''no pool logins configured''))
      else (case lo_unmarshal env logins of
          Inl err \<Rightarrow> return (Inl err)
        | Inr creds \<Rightarrow>
            if creds = [] then return (Inl (Msg ''no pool logins configured''))
            else on_ok (lifted Pool_Call (pool_Sync (lo_pool env) creds)) (\<lambda>_. do {
              _ \<leftarrow> invoke (lo_shutdown env) Told_To_Stop;
              return (Inr ())
            })))"

section \<open>One ticket's PDF (print.go)\<close>

record 'x print_env =
  pr_session :: "'x session_env"
  pr_transport :: "'x transport"
  pr_ktmb :: Ktmb
  pr_LoginKey :: string
  pr_Email :: string
  pr_Password :: string
  pr_write :: "string \<Rightarrow> string \<Rightarrow> 'x \<Rightarrow> unit result \<times> 'x"

datatype print_event = Session_Call session_event | Ktmb_Call http_event | Wrote_File string string "unit result"

text \<open>An argument that is not given reads as empty.\<close>

definition arg :: "string list \<Rightarrow> nat \<Rightarrow> string" where
  "arg args i = (if i < length args then args ! i else [])"

text \<open>\<open>None\<close>: the login's fuel ran out, or no public address was ever drawn.\<close>

definition PrintTicket :: "'x print_env \<Rightarrow> string list \<Rightarrow> nat \<Rightarrow> ('x, print_event, unit result option) proc" where
  "PrintTicket env args fuel =
     (let bookingNo = arg args 0; ticketNo = arg args 1; outPath = arg args 2 in
      if bookingNo = [] \<or> ticketNo = [] \<or> outPath = []
      then return (Some (Inl (Msg ''usage: print-ticket <bookingNo> <ticketNo> <outPath>'')))
      else do {
        u \<leftarrow> lifted Session_Call (Session.Login (pr_session env) (pr_LoginKey env) (pr_Email env) (pr_Password env) fuel);
        case u of
          None \<Rightarrow> return None
        | Some (Inl err) \<Rightarrow> return (Some (Inl err))
        | Some (Inr userData) \<Rightarrow> do {
            p \<leftarrow> lifted Ktmb_Call (ktmb_PrintTicket (pr_transport env) (pr_ktmb env) userData bookingNo ticketNo);
            case p of
              None \<Rightarrow> return None
            | Some (Inl err) \<Rightarrow> return (Some (Inl err))
            | Some (Inr pdf) \<Rightarrow> do {
                w \<leftarrow> invoke (pr_write env outPath pdf) (Wrote_File outPath pdf);
                return (Some w)
              }
          }
      })"

section \<open>By hand (main.go)\<close>

record 'x manual_env =
  mb_uuid :: "string \<Rightarrow> uuid result"
  mb_read :: "string \<Rightarrow> 'x \<Rightarrow> string result \<times> 'x"
  mb_form :: "string \<Rightarrow> (string \<times> string) result"
  mb_complete :: "uuid \<Rightarrow> string \<Rightarrow> string \<Rightarrow> string \<times> string \<Rightarrow> 'x \<Rightarrow> string reply \<times> 'x"
  mb_lpush :: "string \<Rightarrow> string \<Rightarrow> 'x \<Rightarrow> int result \<times> 'x"

datatype manual_event =
    Read_File string "string result"
  | Completed_Booking uuid string string "string \<times> string" "string reply"
  | Pushed_Left string string "int result"

text \<open>The form is its content type and its body. An answer of zinc is logged, whatever its status.\<close>

definition manual_buy :: "'x manual_env \<Rightarrow> string list \<Rightarrow> ('x, manual_event, unit result) proc" where
  "manual_buy env args =
     (let ticketPath = arg args 0; bookingNo = arg args 1; ticketNo = arg args 2; bookingId = arg args 3 in
      case mb_uuid env bookingId of
        Inl er \<Rightarrow> return (Inl er)
      | Inr bId \<Rightarrow>
          on_ok (invoke (mb_read env ticketPath) (Read_File ticketPath)) (\<lambda>buy.
            case mb_form env buy of
              Inl er \<Rightarrow> return (Inl er)
            | Inr form \<Rightarrow>
                on_ok (invoke (mb_complete env bId bookingNo ticketNo form) (Completed_Booking bId bookingNo ticketNo form)) (\<lambda>completed.
                  return (case Body completed of Unreadable \<Rightarrow> Inl Read_Error | _ \<Rightarrow> Inr ()))))"

definition resend :: "'x manual_env \<Rightarrow> ('x, manual_event, unit result) proc" where
  "resend env = on_ok (invoke (mb_lpush env ''buyqueue'' []) (Pushed_Left ''buyqueue'' [])) (\<lambda>_. return (Inr ()))"

text \<open>What \<open>decrypt\<close> logs, and its result; \<open>None\<close> is a panic of the decryption.\<close>

definition decrypt_cmd :: "aes_gcm \<Rightarrow> (string \<Rightarrow> 't result) \<Rightarrow> (string \<Rightarrow> string) \<Rightarrow> string list \<Rightarrow> ('t result \<times> unit result) option" where
  "decrypt_cmd aes unmarshal getenv args =
     map_option (\<lambda>find. (find, Inr ())) (DecryptAny aes unmarshal (getenv ''ENCRYPTION_KEY'') (arg args 0))"

record backfill_flags =
  bf_status :: string
  bf_refund :: bool
  bf_dry_run :: bool
  bf_max :: int
  bf_page_size :: int

definition KtmbCostBackfill :: "'x cost_env \<Rightarrow> int \<Rightarrow> backfill_flags \<Rightarrow> ('x, unit result) costing" where
  "KtmbCostBackfill env sleepBuffer c =
     (case backfill_status (bf_status c) (bf_refund c) of
        Inl err \<Rightarrow> return (Inl err)
      | Inr status \<Rightarrow> do {
          r \<leftarrow> cost_Run env \<lparr>opt_DryRun = bf_dry_run c, opt_Refund = bf_refund c, opt_Status = status,
             opt_Max = bf_max c, opt_PageSize = bf_page_size c, opt_SleepBuffer = sleepBuffer * second\<rparr>;
          return (case snd r of None \<Rightarrow> Inr () | Some err \<Rightarrow> Inl err)
        })"

section \<open>In the cluster (poller.go, spawner.go)\<close>

record PollerConfig =
  pc_ShardSize :: int
  pc_MaxStreams :: int
  pc_BoostKey :: string
  pc_MaxBoostStreams :: int
  pc_LightDelay :: int
  pc_LightShardSize :: int
  pc_MaxLightStreams :: int
  pc_GenerationKey :: string
  pc_MinGenerationSeconds :: int

definition poller_tiers :: "PollerConfig \<Rightarrow> Tiers" where
  "poller_tiers c = \<lparr>BoostKey = pc_BoostKey c, MaxBoost = pc_MaxBoostStreams c, MaxLight = pc_MaxLightStreams c,
     Light = \<lparr>prof_Name = ''light'', prof_ShardSize = pc_LightShardSize c, prof_Delay = pc_LightDelay c\<rparr>,
     GenerationKey = pc_GenerationKey c, MinGeneration = pc_MinGenerationSeconds c * second\<rparr>"

record ('c, 'v) pod =
  pod_Containers :: "'c list"
  pod_Volumes :: "'v list"

definition ContainerFromPod :: "('c, 'v) pod \<Rightarrow> 'c result" where
  "ContainerFromPod p = (case pod_Containers p of
       [] \<Rightarrow> Inl (Msg ''spawner pod has no containers'')
     | c # _ \<Rightarrow> Inr c)"

text \<open>What the spawner's Jobs are made from: the namespace, the container and the volumes of its own pod.\<close>

definition spawner_pod :: "unit result \<Rightarrow> unit result \<Rightarrow> (string \<Rightarrow> string) \<Rightarrow> (string \<Rightarrow> string \<Rightarrow> ('c, 'v) pod result)
    \<Rightarrow> (string \<times> 'c \<times> 'v list) result" where
  "spawner_pod kubeConfig kube getenv get =
     (case kubeConfig of
        Inl err \<Rightarrow> Inl err
      | Inr _ \<Rightarrow> (case kube of
            Inl err \<Rightarrow> Inl err
          | Inr _ \<Rightarrow>
              (let podName = getenv ''POD_NAME''; namespace = getenv ''POD_NAMESPACE'' in
               if podName = [] \<or> namespace = [] then Inl (Msg ''POD_NAME and POD_NAMESPACE are required'')
               else (case get namespace podName of
                   Inl err \<Rightarrow> Inl err
                 | Inr p \<Rightarrow> (case ContainerFromPod p of
                       Inl err \<Rightarrow> Inl err
                     | Inr c \<Rightarrow> Inr (namespace, c, pod_Volumes p))))))"

section \<open>One Job of an epoch (prober.go)\<close>

record prober_flags =
  pf_data :: string
  pf_interval :: int
  pf_epoch :: int
  pf_job :: string

definition prober_warm_size :: "Target list \<Rightarrow> int \<Rightarrow> int" where
  "prober_warm_size targets configured =
     (let warmSize = int (length targets) in if warmSize < configured then configured else warmSize)"

text \<open>\<open>new_runner d\<close> is the environment of a runner under a context that ends after \<open>d\<close>.\<close>

definition Prober :: "(string list \<Rightarrow> prober_flags result) \<Rightarrow> (string \<Rightarrow> Target list result) \<Rightarrow> ('x \<Rightarrow> instant \<times> 'x)
    \<Rightarrow> (duration \<Rightarrow> 'x runner_env) \<Rightarrow> runner_config \<Rightarrow> string list \<Rightarrow> nat \<Rightarrow> ('x, unit result option) run" where
  "Prober flags unmarshal clock new_runner cfg args fuel =
     (case flags args of
        Inl err \<Rightarrow> return (Some (Inl err))
      | Inr c \<Rightarrow> (case ParseTargets unmarshal (pf_data c) of
            Inl err \<Rightarrow> return (Some (Inl err))
          | Inr targets \<Rightarrow>
              if pf_interval c \<le> 0 then return (Some (Inl (Msg ''interval must be positive'')))
              else do {
                now \<leftarrow> invoke clock run_event.Now;
                Run (new_runner ((pf_interval c + 120) * second)) cfg targets (pf_epoch c) (pf_job c)
                  (now + pf_interval c * second) fuel
              }))"

section \<open>An empty configuration never empties the pool\<close>

fun pool_calls :: "loginer_event \<Rightarrow> pool_event option" where
  "pool_calls (Pool_Call ev) = Some ev"
| "pool_calls ev = None"

definition login_outcome :: "'x loginer_env \<Rightarrow> string \<Rightarrow> unit result \<Rightarrow> loginer_event list \<Rightarrow> bool" where
  "login_outcome env logins r tr \<longleftrightarrow>
     (tr = [] \<and> r \<noteq> Inr () \<and> (logins = [] \<or> lo_unmarshal env logins = Inr [] \<or> (\<exists>e. lo_unmarshal env logins = Inl e)))
   \<or> (\<exists>creds s calls. lo_unmarshal env logins = Inr creds \<and> creds \<noteq> [] \<and> reconciled (lo_pool env) creds s calls
        \<and> r = s \<and> tr = map Pool_Call calls @ (if s = Inr () then [Told_To_Stop ()] else []))"

text \<open>The loginer touches the pool only with a configuration that is read and has an account: then it reconciles the
  pool with exactly these accounts, once, and after a success waits to be stopped.\<close>

theorem Loginer_reconciles: "effect (Loginer env logins) (login_outcome env logins)"
  unfolding Loginer_def
proof (rule effect_if, simp add: login_outcome_def, rule effect_case_sum, simp add: login_outcome_def, rule effect_if,
    simp add: login_outcome_def, rule effect_on_ok_cases[OF effect_lifted[OF pool_Sync_reconciles]])
  fix creds e tr
  assume "lo_unmarshal env logins = Inr creds" "creds \<noteq> []"
    "\<exists>calls. tr = map Pool_Call calls \<and> reconciled (lo_pool env) creds (Inl e) calls"
  then show "login_outcome env logins (Inl e) tr"
    unfolding login_outcome_def by fastforce
next
  fix creds a tr
  assume c: "lo_unmarshal env logins = Inr creds" "creds \<noteq> []"
    "\<exists>calls. tr = map Pool_Call calls \<and> reconciled (lo_pool env) creds (Inr a) calls"
  then obtain calls where calls: "tr = map Pool_Call calls" "reconciled (lo_pool env) creds (Inr ()) calls" by auto
  show "effect (do { _ \<leftarrow> invoke (lo_shutdown env) Told_To_Stop; return (Inr ()) }) (\<lambda>r tr'. login_outcome env logins r (tr @ tr'))"
  proof (rule effect_bind, rule effect_invoke, rule effect_return)
    fix u :: unit
    show "login_outcome env logins (Inr ()) (tr @ [Told_To_Stop u] @ [])"
      unfolding login_outcome_def using c(1,2) calls
      by (intro disjI2 exI[of _ creds] exI[of _ "Inr ()"] exI[of _ calls]) simp
  qed
qed

section \<open>Only the printed ticket is written\<close>

fun ktmb_calls :: "print_event \<Rightarrow> http_event option" where
  "ktmb_calls (Ktmb_Call ev) = Some ev"
| "ktmb_calls ev = None"

definition printed :: "'x print_env \<Rightarrow> string list \<Rightarrow> print_event list \<Rightarrow> bool" where
  "printed env args tr \<longleftrightarrow> (\<forall>path pdf w. Wrote_File path pdf w \<in> set tr \<longrightarrow>
     path = arg args 2 \<and> path \<noteq> [] \<and> (\<exists>body ip userData s.
       marshal (pr_transport env) (PrintTicketReq_json \<lparr>pt_BookingNo = arg args 0, pt_Tickets = [\<lparr>ptt_TicketNo = arg args 1\<rparr>]\<rparr>) = Inr body
       \<and> Ktmb_Call (Exchanged (request_of (NewApi (pr_ktmb env)) ''POST'' ''/v1/booking/PrintTicketPdf'' body
           (appHost @ user_header userData) ip) (Response s (Inr pdf))) \<in> set tr \<and> s \<le> 399))"

lemma print_call:
  assumes "answer_of Inr r tr" "tr = [] \<or> marshal env payload = Inr body" "sent_one k path body headers tr" "r = Some (Inr pdf)"
  shows "\<exists>ip s. marshal env payload = Inr body \<and> Exchanged (request_of k ''POST'' path body headers ip) (Response s (Inr pdf)) \<in> set tr \<and> s \<le> 399"
proof -
  obtain q s b where "Exchanged q (Response s (Inr b)) \<in> set tr" "s \<le> 399" "b = pdf"
    using assms(1,4) by (auto simp: answer_of_def)
  then show ?thesis using assms(2,3) by (fastforce simp: sent_one_def)
qed

lemma effect_ktmb_PrintTicket:
  "effect (ktmb_PrintTicket env k userData bookingNo ticketNo) (\<lambda>r tr. \<forall>pdf. r = Some (Inr pdf) \<longrightarrow>
     (\<exists>body ip s. marshal env (PrintTicketReq_json \<lparr>pt_BookingNo = bookingNo, pt_Tickets = [\<lparr>ptt_TicketNo = ticketNo\<rparr>]\<rparr>) = Inr body
       \<and> Exchanged (request_of (NewApi k) ''POST'' ''/v1/booking/PrintTicketPdf'' body (appHost @ user_header userData) ip)
           (Response s (Inr pdf)) \<in> set tr \<and> s \<le> 399))"
  unfolding ktmb_PrintTicket_def
  by (rule effect_conseq[OF effect_BinarySendWith]) (blast dest: print_call)

text \<open>The command writes a file only at the path it is given, with the bytes KTMB answered, under a status below 400, to the
  one request to print the ticket of the given numbers.\<close>

theorem PrintTicket_writes_the_ticket: "effect (PrintTicket env args fuel) (\<lambda>r tr. printed env args tr)"
proof -
  have "effect (Session.Login (pr_session env) (pr_LoginKey env) (pr_Email env) (pr_Password env) fuel) (\<lambda>_ _. True)"
    by (rule effect_conseq[OF Login_under_lock]) simp
  note login = effect_lifted[OF this, of Session_Call]
  note print = effect_ktmb_PrintTicket[of "pr_transport env" "pr_ktmb env"]
  have silent: "printed env args (map Session_Call calls)" "printed env args (map Session_Call calls @ map Ktmb_Call calls')" for calls calls'
    by (auto simp: printed_def)
  show ?thesis
    unfolding PrintTicket_def Let_def
  proof (rule effect_if, simp add: printed_def, rule effect_bind, rule effect_conseq[OF login], elim exE conjE, rule effect_case_option, goal_cases)
    case (2 u tr calls s)
    show ?case
    proof (rule effect_case_sum, goal_cases)
      case (2 userData)
      show ?case
      proof (rule effect_bind, rule effect_conseq[OF effect_lifted[OF print]], elim exE conjE, rule effect_case_option, goal_cases)
        case (2 p tr' calls' b)
        show ?case
        proof (rule effect_case_sum, goal_cases)
          case (2 pdf)
          have "p = Some (Inr pdf)" using 2 \<open>p = Some b\<close> by simp
          then obtain body ip s where x: "marshal (pr_transport env) (PrintTicketReq_json \<lparr>pt_BookingNo = arg args 0, pt_Tickets = [\<lparr>ptt_TicketNo = arg args 1\<rparr>]\<rparr>) = Inr body"
            "Exchanged (request_of (NewApi (pr_ktmb env)) ''POST'' ''/v1/booking/PrintTicketPdf'' body (appHost @ user_header userData) ip)
              (Response s (Inr pdf)) \<in> set calls'" "s \<le> 399"
            using \<open>\<forall>pdf. p = Some (Inr pdf) \<longrightarrow> _ pdf\<close> by blast
          show ?case
          proof (rule effect_bind, rule effect_invoke, rule effect_return)
            fix w
            show "printed env args (tr @ tr' @ [Wrote_File (arg args 2) pdf w] @ [])"
              unfolding printed_def using x \<open>\<not> (arg args 0 = [] \<or> arg args 1 = [] \<or> arg args 2 = [])\<close> \<open>tr = _\<close> \<open>tr' = _\<close> by fastforce
          qed
        qed (use 2 \<open>tr = _\<close> silent in simp)
      qed (use \<open>tr = _\<close> silent in simp)
    qed (use 2 silent in simp)
  qed (use silent in simp)
qed

section \<open>A refused completion by hand looks like a success\<close>

theorem manual_buy_hides_refusal:
  assumes "mb_uuid env (arg args 3) = Inr u" "fst (mb_read env (arg args 0) x) = Inr pdf" "mb_form env pdf = Inr form"
    and "fst (mb_complete env u (arg args 1) (arg args 2) form (snd (mb_read env (arg args 0) x))) = Inr \<lparr>StatusCode = code, Body = Decoded s\<rparr>"
  shows "outcome (manual_buy env args) x = Inr ()"
  using assms by (simp add: manual_buy_def Let_def outcome_def fresh_world_def split: prod.split)

section \<open>The Jobs the spawner creates run\<close>

text \<open>The flag package reads each flag of the command as its value is written, in 64 bits.\<close>

definition int64_range :: "int \<Rightarrow> bool" where
  "int64_range n \<longleftrightarrow> - (2 ^ 63) \<le> n \<and> n < 2 ^ 63"

definition reads_flags :: "(string list \<Rightarrow> prober_flags result) \<Rightarrow> bool" where
  "reads_flags flags \<longleftrightarrow> (\<forall>d n e j. int64_range n \<longrightarrow> int64_range e \<longrightarrow>
     flags [''--data'', d, ''--interval'', format_int n, ''--epoch'', format_int e, ''--job'', j]
       = Inr \<lparr>pf_data = d, pf_interval = n, pf_epoch = e, pf_job = j\<rparr>)"

text \<open>A snapshot whose keys are all written out.\<close>

definition named_count :: "count \<Rightarrow> bool" where
  "named_count c \<longleftrightarrow> list_all (\<lambda>(dir, ds). dir \<noteq> [] \<and> list_all (\<lambda>(day, ts). day \<noteq> [] \<and> list_all (\<lambda>(t, n). t \<noteq> []) ts) ds) c"

lemma named_targets:
  assumes "named_count c" "t \<in> set (targets_of c)"
  shows "Direction t \<noteq> [] \<and> Date t \<noteq> [] \<and> Time t \<noteq> [] \<and> 0 < Needed t"
  using assms unfolding targets_of_member named_count_def list_all_iff by fastforce

lemma ParseTargets_accepts:
  assumes "unmarshal data = Inr ts" "named_count c" "set ts \<subseteq> set (targets_of c)"
  shows "ParseTargets unmarshal data = Inr ts"
  using assms named_targets by (fastforce simp: ParseTargets_def)

lemma filter_unique: "distinct (map f xs) \<Longrightarrow> x \<in> set xs \<Longrightarrow> filter (\<lambda>y. f y = f x) xs = [x]"
proof (induction xs)
  case (Cons y ys)
  then show ?case by (auto simp: filter_empty_conv image_iff)
qed simp

text \<open>The one Job of a fleet with the name of a shard and fanout.\<close>

lemma fleet_job_found:
  assumes "0 \<le> epoch" "i < length (ShardTargets ts (SlotsPerJob cfg))" "f < nat (Fanout cfg)"
    and "marshal_targets env (ShardTargets ts (SlotsPerJob cfg) ! i) = Inr d"
  shows "filter (\<lambda>job. job_Name job = JobName epoch (int i) (int f)) (fleet_jobs env c cfg epoch ts) = [job_of c epoch (int i) (int f) d]"
proof -
  have "(int i, int f, ShardTargets ts (SlotsPerJob cfg) ! i) \<in> set (fleet cfg ts)"
    using assms(2,3) by (simp add: fleet_member)
  then have "job_of c epoch (int i) (int f) d \<in> set (fleet_jobs env c cfg epoch ts)"
    unfolding fleet_jobs_def set_map by (rule rev_image_eqI) (simp add: assms(4))
  from filter_unique[OF _ this, of job_Name] show ?thesis
    using distinct_fleet_names[OF assms(1)] by (simp add: job_Name_fleet_jobs job_of_def)
qed

text \<open>C35: For every shard and fanout of an epoch a fleet has exactly one Job with their name, and the command it runs
  accepts it: it probes exactly the targets of that shard, under the epoch and the very name the spawner
  recorded as expected, until its minutes are over. Its context lasts two minutes longer, and a command that starts at
  most five seconds after its Job has its context end no later than kubernetes would kill it. The keys of the demand
  are not empty, since the command refuses targets with an empty field, the minutes are positive and the epoch not negative.\<close>

theorem spawned_job_runs:
  assumes "reads_flags flags" "named_count counts" "0 < jobMinutes c" "int64_range (jobMinutes c * 60)" "0 \<le> epoch" "int64_range epoch"
    and "\<forall>shard \<in> set (ShardTargets (TargetsFromCount counts) (SlotsPerJob cfg)). \<exists>d. marshal_targets env shard = Inr d \<and> unmarshal d = Inr shard"
    and "i < length (ShardTargets (TargetsFromCount counts) (SlotsPerJob cfg))" "f < nat (Fanout cfg)"
  shows "\<exists>job. filter (\<lambda>job. job_Name job = JobName epoch (int i) (int f)) (fleet_jobs env c cfg epoch (TargetsFromCount counts)) = [job]
    \<and> Prober flags unmarshal clock new_runner rcfg (job_Args job) fuel = do {
        now \<leftarrow> invoke clock run_event.Now;
        Run (new_runner ((jobMinutes c * 60 + 120) * second)) rcfg (ShardTargets (TargetsFromCount counts) (SlotsPerJob cfg) ! i)
          epoch (JobName epoch (int i) (int f)) (now + jobMinutes c * 60 * second) fuel
      }
    \<and> (\<forall>created now. now \<le> created + 5 * second \<longrightarrow>
        now + (jobMinutes c * 60 + 120) * second \<le> created + job_ActiveDeadlineSeconds job * second)"
proof -
  let ?ts = "TargetsFromCount counts"
  let ?shard = "ShardTargets ?ts (SlotsPerJob cfg) ! i"
  have shard: "?shard \<in> set (ShardTargets ?ts (SlotsPerJob cfg))" using assms(8) by simp
  then obtain d where d: "marshal_targets env ?shard = Inr d" "unmarshal d = Inr ?shard" using assms(7) by blast
  let ?job = "job_of c epoch (int i) (int f) d"
  have "set ?shard \<subseteq> set (targets_of counts)"
    using prober_shards.shard_member[of _ ?ts "SlotsPerJob cfg"] shard by auto
  with d(2) assms(2) have p: "ParseTargets unmarshal d = Inr ?shard" by (rule ParseTargets_accepts)
  have "flags (job_Args ?job) = Inr \<lparr>pf_data = d, pf_interval = jobMinutes c * 60, pf_epoch = epoch, pf_job = JobName epoch (int i) (int f)\<rparr>"
    using assms(1,4,6) by (simp add: job_of_def reads_flags_def)
  then have "Prober flags unmarshal clock new_runner rcfg (job_Args ?job) fuel = do {
        now \<leftarrow> invoke clock run_event.Now;
        Run (new_runner ((jobMinutes c * 60 + 120) * second)) rcfg ?shard epoch (JobName epoch (int i) (int f)) (now + jobMinutes c * 60 * second) fuel
      }" using p assms(3) by (simp add: Prober_def)
  moreover have "\<forall>created now. now \<le> created + 5 * second \<longrightarrow>
        now + (jobMinutes c * 60 + 120) * second \<le> created + job_ActiveDeadlineSeconds ?job * second"
    by (simp add: job_of_def algebra_simps)
  ultimately show ?thesis using fleet_job_found[OF assms(5,8,9) d(1), of c] by blast
qed

definition parse_int :: "string \<Rightarrow> int" where
  "parse_int s = (case s of [] \<Rightarrow> 0 | c # r \<Rightarrow> if c = CHR ''-'' then - int (digits_value r) else int (digits_value s))"

definition ex_flags :: "string list \<Rightarrow> prober_flags result" where
  "ex_flags args = (if length args = 8
     then Inr \<lparr>pf_data = args ! 1, pf_interval = parse_int (args ! 3), pf_epoch = parse_int (args ! 5), pf_job = args ! 7\<rparr>
     else Inl (Msg ''Required flags not set''))"

lemma parse_format_int: "parse_int (format_int n) = n"
proof (cases "n < 0")
  case False
  obtain ch r where i: "itoa (nat n) = ch # r" by (metis itoa.simps list.exhaust append_is_Nil_conv list.discI)
  then have "ch \<noteq> CHR ''-''" using itoa_digits[of ch "nat n"] by auto
  then show ?thesis using False i digits_value_itoa[of "nat n"] by (simp add: parse_int_def format_int_def)
qed (simp add: parse_int_def format_int_def)

lemma ex_reads_flags: "reads_flags ex_flags"
  by (simp add: reads_flags_def ex_flags_def parse_format_int)

text \<open>Two shards of one target each, every one probed twice; an encoding that tells them apart.\<close>

definition ex_encoding :: "unit spawner_env" where
  "ex_encoding = ex_spawner\<lparr>marshal_targets := (\<lambda>ts. Inr (if ts = [TargetsFromCount ex_count ! 0] then ''a'' else ''b''))\<rparr>"

definition ex_decoding :: "string \<Rightarrow> Target list result" where
  "ex_decoding d = Inr [TargetsFromCount ex_count ! (if d = ''a'' then 0 else 1)]"

lemma ex_shards:
  "ShardTargets (TargetsFromCount ex_count) (SlotsPerJob ex_config) = [[TargetsFromCount ex_count ! 0], [TargetsFromCount ex_count ! 1]]"
proof -
  have "length (TargetsFromCount ex_count) = 2"
    by (simp add: TargetsFromCount_def targets_of_def targets_of_times_def ex_count_def)
  then obtain a b where "TargetsFromCount ex_count = [a, b]" by (auto simp: numeral_2_eq_2 length_Suc_conv)
  then show ?thesis by (simp add: ShardTargets_def ex_config_def slices.simps)
qed

theorem spawned_job_runs_witness:
  "\<forall>(clock :: unit \<Rightarrow> instant \<times> unit) new_runner rcfg fuel. \<exists>job.
     filter (\<lambda>job. job_Name job = JobName 7 1 1) (fleet_jobs ex_encoding ex_creator ex_config 7 (TargetsFromCount ex_count)) = [job]
   \<and> Prober ex_flags ex_decoding clock new_runner rcfg (job_Args job) fuel = do {
       now \<leftarrow> invoke clock run_event.Now;
       Run (new_runner ((jobMinutes ex_creator * 60 + 120) * second)) rcfg [TargetsFromCount ex_count ! 1] 7
         (JobName 7 1 1) (now + jobMinutes ex_creator * 60 * second) fuel
     }"
proof -
  have "named_count ex_count" "0 < jobMinutes ex_creator" "int64_range (jobMinutes ex_creator * 60)" "0 \<le> (7 :: int)" "int64_range 7"
    by (simp_all add: named_count_def ex_count_def ex_creator_def int64_range_def)
  note runs = spawned_job_runs[OF ex_reads_flags this, of ex_config ex_encoding ex_decoding 1 1]
  show ?thesis
  proof (intro allI, goal_cases)
    case (1 clock new_runner rcfg fuel)
    have "\<forall>shard \<in> set (ShardTargets (TargetsFromCount ex_count) (SlotsPerJob ex_config)).
        \<exists>d. marshal_targets ex_encoding shard = Inr d \<and> ex_decoding d = Inr shard"
      by (simp add: ex_shards ex_encoding_def ex_decoding_def)
    moreover have "1 < length (ShardTargets (TargetsFromCount ex_count) (SlotsPerJob ex_config))" by (simp only: ex_shards) simp
    moreover have "1 < nat (Fanout ex_config)" by (simp add: ex_config_def)
    ultimately show ?case using runs[of clock new_runner rcfg fuel] by (fastforce simp: ex_shards)
  qed
qed

end
