(* ===== verification/Spec2Isabelle.thy ===== *)
theory Spec2Isabelle
  imports Recoverer_Queue Prober_Fleet Encryptor Session_Lock Prober_Runner Buyer_Client Withdrawer Ktmb_Cost
    Reserve_Chain Poller Triggers Cdc Pool Warm_Pool Zinc_Client Recover_Cmd
    Recoverer_Start Withdrawer_Start Spawner_Start Prober_Redis Telemetry Commands
begin

text \<open>
  Nitroso tin: the workers that watch KTMB, Malaysia's railway, for seats, hold them, buy them for the bookings
  of the service zinc, and repair what went wrong. Every worker is a command of one Go program (cmds/ under
  src/); the workers share redis and a login session on one funded KTMB account.

  \<^bold>\<open>How the parts interact.\<close> On a signal of zinc the CDC (lib/cdc) writes the demand of all bookings to redis, one
  number for each direction, date and time, and tells the others. The poller (lib/poller) starts pods that
  watch the demanded dates and publish seat counts; the enricher (lib/enricher) keeps the trip data of every
  demanded slot; the reserver (lib/reserver) compares the published counts with the last ones and sends
  concurrent replicas after each new seat. A prober fleet (lib/prober) instead probes demanded slots for
  minutes at a time, in Jobs a spawner creates for each epoch. A hold either of them wins is queued for the
  buyer (lib/buyer), which asks zinc for a booking, pays, and reports the ticket; what it cannot finish it
  parks for the recoverer (lib/recoverer), which looks the ticket up on the account and completes, recycles or
  refunds the booking. The terminator (lib/terminator) refunds tickets of cancelled bookings, the withdrawer
  (lib/withdrawer) sweeps withdrawals, and the backfill (lib/ktmbcost) supplies amounts zinc misses.

  \<^bold>\<open>How a worker is modelled.\<close> A call of the code is a procedure over an abstract external state \<open>'x\<close>, which only
  its calls to outside services read and change, and it logs these calls with their answers
  (\<open>Tin_Prelude\<close>: \<open>proc\<close>, \<open>invoke\<close>, \<open>do\<close>). An environment record holds those services as functions: any
  answer, errors included, can come at any time, and no theorem restricts them but by the hypotheses it states.
  A Go error is a value of \<open>error\<close>, \<open>'a result\<close> is \<open>error + 'a\<close>, and a panic is an outer \<open>None\<close>. \<open>effect p R\<close>
  says that every run of \<open>p\<close> relates its result to its log by \<open>R\<close>; its rules are the collection
  \<open>effect_intros\<close>. Go maps are partial functions where their order is invisible and lists of entries in
  some iteration order where it is not. Go's strings are byte strings, its int32 arithmetic wraps
  (\<open>Recoverer_Queue.int32\<close>), and amounts that are only passed on keep their bit pattern.

  \<^bold>\<open>Theories, in the order of the imports, with what their lemmas show.\<close>
  \<^item> \<open>Tin_Prelude\<close>: errors, strings, strconv, procedures and their logic. \<open>Go_Time\<close>: civil dates and layouts
    of Go's time package, with the round trip of dates. \<open>Retry\<close>: retryBackoff and the supervised service loop;
    the locale \<open>retried\<close> is interpreted on the buyer's three retried operations. \<open>Slot_Store\<close>: the trip
    store and its locale. \<open>Sharding\<close>: the locale of the two sharding functions. \<open>Worker\<close>: a loop fed by cron jobs
    and channels, whose jobs make their calls one at a time between the ticks, with the locales \<open>job_channels\<close> and \<open>lossless_channels\<close> of what its channels owe it.
  \<^item> \<open>Ktmb_Types\<close>, \<open>Ktmb_Req\<close>, \<open>Ktmb_Api\<close>: lib/ktmb res.go, req.go, http.go, ktmb.go; every call is authorised and
    its answer is checked. \<open>Warm_Pool\<close>: lib/ktmb/warmpool.go; dialling asks only cached, then resolved addresses.
  \<^item> \<open>Encryptor\<close>: lib/encryptor, round trip and the one panic. \<open>Otel_Redis\<close>: lib/otelredis, order of the queues.
    \<open>Zinc_Client\<close>: lib/auth and the hand-written part of lib/zinc. \<open>Pool\<close>: lib/pool.
  \<^item> \<open>Session\<close>, \<open>Session_Lock\<close>: lib/session as code and as an automaton of which the code's runs are paths. The
    lock lasts the 90 seconds it is taken for: no two clients whose lease runs hold it at once, and none of them logs in or
    stores a token over one that is there, unless a client that outlived its lease has stored it.
  \<^item> \<open>Cdc\<close>, \<open>Count\<close>: the snapshot, written and read; it is well formed, and the window filters keep exactly the
    departures inside their windows.
  \<^item> \<open>Poller\<close>, \<open>Triggers\<close>, \<open>Enricher\<close>: which dates are watched and at what power, what wakes the two services,
    and that a pass of the enricher writes sound stores only.
  \<^item> \<open>Differ\<close>, \<open>Replicas\<close>, \<open>Reserve_Dto\<close>, \<open>Reserver\<close>, \<open>Syncers\<close>, \<open>Reserve_Chain\<close>: lib/reserver. The two
    goroutines of the differ and the replicas of an attempt are step relations with their invariants; a rise of
    the demand is followed from the differ to the replicas it starts.
  \<^item> \<open>Prober_Store\<close>, \<open>Prober_Fleet\<close>, \<open>Prober_Runner\<close>, \<open>Prober_Redis\<close>, \<open>Spawner_Start\<close>: lib/prober. The fleet
    partitions the targets, a spawn is all or nothing, no epoch is spawned twice, a Job accounts for every hold it
    wins, and its tally reaches the report of its epoch.
  \<^item> \<open>Purchase\<close>, \<open>Buyer_Client\<close>: lib/buyer. A confirmed ticket is never lost, and a reservation is given back
    only for the reasons the code names.
  \<^item> \<open>Ktmb_Scan\<close>, \<open>Recoverer\<close>, \<open>Recoverer_Queue\<close>, \<open>Recoverer_Start\<close>, \<open>Recover_Cmd\<close>: lib/recoverer and
    cmds/recoverer.go. The search of the account is correct on ascending lists, a refund or a completion is always
    justified, each parked item is settled once or kept, and the service performs its ticks one after the other,
    in order, with all their parts and a sweep among the first two, though it can lose a sweep.
  \<^item> \<open>Terminator\<close>, \<open>Withdrawer\<close>, \<open>Withdrawer_Start\<close>, \<open>Ktmb_Cost\<close>: at most one refund for a termination, at most one
    post for a withdrawal in a sweep, a tick of the withdrawer waiting until a round after it begins, and only amounts
    KTMB returned for the booking and ticket they are posted for; the backfill reads a refund policy exactly as the terminator does.

  \<^item> \<open>Telemetry\<close>: system/telemetry, with its options and its one logger; a setup that fails leaves no provider behind,
    and a setting of the logger that is not known leaves the program without one. \<open>Commands\<close>: main.go, cmds and the
    loader of system/config: the loginer empties no pool for want of a configuration, the one file of a printed
    ticket is KTMB's, and every Job the spawner creates is accepted by the command it runs and probes its own shard.

  \<^bold>\<open>Fuel.\<close> Loops the code bounds itself recurse on that bound: bisection on the number of pages, retries on their
  number, list pages on their limit. Fuel is used where a loop waits on an outside service or trusts its answer,
  one unit for a round: supervised services, stream loops, popChecks and the rounds of the spawner, the wait for
  the login lock, the probing of a slot, the pages of \<open>listRecovering\<close>, of a terminated ticket and of the backfill. Running out is a result of
  its own, \<open>None\<close>, and no claim is made of it. \<open>listRecovering_complete\<close> and \<open>probeSlot_ends\<close> show what fuel
  is enough: one page more than the full ones, and one poll more than fit into the time left.

  \<^bold>\<open>Goroutines.\<close> Where they interact (the differ, the replicas, the clients of the login lock, the cron jobs and
  loops of the recoverer and the withdrawer) they are step relations over all interleavings. Where they write disjoint slots (the passes of the enricher, the slots of
  a probing Job) they run one after the other in the model; \<open>lookup_updates_perm\<close> of \<open>Slot_Store\<close> shows that the
  order of such writes is immaterial. The messages of a redis channel are taken in the order they arrive.

  \<^bold>\<open>Not modelled.\<close> The client of zinc in lib/zinc/main.go is generated from zinc's API description: its calls
  are parameters. What the commands do beside constructing their clients from the configuration is in \<open>Commands\<close> and
  \<open>Recover_Cmd\<close>; the construction itself holds no decision. Viper, the flag package and the OpenTelemetry SDK are
  parameters. The log lines, spans and metrics of the components are left out throughout, as are the cron library, the multipart form of \<open>CreateForm\<close>, the HEAD
  requests of the connection warmer, and the construction of net/http and Kubernetes clients. Four details are
  simplified where they stand: the counter of attempts of a parked booking is an unbounded int, the panic of Kubernetes'
  quantity parser on a malformed cpu or memory of a Job is left out, as is that of writing into a trip store read from a
  JSON null, and the walks over a decoded ticket in the backfill visit a JSON object in one order.
\<close>

end
